(* ===== verification/TC_Prelude.thy ===== *)
theory TC_Prelude
  imports Main "HOL-Library.Word"
begin

text \<open>
  Shared types, byte-string operations and lemmas of the development: machine words by the
  names the sources use, the little- and big-endian reading of byte strings, the byte-wise
  exclusive or, and the collections of facts the component theories share.
\<close>

unbundle bit_operations_syntax

type_synonym u8 = "8 word"
type_synonym u16 = "16 word"
type_synonym u32 = "32 word"
type_synonym u64 = "64 word"
type_synonym bytes = "8 word list"
type_synonym quad = "u32 \<times> u32 \<times> u32 \<times> u32"

named_theorems tc_len "length facts of the byte-string operations"
named_theorems tc_cfg "facts that evaluate the configuration tables"

section \<open>Byte strings and words\<close>

text \<open>The word that a little-endian load reads, and the bytes that a little-endian store writes.\<close>

primrec le_to_word :: "bytes \<Rightarrow> 'a::len word" where
  "le_to_word [] = 0"
| "le_to_word (b # bs) = ucast b OR push_bit 8 (le_to_word bs)"

definition word_to_le :: "nat \<Rightarrow> 'a::len word \<Rightarrow> bytes" where
  "word_to_le n w = map (\<lambda>i. ucast (drop_bit (8 * i) w)) [0..<n]"

definition be_to_word :: "bytes \<Rightarrow> 'a::len word" where
  "be_to_word bs = le_to_word (rev bs)"

definition word_to_be :: "nat \<Rightarrow> 'a::len word \<Rightarrow> bytes" where
  "word_to_be n w = rev (word_to_le n w)"

lemma length_word_to_le [simp, tc_len]: "length (word_to_le n w) = n"
  by (simp add: word_to_le_def)

lemma length_word_to_be [simp, tc_len]: "length (word_to_be n w) = n"
  by (simp add: word_to_be_def)

lemma nth_word_to_le: "i < n \<Longrightarrow> word_to_le n w ! i = ucast (drop_bit (8 * i) w)"
  by (simp add: word_to_le_def)

lemma bit_le_to_word:
  "bit (le_to_word bs :: 'a::len word) k \<longleftrightarrow>
     k < LENGTH('a) \<and> k div 8 < length bs \<and> bit (bs ! (k div 8)) (k mod 8)"
proof (induction bs arbitrary: k)
  case Nil
  then show ?case by simp
next
  case (Cons b bs)
  show ?case
  proof (cases "k < 8")
    case True
    then show ?thesis
      by (auto simp: bit_or_iff bit_push_bit_iff bit_ucast_iff dest: bit_imp_le_length)
  next
    case False
    then have split: "k div 8 = Suc ((k - 8) div 8)" "k mod 8 = (k - 8) mod 8"
      by (simp_all add: le_div_geq le_mod_geq)
    have "\<not> bit b k"
      using False by (auto dest: bit_imp_le_length)
    then show ?thesis
      using False Cons.IH[of "k - 8"] split
      by (auto simp: bit_or_iff bit_push_bit_iff bit_ucast_iff)
  qed
qed

lemma le_to_word_to_le [simp]:
  assumes "LENGTH('a) \<le> 8 * n"
  shows "le_to_word (word_to_le n w) = (w :: 'a::len word)"
proof (rule bit_word_eqI)
  fix k assume k: "k < LENGTH('a)"
  with assms have "k div 8 < n" by linarith
  with k show "bit (le_to_word (word_to_le n w) :: 'a word) k \<longleftrightarrow> bit w k"
    by (simp add: bit_le_to_word nth_word_to_le bit_ucast_iff bit_drop_bit_eq)
qed

lemma word_to_le_le_to_word [simp]:
  assumes "length bs = n" "8 * n \<le> LENGTH('a)"
  shows "word_to_le n (le_to_word bs :: 'a::len word) = bs"
proof (rule nth_equalityI)
  show "length (word_to_le n (le_to_word bs :: 'a word)) = length bs" using assms by simp
next
  fix i assume "i < length (word_to_le n (le_to_word bs :: 'a word))"
  then have i: "i < n" by simp
  show "word_to_le n (le_to_word bs :: 'a word) ! i = bs ! i"
  proof (rule bit_word_eqI)
    fix k assume "k < LENGTH(8)"
    then have "k < 8" by simp
    moreover from this i assms have "8 * i + k < LENGTH('a)" by simp
    ultimately show "bit (word_to_le n (le_to_word bs :: 'a word) ! i) k \<longleftrightarrow> bit (bs ! i) k"
      using i assms by (simp add: nth_word_to_le bit_ucast_iff bit_drop_bit_eq bit_le_to_word)
  qed
qed

lemma be_to_word_to_be [simp]:
  "LENGTH('a) \<le> 8 * n \<Longrightarrow> be_to_word (word_to_be n w) = (w :: 'a::len word)"
  by (simp add: be_to_word_def word_to_be_def)

lemma word_to_be_be_to_word [simp]:
  "length bs = n \<Longrightarrow> 8 * n \<le> LENGTH('a) \<Longrightarrow> word_to_be n (be_to_word bs :: 'a::len word) = bs"
  by (simp add: be_to_word_def word_to_be_def)

lemma le_to_word_append:
  "le_to_word (xs @ ys) = (le_to_word xs OR push_bit (8 * length xs) (le_to_word ys) :: 'a::len word)"
  by (induction xs) (simp_all add: push_bit_or or.assoc add.commute)

lemma word_xor_cancel: "a XOR (a XOR b) = (b :: 'a::len word)"
  by (simp flip: xor.assoc)

lemmas word_xor_simps = xor.assoc xor.left_commute xor.commute word_xor_cancel

lemma unat_u8_less [simp]: "unat (x :: u8) < 256"
  using unsigned_less [of x] by simp

section \<open>Byte-wise exclusive or\<close>

definition xor_bytes :: "bytes \<Rightarrow> bytes \<Rightarrow> bytes" where
  "xor_bytes xs ys = map2 (XOR) xs ys"

lemma length_xor_bytes [simp, tc_len]: "length (xor_bytes xs ys) = min (length xs) (length ys)"
  by (simp add: xor_bytes_def)

lemma nth_xor_bytes:
  "i < length xs \<Longrightarrow> i < length ys \<Longrightarrow> xor_bytes xs ys ! i = xs ! i XOR ys ! i"
  by (simp add: xor_bytes_def)

lemma xor_bytes_Nil [simp]: "xor_bytes [] ys = []" "xor_bytes xs [] = []"
  by (simp_all add: xor_bytes_def)

lemma xor_bytes_Cons [simp]: "xor_bytes (x # xs) (y # ys) = (x XOR y) # xor_bytes xs ys"
  by (simp add: xor_bytes_def)

lemma xor_bytes_commute: "xor_bytes xs ys = xor_bytes ys xs"
  by (rule nth_equalityI) (auto simp: nth_xor_bytes xor.commute)

lemma xor_bytes_cancel [simp]:
  "length xs \<le> length ys \<Longrightarrow> xor_bytes (xor_bytes xs ys) ys = xs"
  by (rule nth_equalityI) (auto simp: nth_xor_bytes xor.assoc)

lemma xor_bytes_self: "xor_bytes xs xs = replicate (length xs) 0"
  by (rule nth_equalityI) (auto simp: nth_xor_bytes)

lemma xor_bytes_zero [simp]:
  "length xs \<le> n \<Longrightarrow> xor_bytes xs (replicate n 0) = xs"
  by (rule nth_equalityI) (auto simp: nth_xor_bytes)

lemma xor_bytes_append:
  "length a = length b \<Longrightarrow> xor_bytes (a @ c) (b @ d) = xor_bytes a b @ xor_bytes c d"
  by (simp add: xor_bytes_def)

lemma le_to_word_xor_bytes:
  assumes "length xs = length ys"
  shows "le_to_word (xor_bytes xs ys) = (le_to_word xs XOR le_to_word ys :: 'a::len word)"
  using assms by (intro bit_eqI) (auto simp: bit_le_to_word bit_xor_iff nth_xor_bytes)

section \<open>Tables of a linear function\<close>

text \<open>
  A function that respects exclusive or is fixed by its values at the powers of two:
  \<open>xor_span\<close> of those values, the highest power first, is its whole table.
\<close>

primrec xor_span :: "'a::len word list \<Rightarrow> 'a word list" where
  "xor_span [] = [0]"
| "xor_span (b # bs) = (let s = xor_span bs in s @ map (\<lambda>x. b XOR x) s)"

lemma of_nat_power_add_xor:
  assumes "j < 2 ^ n" "n < LENGTH('a)"
  shows "(word_of_nat (2 ^ n + j) :: 'a::len word) = 2 ^ n XOR word_of_nat j"
proof -
  have "\<not> bit (word_of_nat j :: 'a word) n"
    using assms by (simp add: bit_of_nat_iff) (simp add: bit_iff_odd)
  then have "2 ^ n AND (word_of_nat j :: 'a word) = 0"
    by (intro bit_word_eqI) (auto simp: bit_simps)
  then show ?thesis by (simp add: disjunctive_add_eq_xor)
qed

lemma xor_span_linear:
  fixes f :: "'a::len word \<Rightarrow> 'b::len word"
  assumes lin: "\<And>x y. f (x XOR y) = f x XOR f y" and n: "n \<le> LENGTH('a)"
  shows "map (\<lambda>i. f (word_of_nat i)) [0..<2 ^ n] = xor_span (map (\<lambda>k. f (2 ^ k)) (rev [0..<n]))"
  using n
proof (induction n)
  case 0
  have "f 0 = 0" using lin[of 0 0] by simp
  then show ?case by simp
next
  case (Suc n)
  have "[0..<2 ^ Suc n] = [0..<2 ^ n] @ map (\<lambda>j. 2 ^ n + j) [0..<2 ^ n]"
    using upt_add_eq_append [of 0 "2 ^ n" "2 ^ n"] map_add_upt [of "2 ^ n" "2 ^ n"]
    by (simp add: mult_2 add.commute)
  moreover have "map (\<lambda>j. f (word_of_nat (2 ^ n + j))) [0..<2 ^ n] =
      map (\<lambda>j. f (2 ^ n) XOR f (word_of_nat j)) [0..<2 ^ n]"
    using Suc.prems by (auto simp: of_nat_power_add_xor lin simp del: of_nat_add)
  moreover have "xor_span (map (\<lambda>k. f (2 ^ k)) (rev [0..<n])) = map (\<lambda>i. f (word_of_nat i)) [0..<2 ^ n]"
    using Suc by simp
  ultimately show ?case
    by (simp add: Let_def comp_def del: of_nat_add)
qed

section \<open>Writing a byte string into a buffer\<close>

text \<open>\<open>memcpy (buf + off, src, n)\<close> with \<open>n\<close> the length of \<open>src\<close>, inside the buffer.\<close>

definition put_at :: "nat \<Rightarrow> 'a list \<Rightarrow> 'a list \<Rightarrow> 'a list" where
  "put_at off src buf = take off buf @ src @ drop (off + length src) buf"

definition get_at :: "nat \<Rightarrow> nat \<Rightarrow> 'a list \<Rightarrow> 'a list" where
  "get_at off n buf = take n (drop off buf)"

lemma length_put_at [simp, tc_len]:
  "off + length src \<le> length buf \<Longrightarrow> length (put_at off src buf) = length buf"
  by (simp add: put_at_def)

lemma length_get_at [simp, tc_len]: "off + n \<le> length buf \<Longrightarrow> length (get_at off n buf) = n"
  by (simp add: get_at_def)

lemma nth_get_at: "i < n \<Longrightarrow> off + i < length buf \<Longrightarrow> get_at off n buf ! i = buf ! (off + i)"
  by (simp add: get_at_def)

lemma nth_put_at:
  assumes "off + length src \<le> length buf" "i < length buf"
  shows "put_at off src buf ! i = (if off \<le> i \<and> i < off + length src then src ! (i - off) else buf ! i)"
  using assms by (auto simp: put_at_def nth_append min_def)

lemma get_put_same:
  "off + length src \<le> length buf \<Longrightarrow> n = length src \<Longrightarrow> get_at off n (put_at off src buf) = src"
  by (simp add: get_at_def put_at_def)

lemma get_put_other:
  assumes "off + length src \<le> length buf" "off' + n \<le> length buf"
    "off' + n \<le> off \<or> off + length src \<le> off'"
  shows "get_at off' n (put_at off src buf) = get_at off' n buf"
  using assms by (intro nth_equalityI) (auto simp: nth_get_at nth_put_at)

lemma get_at_take: "off + n \<le> m \<Longrightarrow> get_at off n (take m b) = get_at off n b"
  by (simp add: get_at_def take_drop min_def)

section \<open>Blocks of four 32-bit words\<close>

text \<open>
  A 16-byte block read as an array of four words through \<open>LE32\<close>, and written back: the way
  Serpent and Twofish load and store their blocks.
\<close>

definition quad_of_bytes :: "bytes \<Rightarrow> quad" where
  "quad_of_bytes b =
     (le_to_word (get_at 0 4 b), le_to_word (get_at 4 4 b),
      le_to_word (get_at 8 4 b), le_to_word (get_at 12 4 b))"

definition bytes_of_quad :: "quad \<Rightarrow> bytes" where
  "bytes_of_quad = (\<lambda>(a, b, c, d). word_to_le 4 a @ word_to_le 4 b @ word_to_le 4 c @ word_to_le 4 d)"

lemma get_at_chunks4:
  "length b = 16 \<Longrightarrow> get_at 0 4 b @ get_at 4 4 b @ get_at 8 4 b @ get_at 12 4 b = b"
  by (rule nth_equalityI) (auto simp: nth_append get_at_def)

lemma quad_of_bytes_of_quad [simp]: "quad_of_bytes (bytes_of_quad q) = q"
  by (cases q) (simp add: quad_of_bytes_def bytes_of_quad_def get_at_def)

lemma length_bytes_of_quad [simp, tc_len]: "length (bytes_of_quad q) = 16"
  by (cases q) (simp add: bytes_of_quad_def)

lemma bytes_of_quad_of_bytes [simp]: "length b = 16 \<Longrightarrow> bytes_of_quad (quad_of_bytes b) = b"
  by (simp add: quad_of_bytes_def bytes_of_quad_def get_at_chunks4)

lemma length_fold_update_idx: "length (fold (\<lambda>i k. k[h i := f i]) xs k) = length k"
  by (induction xs arbitrary: k) simp_all

lemma length_fold_update [simp]: "length (fold (\<lambda>i k. k[i := f i]) xs k) = length k"
  by (induction xs arbitrary: k) simp_all

section \<open>Arrays of 32-bit words in memory\<close>

text \<open>
  The key schedules are structures of 32-bit words that the code places in a byte buffer:
  \<open>words_at off n b\<close> is the array of \<open>n\<close> words at offset \<open>off\<close> of the buffer \<open>b\<close>.
\<close>

definition words_at :: "nat \<Rightarrow> nat \<Rightarrow> bytes \<Rightarrow> u32 list" where
  "words_at off n b = map (\<lambda>i. le_to_word (get_at (off + 4 * i) 4 b)) [0..<n]"

definition bytes_of_words :: "u32 list \<Rightarrow> bytes" where
  "bytes_of_words ws = concat (map (word_to_le 4) ws)"

definition get_byte :: "u32 \<Rightarrow> nat \<Rightarrow> nat" where
  "get_byte x y = unat (ucast (drop_bit (8 * y) x) :: u8)"

lemma get_byte_less [simp]: "get_byte x y < 256"
  by (simp add: get_byte_def)

lemma length_words_at [simp, tc_len]: "length (words_at off n b) = n"
  by (simp add: words_at_def)

lemma nth_words_at: "i < n \<Longrightarrow> words_at off n b ! i = le_to_word (get_at (off + 4 * i) 4 b)"
  by (simp add: words_at_def)

lemma length_bytes_of_words [simp, tc_len]: "length (bytes_of_words ws) = 4 * length ws"
  by (induction ws) (simp_all add: bytes_of_words_def)

lemma bytes_of_words_append: "bytes_of_words (xs @ ys) = bytes_of_words xs @ bytes_of_words ys"
  by (simp add: bytes_of_words_def)

lemma get_at_append_left: "off + n \<le> length xs \<Longrightarrow> get_at off n (xs @ ys) = get_at off n xs"
  by (simp add: get_at_def)

lemma get_at_append_right: "get_at (length xs + off) n (xs @ ys) = get_at off n ys"
  by (simp add: get_at_def)

lemma words_at_append_right:
  "words_at (length xs + off) n (xs @ ys) = words_at off n ys"
  by (simp add: words_at_def add.assoc get_at_append_right)

lemma words_at_append_left:
  "off + 4 * n \<le> length xs \<Longrightarrow> words_at off n (xs @ ys) = words_at off n xs"
  by (auto simp: words_at_def get_at_append_left)

lemma words_at_bytes_of_words: "words_at 0 (length ws) (bytes_of_words ws) = ws"
proof (induction ws rule: rev_induct)
  case (snoc w ws)
  have "words_at 0 (length ws) (bytes_of_words (ws @ [w])) = ws"
    using snoc words_at_append_left [of 0 "length ws" "bytes_of_words ws" "bytes_of_words [w]"]
    by (simp add: bytes_of_words_append)
  moreover have "le_to_word (get_at (4 * length ws) 4 (bytes_of_words (ws @ [w]))) = w"
    using get_at_append_right [of "bytes_of_words ws" 0 4 "bytes_of_words [w]"]
    by (simp add: bytes_of_words_append) (simp add: bytes_of_words_def get_at_def)
  ultimately show ?case by (simp add: words_at_def)
qed (simp add: words_at_def)

section \<open>Feistel networks\<close>

text \<open>
  A round replaces the pair of the active half \<open>l\<close> and the other half \<open>r\<close> by
  \<open>(r XOR F k l, l)\<close>. Running the rounds in the reverse order on the exchanged halves undoes them,
  whatever the round function is.
\<close>

fun feistel :: "('k \<Rightarrow> 'a::len word \<Rightarrow> 'a word) \<Rightarrow> 'k list \<Rightarrow> 'a word \<times> 'a word \<Rightarrow> 'a word \<times> 'a word" where
  "feistel F [] (l, r) = (l, r)"
| "feistel F (k # ks) (l, r) = feistel F ks (r XOR F k l, l)"

lemma feistel_append: "feistel F (xs @ ys) p = feistel F ys (feistel F xs p)"
  by (induction F xs p rule: feistel.induct) simp_all

lemma feistel_inverse: "feistel F (rev ks) (prod.swap (feistel F ks p)) = prod.swap p"
  by (induction F ks p rule: feistel.induct) (simp_all add: feistel_append xor.assoc)

end
