(* ===== verification/Endianness.thy ===== *)
theory Endianness
  imports TC_Prelude
begin

text \<open>
  Common/Endian.c and the macros of Common/Endian.h: byte reversal of machine words, the
  in-place reversal of a buffer of 32-bit words, and the big-endian readers and writers the
  volume header code uses. The platform is little-endian, so \<open>LE16\<close>, \<open>LE32\<close>, \<open>LE64\<close> are
  the identity and \<open>BE16\<close>, \<open>BE32\<close>, \<open>BE64\<close> are the byte reversals.
\<close>

section \<open>Byte reversal\<close>

definition MirrorBytes16 :: "u16 \<Rightarrow> u16" where
  "MirrorBytes16 x = push_bit 8 x OR drop_bit 8 x"

definition MirrorBytes32 :: "u32 \<Rightarrow> u32" where
  "MirrorBytes32 x =
     (let n = ucast (ucast x :: u8);
          n = push_bit 8 n OR ucast (ucast (drop_bit 8 x) :: u8);
          n = push_bit 8 n OR ucast (ucast (drop_bit 16 x) :: u8)
      in push_bit 8 n OR ucast (ucast (drop_bit 24 x) :: u8))"

definition MirrorBytes64 :: "u64 \<Rightarrow> u64" where
  "MirrorBytes64 x =
     (let n = ucast (ucast x :: u8);
          n = push_bit 8 n OR ucast (ucast (drop_bit 8 x) :: u8);
          n = push_bit 8 n OR ucast (ucast (drop_bit 16 x) :: u8);
          n = push_bit 8 n OR ucast (ucast (drop_bit 24 x) :: u8);
          n = push_bit 8 n OR ucast (ucast (drop_bit 32 x) :: u8);
          n = push_bit 8 n OR ucast (ucast (drop_bit 40 x) :: u8);
          n = push_bit 8 n OR ucast (ucast (drop_bit 48 x) :: u8)
      in push_bit 8 n OR ucast (ucast (drop_bit 56 x) :: u8))"

text \<open>\<open>LE32\<close> and \<open>LE64\<close> of a little-endian platform.\<close>

definition LE32 :: "u32 \<Rightarrow> u32" where
  "LE32 x = x"

definition LE64 :: "u64 \<Rightarrow> u64" where
  "LE64 x = x"

definition BE16 :: "u16 \<Rightarrow> u16" where
  "BE16 x = MirrorBytes16 x"

definition BE32 :: "u32 \<Rightarrow> u32" where
  "BE32 x = MirrorBytes32 x"

definition BE64 :: "u64 \<Rightarrow> u64" where
  "BE64 x = MirrorBytes64 x"

text \<open>
  \<open>LongReverse\<close> walks over \<open>byteCount / 4\<close> words of the buffer; each is byte-reversed by two
  masked shifts and a half-word swap.
\<close>

definition LongReverse_word :: "u32 \<Rightarrow> u32" where
  "LongReverse_word v =
     (let value = drop_bit 8 (v AND 0xFF00FF00) OR push_bit 8 (v AND 0x00FF00FF)
      in push_bit 16 value OR drop_bit 16 value)"

definition LongReverse :: "u32 list \<Rightarrow> nat \<Rightarrow> u32 list" where
  "LongReverse buffer byteCount =
     (let n = byteCount div 4 in map LongReverse_word (take n buffer) @ drop n buffer)"

section \<open>Big-endian readers and writers\<close>

text \<open>
  \<open>mputInt64 (p, data)\<close> stores the bytes below at \<open>p\<close> and advances it; \<open>mgetInt64 (p)\<close> reads
  the bytes at \<open>p\<close> and advances it. The models give the stored bytes and the read value.
\<close>

definition mputInt64 :: "u64 \<Rightarrow> bytes" where
  "mputInt64 d =
     [ucast (drop_bit 56 d AND 0xFF), ucast (drop_bit 48 d AND 0xFF),
      ucast (drop_bit 40 d AND 0xFF), ucast (drop_bit 32 d AND 0xFF),
      ucast (drop_bit 24 d AND 0xFF), ucast (drop_bit 16 d AND 0xFF),
      ucast (drop_bit 8 d AND 0xFF), ucast (d AND 0xFF)]"

definition mputLong :: "u32 \<Rightarrow> bytes" where
  "mputLong d =
     [ucast (drop_bit 24 d AND 0xFF), ucast (drop_bit 16 d AND 0xFF),
      ucast (drop_bit 8 d AND 0xFF), ucast (d AND 0xFF)]"

definition mputWord :: "u16 \<Rightarrow> bytes" where
  "mputWord d = [ucast (drop_bit 8 d AND 0xFF), ucast (d AND 0xFF)]"

definition mgetInt64 :: "bytes \<Rightarrow> u64" where
  "mgetInt64 p =
     push_bit 56 (ucast (p ! 0)) OR push_bit 48 (ucast (p ! 1)) OR
     push_bit 40 (ucast (p ! 2)) OR push_bit 32 (ucast (p ! 3)) OR
     push_bit 24 (ucast (p ! 4)) OR push_bit 16 (ucast (p ! 5)) OR
     push_bit 8 (ucast (p ! 6)) OR ucast (p ! 7)"

definition mgetLong :: "bytes \<Rightarrow> u32" where
  "mgetLong p =
     push_bit 24 (ucast (p ! 0)) OR push_bit 16 (ucast (p ! 1)) OR
     push_bit 8 (ucast (p ! 2)) OR ucast (p ! 3)"

definition mgetWord :: "bytes \<Rightarrow> u16" where
  "mgetWord p = push_bit 8 (ucast (p ! 0)) OR ucast (p ! 1)"

section \<open>What they compute\<close>

lemma ucast_and_255 [simp]: "(ucast (w AND 0xFF) :: u8) = ucast (w :: 'a::len word)"
proof -
  have "(0xFF :: 'a word) = mask 8"
    by (simp add: mask_eq_exp_minus_1)
  then have "w AND 0xFF = take_bit 8 w"
    by (simp only: take_bit_eq_mask)
  then show ?thesis
    by (simp only:) (auto intro!: bit_word_eqI simp: bit_simps)
qed

lemma mputInt64_be: "mputInt64 d = word_to_be 8 d"
  by (simp add: mputInt64_def word_to_be_def word_to_le_def upt_rec)

lemma mputLong_be: "mputLong d = word_to_be 4 d"
  by (simp add: mputLong_def word_to_be_def word_to_le_def upt_rec)

lemma mputWord_be: "mputWord d = word_to_be 2 d"
  by (simp add: mputWord_def word_to_be_def word_to_le_def upt_rec)

lemma list_8: "length p = 8 \<longleftrightarrow> (\<exists>a b c d e f g h. p = [a, b, c, d, e, f, g, h])"
  by (auto simp: numeral_eq_Suc length_Suc_conv)

lemma list_4: "length p = 4 \<longleftrightarrow> (\<exists>a b c d. p = [a, b, c, d])"
  by (auto simp: numeral_eq_Suc length_Suc_conv)

lemma list_2: "length p = 2 \<longleftrightarrow> (\<exists>a b. p = [a, b])"
  by (auto simp: numeral_eq_Suc length_Suc_conv)

lemma mgetInt64_be: "length p = 8 \<Longrightarrow> mgetInt64 p = be_to_word p"
  by (auto simp: list_8 mgetInt64_def be_to_word_def push_bit_or or.assoc or.left_commute or.commute)

lemma mgetLong_be: "length p = 4 \<Longrightarrow> mgetLong p = be_to_word p"
  by (auto simp: list_4 mgetLong_def be_to_word_def push_bit_or or.assoc or.left_commute or.commute)

lemma mgetWord_be: "length p = 2 \<Longrightarrow> mgetWord p = be_to_word p"
  by (auto simp: list_2 mgetWord_def be_to_word_def push_bit_or or.assoc or.left_commute or.commute)

lemma MirrorBytes16_be: "MirrorBytes16 x = be_to_word (word_to_le 2 x)"
proof (rule bit_word_eqI)
  fix n assume "n < LENGTH(16)"
  then have "n \<in> set [0..<16]" by simp
  then show "bit (MirrorBytes16 x) n \<longleftrightarrow> bit (be_to_word (word_to_le 2 x) :: u16) n"
    by (simp add: upt_rec) (elim disjE; auto simp: MirrorBytes16_def be_to_word_def word_to_le_def upt_rec bit_simps
        dest: bit_imp_le_length)
qed

lemma MirrorBytes32_be: "MirrorBytes32 x = be_to_word (word_to_le 4 x)"
  by (simp add: MirrorBytes32_def be_to_word_def word_to_le_def upt_rec Let_def
      push_bit_or or.assoc or.left_commute or.commute)

lemma MirrorBytes64_be: "MirrorBytes64 x = be_to_word (word_to_le 8 x)"
  by (simp add: MirrorBytes64_def be_to_word_def word_to_le_def upt_rec Let_def
      push_bit_or or.assoc or.left_commute or.commute)

lemma LongReverse_word_mirror: "LongReverse_word v = MirrorBytes32 v"
proof (rule bit_word_eqI)
  fix n assume "n < LENGTH(32)"
  then have "n \<in> set [0..<32]" by simp
  then show "bit (LongReverse_word v) n \<longleftrightarrow> bit (MirrorBytes32 v) n"
    by (simp add: upt_rec)
       (elim disjE; simp add: LongReverse_word_def MirrorBytes32_def Let_def bit_simps bit_numeral_word_iff)
qed

lemmas mirror_be = MirrorBytes16_be MirrorBytes32_be MirrorBytes64_be

lemma word_to_le_be_to_word:
  "length bs = n \<Longrightarrow> 8 * n \<le> LENGTH('a) \<Longrightarrow> word_to_le n (be_to_word bs :: 'a::len word) = rev bs"
  by (simp add: be_to_word_def)

text \<open>Reversing twice is the identity, and a reversed store is a big-endian store.\<close>

lemma MirrorBytes16_involution: "MirrorBytes16 (MirrorBytes16 x) = x"
  by (simp add: mirror_be word_to_le_be_to_word be_to_word_def)

lemma MirrorBytes32_involution: "MirrorBytes32 (MirrorBytes32 x) = x"
  by (simp add: mirror_be word_to_le_be_to_word be_to_word_def)

lemma MirrorBytes64_involution: "MirrorBytes64 (MirrorBytes64 x) = x"
  by (simp add: mirror_be word_to_le_be_to_word be_to_word_def)

lemma store_BE32: "word_to_le 4 (BE32 x) = word_to_be 4 x"
  by (simp add: BE32_def mirror_be word_to_le_be_to_word word_to_be_def)

lemma store_BE64: "word_to_le 8 (BE64 x) = word_to_be 8 x"
  by (simp add: BE64_def mirror_be word_to_le_be_to_word word_to_be_def)

lemma LongReverse_whole:
  "byteCount = 4 * length buffer \<Longrightarrow> LongReverse buffer byteCount = map MirrorBytes32 buffer"
  by (simp add: LongReverse_def LongReverse_word_mirror)

lemma LongReverse_involution:
  "n div 4 \<le> length buffer \<Longrightarrow> LongReverse (LongReverse buffer n) n = buffer"
  by (simp add: LongReverse_def LongReverse_word_mirror MirrorBytes32_involution Let_def comp_def)

text \<open>What is written by a big-endian writer is read back by its reader.\<close>

lemma mget_mput_Int64: "mgetInt64 (mputInt64 d) = d"
  by (simp add: mgetInt64_be mputInt64_be)

lemma mget_mput_Long: "mgetLong (mputLong d) = d"
  by (simp add: mgetLong_be mputLong_be)

lemma mget_mput_Word: "mgetWord (mputWord d) = d"
  by (simp add: mgetWord_be mputWord_be)

end
