(* ===== verification/Crc32.thy ===== *)
theory Crc32
  imports TC_Prelude
begin

text \<open>
  Common/Crc.c: the table-driven CRC-32 of a byte string, its unrolled form for one 32-bit word,
  the bit-wise form compiled into the boot loader, and the proof that they agree.
\<close>

definition crc_32_tab :: "u32 list" where
  "crc_32_tab = [
    0x00000000, 0x77073096, 0xee0e612c, 0x990951ba, 0x076dc419, 0x706af48f,
    0xe963a535, 0x9e6495a3, 0x0edb8832, 0x79dcb8a4, 0xe0d5e91e, 0x97d2d988,
    0x09b64c2b, 0x7eb17cbd, 0xe7b82d07, 0x90bf1d91, 0x1db71064, 0x6ab020f2,
    0xf3b97148, 0x84be41de, 0x1adad47d, 0x6ddde4eb, 0xf4d4b551, 0x83d385c7,
    0x136c9856, 0x646ba8c0, 0xfd62f97a, 0x8a65c9ec, 0x14015c4f, 0x63066cd9,
    0xfa0f3d63, 0x8d080df5, 0x3b6e20c8, 0x4c69105e, 0xd56041e4, 0xa2677172,
    0x3c03e4d1, 0x4b04d447, 0xd20d85fd, 0xa50ab56b, 0x35b5a8fa, 0x42b2986c,
    0xdbbbc9d6, 0xacbcf940, 0x32d86ce3, 0x45df5c75, 0xdcd60dcf, 0xabd13d59,
    0x26d930ac, 0x51de003a, 0xc8d75180, 0xbfd06116, 0x21b4f4b5, 0x56b3c423,
    0xcfba9599, 0xb8bda50f, 0x2802b89e, 0x5f058808, 0xc60cd9b2, 0xb10be924,
    0x2f6f7c87, 0x58684c11, 0xc1611dab, 0xb6662d3d, 0x76dc4190, 0x01db7106,
    0x98d220bc, 0xefd5102a, 0x71b18589, 0x06b6b51f, 0x9fbfe4a5, 0xe8b8d433,
    0x7807c9a2, 0x0f00f934, 0x9609a88e, 0xe10e9818, 0x7f6a0dbb, 0x086d3d2d,
    0x91646c97, 0xe6635c01, 0x6b6b51f4, 0x1c6c6162, 0x856530d8, 0xf262004e,
    0x6c0695ed, 0x1b01a57b, 0x8208f4c1, 0xf50fc457, 0x65b0d9c6, 0x12b7e950,
    0x8bbeb8ea, 0xfcb9887c, 0x62dd1ddf, 0x15da2d49, 0x8cd37cf3, 0xfbd44c65,
    0x4db26158, 0x3ab551ce, 0xa3bc0074, 0xd4bb30e2, 0x4adfa541, 0x3dd895d7,
    0xa4d1c46d, 0xd3d6f4fb, 0x4369e96a, 0x346ed9fc, 0xad678846, 0xda60b8d0,
    0x44042d73, 0x33031de5, 0xaa0a4c5f, 0xdd0d7cc9, 0x5005713c, 0x270241aa,
    0xbe0b1010, 0xc90c2086, 0x5768b525, 0x206f85b3, 0xb966d409, 0xce61e49f,
    0x5edef90e, 0x29d9c998, 0xb0d09822, 0xc7d7a8b4, 0x59b33d17, 0x2eb40d81,
    0xb7bd5c3b, 0xc0ba6cad, 0xedb88320, 0x9abfb3b6, 0x03b6e20c, 0x74b1d29a,
    0xead54739, 0x9dd277af, 0x04db2615, 0x73dc1683, 0xe3630b12, 0x94643b84,
    0x0d6d6a3e, 0x7a6a5aa8, 0xe40ecf0b, 0x9309ff9d, 0x0a00ae27, 0x7d079eb1,
    0xf00f9344, 0x8708a3d2, 0x1e01f268, 0x6906c2fe, 0xf762575d, 0x806567cb,
    0x196c3671, 0x6e6b06e7, 0xfed41b76, 0x89d32be0, 0x10da7a5a, 0x67dd4acc,
    0xf9b9df6f, 0x8ebeeff9, 0x17b7be43, 0x60b08ed5, 0xd6d6a3e8, 0xa1d1937e,
    0x38d8c2c4, 0x4fdff252, 0xd1bb67f1, 0xa6bc5767, 0x3fb506dd, 0x48b2364b,
    0xd80d2bda, 0xaf0a1b4c, 0x36034af6, 0x41047a60, 0xdf60efc3, 0xa867df55,
    0x316e8eef, 0x4669be79, 0xcb61b38c, 0xbc66831a, 0x256fd2a0, 0x5268e236,
    0xcc0c7795, 0xbb0b4703, 0x220216b9, 0x5505262f, 0xc5ba3bbe, 0xb2bd0b28,
    0x2bb45a92, 0x5cb36a04, 0xc2d7ffa7, 0xb5d0cf31, 0x2cd99e8b, 0x5bdeae1d,
    0x9b64c2b0, 0xec63f226, 0x756aa39c, 0x026d930a, 0x9c0906a9, 0xeb0e363f,
    0x72076785, 0x05005713, 0x95bf4a82, 0xe2b87a14, 0x7bb12bae, 0x0cb61b38,
    0x92d28e9b, 0xe5d5be0d, 0x7cdcefb7, 0x0bdbdf21, 0x86d3d2d4, 0xf1d4e242,
    0x68ddb3f8, 0x1fda836e, 0x81be16cd, 0xf6b9265b, 0x6fb077e1, 0x18b74777,
    0x88085ae6, 0xff0f6a70, 0x66063bca, 0x11010b5c, 0x8f659eff, 0xf862ae69,
    0x616bffd3, 0x166ccf45, 0xa00ae278, 0xd70dd2ee, 0x4e048354, 0x3903b3c2,
    0xa7672661, 0xd06016f7, 0x4969474d, 0x3e6e77db, 0xaed16a4a, 0xd9d65adc,
    0x40df0b66, 0x37d83bf0, 0xa9bcae53, 0xdebb9ec5, 0x47b2cf7f, 0x30b5ffe9,
    0xbdbdf21c, 0xcabac28a, 0x53b39330, 0x24b4a3a6, 0xbad03605, 0xcdd70693,
    0x54de5729, 0x23d967bf, 0xb3667a2e, 0xc4614ab8, 0x5d681b02, 0x2a6f2b94,
    0xb40bbe37, 0xc30c8ea1, 0x5a05df1b, 0x2d02ef8d]"

text \<open>The macro \<open>UPDC32\<close> of Crc.h: one octet shifted into the register.\<close>

definition UPDC32 :: "u8 \<Rightarrow> u32 \<Rightarrow> u32" where
  "UPDC32 octet crc = crc_32_tab ! unat ((crc XOR ucast octet) AND 0xFF) XOR drop_bit 8 crc"

text \<open>\<open>GetCrc32\<close>: the loop over the \<open>length\<close> bytes at \<open>data\<close>.\<close>

primrec crc32_loop :: "bytes \<Rightarrow> u32 \<Rightarrow> u32" where
  "crc32_loop [] CRC = CRC"
| "crc32_loop (d # data) CRC =
     crc32_loop data (drop_bit 8 CRC XOR crc_32_tab ! unat ((CRC XOR ucast d) AND 0xFF))"

definition GetCrc32 :: "bytes \<Rightarrow> u32" where
  "GetCrc32 data = crc32_loop data 0xFFFFFFFF XOR 0xFFFFFFFF"

text \<open>\<open>crc32int\<close> reads the four bytes of a 32-bit word in memory order.\<close>

definition crc32int :: "u32 \<Rightarrow> u32" where
  "crc32int w =
     (let d = word_to_le 4 w;
          CRC = 0xFFFFFFFF;
          CRC = drop_bit 8 CRC XOR crc_32_tab ! unat ((CRC XOR ucast (d ! 0)) AND 0xFF);
          CRC = drop_bit 8 CRC XOR crc_32_tab ! unat ((CRC XOR ucast (d ! 1)) AND 0xFF);
          CRC = drop_bit 8 CRC XOR crc_32_tab ! unat ((CRC XOR ucast (d ! 2)) AND 0xFF)
      in (drop_bit 8 CRC XOR crc_32_tab ! unat ((CRC XOR ucast (d ! 3)) AND 0xFF)) XOR 0xFFFFFFFF)"

text \<open>\<open>GetCrc32\<close> under \<open>TC_MINIMIZE_CODE_SIZE\<close>: eight conditional shifts per byte.\<close>

definition crc_bit :: "u32 \<Rightarrow> u32" where
  "crc_bit r = (if (ucast r :: u8) AND 1 \<noteq> 0 then drop_bit 1 r XOR 0xEDB88320 else drop_bit 1 r)"

definition crc_byte :: "u32 \<Rightarrow> u32" where
  "crc_byte r = (crc_bit ^^ 8) r"

primrec crc32_min_loop :: "bytes \<Rightarrow> u32 \<Rightarrow> u32" where
  "crc32_min_loop [] r = r"
| "crc32_min_loop (d # data) r = crc32_min_loop data (crc_byte (r XOR ucast d))"

definition GetCrc32_min :: "bytes \<Rightarrow> u32" where
  "GetCrc32_min data = crc32_min_loop data 0xFFFFFFFF XOR 0xFFFFFFFF"

text \<open>\<open>crc32_selftests\<close> under \<open>TC_MINIMIZE_CODE_SIZE\<close>: the bytes 0 to 31.\<close>

definition crc32_selftests_min :: bool where
  "crc32_selftests_min \<longleftrightarrow> GetCrc32_min (map word_of_nat [0..<32]) = 0x91267E8A"

section \<open>The table is eight bit steps\<close>

lemma crc_bit_code: "crc_bit r = (if bit r 0 then drop_bit 1 r XOR 0xEDB88320 else drop_bit 1 r)"
proof -
  have "(ucast r :: u8) AND 1 \<noteq> 0 \<longleftrightarrow> bit (ucast r :: u8) 0"
    by (simp add: and_one_eq bit_0 mod_2_eq_odd)
  also have "\<dots> \<longleftrightarrow> bit r 0"
    by (simp add: bit_ucast_iff)
  finally show ?thesis by (simp add: crc_bit_def)
qed

lemma crc_bit_xor: "crc_bit (x XOR y) = crc_bit x XOR crc_bit y"
  by (simp add: crc_bit_code bit_xor_iff drop_bit_xor xor.assoc xor.left_commute xor.commute)

lemma crc_byte_xor: "crc_byte (x XOR y) = crc_byte x XOR crc_byte y"
  by (simp add: crc_byte_def numeral_eq_Suc crc_bit_xor)

lemma crc_bit_even: "\<not> bit x 0 \<Longrightarrow> crc_bit x = drop_bit 1 x"
  by (simp add: crc_bit_code)

lemma crc_byte_high: "take_bit 8 x = 0 \<Longrightarrow> crc_byte x = drop_bit 8 x"
proof -
  assume z: "take_bit 8 x = 0"
  have b: "\<not> bit x k" if "k < 8" for k
    using that z by (metis bit_take_bit_iff bit_0_eq bot_apply bot_bool_def)
  have "(crc_bit ^^ k) x = drop_bit k x" if "k \<le> 8" for k
    using that
  proof (induction k)
    case (Suc k)
    then have "\<not> bit (drop_bit k x) 0" using b[of k] by (simp add: bit_drop_bit_eq)
    with Suc show ?case by (simp add: crc_bit_even drop_bit_drop_bit)
  qed simp
  then show ?thesis by (simp add: crc_byte_def)
qed

lemma crc_byte_steps:
  "crc_byte r = crc_bit (crc_bit (crc_bit (crc_bit (crc_bit (crc_bit (crc_bit (crc_bit r)))))))"
  by (simp add: crc_byte_def numeral_eq_Suc)

lemmas crc_bit_eval =
  crc_bit_code [of 0] crc_bit_code [of 1] crc_bit_code [of "numeral w" for w]

lemma crc_byte_basis:
  "map (\<lambda>k. crc_byte (2 ^ k)) (rev [0..<8]) =
     [0xedb88320, 0x76dc4190, 0x3b6e20c8, 0x1db71064, 0x0edb8832, 0x076dc419, 0xee0e612c, 0x77073096]"
  by (simp add: upt_rec crc_byte_steps crc_bit_eval bit_numeral_word_iff)

lemma crc_tab_span:
  "xor_span [0xedb88320, 0x76dc4190, 0x3b6e20c8, 0x1db71064, 0x0edb8832, 0x076dc419, 0xee0e612c, 0x77073096]
     = crc_32_tab"
  by (simp add: crc_32_tab_def)

lemma crc_tab: "crc_32_tab = map (\<lambda>i. crc_byte (word_of_nat i)) [0..<256]"
  using xor_span_linear [of crc_byte 8] by (simp only: crc_byte_basis crc_tab_span crc_byte_xor) simp

lemma crc_tab_nth: "unat w < 256 \<Longrightarrow> crc_32_tab ! unat w = crc_byte w"
  by (simp add: crc_tab)

text \<open>One table step is one byte of bit steps: split the register at bit 8.\<close>

lemma and_255_bound: "unat (w AND 0xFF :: u32) < 256"
proof -
  have "unat (w AND 0xFF) \<le> unat (0xFF :: u32)"
    by (rule word_and_le1 [THEN word_le_nat_alt [THEN iffD1]])
  then show ?thesis by simp
qed

lemma crc_table_step:
  "drop_bit 8 c XOR crc_32_tab ! unat ((c XOR ucast (d :: u8)) AND 0xFF) = crc_byte (c XOR ucast d)"
proof -
  define x where "x = c XOR (ucast d :: u32)"
  have m: "(0xFF :: u32) = mask 8" by (simp add: mask_eq_exp_minus_1)
  have split: "x = (x AND 0xFF) XOR (x AND NOT 0xFF)"
    by (rule bit_word_eqI) (auto simp: bit_simps)
  have high: "take_bit 8 (x AND NOT 0xFF) = 0"
    unfolding m by (rule bit_word_eqI) (auto simp: bit_simps)
  have drop: "drop_bit 8 (x AND NOT 0xFF) = drop_bit 8 c"
    unfolding m x_def by (rule bit_word_eqI) (auto simp: bit_simps dest: bit_imp_le_length)
  have "crc_byte x = crc_byte (x AND 0xFF) XOR crc_byte (x AND NOT 0xFF)"
    by (subst split) (rule crc_byte_xor)
  also have "\<dots> = crc_32_tab ! unat (x AND 0xFF) XOR drop_bit 8 c"
    by (simp only: crc_tab_nth [OF and_255_bound] crc_byte_high [OF high] drop)
  finally show ?thesis by (simp add: x_def xor.commute)
qed

lemma crc_loops_agree: "crc32_loop data c = crc32_min_loop data c"
  by (induction data arbitrary: c) (simp_all add: crc_table_step)

lemma GetCrc32_eq_min: "GetCrc32 data = GetCrc32_min data"
  by (simp add: GetCrc32_def GetCrc32_min_def crc_loops_agree)

lemma crc32int_eq: "crc32int w = GetCrc32 (word_to_le 4 w)"
  by (simp add: crc32int_def GetCrc32_eq_min GetCrc32_min_def Let_def crc_table_step word_to_le_def upt_rec)

text \<open>
  The CRC of a string is an affine function of it: strings of one length that differ by a mask
  have CRCs that differ by a value that depends on the mask only.
\<close>

lemma crc32_loop_xor:
  "length xs = length ys \<Longrightarrow>
   crc32_min_loop (xor_bytes xs ys) (c XOR d) = crc32_min_loop xs c XOR crc32_min_loop ys d"
proof (induction xs ys arbitrary: c d rule: list_induct2)
  case (Cons x xs y ys)
  have "(c XOR d) XOR ucast (x XOR y) = (c XOR ucast x) XOR (d XOR (ucast y :: u32))"
    by (rule bit_word_eqI) (auto simp: bit_simps)
  with Cons show ?case by (simp add: crc_byte_xor)
qed simp

lemma crc32_selftests_min_passes: "crc32_selftests_min"
  by (simp add: crc32_selftests_min_def GetCrc32_min_def upt_rec crc_byte_steps
      crc_bit_eval bit_numeral_word_iff)

end
