(* ===== verification/Cipher_Config.thy ===== *)
theory Cipher_Config
  imports TC_Prelude
begin

text \<open>
  The configuration tables of Common/Crypto.c (block ciphers, encryption algorithms, hash
  algorithms) and the functions that search and walk over them, in the builds other than the boot
  loader. A C array is a list. A read past the end of an array and a use of a null pointer are
  undefined in C; here they are values about which nothing is known (\<open>xs ! i\<close> out of range,
  \<open>the None\<close>, an equation that is missing), so that no theorem depends on them.

  A loop \<open>for (c = EAGetFirstCipher (ea); c != 0; c = EAGetNextCipher (ea, c))\<close> returns only when
  the table's next-relation leads to 0. The walks below have fuel, and \<open>None\<close> when it runs out;
  four steps are enough because a row has four entries, the last of them 0.
\<close>

section \<open>Identifiers\<close>

text \<open>The enumerations of Crypto.h: ciphers, modes of operation, hash algorithms.\<close>

abbreviation (input) AES :: nat where "AES \<equiv> 1"
abbreviation (input) SERPENT :: nat where "SERPENT \<equiv> 2"
abbreviation (input) TWOFISH :: nat where "TWOFISH \<equiv> 3"
abbreviation (input) BLOWFISH :: nat where "BLOWFISH \<equiv> 4"
abbreviation (input) CAST :: nat where "CAST \<equiv> 5"
abbreviation (input) TRIPLEDES :: nat where "TRIPLEDES \<equiv> 6"

abbreviation (input) XTS :: nat where "XTS \<equiv> 1"
abbreviation (input) LRW :: nat where "LRW \<equiv> 2"
abbreviation (input) CBC :: nat where "CBC \<equiv> 3"
abbreviation (input) OUTER_CBC :: nat where "OUTER_CBC \<equiv> 4"
abbreviation (input) INNER_CBC :: nat where "INNER_CBC \<equiv> 5"

abbreviation (input) RIPEMD160 :: nat where "RIPEMD160 \<equiv> 1"
abbreviation (input) SHA512 :: nat where "SHA512 \<equiv> 2"
abbreviation (input) WHIRLPOOL :: nat where "WHIRLPOOL \<equiv> 3"
abbreviation (input) SHA1 :: nat where "SHA1 \<equiv> 4"

definition ENCRYPTION_DATA_UNIT_SIZE :: nat where "ENCRYPTION_DATA_UNIT_SIZE = 512"
definition PKCS5_SALT_SIZE :: nat where "PKCS5_SALT_SIZE = 64"
definition MASTER_KEYDATA_SIZE :: nat where "MASTER_KEYDATA_SIZE = 256"
definition LEGACY_VOL_IV_SIZE :: nat where "LEGACY_VOL_IV_SIZE = 32"
definition BYTES_PER_XTS_BLOCK :: nat where "BYTES_PER_XTS_BLOCK = 16"
definition BLOCKS_PER_XTS_DATA_UNIT :: nat where
  "BLOCKS_PER_XTS_DATA_UNIT = ENCRYPTION_DATA_UNIT_SIZE div BYTES_PER_XTS_BLOCK"

lemmas crypto_sizes [tc_cfg] =
  ENCRYPTION_DATA_UNIT_SIZE_def PKCS5_SALT_SIZE_def MASTER_KEYDATA_SIZE_def
  LEGACY_VOL_IV_SIZE_def BYTES_PER_XTS_BLOCK_def BLOCKS_PER_XTS_DATA_UNIT_def

section \<open>Tables\<close>

record Cipher =
  cipher_Id :: nat
  cipher_Name :: string
  BlockSize :: nat
  KeySize :: nat
  KeyScheduleSize :: nat

record EncryptionAlgorithm =
  ea_Ciphers :: "nat list"
  ea_Modes :: "nat list"
  FormatEnabled :: bool

record Hash =
  hash_Id :: nat
  hash_Name :: string
  Deprecated :: bool
  SystemEncryption :: bool

text \<open>
  Sizes of the key schedules in bytes: two AES contexts of 60 words and a word each, 140 words of
  Serpent, the Twofish instance (40 + 4 + 1024 + 1 words), and the legacy ciphers' structures
  (18 + 18 + 1024, 32 and 6 * 32 words).
\<close>

definition AES_CTX_SIZE :: nat where "AES_CTX_SIZE = 4 * 61"
definition AES_KS :: nat where "AES_KS = AES_CTX_SIZE + AES_CTX_SIZE"
definition SERPENT_KS :: nat where "SERPENT_KS = 140 * 4"
definition TWOFISH_KS :: nat where "TWOFISH_KS = 4 * (40 + 4 + 4 * 256 + 1)"
definition BF_KEY_SIZE :: nat where "BF_KEY_SIZE = 4 * (18 + 18 + 4 * 256)"
definition CAST_KEY_SIZE :: nat where "CAST_KEY_SIZE = 4 * 32"
definition TDES_KEY_SIZE :: nat where "TDES_KEY_SIZE = 4 * (6 * 32)"
definition MAX_EXPANDED_KEY :: nat where "MAX_EXPANDED_KEY = AES_KS + SERPENT_KS + TWOFISH_KS"

lemmas ks_sizes [tc_cfg] =
  AES_CTX_SIZE_def AES_KS_def SERPENT_KS_def TWOFISH_KS_def BF_KEY_SIZE_def CAST_KEY_SIZE_def
  TDES_KEY_SIZE_def MAX_EXPANDED_KEY_def

definition Ciphers :: "Cipher list" where
  "Ciphers =
    [\<lparr>cipher_Id = AES, cipher_Name = ''AES'', BlockSize = 16, KeySize = 32, KeyScheduleSize = AES_KS\<rparr>,
     \<lparr>cipher_Id = SERPENT, cipher_Name = ''Serpent'', BlockSize = 16, KeySize = 32, KeyScheduleSize = SERPENT_KS\<rparr>,
     \<lparr>cipher_Id = TWOFISH, cipher_Name = ''Twofish'', BlockSize = 16, KeySize = 32, KeyScheduleSize = TWOFISH_KS\<rparr>,
     \<lparr>cipher_Id = BLOWFISH, cipher_Name = ''Blowfish'', BlockSize = 8, KeySize = 56, KeyScheduleSize = BF_KEY_SIZE\<rparr>,
     \<lparr>cipher_Id = CAST, cipher_Name = ''CAST5'', BlockSize = 8, KeySize = 16, KeyScheduleSize = CAST_KEY_SIZE\<rparr>,
     \<lparr>cipher_Id = TRIPLEDES, cipher_Name = ''Triple DES'', BlockSize = 8, KeySize = 8 * 3, KeyScheduleSize = TDES_KEY_SIZE\<rparr>,
     \<lparr>cipher_Id = 0, cipher_Name = [], BlockSize = 0, KeySize = 0, KeyScheduleSize = 0\<rparr>]"

definition EncryptionAlgorithms :: "EncryptionAlgorithm list" where
  "EncryptionAlgorithms =
    [\<lparr>ea_Ciphers = [0, 0, 0, 0], ea_Modes = [0, 0, 0, 0, 0, 0], FormatEnabled = False\<rparr>,
     \<lparr>ea_Ciphers = [AES, 0, 0, 0], ea_Modes = [XTS, LRW, CBC, 0, 0, 0], FormatEnabled = True\<rparr>,
     \<lparr>ea_Ciphers = [SERPENT, 0, 0, 0], ea_Modes = [XTS, LRW, CBC, 0, 0, 0], FormatEnabled = True\<rparr>,
     \<lparr>ea_Ciphers = [TWOFISH, 0, 0, 0], ea_Modes = [XTS, LRW, CBC, 0, 0, 0], FormatEnabled = True\<rparr>,
     \<lparr>ea_Ciphers = [TWOFISH, AES, 0, 0], ea_Modes = [XTS, LRW, OUTER_CBC, 0, 0, 0], FormatEnabled = True\<rparr>,
     \<lparr>ea_Ciphers = [SERPENT, TWOFISH, AES, 0], ea_Modes = [XTS, LRW, OUTER_CBC, 0, 0, 0], FormatEnabled = True\<rparr>,
     \<lparr>ea_Ciphers = [AES, SERPENT, 0, 0], ea_Modes = [XTS, LRW, OUTER_CBC, 0, 0, 0], FormatEnabled = True\<rparr>,
     \<lparr>ea_Ciphers = [AES, TWOFISH, SERPENT, 0], ea_Modes = [XTS, LRW, OUTER_CBC, 0, 0, 0], FormatEnabled = True\<rparr>,
     \<lparr>ea_Ciphers = [SERPENT, TWOFISH, 0, 0], ea_Modes = [XTS, LRW, OUTER_CBC, 0, 0, 0], FormatEnabled = True\<rparr>,
     \<lparr>ea_Ciphers = [BLOWFISH, 0, 0, 0], ea_Modes = [LRW, CBC, 0, 0, 0, 0], FormatEnabled = False\<rparr>,
     \<lparr>ea_Ciphers = [CAST, 0, 0, 0], ea_Modes = [LRW, CBC, 0, 0, 0, 0], FormatEnabled = False\<rparr>,
     \<lparr>ea_Ciphers = [TRIPLEDES, 0, 0, 0], ea_Modes = [LRW, CBC, 0, 0, 0, 0], FormatEnabled = False\<rparr>,
     \<lparr>ea_Ciphers = [BLOWFISH, AES, 0, 0], ea_Modes = [INNER_CBC, 0, 0, 0, 0, 0], FormatEnabled = False\<rparr>,
     \<lparr>ea_Ciphers = [SERPENT, BLOWFISH, AES, 0], ea_Modes = [INNER_CBC, 0, 0, 0, 0, 0], FormatEnabled = False\<rparr>,
     \<lparr>ea_Ciphers = [0, 0, 0, 0], ea_Modes = [0, 0, 0, 0, 0, 0], FormatEnabled = False\<rparr>]"

definition Hashes :: "Hash list" where
  "Hashes =
    [\<lparr>hash_Id = RIPEMD160, hash_Name = ''RIPEMD-160'', Deprecated = False, SystemEncryption = True\<rparr>,
     \<lparr>hash_Id = SHA512, hash_Name = ''SHA-512'', Deprecated = False, SystemEncryption = False\<rparr>,
     \<lparr>hash_Id = WHIRLPOOL, hash_Name = ''Whirlpool'', Deprecated = False, SystemEncryption = False\<rparr>,
     \<lparr>hash_Id = SHA1, hash_Name = ''SHA-1'', Deprecated = True, SystemEncryption = False\<rparr>,
     \<lparr>hash_Id = 0, hash_Name = [], Deprecated = False, SystemEncryption = False\<rparr>]"

section \<open>Ciphers\<close>

fun cipher_scan :: "Cipher list \<Rightarrow> nat \<Rightarrow> Cipher option" where
  "cipher_scan (c # cs) cid =
     (if cipher_Id c = 0 then None else if cipher_Id c = cid then Some c else cipher_scan cs cid)"

definition CipherGet :: "nat \<Rightarrow> Cipher option" where
  "CipherGet cid = cipher_scan Ciphers cid"

definition CipherGetName :: "nat \<Rightarrow> string" where
  "CipherGetName cid = cipher_Name (the (CipherGet cid))"

definition CipherGetBlockSize :: "nat \<Rightarrow> nat" where
  "CipherGetBlockSize cid = BlockSize (the (CipherGet cid))"

definition CipherGetKeySize :: "nat \<Rightarrow> nat" where
  "CipherGetKeySize cid = KeySize (the (CipherGet cid))"

definition CipherGetKeyScheduleSize :: "nat \<Rightarrow> nat" where
  "CipherGetKeyScheduleSize cid = KeyScheduleSize (the (CipherGet cid))"

section \<open>Encryption algorithms\<close>

definition EAGetFirst :: nat where
  "EAGetFirst = 1"

definition EAGetNext :: "nat \<Rightarrow> nat" where
  "EAGetNext previousEA =
     (let ea = previousEA + 1
      in if ea_Ciphers (EncryptionAlgorithms ! ea) ! 0 \<noteq> 0 then ea else 0)"

text \<open>The loop \<open>for (ea = EAGetFirst (); ea != 0; ea = EAGetNext (ea))\<close> as the list it visits.\<close>

fun ea_walk :: "nat \<Rightarrow> nat \<Rightarrow> nat list option" where
  "ea_walk 0 ea = (if ea = 0 then Some [] else None)"
| "ea_walk (Suc fuel) ea =
     (if ea = 0 then Some [] else map_option ((#) ea) (ea_walk fuel (EAGetNext ea)))"

definition EAs :: "nat list option" where
  "EAs = ea_walk 14 EAGetFirst"

definition EAGetCount :: "nat option" where
  "EAGetCount = map_option length EAs"

definition EAGetFirstCipher :: "nat \<Rightarrow> nat" where
  "EAGetFirstCipher ea = ea_Ciphers (EncryptionAlgorithms ! ea) ! 0"

fun nonzero_prefix_length :: "nat list \<Rightarrow> nat" where
  "nonzero_prefix_length (c # cs) = (if c \<noteq> 0 then Suc (nonzero_prefix_length cs) else 0)"

definition EAGetCipherCount :: "nat \<Rightarrow> nat" where
  "EAGetCipherCount ea = nonzero_prefix_length (ea_Ciphers (EncryptionAlgorithms ! ea))"

fun last_before_zero :: "nat list \<Rightarrow> nat" where
  "last_before_zero (x # c # cs) = (if c = 0 then x else last_before_zero (c # cs))"

definition EAGetLastCipher :: "nat \<Rightarrow> nat" where
  "EAGetLastCipher ea =
     (let cs = ea_Ciphers (EncryptionAlgorithms ! ea)
      in if cs ! 0 = 0 then undefined else last_before_zero cs)"

fun next_after :: "nat \<Rightarrow> nat list \<Rightarrow> nat" where
  "next_after prev (c # cs) =
     (if c = 0 then 0 else if c = prev then cs ! 0 else next_after prev cs)"

definition EAGetNextCipher :: "nat \<Rightarrow> nat \<Rightarrow> nat" where
  "EAGetNextCipher ea previousCipherId =
     next_after previousCipherId (ea_Ciphers (EncryptionAlgorithms ! ea))"

fun prev_before :: "nat \<Rightarrow> nat list \<Rightarrow> nat" where
  "prev_before prev (x # c # cs) =
     (if c = 0 then 0 else if c = prev then x else prev_before prev (c # cs))"

definition EAGetPreviousCipher :: "nat \<Rightarrow> nat \<Rightarrow> nat" where
  "EAGetPreviousCipher ea previousCipherId =
     (let cs = ea_Ciphers (EncryptionAlgorithms ! ea)
      in if cs ! 0 = previousCipherId then 0 else prev_before previousCipherId cs)"

text \<open>The loops over the ciphers of an algorithm, first to last and last to first.\<close>

fun cipher_walk :: "(nat \<Rightarrow> nat) \<Rightarrow> nat \<Rightarrow> nat \<Rightarrow> nat list option" where
  "cipher_walk step 0 c = (if c = 0 then Some [] else None)"
| "cipher_walk step (Suc fuel) c =
     (if c = 0 then Some [] else map_option ((#) c) (cipher_walk step fuel (step c)))"

definition ea_ciphers_forward :: "nat \<Rightarrow> nat list option" where
  "ea_ciphers_forward ea = cipher_walk (EAGetNextCipher ea) 4 (EAGetFirstCipher ea)"

definition ea_ciphers_backward :: "nat \<Rightarrow> nat list option" where
  "ea_ciphers_backward ea = cipher_walk (EAGetPreviousCipher ea) 4 (EAGetLastCipher ea)"

definition EAGetKeySize :: "nat \<Rightarrow> nat option" where
  "EAGetKeySize ea = map_option (\<lambda>cs. sum_list (map CipherGetKeySize cs)) (ea_ciphers_forward ea)"

definition EAGetKeyScheduleSize :: "nat \<Rightarrow> nat option" where
  "EAGetKeyScheduleSize ea =
     map_option (\<lambda>cs. sum_list (map CipherGetKeyScheduleSize cs)) (ea_ciphers_forward ea)"

definition EAGetFirstMode :: "nat \<Rightarrow> nat" where
  "EAGetFirstMode ea = ea_Modes (EncryptionAlgorithms ! ea) ! 0"

definition EAGetNextMode :: "nat \<Rightarrow> nat \<Rightarrow> nat" where
  "EAGetNextMode ea previousModeId = next_after previousModeId (ea_Modes (EncryptionAlgorithms ! ea))"

definition ea_modes :: "nat \<Rightarrow> nat list option" where
  "ea_modes ea = cipher_walk (EAGetNextMode ea) 6 (EAGetFirstMode ea)"

definition EAIsModeSupported :: "nat \<Rightarrow> nat \<Rightarrow> bool option" where
  "EAIsModeSupported ea testedMode = map_option (\<lambda>ms. testedMode \<in> set ms) (ea_modes ea)"

definition EAIsFormatEnabled :: "nat \<Rightarrow> bool" where
  "EAIsFormatEnabled ea = FormatEnabled (EncryptionAlgorithms ! ea)"

text \<open>\<open>EAGetName\<close>: the names of the ciphers from the last to the first, joined by hyphens.\<close>

fun join_names :: "nat list \<Rightarrow> string" where
  "join_names [] = ''?''"
| "join_names [c] = CipherGetName c"
| "join_names (c # cs) = CipherGetName c @ ''-'' @ join_names cs"

definition EAGetName :: "nat \<Rightarrow> string option" where
  "EAGetName ea = map_option join_names (ea_ciphers_backward ea)"

fun ea_by_name :: "nat list \<Rightarrow> string \<Rightarrow> nat" where
  "ea_by_name [] name = 0"
| "ea_by_name (ea # eas) name = (if EAGetName ea = Some name then ea else ea_by_name eas name)"

definition EAGetByName :: "string \<Rightarrow> nat option" where
  "EAGetByName name = map_option (\<lambda>eas. ea_by_name eas name) EAs"

definition EAGetModeName :: "nat \<Rightarrow> nat \<Rightarrow> bool \<Rightarrow> string" where
  "EAGetModeName ea mode capitalLetters =
     (if mode = XTS then ''XTS''
      else if mode = LRW then ''LRW''
      else if mode = CBC then
        (if EAGetName ea = Some ''Triple DES''
         then (if capitalLetters then ''Outer-CBC'' else ''outer-CBC'') else ''CBC'')
      else if mode = OUTER_CBC then (if capitalLetters then ''Outer-CBC'' else ''outer-CBC'')
      else if mode = INNER_CBC then (if capitalLetters then ''Inner-CBC'' else ''inner-CBC'')
      else ''[unknown]'')"

text \<open>
  The largest key: the loop keeps the size of the current algorithm whenever it is at least the
  largest so far, and skips algorithms without the mode.
\<close>

fun largest_key :: "(nat \<Rightarrow> bool option) \<Rightarrow> nat list \<Rightarrow> nat \<Rightarrow> nat option" where
  "largest_key ok [] key = Some key"
| "largest_key ok (ea # eas) key =
     (case (ok ea, EAGetKeySize ea) of
        (Some True, Some n) \<Rightarrow> largest_key ok eas (if n \<ge> key then n else key)
      | (Some False, _) \<Rightarrow> largest_key ok eas key
      | _ \<Rightarrow> None)"

definition EAGetLargestKeyForMode :: "nat \<Rightarrow> nat option" where
  "EAGetLargestKeyForMode mode =
     (case EAs of None \<Rightarrow> None | Some eas \<Rightarrow> largest_key (\<lambda>ea. EAIsModeSupported ea mode) eas 0)"

definition EAGetLargestKey :: "nat option" where
  "EAGetLargestKey = (case EAs of None \<Rightarrow> None | Some eas \<Rightarrow> largest_key (\<lambda>_. Some True) eas 0)"

definition GetMaxPkcs5OutSize :: "nat option" where
  "GetMaxPkcs5OutSize =
     (case (EAGetLargestKeyForMode XTS, EAGetLargestKeyForMode LRW, EAGetLargestKeyForMode CBC,
            EAGetLargestKeyForMode OUTER_CBC, EAGetLargestKeyForMode INNER_CBC) of
        (Some x, Some l, Some c, Some oc, Some ic) \<Rightarrow>
          (let size = 32;
               size = max size (x * 2);
               size = max size (LEGACY_VOL_IV_SIZE + l);
               size = max size (LEGACY_VOL_IV_SIZE + c);
               size = max size (LEGACY_VOL_IV_SIZE + oc)
           in Some (max size (LEGACY_VOL_IV_SIZE + ic)))
      | _ \<Rightarrow> None)"

section \<open>Hash algorithms\<close>

fun hash_scan :: "Hash list \<Rightarrow> nat \<Rightarrow> Hash option" where
  "hash_scan (h # hs) hid =
     (if hash_Id h = 0 then None else if hash_Id h = hid then Some h else hash_scan hs hid)"

definition HashGet :: "nat \<Rightarrow> Hash option" where
  "HashGet hid = hash_scan Hashes hid"

fun hash_name_scan :: "Hash list \<Rightarrow> string \<Rightarrow> nat" where
  "hash_name_scan (h # hs) name =
     (if hash_Id h = 0 then 0 else if hash_Name h = name then hash_Id h else hash_name_scan hs name)"

definition HashGetIdByName :: "string \<Rightarrow> nat" where
  "HashGetIdByName name = hash_name_scan Hashes name"

definition HashGetName :: "nat \<Rightarrow> string" where
  "HashGetName hashId = hash_Name (the (HashGet hashId))"

definition HashIsDeprecated :: "nat \<Rightarrow> bool" where
  "HashIsDeprecated hashId = Deprecated (the (HashGet hashId))"

section \<open>The tables are consistent\<close>

lemmas config_defs =
  Ciphers_def EncryptionAlgorithms_def Hashes_def CipherGet_def EAGetFirst_def EAGetNext_def
  EAGetFirstCipher_def EAGetLastCipher_def EAGetNextCipher_def EAGetPreviousCipher_def
  EAGetFirstMode_def EAGetNextMode_def

lemma CipherGet_table:
  "CipherGet AES = Some (Ciphers ! 0)" "CipherGet SERPENT = Some (Ciphers ! 1)"
  "CipherGet TWOFISH = Some (Ciphers ! 2)" "CipherGet BLOWFISH = Some (Ciphers ! 3)"
  "CipherGet CAST = Some (Ciphers ! 4)" "CipherGet TRIPLEDES = Some (Ciphers ! 5)"
  by (simp_all add: CipherGet_def Ciphers_def)

lemmas CipherGet_rows [tc_cfg] = CipherGet_table [unfolded One_nat_def]

lemma CipherGet_None: "CipherGet c = None \<longleftrightarrow> c = 0 \<or> 6 < c"
  by (auto simp: CipherGet_def Ciphers_def)

text \<open>The numbers of the encryption algorithms.\<close>

definition valid_ea :: "nat \<Rightarrow> bool" where
  "valid_ea ea \<longleftrightarrow> 1 \<le> ea \<and> ea \<le> 13"

lemma valid_ea_cases:
  "valid_ea ea \<longleftrightarrow> ea \<in> {1, 2, 3, 4, 5, 6, 7, 8, 9, 10, 11, 12, 13}"
  unfolding valid_ea_def by (simp, arith)

lemma EA_rows [tc_cfg]:
  "EncryptionAlgorithms ! 0 = \<lparr>ea_Ciphers = [0, 0, 0, 0], ea_Modes = [0, 0, 0, 0, 0, 0], FormatEnabled = False\<rparr>"
  "EncryptionAlgorithms ! Suc 0 = \<lparr>ea_Ciphers = [AES, 0, 0, 0], ea_Modes = [XTS, LRW, CBC, 0, 0, 0], FormatEnabled = True\<rparr>"
  "EncryptionAlgorithms ! 2 = \<lparr>ea_Ciphers = [SERPENT, 0, 0, 0], ea_Modes = [XTS, LRW, CBC, 0, 0, 0], FormatEnabled = True\<rparr>"
  "EncryptionAlgorithms ! 3 = \<lparr>ea_Ciphers = [TWOFISH, 0, 0, 0], ea_Modes = [XTS, LRW, CBC, 0, 0, 0], FormatEnabled = True\<rparr>"
  "EncryptionAlgorithms ! 4 = \<lparr>ea_Ciphers = [TWOFISH, AES, 0, 0], ea_Modes = [XTS, LRW, OUTER_CBC, 0, 0, 0], FormatEnabled = True\<rparr>"
  "EncryptionAlgorithms ! 5 = \<lparr>ea_Ciphers = [SERPENT, TWOFISH, AES, 0], ea_Modes = [XTS, LRW, OUTER_CBC, 0, 0, 0], FormatEnabled = True\<rparr>"
  "EncryptionAlgorithms ! 6 = \<lparr>ea_Ciphers = [AES, SERPENT, 0, 0], ea_Modes = [XTS, LRW, OUTER_CBC, 0, 0, 0], FormatEnabled = True\<rparr>"
  "EncryptionAlgorithms ! 7 = \<lparr>ea_Ciphers = [AES, TWOFISH, SERPENT, 0], ea_Modes = [XTS, LRW, OUTER_CBC, 0, 0, 0], FormatEnabled = True\<rparr>"
  "EncryptionAlgorithms ! 8 = \<lparr>ea_Ciphers = [SERPENT, TWOFISH, 0, 0], ea_Modes = [XTS, LRW, OUTER_CBC, 0, 0, 0], FormatEnabled = True\<rparr>"
  "EncryptionAlgorithms ! 9 = \<lparr>ea_Ciphers = [BLOWFISH, 0, 0, 0], ea_Modes = [LRW, CBC, 0, 0, 0, 0], FormatEnabled = False\<rparr>"
  "EncryptionAlgorithms ! 10 = \<lparr>ea_Ciphers = [CAST, 0, 0, 0], ea_Modes = [LRW, CBC, 0, 0, 0, 0], FormatEnabled = False\<rparr>"
  "EncryptionAlgorithms ! 11 = \<lparr>ea_Ciphers = [TRIPLEDES, 0, 0, 0], ea_Modes = [LRW, CBC, 0, 0, 0, 0], FormatEnabled = False\<rparr>"
  "EncryptionAlgorithms ! 12 = \<lparr>ea_Ciphers = [BLOWFISH, AES, 0, 0], ea_Modes = [INNER_CBC, 0, 0, 0, 0, 0], FormatEnabled = False\<rparr>"
  "EncryptionAlgorithms ! 13 = \<lparr>ea_Ciphers = [SERPENT, BLOWFISH, AES, 0], ea_Modes = [INNER_CBC, 0, 0, 0, 0, 0], FormatEnabled = False\<rparr>"
  "EncryptionAlgorithms ! 14 = \<lparr>ea_Ciphers = [0, 0, 0, 0], ea_Modes = [0, 0, 0, 0, 0, 0], FormatEnabled = False\<rparr>"
  by (simp_all add: EncryptionAlgorithms_def)

lemma walk_numeral [tc_cfg]:
  "cipher_walk step (numeral n) c =
     (if c = 0 then Some [] else map_option ((#) c) (cipher_walk step (pred_numeral n) (step c)))"
  "ea_walk (numeral n) c =
     (if c = 0 then Some [] else map_option ((#) c) (ea_walk (pred_numeral n) (EAGetNext c)))"
  by (simp_all add: numeral_eq_Suc)

lemma ea_row_simps [tc_cfg]:
  "EAGetFirstCipher ea = ea_Ciphers (EncryptionAlgorithms ! ea) ! 0"
  "EAGetNextCipher ea c = next_after c (ea_Ciphers (EncryptionAlgorithms ! ea))"
  "EAGetFirstMode ea = ea_Modes (EncryptionAlgorithms ! ea) ! 0"
  "EAGetNextMode ea m = next_after m (ea_Modes (EncryptionAlgorithms ! ea))"
  by (simp_all add: EAGetFirstCipher_def EAGetNextCipher_def EAGetFirstMode_def EAGetNextMode_def)

lemma EAGetNext_rows [tc_cfg]:
  "EAGetNext (Suc 0) = 2"
  "EAGetNext 2 = 3"
  "EAGetNext 3 = 4"
  "EAGetNext 4 = 5"
  "EAGetNext 5 = 6"
  "EAGetNext 6 = 7"
  "EAGetNext 7 = 8"
  "EAGetNext 8 = 9"
  "EAGetNext 9 = 10"
  "EAGetNext 10 = 11"
  "EAGetNext 11 = 12"
  "EAGetNext 12 = 13"
  "EAGetNext 13 = 0"
  by (simp_all add: EAGetNext_def EncryptionAlgorithms_def)

lemma EAs_table [tc_cfg]: "EAs = Some [1, 2, 3, 4, 5, 6, 7, 8, 9, 10, 11, 12, 13]"
  by (simp add: EAs_def EAGetFirst_def tc_cfg)

definition ciphers_of :: "nat \<Rightarrow> nat list" where
  "ciphers_of ea = takeWhile (\<lambda>c. c \<noteq> 0) (ea_Ciphers (EncryptionAlgorithms ! ea))"

lemma ea_ciphers_forward_table:
  "valid_ea ea \<Longrightarrow> ea_ciphers_forward ea = Some (ciphers_of ea)"
  unfolding valid_ea_cases
  by (simp, elim disjE; simp add: ea_ciphers_forward_def ciphers_of_def tc_cfg)

lemma ea_ciphers_backward_table:
  "valid_ea ea \<Longrightarrow> ea_ciphers_backward ea = Some (rev (ciphers_of ea))"
  unfolding valid_ea_cases
  by (simp, elim disjE;
      simp add: ea_ciphers_backward_def ciphers_of_def EAGetLastCipher_def EAGetPreviousCipher_def
        tc_cfg)

lemma valid_eaE:
  assumes "valid_ea ea"
  obtains "ea = 1" | "ea = 2" | "ea = 3" | "ea = 4" | "ea = 5" | "ea = 6" | "ea = 7"
    | "ea = 8" | "ea = 9" | "ea = 10" | "ea = 11" | "ea = 12" | "ea = 13"
  using assms by (auto simp: valid_ea_cases)

lemma ciphers_of_rows [tc_cfg]:
  "ciphers_of (Suc 0) = [AES]" "ciphers_of 2 = [SERPENT]" "ciphers_of 3 = [TWOFISH]"
  "ciphers_of 4 = [TWOFISH, AES]" "ciphers_of 5 = [SERPENT, TWOFISH, AES]"
  "ciphers_of 6 = [AES, SERPENT]" "ciphers_of 7 = [AES, TWOFISH, SERPENT]"
  "ciphers_of 8 = [SERPENT, TWOFISH]" "ciphers_of 9 = [BLOWFISH]" "ciphers_of 10 = [CAST]"
  "ciphers_of 11 = [TRIPLEDES]" "ciphers_of 12 = [BLOWFISH, AES]"
  "ciphers_of 13 = [SERPENT, BLOWFISH, AES]"
  by (simp_all add: ciphers_of_def tc_cfg)

lemma cipher_sizes [tc_cfg]:
  "CipherGetBlockSize (Suc 0) = 16" "CipherGetBlockSize 2 = 16" "CipherGetBlockSize 3 = 16"
  "CipherGetBlockSize 4 = 8" "CipherGetBlockSize 5 = 8" "CipherGetBlockSize 6 = 8"
  "CipherGetKeySize (Suc 0) = 32" "CipherGetKeySize 2 = 32" "CipherGetKeySize 3 = 32"
  "CipherGetKeySize 4 = 56" "CipherGetKeySize 5 = 16" "CipherGetKeySize 6 = 24"
  "CipherGetKeyScheduleSize (Suc 0) = 488" "CipherGetKeyScheduleSize 2 = 560"
  "CipherGetKeyScheduleSize 3 = 4276" "CipherGetKeyScheduleSize 4 = 4240"
  "CipherGetKeyScheduleSize 5 = 128" "CipherGetKeyScheduleSize 6 = 768"
  "CipherGetName (Suc 0) = ''AES''" "CipherGetName 2 = ''Serpent''"
  "CipherGetName 3 = ''Twofish''" "CipherGetName 4 = ''Blowfish''"
  "CipherGetName 5 = ''CAST5''" "CipherGetName 6 = ''Triple DES''"
  by (simp_all add: CipherGetBlockSize_def CipherGetKeySize_def CipherGetKeyScheduleSize_def
      CipherGetName_def CipherGet_rows Ciphers_def ks_sizes)

lemma EAGetName_rows [tc_cfg]:
  "EAGetName (Suc 0) = Some ''AES''" "EAGetName 2 = Some ''Serpent''"
  "EAGetName 3 = Some ''Twofish''" "EAGetName 4 = Some ''AES-Twofish''"
  "EAGetName 5 = Some ''AES-Twofish-Serpent''" "EAGetName 6 = Some ''Serpent-AES''"
  "EAGetName 7 = Some ''Serpent-Twofish-AES''" "EAGetName 8 = Some ''Twofish-Serpent''"
  "EAGetName 9 = Some ''Blowfish''" "EAGetName 10 = Some ''CAST5''"
  "EAGetName 11 = Some ''Triple DES''" "EAGetName 12 = Some ''AES-Blowfish''"
  "EAGetName 13 = Some ''AES-Blowfish-Serpent''"
  by (simp_all add: EAGetName_def ea_ciphers_backward_table valid_ea_def tc_cfg)

text \<open>
  Within one algorithm no cipher occurs twice and every cipher has the block size of the first,
  except in the inner-CBC cascades, so that a key schedule offset belongs to one cipher.
\<close>

lemma ciphers_of_distinct: "valid_ea ea \<Longrightarrow> distinct (ciphers_of ea)"
  by (erule valid_eaE; simp add: tc_cfg)

lemma ciphers_of_nonempty: "valid_ea ea \<Longrightarrow> ciphers_of ea \<noteq> []"
  by (erule valid_eaE; simp add: tc_cfg)

lemma EAGetCipherCount_table: "valid_ea ea \<Longrightarrow> EAGetCipherCount ea = length (ciphers_of ea)"
  by (erule valid_eaE; simp add: EAGetCipherCount_def tc_cfg)

lemma EAGetFirstCipher_table: "valid_ea ea \<Longrightarrow> EAGetFirstCipher ea = hd (ciphers_of ea)"
  by (erule valid_eaE; simp add: tc_cfg)

lemma EAGetLastCipher_table: "valid_ea ea \<Longrightarrow> EAGetLastCipher ea = last (ciphers_of ea)"
  by (erule valid_eaE; simp add: EAGetLastCipher_def tc_cfg)

lemma EAGetByName_EAGetName:
  assumes "valid_ea ea"
  shows "EAGetByName (the (EAGetName ea)) = Some ea \<and> length (the (EAGetName ea)) < 128"
  using assms by (rule valid_eaE; simp only: EAGetByName_def; simp add: tc_cfg)

lemma EAGetKeyScheduleSize_bound:
  "valid_ea ea \<Longrightarrow> \<exists>n. EAGetKeyScheduleSize ea = Some n \<and> n \<le> MAX_EXPANDED_KEY"
  by (erule valid_eaE; simp add: EAGetKeyScheduleSize_def ea_ciphers_forward_table valid_ea_def tc_cfg)

end
