(* ===== verification/Serpent.thy ===== *)
theory Serpent
  imports TC_Prelude
begin

text \<open>
  Crypto/Serpent.c (the build without \<open>TC_MINIMIZE_CODE_SIZE\<close>): the S-box circuits and their
  inverses, the linear transformation, the key schedule, and encryption and decryption of a block.
  The circuits are proved to compute, on every bit column of the state, the S-boxes of the Serpent
  specification; decryption is proved to invert encryption under any key schedule.

  The macros \<open>beforeS0\<close>, \<open>afterS0\<close>, \<dots> only rename the registers a to e between the steps. Each
  function \<open>sbN\<close>, \<open>isbN\<close> below is one S-box macro together with the order in which the next step
  reads its registers, so that a state is always the quadruple of the next step's arguments. No
  circuit reads its fifth register before it writes it.
\<close>

type_synonym regs5 = "u32 \<times> u32 \<times> u32 \<times> u32 \<times> u32"

section \<open>S-box circuits\<close>

definition S0 :: "u32 \<Rightarrow> u32 \<Rightarrow> u32 \<Rightarrow> u32 \<Rightarrow> regs5" where
  "S0 r0 r1 r2 r3 =
     (let r3 = r3 XOR r0; r4 = r1; r1 = r1 AND r3; r4 = r4 XOR r2;
          r1 = r1 XOR r0; r0 = r0 OR r3; r0 = r0 XOR r4; r4 = r4 XOR r3;
          r3 = r3 XOR r2; r2 = r2 OR r1; r2 = r2 XOR r4; r4 = NOT r4;
          r4 = r4 OR r1; r1 = r1 XOR r3; r1 = r1 XOR r4; r3 = r3 OR r0;
          r1 = r1 XOR r3; r4 = r4 XOR r3
      in (r0, r1, r2, r3, r4))"

definition S1 :: "u32 \<Rightarrow> u32 \<Rightarrow> u32 \<Rightarrow> u32 \<Rightarrow> regs5" where
  "S1 r0 r1 r2 r3 =
     (let r0 = NOT r0; r2 = NOT r2; r4 = r0; r0 = r0 AND r1;
          r2 = r2 XOR r0; r0 = r0 OR r3; r3 = r3 XOR r2; r1 = r1 XOR r0;
          r0 = r0 XOR r4; r4 = r4 OR r1; r1 = r1 XOR r3; r2 = r2 OR r0;
          r2 = r2 AND r4; r0 = r0 XOR r1; r1 = r1 AND r2; r1 = r1 XOR r0;
          r0 = r0 AND r2; r0 = r0 XOR r4
      in (r0, r1, r2, r3, r4))"

definition S2 :: "u32 \<Rightarrow> u32 \<Rightarrow> u32 \<Rightarrow> u32 \<Rightarrow> regs5" where
  "S2 r0 r1 r2 r3 =
     (let r4 = r0; r0 = r0 AND r2; r0 = r0 XOR r3; r2 = r2 XOR r1;
          r2 = r2 XOR r0; r3 = r3 OR r4; r3 = r3 XOR r1; r4 = r4 XOR r2;
          r1 = r3; r3 = r3 OR r4; r3 = r3 XOR r0; r0 = r0 AND r1;
          r4 = r4 XOR r0; r1 = r1 XOR r3; r1 = r1 XOR r4; r4 = NOT r4
      in (r0, r1, r2, r3, r4))"

definition S3 :: "u32 \<Rightarrow> u32 \<Rightarrow> u32 \<Rightarrow> u32 \<Rightarrow> regs5" where
  "S3 r0 r1 r2 r3 =
     (let r4 = r0; r0 = r0 OR r3; r3 = r3 XOR r1; r1 = r1 AND r4;
          r4 = r4 XOR r2; r2 = r2 XOR r3; r3 = r3 AND r0; r4 = r4 OR r1;
          r3 = r3 XOR r4; r0 = r0 XOR r1; r4 = r4 AND r0; r1 = r1 XOR r3;
          r4 = r4 XOR r2; r1 = r1 OR r0; r1 = r1 XOR r2; r0 = r0 XOR r3;
          r2 = r1; r1 = r1 OR r3; r1 = r1 XOR r0
      in (r0, r1, r2, r3, r4))"

definition S4 :: "u32 \<Rightarrow> u32 \<Rightarrow> u32 \<Rightarrow> u32 \<Rightarrow> regs5" where
  "S4 r0 r1 r2 r3 =
     (let r1 = r1 XOR r3; r3 = NOT r3; r2 = r2 XOR r3; r3 = r3 XOR r0;
          r4 = r1; r1 = r1 AND r3; r1 = r1 XOR r2; r4 = r4 XOR r3;
          r0 = r0 XOR r4; r2 = r2 AND r4; r2 = r2 XOR r0; r0 = r0 AND r1;
          r3 = r3 XOR r0; r4 = r4 OR r1; r4 = r4 XOR r0; r0 = r0 OR r3;
          r0 = r0 XOR r2; r2 = r2 AND r3; r0 = NOT r0; r4 = r4 XOR r2
      in (r0, r1, r2, r3, r4))"

definition S5 :: "u32 \<Rightarrow> u32 \<Rightarrow> u32 \<Rightarrow> u32 \<Rightarrow> regs5" where
  "S5 r0 r1 r2 r3 =
     (let r0 = r0 XOR r1; r1 = r1 XOR r3; r3 = NOT r3; r4 = r1;
          r1 = r1 AND r0; r2 = r2 XOR r3; r1 = r1 XOR r2; r2 = r2 OR r4;
          r4 = r4 XOR r3; r3 = r3 AND r1; r3 = r3 XOR r0; r4 = r4 XOR r1;
          r4 = r4 XOR r2; r2 = r2 XOR r0; r0 = r0 AND r3; r2 = NOT r2;
          r0 = r0 XOR r4; r4 = r4 OR r3; r2 = r2 XOR r4
      in (r0, r1, r2, r3, r4))"

definition S6 :: "u32 \<Rightarrow> u32 \<Rightarrow> u32 \<Rightarrow> u32 \<Rightarrow> regs5" where
  "S6 r0 r1 r2 r3 =
     (let r2 = NOT r2; r4 = r3; r3 = r3 AND r0; r0 = r0 XOR r4;
          r3 = r3 XOR r2; r2 = r2 OR r4; r1 = r1 XOR r3; r2 = r2 XOR r0;
          r0 = r0 OR r1; r2 = r2 XOR r1; r4 = r4 XOR r0; r0 = r0 OR r3;
          r0 = r0 XOR r2; r4 = r4 XOR r3; r4 = r4 XOR r0; r3 = NOT r3;
          r2 = r2 AND r4; r2 = r2 XOR r3
      in (r0, r1, r2, r3, r4))"

definition S7 :: "u32 \<Rightarrow> u32 \<Rightarrow> u32 \<Rightarrow> u32 \<Rightarrow> regs5" where
  "S7 r0 r1 r2 r3 =
     (let r4 = r2; r2 = r2 AND r1; r2 = r2 XOR r3; r3 = r3 AND r1;
          r4 = r4 XOR r2; r2 = r2 XOR r1; r1 = r1 XOR r0; r0 = r0 OR r4;
          r0 = r0 XOR r2; r3 = r3 XOR r1; r2 = r2 XOR r3; r3 = r3 AND r0;
          r3 = r3 XOR r4; r4 = r4 XOR r2; r2 = r2 AND r0; r4 = NOT r4;
          r2 = r2 XOR r4; r4 = r4 AND r0; r1 = r1 XOR r3; r4 = r4 XOR r1
      in (r0, r1, r2, r3, r4))"

definition I0 :: "u32 \<Rightarrow> u32 \<Rightarrow> u32 \<Rightarrow> u32 \<Rightarrow> regs5" where
  "I0 r0 r1 r2 r3 =
     (let r2 = NOT r2; r4 = r1; r1 = r1 OR r0; r4 = NOT r4;
          r1 = r1 XOR r2; r2 = r2 OR r4; r1 = r1 XOR r3; r0 = r0 XOR r4;
          r2 = r2 XOR r0; r0 = r0 AND r3; r4 = r4 XOR r0; r0 = r0 OR r1;
          r0 = r0 XOR r2; r3 = r3 XOR r4; r2 = r2 XOR r1; r3 = r3 XOR r0;
          r3 = r3 XOR r1; r2 = r2 AND r3; r4 = r4 XOR r2
      in (r0, r1, r2, r3, r4))"

definition I1 :: "u32 \<Rightarrow> u32 \<Rightarrow> u32 \<Rightarrow> u32 \<Rightarrow> regs5" where
  "I1 r0 r1 r2 r3 =
     (let r4 = r1; r1 = r1 XOR r3; r3 = r3 AND r1; r4 = r4 XOR r2;
          r3 = r3 XOR r0; r0 = r0 OR r1; r2 = r2 XOR r3; r0 = r0 XOR r4;
          r0 = r0 OR r2; r1 = r1 XOR r3; r0 = r0 XOR r1; r1 = r1 OR r3;
          r1 = r1 XOR r0; r4 = NOT r4; r4 = r4 XOR r1; r1 = r1 OR r0;
          r1 = r1 XOR r0; r1 = r1 OR r4; r3 = r3 XOR r1
      in (r0, r1, r2, r3, r4))"

definition I2 :: "u32 \<Rightarrow> u32 \<Rightarrow> u32 \<Rightarrow> u32 \<Rightarrow> regs5" where
  "I2 r0 r1 r2 r3 =
     (let r2 = r2 XOR r3; r3 = r3 XOR r0; r4 = r3; r3 = r3 AND r2;
          r3 = r3 XOR r1; r1 = r1 OR r2; r1 = r1 XOR r4; r4 = r4 AND r3;
          r2 = r2 XOR r3; r4 = r4 AND r0; r4 = r4 XOR r2; r2 = r2 AND r1;
          r2 = r2 OR r0; r3 = NOT r3; r2 = r2 XOR r3; r0 = r0 XOR r3;
          r0 = r0 AND r1; r3 = r3 XOR r4; r3 = r3 XOR r0
      in (r0, r1, r2, r3, r4))"

definition I3 :: "u32 \<Rightarrow> u32 \<Rightarrow> u32 \<Rightarrow> u32 \<Rightarrow> regs5" where
  "I3 r0 r1 r2 r3 =
     (let r4 = r2; r2 = r2 XOR r1; r1 = r1 AND r2; r1 = r1 XOR r0;
          r0 = r0 AND r4; r4 = r4 XOR r3; r3 = r3 OR r1; r3 = r3 XOR r2;
          r0 = r0 XOR r4; r2 = r2 XOR r0; r0 = r0 OR r3; r0 = r0 XOR r1;
          r4 = r4 XOR r2; r2 = r2 AND r3; r1 = r1 OR r3; r1 = r1 XOR r2;
          r4 = r4 XOR r0; r2 = r2 XOR r4
      in (r0, r1, r2, r3, r4))"

definition I4 :: "u32 \<Rightarrow> u32 \<Rightarrow> u32 \<Rightarrow> u32 \<Rightarrow> regs5" where
  "I4 r0 r1 r2 r3 =
     (let r4 = r2; r2 = r2 AND r3; r2 = r2 XOR r1; r1 = r1 OR r3;
          r1 = r1 AND r0; r4 = r4 XOR r2; r4 = r4 XOR r1; r1 = r1 AND r2;
          r0 = NOT r0; r3 = r3 XOR r4; r1 = r1 XOR r3; r3 = r3 AND r0;
          r3 = r3 XOR r2; r0 = r0 XOR r1; r2 = r2 AND r0; r3 = r3 XOR r0;
          r2 = r2 XOR r4; r2 = r2 OR r3; r3 = r3 XOR r0; r2 = r2 XOR r1
      in (r0, r1, r2, r3, r4))"

definition I5 :: "u32 \<Rightarrow> u32 \<Rightarrow> u32 \<Rightarrow> u32 \<Rightarrow> regs5" where
  "I5 r0 r1 r2 r3 =
     (let r1 = NOT r1; r4 = r3; r2 = r2 XOR r1; r3 = r3 OR r0;
          r3 = r3 XOR r2; r2 = r2 OR r1; r2 = r2 AND r0; r4 = r4 XOR r3;
          r2 = r2 XOR r4; r4 = r4 OR r0; r4 = r4 XOR r1; r1 = r1 AND r2;
          r1 = r1 XOR r3; r4 = r4 XOR r2; r3 = r3 AND r4; r4 = r4 XOR r1;
          r3 = r3 XOR r0; r3 = r3 XOR r4; r4 = NOT r4
      in (r0, r1, r2, r3, r4))"

definition I6 :: "u32 \<Rightarrow> u32 \<Rightarrow> u32 \<Rightarrow> u32 \<Rightarrow> regs5" where
  "I6 r0 r1 r2 r3 =
     (let r0 = r0 XOR r2; r4 = r2; r2 = r2 AND r0; r4 = r4 XOR r3;
          r2 = NOT r2; r3 = r3 XOR r1; r2 = r2 XOR r3; r4 = r4 OR r0;
          r0 = r0 XOR r2; r3 = r3 XOR r4; r4 = r4 XOR r1; r1 = r1 AND r3;
          r1 = r1 XOR r0; r0 = r0 XOR r3; r0 = r0 OR r2; r3 = r3 XOR r1;
          r4 = r4 XOR r0
      in (r0, r1, r2, r3, r4))"

definition I7 :: "u32 \<Rightarrow> u32 \<Rightarrow> u32 \<Rightarrow> u32 \<Rightarrow> regs5" where
  "I7 r0 r1 r2 r3 =
     (let r4 = r2; r2 = r2 XOR r0; r0 = r0 AND r3; r2 = NOT r2;
          r4 = r4 OR r3; r3 = r3 XOR r1; r1 = r1 OR r0; r0 = r0 XOR r2;
          r2 = r2 AND r4; r1 = r1 XOR r2; r2 = r2 XOR r0; r0 = r0 OR r2;
          r3 = r3 AND r4; r0 = r0 XOR r3; r4 = r4 XOR r1; r3 = r3 XOR r4;
          r4 = r4 OR r0; r3 = r3 XOR r2; r4 = r4 XOR r2
      in (r0, r1, r2, r3, r4))"

definition sb0 :: "quad \<Rightarrow> quad" where
  "sb0 = (\<lambda>(a, b, c, d). case S0 a b c d of (a, b, c, d, e) \<Rightarrow> (b, e, c, a))"

definition sb1 :: "quad \<Rightarrow> quad" where
  "sb1 = (\<lambda>(b, e, c, a). case S1 b e c a of (b, e, c, a, d) \<Rightarrow> (c, b, a, e))"

definition sb2 :: "quad \<Rightarrow> quad" where
  "sb2 = (\<lambda>(c, b, a, e). case S2 c b a e of (c, b, a, e, d) \<Rightarrow> (a, e, b, d))"

definition sb3 :: "quad \<Rightarrow> quad" where
  "sb3 = (\<lambda>(a, e, b, d). case S3 a e b d of (a, e, b, d, c) \<Rightarrow> (e, b, d, c))"

definition sb4 :: "quad \<Rightarrow> quad" where
  "sb4 = (\<lambda>(e, b, d, c). case S4 e b d c of (e, b, d, c, a) \<Rightarrow> (b, a, e, c))"

definition sb5 :: "quad \<Rightarrow> quad" where
  "sb5 = (\<lambda>(b, a, e, c). case S5 b a e c of (b, a, e, c, d) \<Rightarrow> (a, c, b, e))"

definition sb6 :: "quad \<Rightarrow> quad" where
  "sb6 = (\<lambda>(a, c, b, e). case S6 a c b e of (a, c, b, e, d) \<Rightarrow> (a, c, d, b))"

definition sb7 :: "quad \<Rightarrow> quad" where
  "sb7 = (\<lambda>(a, c, d, b). case S7 a c d b of (a, c, d, b, e) \<Rightarrow> (d, e, b, a))"

definition isb7 :: "quad \<Rightarrow> quad" where
  "isb7 = (\<lambda>(a, b, c, d). case I7 a b c d of (a, b, c, d, e) \<Rightarrow> (d, a, b, e))"

definition isb6 :: "quad \<Rightarrow> quad" where
  "isb6 = (\<lambda>(d, a, b, e). case I6 d a b e of (d, a, b, e, c) \<Rightarrow> (a, b, c, e))"

definition isb5 :: "quad \<Rightarrow> quad" where
  "isb5 = (\<lambda>(a, b, c, e). case I5 a b c e of (a, b, c, e, d) \<Rightarrow> (b, d, e, c))"

definition isb4 :: "quad \<Rightarrow> quad" where
  "isb4 = (\<lambda>(b, d, e, c). case I4 b d e c of (b, d, e, c, a) \<Rightarrow> (b, c, e, a))"

definition isb3 :: "quad \<Rightarrow> quad" where
  "isb3 = (\<lambda>(b, c, e, a). case I3 b c e a of (b, c, e, a, d) \<Rightarrow> (a, b, e, c))"

definition isb2 :: "quad \<Rightarrow> quad" where
  "isb2 = (\<lambda>(a, b, e, c). case I2 a b e c of (a, b, e, c, d) \<Rightarrow> (b, d, e, c))"

definition isb1 :: "quad \<Rightarrow> quad" where
  "isb1 = (\<lambda>(b, d, e, c). case I1 b d e c of (b, d, e, c, a) \<Rightarrow> (a, b, c, e))"

definition isb0 :: "quad \<Rightarrow> quad" where
  "isb0 = (\<lambda>(a, b, c, e). case I0 a b c e of (a, b, c, e, d) \<Rightarrow> (a, d, b, e))"

section \<open>Linear transformation and key mixing\<close>

definition LT :: "quad \<Rightarrow> quad" where
  "LT = (\<lambda>(a, b, c, d).
     let a = word_rotl 13 a;
         c = word_rotl 3 c;
         d = word_rotl 7 (d XOR c XOR push_bit 3 a);
         b = word_rotl 1 (b XOR a XOR c);
         a = word_rotl 5 (a XOR b XOR d);
         c = word_rotl 22 (c XOR d XOR push_bit 7 b)
     in (a, b, c, d))"

definition ILT :: "quad \<Rightarrow> quad" where
  "ILT = (\<lambda>(a, b, c, d).
     let c = word_rotr 22 c;
         a = word_rotr 5 a;
         c = c XOR (d XOR push_bit 7 b);
         a = a XOR (b XOR d);
         b = word_rotr 1 b;
         d = word_rotr 7 d XOR c XOR push_bit 3 a;
         b = b XOR (a XOR c);
         c = word_rotr 3 c;
         a = word_rotr 13 a
     in (a, b, c, d))"

text \<open>\<open>k\<close> is the key schedule as an array of words, \<open>p\<close> the offset of the code's pointer into it.\<close>

definition KX :: "(nat \<Rightarrow> u32) \<Rightarrow> nat \<Rightarrow> nat \<Rightarrow> quad \<Rightarrow> quad" where
  "KX k p r = (\<lambda>(a, b, c, d).
     (a XOR k (p + (4 * r + 0)), b XOR k (p + (4 * r + 1)),
      c XOR k (p + (4 * r + 2)), d XOR k (p + (4 * r + 3))))"

section \<open>Encryption and decryption of a block\<close>

definition serpent_enc_rounds :: "(nat \<Rightarrow> u32) \<Rightarrow> nat \<Rightarrow> quad \<Rightarrow> quad" where
  "serpent_enc_rounds k p q =
     (let q = LT (sb0 (KX k p 0 q));
          q = LT (sb1 (KX k p 1 q));
          q = LT (sb2 (KX k p 2 q));
          q = LT (sb3 (KX k p 3 q));
          q = LT (sb4 (KX k p 4 q));
          q = LT (sb5 (KX k p 5 q));
          q = LT (sb6 (KX k p 6 q))
      in sb7 (KX k p 7 q))"

text \<open>
  The loop runs the eight rounds for i = 1 to 4; between two iterations it moves the registers of
  \<open>afterS7\<close> back to a to d, advances the key pointer by 32 words and applies \<open>LT\<close>. The argument is
  the number of iterations that are left after the current one.
\<close>

primrec serpent_enc_loop :: "(nat \<Rightarrow> u32) \<Rightarrow> nat \<Rightarrow> nat \<Rightarrow> quad \<Rightarrow> quad" where
  "serpent_enc_loop k 0 p q = KX k p 8 (serpent_enc_rounds k p q)"
| "serpent_enc_loop k (Suc n) p q = serpent_enc_loop k n (p + 32) (LT (serpent_enc_rounds k p q))"

definition ks_word :: "bytes \<Rightarrow> nat \<Rightarrow> u32" where
  "ks_word ks i = le_to_word (get_at (4 * i) 4 ks)"

definition serpent_encrypt :: "bytes \<Rightarrow> bytes \<Rightarrow> bytes" where
  "serpent_encrypt inBlock ks = bytes_of_quad (serpent_enc_loop (ks_word ks) 3 8 (quad_of_bytes inBlock))"

definition serpent_dec_rounds :: "(nat \<Rightarrow> u32) \<Rightarrow> nat \<Rightarrow> quad \<Rightarrow> quad" where
  "serpent_dec_rounds k p q =
     (let q = KX k p 7 (isb7 q);
          q = KX k p 6 (isb6 (ILT q));
          q = KX k p 5 (isb5 (ILT q));
          q = KX k p 4 (isb4 (ILT q));
          q = KX k p 3 (isb3 (ILT q));
          q = KX k p 2 (isb2 (ILT q));
          q = KX k p 1 (isb1 (ILT q))
      in KX k p 0 (isb0 (ILT q)))"

primrec serpent_dec_loop :: "(nat \<Rightarrow> u32) \<Rightarrow> nat \<Rightarrow> nat \<Rightarrow> quad \<Rightarrow> quad" where
  "serpent_dec_loop k 0 p q = serpent_dec_rounds k p q"
| "serpent_dec_loop k (Suc n) p q = serpent_dec_loop k n (p - 32) (ILT (serpent_dec_rounds k p q))"

definition serpent_decrypt :: "bytes \<Rightarrow> bytes \<Rightarrow> bytes" where
  "serpent_decrypt inBlock ks =
     (let k = ks_word ks in bytes_of_quad (serpent_dec_loop k 3 104 (KX k 104 8 (quad_of_bytes inBlock))))"

section \<open>Key schedule\<close>

text \<open>
  \<open>serpent_set_key (userKey, keylen, ks)\<close> over the array \<open>k\<close> of 140 words at \<open>ks\<close>: the copy of
  the key, the padding bit of a short key, the prekey recurrence (absolute indices; the code's
  pointer is advanced by 8), and the S-box passes in place.
\<close>

definition set_key_copy :: "bytes \<Rightarrow> nat \<Rightarrow> u32 list \<Rightarrow> u32 list" where
  "set_key_copy userKey keylen k =
     fold (\<lambda>i k. k[i := le_to_word (get_at (4 * i) 4 userKey)]) [0..<keylen div 4] k"

definition set_key_pad :: "nat \<Rightarrow> u32 list \<Rightarrow> u32 list" where
  "set_key_pad keylen k =
     (if keylen < 32 then k[keylen div 4 := k ! (keylen div 4) OR push_bit ((keylen mod 4) * 8) 1] else k)"

definition prekey_step :: "nat \<Rightarrow> u32 list \<times> u32 \<Rightarrow> u32 list \<times> u32" where
  "prekey_step i = (\<lambda>(k, t).
     let t = word_rotl 11 (k ! i XOR k ! (i + 3) XOR k ! (i + 5) XOR t XOR 0x9e3779b9 XOR word_of_nat i)
     in (k[i + 8 := t], t))"

definition prekeys :: "u32 list \<Rightarrow> u32 list" where
  "prekeys k = fst (fold prekey_step [0..<132] (k, k ! 7))"

definition sbox_at :: "(quad \<Rightarrow> quad) \<Rightarrow> nat \<Rightarrow> u32 list \<Rightarrow> u32 list" where
  "sbox_at sb i k =
     (case sb (k ! i, k ! (i + 1), k ! (i + 2), k ! (i + 3)) of (a, b, c, d) \<Rightarrow>
        k[i := a, i + 1 := b, i + 2 := c, i + 3 := d])"

definition sbox_pass :: "nat \<Rightarrow> u32 list \<Rightarrow> u32 list" where
  "sbox_pass i k =
     (let p = 8 + 32 * i;
          k = sbox_at sb3 p k;
          k = sbox_at sb2 (p + 4) k;
          k = sbox_at sb1 (p + 8) k;
          k = sbox_at sb0 (p + 12) k;
          k = sbox_at sb7 (p + 16) k;
          k = sbox_at sb6 (p + 20) k;
          k = sbox_at sb5 (p + 24) k
      in sbox_at sb4 (p + 28) k)"

definition serpent_set_key :: "bytes \<Rightarrow> nat \<Rightarrow> u32 list \<Rightarrow> u32 list" where
  "serpent_set_key userKey keylen ks =
     (let k = prekeys (set_key_pad keylen (set_key_copy userKey keylen ks))
      in sbox_at sb3 136 (fold sbox_pass [0..<4] k))"

section \<open>The circuits are the S-boxes of the specification\<close>

text \<open>
  Column \<open>n\<close> of a state is the number whose bits are the bits \<open>n\<close> of the four words. The lists are
  the S-boxes of the Serpent specification; \<open>ISBOX\<close> are their inverses.
\<close>

definition col :: "nat \<Rightarrow> quad \<Rightarrow> nat" where
  "col n = (\<lambda>(a, b, c, d).
     of_bool (bit a n) + 2 * of_bool (bit b n) + 4 * of_bool (bit c n) + 8 * of_bool (bit d n))"

definition SBOX :: "nat list list" where
  "SBOX =
    [[3, 8, 15, 1, 10, 6, 5, 11, 14, 13, 4, 2, 7, 0, 9, 12],
     [15, 12, 2, 7, 9, 0, 5, 10, 1, 11, 14, 8, 6, 13, 3, 4],
     [8, 6, 7, 9, 3, 12, 10, 15, 13, 1, 14, 4, 0, 11, 5, 2],
     [0, 15, 11, 8, 12, 9, 6, 3, 13, 1, 2, 4, 10, 7, 5, 14],
     [1, 15, 8, 3, 12, 0, 11, 6, 2, 5, 4, 10, 9, 14, 7, 13],
     [15, 5, 2, 11, 4, 10, 9, 12, 0, 3, 14, 8, 13, 6, 7, 1],
     [7, 2, 12, 5, 8, 4, 6, 11, 14, 9, 1, 15, 13, 3, 10, 0],
     [1, 13, 15, 0, 14, 8, 2, 11, 7, 4, 12, 10, 9, 3, 5, 6]]"

definition ISBOX :: "nat list list" where
  "ISBOX =
    [[13, 3, 11, 0, 10, 6, 5, 12, 1, 14, 4, 7, 15, 9, 8, 2],
     [5, 8, 2, 14, 15, 6, 12, 3, 11, 4, 7, 9, 1, 13, 10, 0],
     [12, 9, 15, 4, 11, 14, 1, 2, 0, 3, 6, 13, 5, 8, 10, 7],
     [0, 9, 10, 7, 11, 14, 6, 13, 3, 5, 12, 2, 4, 8, 15, 1],
     [5, 0, 8, 3, 10, 9, 7, 14, 2, 12, 11, 6, 4, 15, 13, 1],
     [8, 15, 2, 9, 4, 1, 13, 14, 11, 6, 5, 3, 7, 12, 10, 0],
     [15, 10, 1, 13, 5, 3, 6, 0, 4, 9, 14, 7, 2, 12, 8, 11],
     [3, 0, 6, 13, 9, 14, 15, 8, 5, 12, 11, 7, 10, 1, 4, 2]]"

lemma SBOX_inverse: "i < 8 \<Longrightarrow> x < 16 \<Longrightarrow> ISBOX ! i ! (SBOX ! i ! x) = x"
proof -
  have "\<forall>i\<in>set [0..<8]. \<forall>x\<in>set [0..<16]. ISBOX ! i ! (SBOX ! i ! x) = x"
    by (simp add: upt_rec SBOX_def ISBOX_def)
  then show "i < 8 \<Longrightarrow> x < 16 \<Longrightarrow> ?thesis" by auto
qed

lemma sb0_col: "n < 32 \<Longrightarrow> col n (sb0 q) = SBOX ! 0 ! col n q"
  by (cases q; cases "bit (fst q) n"; cases "bit (fst (snd q)) n"; cases "bit (fst (snd (snd q))) n";
      cases "bit (snd (snd (snd q))) n")
     (simp_all add: col_def sb0_def S0_def Let_def SBOX_def bit_simps)

lemma sb1_col: "n < 32 \<Longrightarrow> col n (sb1 q) = SBOX ! 1 ! col n q"
  by (cases q; cases "bit (fst q) n"; cases "bit (fst (snd q)) n"; cases "bit (fst (snd (snd q))) n";
      cases "bit (snd (snd (snd q))) n")
     (simp_all add: col_def sb1_def S1_def Let_def SBOX_def bit_simps)

lemma sb2_col: "n < 32 \<Longrightarrow> col n (sb2 q) = SBOX ! 2 ! col n q"
  by (cases q; cases "bit (fst q) n"; cases "bit (fst (snd q)) n"; cases "bit (fst (snd (snd q))) n";
      cases "bit (snd (snd (snd q))) n")
     (simp_all add: col_def sb2_def S2_def Let_def SBOX_def bit_simps)

lemma sb3_col: "n < 32 \<Longrightarrow> col n (sb3 q) = SBOX ! 3 ! col n q"
  by (cases q; cases "bit (fst q) n"; cases "bit (fst (snd q)) n"; cases "bit (fst (snd (snd q))) n";
      cases "bit (snd (snd (snd q))) n")
     (simp_all add: col_def sb3_def S3_def Let_def SBOX_def bit_simps)

lemma sb4_col: "n < 32 \<Longrightarrow> col n (sb4 q) = SBOX ! 4 ! col n q"
  by (cases q; cases "bit (fst q) n"; cases "bit (fst (snd q)) n"; cases "bit (fst (snd (snd q))) n";
      cases "bit (snd (snd (snd q))) n")
     (simp_all add: col_def sb4_def S4_def Let_def SBOX_def bit_simps)

lemma sb5_col: "n < 32 \<Longrightarrow> col n (sb5 q) = SBOX ! 5 ! col n q"
  by (cases q; cases "bit (fst q) n"; cases "bit (fst (snd q)) n"; cases "bit (fst (snd (snd q))) n";
      cases "bit (snd (snd (snd q))) n")
     (simp_all add: col_def sb5_def S5_def Let_def SBOX_def bit_simps)

lemma sb6_col: "n < 32 \<Longrightarrow> col n (sb6 q) = SBOX ! 6 ! col n q"
  by (cases q; cases "bit (fst q) n"; cases "bit (fst (snd q)) n"; cases "bit (fst (snd (snd q))) n";
      cases "bit (snd (snd (snd q))) n")
     (simp_all add: col_def sb6_def S6_def Let_def SBOX_def bit_simps)

lemma sb7_col: "n < 32 \<Longrightarrow> col n (sb7 q) = SBOX ! 7 ! col n q"
  by (cases q; cases "bit (fst q) n"; cases "bit (fst (snd q)) n"; cases "bit (fst (snd (snd q))) n";
      cases "bit (snd (snd (snd q))) n")
     (simp_all add: col_def sb7_def S7_def Let_def SBOX_def bit_simps)

lemma isb0_col: "n < 32 \<Longrightarrow> col n (isb0 q) = ISBOX ! 0 ! col n q"
  by (cases q; cases "bit (fst q) n"; cases "bit (fst (snd q)) n"; cases "bit (fst (snd (snd q))) n";
      cases "bit (snd (snd (snd q))) n")
     (simp_all add: col_def isb0_def I0_def Let_def ISBOX_def bit_simps)

lemma isb1_col: "n < 32 \<Longrightarrow> col n (isb1 q) = ISBOX ! 1 ! col n q"
  by (cases q; cases "bit (fst q) n"; cases "bit (fst (snd q)) n"; cases "bit (fst (snd (snd q))) n";
      cases "bit (snd (snd (snd q))) n")
     (simp_all add: col_def isb1_def I1_def Let_def ISBOX_def bit_simps)

lemma isb2_col: "n < 32 \<Longrightarrow> col n (isb2 q) = ISBOX ! 2 ! col n q"
  by (cases q; cases "bit (fst q) n"; cases "bit (fst (snd q)) n"; cases "bit (fst (snd (snd q))) n";
      cases "bit (snd (snd (snd q))) n")
     (simp_all add: col_def isb2_def I2_def Let_def ISBOX_def bit_simps)

lemma isb3_col: "n < 32 \<Longrightarrow> col n (isb3 q) = ISBOX ! 3 ! col n q"
  by (cases q; cases "bit (fst q) n"; cases "bit (fst (snd q)) n"; cases "bit (fst (snd (snd q))) n";
      cases "bit (snd (snd (snd q))) n")
     (simp_all add: col_def isb3_def I3_def Let_def ISBOX_def bit_simps)

lemma isb4_col: "n < 32 \<Longrightarrow> col n (isb4 q) = ISBOX ! 4 ! col n q"
  by (cases q; cases "bit (fst q) n"; cases "bit (fst (snd q)) n"; cases "bit (fst (snd (snd q))) n";
      cases "bit (snd (snd (snd q))) n")
     (simp_all add: col_def isb4_def I4_def Let_def ISBOX_def bit_simps)

lemma isb5_col: "n < 32 \<Longrightarrow> col n (isb5 q) = ISBOX ! 5 ! col n q"
  by (cases q; cases "bit (fst q) n"; cases "bit (fst (snd q)) n"; cases "bit (fst (snd (snd q))) n";
      cases "bit (snd (snd (snd q))) n")
     (simp_all add: col_def isb5_def I5_def Let_def ISBOX_def bit_simps)

lemma isb6_col: "n < 32 \<Longrightarrow> col n (isb6 q) = ISBOX ! 6 ! col n q"
  by (cases q; cases "bit (fst q) n"; cases "bit (fst (snd q)) n"; cases "bit (fst (snd (snd q))) n";
      cases "bit (snd (snd (snd q))) n")
     (simp_all add: col_def isb6_def I6_def Let_def ISBOX_def bit_simps)

lemma isb7_col: "n < 32 \<Longrightarrow> col n (isb7 q) = ISBOX ! 7 ! col n q"
  by (cases q; cases "bit (fst q) n"; cases "bit (fst (snd q)) n"; cases "bit (fst (snd (snd q))) n";
      cases "bit (snd (snd (snd q))) n")
     (simp_all add: col_def isb7_def I7_def Let_def ISBOX_def bit_simps)

lemma col_bound: "col n q < 16"
  by (auto simp: col_def split: prod.splits)

lemma quad_col_eqI:
  assumes "\<And>n. n < 32 \<Longrightarrow> col n q = col n r"
  shows "q = r"
proof -
  obtain a b c d a' b' c' d' where q: "q = (a, b, c, d)" "r = (a', b', c', d')"
    by (metis prod.exhaust)
  have bits: "(bit a n \<longleftrightarrow> bit a' n) \<and> (bit b n \<longleftrightarrow> bit b' n) \<and> (bit c n \<longleftrightarrow> bit c' n) \<and> (bit d n \<longleftrightarrow> bit d' n)"
    if "n < 32" for n
    using assms[OF that] by (auto simp: col_def q of_bool_def split: if_splits)
  show ?thesis
    unfolding q by (intro arg_cong2 [where f = Pair] bit_word_eqI) (simp_all add: bits)
qed

lemmas sb_col = sb0_col sb1_col sb2_col sb3_col sb4_col sb5_col sb6_col sb7_col
lemmas isb_col = isb0_col isb1_col isb2_col isb3_col isb4_col isb5_col isb6_col isb7_col

lemma isb_sb [simp]:
  "isb0 (sb0 q) = q" "isb1 (sb1 q) = q" "isb2 (sb2 q) = q" "isb3 (sb3 q) = q"
  "isb4 (sb4 q) = q" "isb5 (sb5 q) = q" "isb6 (sb6 q) = q" "isb7 (sb7 q) = q"
  by (rule quad_col_eqI; simp add: sb_col isb_col SBOX_inverse col_bound)+

section \<open>Decryption inverts encryption\<close>

lemma ILT_LT [simp]: "ILT (LT q) = q"
  by (cases q) (simp add: LT_def ILT_def Let_def word_rot_lr word_rot_rl word_xor_simps)

lemma KX_KX [simp]: "KX k p r (KX k p r q) = q"
  by (cases q) (simp add: KX_def xor.assoc)

lemma dec_enc_rounds [simp]: "serpent_dec_rounds k p (serpent_enc_rounds k p q) = q"
  by (simp add: serpent_dec_rounds_def serpent_enc_rounds_def Let_def)


lemma dec_enc_loop:
  "serpent_dec_loop k 3 104 (KX k 104 8 (serpent_enc_loop k 3 8 q)) = q"
  by (simp add: numeral_3_eq_3)

lemma length_serpent [simp, tc_len]:
  "length (serpent_encrypt b ks) = 16" "length (serpent_decrypt b ks) = 16"
  by (simp_all add: serpent_encrypt_def serpent_decrypt_def Let_def)

lemma serpent_decrypt_encrypt_block:
  "length b = 16 \<Longrightarrow> serpent_decrypt (serpent_encrypt b ks) ks = b"
  by (simp add: serpent_encrypt_def serpent_decrypt_def dec_enc_loop Let_def)

lemma SBOX_inverse': "i < 8 \<Longrightarrow> x < 16 \<Longrightarrow> SBOX ! i ! (ISBOX ! i ! x) = x"
proof -
  have "\<forall>i\<in>set [0..<8]. \<forall>x\<in>set [0..<16]. SBOX ! i ! (ISBOX ! i ! x) = x"
    by (simp add: upt_rec SBOX_def ISBOX_def)
  then show "i < 8 \<Longrightarrow> x < 16 \<Longrightarrow> ?thesis" by auto
qed

lemma sb_isb [simp]:
  "sb0 (isb0 q) = q" "sb1 (isb1 q) = q" "sb2 (isb2 q) = q" "sb3 (isb3 q) = q"
  "sb4 (isb4 q) = q" "sb5 (isb5 q) = q" "sb6 (isb6 q) = q" "sb7 (isb7 q) = q"
  by (rule quad_col_eqI; simp add: sb_col isb_col SBOX_inverse' col_bound)+

lemma LT_ILT [simp]: "LT (ILT q) = q"
  by (cases q) (simp add: LT_def ILT_def Let_def word_rot_lr word_rot_rl word_xor_simps)

lemma enc_dec_rounds [simp]: "serpent_enc_rounds k p (serpent_dec_rounds k p q) = q"
  by (simp add: serpent_dec_rounds_def serpent_enc_rounds_def Let_def)

lemma enc_dec_loop:
  "serpent_enc_loop k 3 8 (serpent_dec_loop k 3 104 (KX k 104 8 q)) = q"
  by (simp add: numeral_3_eq_3)

lemma serpent_encrypt_decrypt_block:
  "length b = 16 \<Longrightarrow> serpent_encrypt (serpent_decrypt b ks) ks = b"
  by (simp add: serpent_encrypt_def serpent_decrypt_def enc_dec_loop Let_def)

section \<open>The key schedule depends on the first 32 key bytes only\<close>

lemma length_set_key_copy [simp, tc_len]: "length (set_key_copy u n k) = length k"
  by (simp add: set_key_copy_def)

lemma nth_set_key_copy:
  "i < length k \<Longrightarrow>
   set_key_copy u n k ! i = (if i < n div 4 then le_to_word (get_at (4 * i) 4 u) else k ! i)"
proof -
  have "fold (\<lambda>i k. k[i := f i]) [0..<m] k ! i = (if i < m then f i else k ! i)"
    if "i < length k" for f :: "nat \<Rightarrow> u32" and m k
    using that by (induction m) (auto simp: nth_list_update less_Suc_eq)
  then show "i < length k \<Longrightarrow> ?thesis" by (simp add: set_key_copy_def)
qed

definition prekey_word :: "nat \<Rightarrow> u32 list \<Rightarrow> u32 \<Rightarrow> u32" where
  "prekey_word i k t =
     word_rotl 11 (k ! i XOR k ! (i + 3) XOR k ! (i + 5) XOR t XOR 0x9e3779b9 XOR word_of_nat i)"

lemma prekey_fold_Suc:
  "fold prekey_step [0..<n] s = (k, t) \<Longrightarrow>
   fold prekey_step [0..<Suc n] s = (k[n + 8 := prekey_word n k t], prekey_word n k t)"
  by (simp add: prekey_word_def) (simp add: prekey_step_def Let_def)

lemma length_prekey_fold: "length (fst (fold prekey_step xs s)) = length (fst s)"
  by (induction xs arbitrary: s) (auto simp: prekey_step_def Let_def split: prod.splits)

lemma take_update_agree:
  "take m a = take m b \<Longrightarrow> m < length a \<Longrightarrow> m < length b \<Longrightarrow>
   take (Suc m) (a[m := x]) = take (Suc m) (b[m := x])"
  by (simp add: take_Suc_conv_app_nth)

text \<open>
  Step \<open>i\<close> of the recurrence reads words \<open>i\<close>, \<open>i + 3\<close>, \<open>i + 5\<close> and the last output only, all below
  \<open>i + 8\<close>, and writes word \<open>i + 8\<close>: what the array held from word 8 on is never read.
\<close>

lemma prekey_fold_agree:
  assumes "take 8 k = take 8 k'" "length k = length k'" "n + 8 \<le> length k" "0 < length k"
  shows "take (n + 8) (fst (fold prekey_step [0..<n] (k, t))) =
           take (n + 8) (fst (fold prekey_step [0..<n] (k', t))) \<and>
         snd (fold prekey_step [0..<n] (k, t)) = snd (fold prekey_step [0..<n] (k', t))"
  using assms
proof (induction n)
  case (Suc n)
  obtain a ta b tb where ab: "fold prekey_step [0..<n] (k, t) = (a, ta)"
    "fold prekey_step [0..<n] (k', t) = (b, tb)"
    by (metis surj_pair)
  have len: "length a = length k" "length b = length k"
    using length_prekey_fold [of "[0..<n]" "(k, t)"] length_prekey_fold [of "[0..<n]" "(k', t)"]
      ab Suc.prems by simp_all
  have IH: "take (n + 8) a = take (n + 8) b" "ta = tb"
    using Suc ab by simp_all
  have nth: "a ! j = b ! j" if "j < n + 8" for j
    using that IH(1) by (metis nth_take)
  have "prekey_word n a ta = prekey_word n b tb"
    by (simp add: prekey_word_def nth IH)
  then show ?case
    using take_update_agree [OF IH(1), of "prekey_word n b tb"] Suc.prems len
    by (simp add: prekey_fold_Suc [OF ab(1)] prekey_fold_Suc [OF ab(2)] del: upt_Suc)
qed simp

lemma prekeys_cong:
  assumes "take 8 k = take 8 k'" "length k = 140" "length k' = 140"
  shows "prekeys k = prekeys k'"
proof -
  have "k ! 7 = k' ! 7"
    using nth_take [of 7 8 k] nth_take [of 7 8 k'] assms(1) by simp
  then have "take (132 + 8) (prekeys k) = take (132 + 8) (prekeys k')"
    using prekey_fold_agree [of k k' 132 "k ! 7"] assms by (simp add: prekeys_def)
  moreover have "length (prekeys k) = 140" "length (prekeys k') = 140"
    by (simp_all add: prekeys_def length_prekey_fold assms)
  ultimately show ?thesis by simp
qed

lemma set_key_copy_take8:
  assumes "take 32 u = take 32 u'" "32 \<le> n" "n \<le> 256" "length k = 140" "length k' = 140"
  shows "take 8 (set_key_copy u n k) = take 8 (set_key_copy u' n k')"
proof (rule nth_equalityI)
  fix i assume i: "i < length (take 8 (set_key_copy u n k))"
  then have "get_at (4 * i) 4 u = get_at (4 * i) 4 u'"
    using get_at_take [of "4 * i" 4 32 u] get_at_take [of "4 * i" 4 32 u'] assms(1,4) by simp
  moreover have "i < n div 4"
    using i assms(2,4) by simp
  ultimately show "take 8 (set_key_copy u n k) ! i = take 8 (set_key_copy u' n k') ! i"
    using i assms by (simp add: nth_set_key_copy)
qed (use assms in simp)

text \<open>
  \<open>CipherInit\<close> calls \<open>serpent_set_key (key, 32 * 8, ks)\<close>: the copy loop reads 256 bytes at
  \<open>userKey\<close>, but the recurrence overwrites every word from word 8 on, so the schedule is a function
  of the 32 key bytes.
\<close>

lemma serpent_set_key_first_32:
  assumes "take 32 u = take 32 u'" "length k = 140" "length k' = 140"
  shows "serpent_set_key u 256 k = serpent_set_key u' 256 k'"
proof -
  have "prekeys (set_key_copy u 256 k) = prekeys (set_key_copy u' 256 k')"
    by (rule prekeys_cong) (use set_key_copy_take8 [of u u' 256 k k'] assms in simp_all)
  then show ?thesis by (simp add: serpent_set_key_def set_key_pad_def)
qed

end
