(* ===== verification/Twofish.thy ===== *)
theory Twofish
  imports TC_Prelude
begin

text \<open>
  \<open>src/Crypto/Twofish.c\<close>: the permutations \<open>q0\<close> and \<open>q1\<close>, the MDS tables, the keyed tables, the key
  schedule, and the block functions in both builds (keyed tables and unrolled rounds; and the
  \<open>TC_MINIMIZE_CODE_SIZE\<close> build, which loops and recomputes \<open>h\<close>). The lemmas show that the keyed
  tables compute the function \<open>h\<close> of the specification, that both builds agree after
  \<open>twofish_set_key\<close>, and that decryption inverts encryption for every instance.
\<close>

unbundle bit_operations_syntax

record TwofishInstance =
  l_key :: "u32 list"
  s_key :: "u32 list"
  mk_tab :: "u32 list"
  k_len :: u32

section \<open>The permutations and the MDS tables\<close>

definition ror4 :: "u8 list" where
  "ror4 = [0, 8, 1, 9, 2, 10, 3, 11, 4, 12, 5, 13, 6, 14, 7, 15]"

definition ashx :: "u8 list" where
  "ashx = [0, 9, 2, 11, 4, 13, 6, 15, 8, 1, 10, 3, 12, 5, 14, 7]"

definition qt0 :: "u8 list list" where
  "qt0 = [[8, 1, 7, 13, 6, 15, 3, 2, 0, 11, 5, 9, 14, 12, 10, 4],
          [2, 8, 11, 13, 15, 7, 6, 14, 3, 1, 9, 4, 0, 10, 12, 5]]"

definition qt1 :: "u8 list list" where
  "qt1 = [[14, 12, 11, 8, 1, 2, 3, 5, 15, 4, 10, 6, 7, 0, 9, 13],
          [1, 14, 2, 11, 4, 12, 3, 7, 6, 13, 10, 5, 15, 9, 0, 8]]"

definition qt2 :: "u8 list list" where
  "qt2 = [[11, 10, 5, 14, 6, 13, 9, 0, 12, 8, 15, 3, 2, 4, 7, 1],
          [4, 12, 7, 5, 1, 6, 9, 10, 0, 14, 13, 8, 2, 11, 3, 15]]"

definition qt3 :: "u8 list list" where
  "qt3 = [[13, 7, 15, 4, 1, 2, 6, 14, 9, 11, 3, 0, 8, 5, 12, 10],
          [11, 9, 5, 1, 12, 3, 13, 14, 6, 4, 7, 15, 2, 0, 8, 10]]"

definition qp :: "nat \<Rightarrow> u8 \<Rightarrow> u8" where
  "qp n x =
     (let a0 = drop_bit 4 x; b0 = x AND 15;
          a1 = a0 XOR b0; b1 = ror4 ! unat b0 XOR ashx ! unat a0;
          a2 = qt0 ! n ! unat a1; b2 = qt1 ! n ! unat b1;
          a3 = a2 XOR b2; b3 = ror4 ! unat b2 XOR ashx ! unat a2;
          a4 = qt2 ! n ! unat a3; b4 = qt3 ! n ! unat b3
      in push_bit 4 b4 OR a4)"

text \<open>\<open>gen_qtab\<close> is the content of the static array \<open>q_tab\<close> once it is generated.\<close>

definition gen_qtab :: "u8 list list" where
  "gen_qtab = map (\<lambda>n. map (\<lambda>i. qp n (word_of_nat i)) [0..<256]) [0, 1]"

definition q_tab :: "nat \<Rightarrow> u8 \<Rightarrow> u8" where
  "q_tab n x = gen_qtab ! n ! unat x"

definition tab_5b :: "u32 list" where
  "tab_5b = [0, drop_bit 2 0x169, drop_bit 1 0x169, drop_bit 1 0x169 XOR drop_bit 2 0x169]"

definition tab_ef :: "u32 list" where
  "tab_ef = [0, drop_bit 1 0x169 XOR drop_bit 2 0x169, drop_bit 1 0x169, drop_bit 2 0x169]"

definition ffm_5b :: "u32 \<Rightarrow> u32" where
  "ffm_5b x = x XOR drop_bit 2 x XOR tab_5b ! unat (x AND 3)"

definition ffm_ef :: "u32 \<Rightarrow> u32" where
  "ffm_ef x = x XOR drop_bit 1 x XOR drop_bit 2 x XOR tab_ef ! unat (x AND 3)"

definition gen_mtab_row :: "nat \<Rightarrow> u8 \<Rightarrow> u32" where
  "gen_mtab_row n i =
     (let f01 = ucast (q_tab 1 i); f5b = ffm_5b f01; fef = ffm_ef f01;
          g01 = ucast (q_tab 0 i); g5b = ffm_5b g01; gef = ffm_ef g01
      in if n = 0 then f01 + push_bit 8 f5b + push_bit 16 fef + push_bit 24 fef
         else if n = 2 then f5b + push_bit 8 fef + push_bit 16 f01 + push_bit 24 fef
         else if n = 1 then gef + push_bit 8 gef + push_bit 16 g5b + push_bit 24 g01
         else g5b + push_bit 8 g01 + push_bit 16 gef + push_bit 24 g5b)"

definition gen_mtab :: "u32 list list" where
  "gen_mtab = map (\<lambda>n. map (\<lambda>i. gen_mtab_row n (word_of_nat i)) [0..<256]) [0..<4]"

definition mds :: "nat \<Rightarrow> u8 \<Rightarrow> u32" where
  "mds n x = gen_mtab ! n ! unat x"

definition extract_byte :: "u32 \<Rightarrow> nat \<Rightarrow> u8" where
  "extract_byte x n = ucast (drop_bit (8 * n) x)"

section \<open>The function h and the keyed tables\<close>

definition h_stage4 :: "u32 list \<Rightarrow> u8 \<times> u8 \<times> u8 \<times> u8 \<Rightarrow> u8 \<times> u8 \<times> u8 \<times> u8" where
  "h_stage4 key = (\<lambda>(b0, b1, b2, b3).
     (q_tab 1 b0 XOR extract_byte (key ! 3) 0, q_tab 0 b1 XOR extract_byte (key ! 3) 1,
      q_tab 0 b2 XOR extract_byte (key ! 3) 2, q_tab 1 b3 XOR extract_byte (key ! 3) 3))"

definition h_stage3 :: "u32 list \<Rightarrow> u8 \<times> u8 \<times> u8 \<times> u8 \<Rightarrow> u8 \<times> u8 \<times> u8 \<times> u8" where
  "h_stage3 key = (\<lambda>(b0, b1, b2, b3).
     (q_tab 1 b0 XOR extract_byte (key ! 2) 0, q_tab 1 b1 XOR extract_byte (key ! 2) 1,
      q_tab 0 b2 XOR extract_byte (key ! 2) 2, q_tab 0 b3 XOR extract_byte (key ! 2) 3))"

definition h_stage2 :: "u32 list \<Rightarrow> u8 \<times> u8 \<times> u8 \<times> u8 \<Rightarrow> u8 \<times> u8 \<times> u8 \<times> u8" where
  "h_stage2 key = (\<lambda>(b0, b1, b2, b3).
     (q_tab 0 (q_tab 0 b0 XOR extract_byte (key ! 1) 0) XOR extract_byte (key ! 0) 0,
      q_tab 0 (q_tab 1 b1 XOR extract_byte (key ! 1) 1) XOR extract_byte (key ! 0) 1,
      q_tab 1 (q_tab 0 b2 XOR extract_byte (key ! 1) 2) XOR extract_byte (key ! 0) 2,
      q_tab 1 (q_tab 1 b3 XOR extract_byte (key ! 1) 3) XOR extract_byte (key ! 0) 3))"

text \<open>The cases of the switch on \<open>k_len\<close> fall through; any other length changes nothing.\<close>

definition h_fun :: "u32 \<Rightarrow> u32 \<Rightarrow> u32 list \<Rightarrow> u32" where
  "h_fun klen x key =
     (let b = (extract_byte x 0, extract_byte x 1, extract_byte x 2, extract_byte x 3);
          b = (if klen = 4 then h_stage4 key b else b);
          b = (if klen = 4 \<or> klen = 3 then h_stage3 key b else b);
          (b0, b1, b2, b3) = (if klen = 4 \<or> klen = 3 \<or> klen = 2 then h_stage2 key b else b)
      in mds 0 b0 XOR mds 1 b1 XOR mds 2 b2 XOR mds 3 b3)"

definition q20 :: "u32 list \<Rightarrow> u8 \<Rightarrow> u8" where
  "q20 key x = q_tab 0 (q_tab 0 x XOR extract_byte (key ! 1) 0) XOR extract_byte (key ! 0) 0"

definition q21 :: "u32 list \<Rightarrow> u8 \<Rightarrow> u8" where
  "q21 key x = q_tab 0 (q_tab 1 x XOR extract_byte (key ! 1) 1) XOR extract_byte (key ! 0) 1"

definition q22 :: "u32 list \<Rightarrow> u8 \<Rightarrow> u8" where
  "q22 key x = q_tab 1 (q_tab 0 x XOR extract_byte (key ! 1) 2) XOR extract_byte (key ! 0) 2"

definition q23 :: "u32 list \<Rightarrow> u8 \<Rightarrow> u8" where
  "q23 key x = q_tab 1 (q_tab 1 x XOR extract_byte (key ! 1) 3) XOR extract_byte (key ! 0) 3"

definition q30 :: "u32 list \<Rightarrow> u8 \<Rightarrow> u8" where
  "q30 key x =
     q_tab 0 (q_tab 0 (q_tab 1 x XOR extract_byte (key ! 2) 0) XOR extract_byte (key ! 1) 0) XOR extract_byte (key ! 0) 0"

definition q31 :: "u32 list \<Rightarrow> u8 \<Rightarrow> u8" where
  "q31 key x =
     q_tab 0 (q_tab 1 (q_tab 1 x XOR extract_byte (key ! 2) 1) XOR extract_byte (key ! 1) 1) XOR extract_byte (key ! 0) 1"

definition q32 :: "u32 list \<Rightarrow> u8 \<Rightarrow> u8" where
  "q32 key x =
     q_tab 1 (q_tab 0 (q_tab 0 x XOR extract_byte (key ! 2) 2) XOR extract_byte (key ! 1) 2) XOR extract_byte (key ! 0) 2"

definition q33 :: "u32 list \<Rightarrow> u8 \<Rightarrow> u8" where
  "q33 key x =
     q_tab 1 (q_tab 1 (q_tab 0 x XOR extract_byte (key ! 2) 3) XOR extract_byte (key ! 1) 3) XOR extract_byte (key ! 0) 3"

definition q40 :: "u32 list \<Rightarrow> u8 \<Rightarrow> u8" where
  "q40 key x =
     q_tab 0 (q_tab 0 (q_tab 1 (q_tab 1 x XOR extract_byte (key ! 3) 0) XOR extract_byte (key ! 2) 0)
       XOR extract_byte (key ! 1) 0) XOR extract_byte (key ! 0) 0"

definition q41 :: "u32 list \<Rightarrow> u8 \<Rightarrow> u8" where
  "q41 key x =
     q_tab 0 (q_tab 1 (q_tab 1 (q_tab 0 x XOR extract_byte (key ! 3) 1) XOR extract_byte (key ! 2) 1)
       XOR extract_byte (key ! 1) 1) XOR extract_byte (key ! 0) 1"

definition q42 :: "u32 list \<Rightarrow> u8 \<Rightarrow> u8" where
  "q42 key x =
     q_tab 1 (q_tab 0 (q_tab 0 (q_tab 0 x XOR extract_byte (key ! 3) 2) XOR extract_byte (key ! 2) 2)
       XOR extract_byte (key ! 1) 2) XOR extract_byte (key ! 0) 2"

definition q43 :: "u32 list \<Rightarrow> u8 \<Rightarrow> u8" where
  "q43 key x =
     q_tab 1 (q_tab 1 (q_tab 0 (q_tab 1 x XOR extract_byte (key ! 3) 3) XOR extract_byte (key ! 2) 3)
       XOR extract_byte (key ! 1) 3) XOR extract_byte (key ! 0) 3"

definition mk_row :: "u32 \<Rightarrow> u32 list \<Rightarrow> nat \<Rightarrow> u32 list" where
  "mk_row klen key i =
     (let by = word_of_nat i in
      if klen = 2 then
        [mds 0 (q20 key by), mds 1 (q21 key by), mds 2 (q22 key by), mds 3 (q23 key by)]
      else if klen = 3 then
        [mds 0 (q30 key by), mds 1 (q31 key by), mds 2 (q32 key by), mds 3 (q33 key by)]
      else
        [mds 0 (q40 key by), mds 1 (q41 key by), mds 2 (q42 key by), mds 3 (q43 key by)])"

definition gen_mk_tab :: "TwofishInstance \<Rightarrow> u32 list \<Rightarrow> TwofishInstance" where
  "gen_mk_tab inst key =
     (if k_len inst = 2 \<or> k_len inst = 3 \<or> k_len inst = 4
      then inst\<lparr>mk_tab := concat (map (mk_row (k_len inst) key) [0..<256])\<rparr>
      else inst)"

definition g0_fun :: "u32 list \<Rightarrow> u32 \<Rightarrow> u32" where
  "g0_fun mk x =
     mk ! (0 + 4 * unat (extract_byte x 0)) XOR mk ! (1 + 4 * unat (extract_byte x 1)) XOR
     mk ! (2 + 4 * unat (extract_byte x 2)) XOR mk ! (3 + 4 * unat (extract_byte x 3))"

definition g1_fun :: "u32 list \<Rightarrow> u32 \<Rightarrow> u32" where
  "g1_fun mk x =
     mk ! (0 + 4 * unat (extract_byte x 3)) XOR mk ! (1 + 4 * unat (extract_byte x 0)) XOR
     mk ! (2 + 4 * unat (extract_byte x 1)) XOR mk ! (3 + 4 * unat (extract_byte x 2))"

section \<open>Key schedule\<close>

definition mds_rem_step :: "u32 \<times> u32 \<Rightarrow> u32 \<times> u32" where
  "mds_rem_step = (\<lambda>(p0, p1).
     let t = drop_bit 24 p1;
         p1 = push_bit 8 p1 OR drop_bit 24 p0;
         p0 = push_bit 8 p0;
         u = push_bit 1 t;
         u = (if bit t 7 then u XOR 0x14d else u);
         p1 = p1 XOR (t XOR push_bit 16 u);
         u = u XOR drop_bit 1 t;
         u = (if bit t 0 then u XOR drop_bit 1 0x14d else u);
         p1 = p1 XOR (push_bit 24 u OR push_bit 8 u)
     in (p0, p1))"

definition mds_rem :: "u32 \<Rightarrow> u32 \<Rightarrow> u32" where
  "mds_rem p0 p1 = snd ((mds_rem_step ^^ 8) (p0, p1))"

definition l_key_pair :: "u32 \<Rightarrow> u32 list \<Rightarrow> u32 list \<Rightarrow> nat \<Rightarrow> u32 list" where
  "l_key_pair klen me_key mo_key i =
     (let a = 0x01010101 * word_of_nat i; b = a + 0x01010101;
          a = h_fun klen a me_key;
          b = word_rotl 8 (h_fun klen b mo_key)
      in [a + b, word_rotl 9 (a + 2 * b)])"

text \<open>
  \<open>in_key\<close> is the key as an array of words. The loops fill \<open>me_key\<close> and \<open>mo_key\<close> in order, \<open>s_key\<close>
  from its entry \<open>k_len - 1\<close> down, and \<open>l_key\<close> in pairs.
\<close>

definition twofish_set_key :: "TwofishInstance \<Rightarrow> u32 list \<Rightarrow> u32 \<Rightarrow> TwofishInstance" where
  "twofish_set_key inst in_key key_len =
     (let klen = key_len div 64; n = unat klen;
          me_key = map (\<lambda>i. in_key ! (i + i)) [0..<n];
          mo_key = map (\<lambda>i. in_key ! (i + i + 1)) [0..<n];
          sk = fold (\<lambda>i s. s[n - i - 1 := mds_rem (me_key ! i) (mo_key ! i)]) [0..<n] (s_key inst);
          lk = concat (map (\<lambda>j. l_key_pair klen me_key mo_key (2 * j)) [0..<20])
      in gen_mk_tab (inst\<lparr>l_key := lk, s_key := sk, k_len := klen\<rparr>) sk)"

section \<open>Block functions\<close>

definition f_rnd :: "(u32 \<Rightarrow> u32) \<Rightarrow> (u32 \<Rightarrow> u32) \<Rightarrow> u32 list \<Rightarrow> nat \<Rightarrow> quad \<Rightarrow> quad" where
  "f_rnd g0 g1 lk i = (\<lambda>(b0, b1, b2, b3).
     let t1 = g1 b1; t0 = g0 b0;
         b2 = word_rotr 1 (b2 XOR (t0 + t1 + lk ! (4 * i + 8)));
         b3 = word_rotl 1 b3 XOR (t0 + 2 * t1 + lk ! (4 * i + 9));
         t1 = g1 b3; t0 = g0 b2;
         b0 = word_rotr 1 (b0 XOR (t0 + t1 + lk ! (4 * i + 10)));
         b1 = word_rotl 1 b1 XOR (t0 + 2 * t1 + lk ! (4 * i + 11))
     in (b0, b1, b2, b3))"

definition i_rnd :: "(u32 \<Rightarrow> u32) \<Rightarrow> (u32 \<Rightarrow> u32) \<Rightarrow> u32 list \<Rightarrow> nat \<Rightarrow> quad \<Rightarrow> quad" where
  "i_rnd g0 g1 lk i = (\<lambda>(b0, b1, b2, b3).
     let t1 = g1 b1; t0 = g0 b0;
         b2 = word_rotl 1 b2 XOR (t0 + t1 + lk ! (4 * i + 10));
         b3 = word_rotr 1 (b3 XOR (t0 + 2 * t1 + lk ! (4 * i + 11)));
         t1 = g1 b3; t0 = g0 b2;
         b0 = word_rotl 1 b0 XOR (t0 + t1 + lk ! (4 * i + 8));
         b1 = word_rotr 1 (b1 XOR (t0 + 2 * t1 + lk ! (4 * i + 9)))
     in (b0, b1, b2, b3))"

text \<open>\<open>whiten lk o\<close> xors the block with the words \<open>o\<close> to \<open>o + 3\<close> of \<open>l_key\<close>; \<open>swap_halves\<close> is the
  order in which the output words are read.\<close>

definition whiten :: "u32 list \<Rightarrow> nat \<Rightarrow> quad \<Rightarrow> quad" where
  "whiten lk o' = (\<lambda>(b0, b1, b2, b3).
     (b0 XOR lk ! o', b1 XOR lk ! (o' + 1), b2 XOR lk ! (o' + 2), b3 XOR lk ! (o' + 3)))"

definition swap_halves :: "quad \<Rightarrow> quad" where
  "swap_halves = (\<lambda>(b0, b1, b2, b3). (b2, b3, b0, b1))"

definition twofish_encrypt :: "TwofishInstance \<Rightarrow> bytes \<Rightarrow> bytes" where
  "twofish_encrypt inst in_blk =
     (let lk = l_key inst; g0 = g0_fun (mk_tab inst); g1 = g1_fun (mk_tab inst);
          blk = whiten lk 0 (quad_of_bytes in_blk);
          blk = f_rnd g0 g1 lk 0 blk; blk = f_rnd g0 g1 lk 1 blk;
          blk = f_rnd g0 g1 lk 2 blk; blk = f_rnd g0 g1 lk 3 blk;
          blk = f_rnd g0 g1 lk 4 blk; blk = f_rnd g0 g1 lk 5 blk;
          blk = f_rnd g0 g1 lk 6 blk; blk = f_rnd g0 g1 lk 7 blk
      in bytes_of_quad (whiten lk 4 (swap_halves blk)))"

definition twofish_decrypt :: "TwofishInstance \<Rightarrow> bytes \<Rightarrow> bytes" where
  "twofish_decrypt inst in_blk =
     (let lk = l_key inst; g0 = g0_fun (mk_tab inst); g1 = g1_fun (mk_tab inst);
          blk = whiten lk 4 (quad_of_bytes in_blk);
          blk = i_rnd g0 g1 lk 7 blk; blk = i_rnd g0 g1 lk 6 blk;
          blk = i_rnd g0 g1 lk 5 blk; blk = i_rnd g0 g1 lk 4 blk;
          blk = i_rnd g0 g1 lk 3 blk; blk = i_rnd g0 g1 lk 2 blk;
          blk = i_rnd g0 g1 lk 1 blk; blk = i_rnd g0 g1 lk 0 blk
      in bytes_of_quad (whiten lk 0 (swap_halves blk)))"

text \<open>The \<open>TC_MINIMIZE_CODE_SIZE\<close> build without keyed tables: \<open>g0\<close> and \<open>g1\<close> call \<open>h_fun\<close>.\<close>

definition twofish_encrypt_min :: "TwofishInstance \<Rightarrow> bytes \<Rightarrow> bytes" where
  "twofish_encrypt_min inst in_blk =
     (let lk = l_key inst; g0 = (\<lambda>x. h_fun (k_len inst) x (s_key inst));
          g1 = (\<lambda>x. h_fun (k_len inst) (word_rotl 8 x) (s_key inst));
          blk = fold (f_rnd g0 g1 lk) [0..<8] (whiten lk 0 (quad_of_bytes in_blk))
      in bytes_of_quad (whiten lk 4 (swap_halves blk)))"

definition twofish_decrypt_min :: "TwofishInstance \<Rightarrow> bytes \<Rightarrow> bytes" where
  "twofish_decrypt_min inst in_blk =
     (let lk = l_key inst; g0 = (\<lambda>x. h_fun (k_len inst) x (s_key inst));
          g1 = (\<lambda>x. h_fun (k_len inst) (word_rotl 8 x) (s_key inst));
          blk = fold (i_rnd g0 g1 lk) (rev [0..<8]) (whiten lk 4 (quad_of_bytes in_blk))
      in bytes_of_quad (whiten lk 0 (swap_halves blk)))"

section \<open>Decryption inverts encryption\<close>

lemma word_rotr_rotl_1 [simp]: "word_rotr 1 (word_rotl 1 (x :: u32)) = x" "word_rotl 1 (word_rotr 1 x) = x"
  "word_rotr (Suc 0) (word_rotl (Suc 0) (x :: u32)) = x" "word_rotl (Suc 0) (word_rotr (Suc 0) x) = x"
  by (simp_all add: word_rot_lr word_rot_rl)

lemma i_rnd_f_rnd [simp]: "i_rnd g0 g1 lk i (swap_halves (f_rnd g0 g1 lk i b)) = swap_halves b"
  by (cases b) (simp add: f_rnd_def i_rnd_def swap_halves_def Let_def xor.assoc)

lemma f_rnd_i_rnd [simp]: "f_rnd g0 g1 lk i (swap_halves (i_rnd g0 g1 lk i b)) = swap_halves b"
  by (cases b) (simp add: f_rnd_def i_rnd_def swap_halves_def Let_def xor.assoc)

lemma whiten_whiten [simp]: "whiten lk k (whiten lk k b) = b"
  by (cases b) (simp add: whiten_def xor.assoc)

lemma swap_swap [simp]: "swap_halves (swap_halves b) = b"
  by (cases b) (simp add: swap_halves_def)

lemma length_twofish [simp, tc_len]:
  "length (twofish_encrypt inst b) = 16" "length (twofish_decrypt inst b) = 16"
  by (simp_all add: twofish_encrypt_def twofish_decrypt_def Let_def)

lemma twofish_decrypt_encrypt_block:
  "length b = 16 \<Longrightarrow> twofish_decrypt inst (twofish_encrypt inst b) = b"
  by (simp add: twofish_encrypt_def twofish_decrypt_def Let_def)

lemma twofish_encrypt_decrypt_block:
  "length b = 16 \<Longrightarrow> twofish_encrypt inst (twofish_decrypt inst b) = b"
  by (simp add: twofish_encrypt_def twofish_decrypt_def Let_def)

section \<open>The keyed tables compute h\<close>

lemma q_tab_eq_qp: "n < 2 \<Longrightarrow> q_tab n x = qp n x"
proof -
  assume "n < 2"
  moreover have "unat x < 256" by (rule unat_u8_less)
  ultimately show ?thesis
    by (cases n rule: nat.exhaust) (auto simp: q_tab_def gen_qtab_def less_Suc_eq numeral_2_eq_2)
qed

lemma nth_concat_rows:
  assumes "\<And>i. length (f i) = 4" "i < n" "j < 4"
  shows "concat (map f [0..<n]) ! (j + 4 * i) = f i ! j"
  using assms(2)
proof (induction n)
  case (Suc n)
  have len: "length (concat (map f [0..<n])) = 4 * n" for n
    by (induction n) (simp_all add: assms(1))
  show ?case
  proof (cases "i < n")
    case True
    then have "j + 4 * i < 4 * n" using assms(3) by simp
    then show ?thesis using Suc True by (simp add: nth_append len)
  next
    case False
    then have "i = n" using Suc.prems by simp
    then show ?thesis by (simp add: nth_append len)
  qed
qed simp

lemma mk_tab_nth:
  assumes "j < 4" "klen = 2 \<or> klen = 3 \<or> klen = 4"
  shows "concat (map (mk_row klen key) [0..<256]) ! (j + 4 * unat (x :: u8)) = mk_row klen key (unat x) ! j"
proof (rule nth_concat_rows)
  show "length (mk_row klen key i) = 4" for i
    by (simp add: mk_row_def Let_def)
  show "unat x < 256" by (rule unat_u8_less)
qed (rule assms)

lemmas h_stages = h_stage2_def h_stage3_def h_stage4_def
lemmas q_rows = q20_def q21_def q22_def q23_def q30_def q31_def q32_def q33_def
  q40_def q41_def q42_def q43_def

lemma g0_fun_h:
  assumes "klen = 2 \<or> klen = 3 \<or> klen = 4"
  shows "g0_fun (concat (map (mk_row klen key) [0..<256])) x = h_fun klen x key"
proof -
  note row = mk_tab_nth [OF _ assms, of 0 key] mk_tab_nth [OF _ assms, of 1 key]
    mk_tab_nth [OF _ assms, of 2 key] mk_tab_nth [OF _ assms, of 3 key]
  have "g0_fun (concat (map (mk_row klen key) [0..<256])) x =
      mk_row klen key (unat (extract_byte x 0)) ! 0 XOR mk_row klen key (unat (extract_byte x 1)) ! 1 XOR
      mk_row klen key (unat (extract_byte x 2)) ! 2 XOR mk_row klen key (unat (extract_byte x 3)) ! 3"
    unfolding g0_fun_def by (subst row | simp)+
  with assms show ?thesis
    by (auto simp: mk_row_def h_fun_def h_stages q_rows Let_def)
qed

lemma extract_byte_rotl:
  "extract_byte (word_rotl 8 x) 0 = extract_byte x 3" "extract_byte (word_rotl 8 x) 1 = extract_byte x 0"
  "extract_byte (word_rotl 8 x) (Suc 0) = extract_byte x 0"
  "extract_byte (word_rotl 8 x) 2 = extract_byte x 1" "extract_byte (word_rotl 8 x) 3 = extract_byte x 2"
proof -
  have bit: "bit (word_rotl 8 x) m = bit x ((m + 24) mod 32)" if "m < 32" for m
    using that by (simp add: bit_word_rotl_iff)
  have idx: "n < 8 \<Longrightarrow> (n + 24) mod 32 = n + 24" "n < 8 \<Longrightarrow> (n + 32) mod 32 = n"
    "n < 8 \<Longrightarrow> (n + 40) mod 32 = n + 8" "n < 8 \<Longrightarrow> (n + 48) mod 32 = n + 16" for n :: nat
    by (simp_all add: mod_if)
  show "extract_byte (word_rotl 8 x) 0 = extract_byte x 3" "extract_byte (word_rotl 8 x) 1 = extract_byte x 0"
    "extract_byte (word_rotl 8 x) (Suc 0) = extract_byte x 0"
    "extract_byte (word_rotl 8 x) 2 = extract_byte x 1" "extract_byte (word_rotl 8 x) 3 = extract_byte x 2"
    by (rule bit_word_eqI, simp add: extract_byte_def bit_ucast_iff bit_drop_bit_eq bit idx add.commute)+
qed

lemma g1_fun_g0: "g1_fun mk x = g0_fun mk (word_rotl 8 x)"
  by (simp add: g1_fun_def g0_fun_def extract_byte_rotl)

definition keyed :: "TwofishInstance \<Rightarrow> bool" where
  "keyed inst \<longleftrightarrow> k_len inst \<in> {2, 3, 4} \<and>
     mk_tab inst = concat (map (mk_row (k_len inst) (s_key inst)) [0..<256])"

lemma keyed_set_key: "key_len div 64 \<in> {2, 3, 4} \<Longrightarrow> keyed (twofish_set_key inst in_key key_len)"
  by (auto simp: keyed_def twofish_set_key_def gen_mk_tab_def Let_def)

lemma keyed_g0: "keyed inst \<Longrightarrow> g0_fun (mk_tab inst) = (\<lambda>x. h_fun (k_len inst) x (s_key inst))"
  by (auto simp: keyed_def g0_fun_h)

lemma keyed_g1:
  "keyed inst \<Longrightarrow> g1_fun (mk_tab inst) = (\<lambda>x. h_fun (k_len inst) (word_rotl 8 x) (s_key inst))"
  by (rule ext) (simp add: g1_fun_g0 keyed_g0)

lemma keyed_builds_agree:
  assumes "keyed inst"
  shows "twofish_encrypt inst b = twofish_encrypt_min inst b"
    and "twofish_decrypt inst b = twofish_decrypt_min inst b"
proof -
  have "[0..<8::nat] = [0, 1, 2, 3, 4, 5, 6, 7]" by (simp add: upt_rec)
  then show "twofish_encrypt inst b = twofish_encrypt_min inst b"
    "twofish_decrypt inst b = twofish_decrypt_min inst b"
    unfolding twofish_encrypt_def twofish_encrypt_min_def twofish_decrypt_def twofish_decrypt_min_def
      Let_def keyed_g0 [OF assms] keyed_g1 [OF assms]
    by simp_all
qed

end
