(* ===== verification/Des.thy ===== *)
theory Des
  imports TC_Prelude
begin

text \<open>
  \<open>src/Crypto/Des.c\<close>: the combined S and P boxes, the key schedule, the sixteen rounds, the
  permutations and triple DES. The rounds are a Feistel network over the pairs of schedule words, a
  schedule for decryption is the reversed schedule for encryption, and triple DES with \<open>encrypt\<close>
  false inverts triple DES with \<open>encrypt\<close> true for every key that \<open>TripleDesSetKey\<close> makes.
\<close>

unbundle bit_operations_syntax

record TDES_KEY =
  k1 :: "u32 list"
  k2 :: "u32 list"
  k3 :: "u32 list"
  k1d :: "u32 list"
  k2d :: "u32 list"
  k3d :: "u32 list"

section \<open>Tables\<close>

definition pc1 :: "nat list" where
  "pc1 =
    [57, 49, 41, 33, 25, 17, 9, 1, 58, 50, 42, 34, 26, 18,
     10, 2, 59, 51, 43, 35, 27, 19, 11, 3, 60, 52, 44, 36,
     63, 55, 47, 39, 31, 23, 15, 7, 62, 54, 46, 38, 30, 22,
     14, 6, 61, 53, 45, 37, 29, 21, 13, 5, 28, 20, 12, 4]"

definition totrot :: "nat list" where
  "totrot = [1, 2, 4, 6, 8, 10, 12, 14, 15, 17, 19, 21, 23, 25, 27, 28]"

definition pc2 :: "nat list" where
  "pc2 =
    [14, 17, 11, 24, 1, 5, 3, 28, 15, 6, 21, 10,
     23, 19, 12, 4, 26, 8, 16, 7, 27, 20, 13, 2,
     41, 52, 31, 37, 47, 55, 30, 40, 51, 45, 33, 48,
     44, 49, 39, 56, 34, 53, 46, 42, 50, 36, 29, 32]"

definition bytebit :: "u8 list" where
  "bytebit = [128, 64, 32, 16, 8, 4, 2, 1]"

definition Spbox :: "u32 list list" where
  "Spbox =
    [[0x01010400, 0x00000000, 0x00010000, 0x01010404, 0x01010004, 0x00010404, 0x00000004, 0x00010000,
      0x00000400, 0x01010400, 0x01010404, 0x00000400, 0x01000404, 0x01010004, 0x01000000, 0x00000004,
      0x00000404, 0x01000400, 0x01000400, 0x00010400, 0x00010400, 0x01010000, 0x01010000, 0x01000404,
      0x00010004, 0x01000004, 0x01000004, 0x00010004, 0x00000000, 0x00000404, 0x00010404, 0x01000000,
      0x00010000, 0x01010404, 0x00000004, 0x01010000, 0x01010400, 0x01000000, 0x01000000, 0x00000400,
      0x01010004, 0x00010000, 0x00010400, 0x01000004, 0x00000400, 0x00000004, 0x01000404, 0x00010404,
      0x01010404, 0x00010004, 0x01010000, 0x01000404, 0x01000004, 0x00000404, 0x00010404, 0x01010400,
      0x00000404, 0x01000400, 0x01000400, 0x00000000, 0x00010004, 0x00010400, 0x00000000, 0x01010004],
     [0x80108020, 0x80008000, 0x00008000, 0x00108020, 0x00100000, 0x00000020, 0x80100020, 0x80008020,
      0x80000020, 0x80108020, 0x80108000, 0x80000000, 0x80008000, 0x00100000, 0x00000020, 0x80100020,
      0x00108000, 0x00100020, 0x80008020, 0x00000000, 0x80000000, 0x00008000, 0x00108020, 0x80100000,
      0x00100020, 0x80000020, 0x00000000, 0x00108000, 0x00008020, 0x80108000, 0x80100000, 0x00008020,
      0x00000000, 0x00108020, 0x80100020, 0x00100000, 0x80008020, 0x80100000, 0x80108000, 0x00008000,
      0x80100000, 0x80008000, 0x00000020, 0x80108020, 0x00108020, 0x00000020, 0x00008000, 0x80000000,
      0x00008020, 0x80108000, 0x00100000, 0x80000020, 0x00100020, 0x80008020, 0x80000020, 0x00100020,
      0x00108000, 0x00000000, 0x80008000, 0x00008020, 0x80000000, 0x80100020, 0x80108020, 0x00108000],
     [0x00000208, 0x08020200, 0x00000000, 0x08020008, 0x08000200, 0x00000000, 0x00020208, 0x08000200,
      0x00020008, 0x08000008, 0x08000008, 0x00020000, 0x08020208, 0x00020008, 0x08020000, 0x00000208,
      0x08000000, 0x00000008, 0x08020200, 0x00000200, 0x00020200, 0x08020000, 0x08020008, 0x00020208,
      0x08000208, 0x00020200, 0x00020000, 0x08000208, 0x00000008, 0x08020208, 0x00000200, 0x08000000,
      0x08020200, 0x08000000, 0x00020008, 0x00000208, 0x00020000, 0x08020200, 0x08000200, 0x00000000,
      0x00000200, 0x00020008, 0x08020208, 0x08000200, 0x08000008, 0x00000200, 0x00000000, 0x08020008,
      0x08000208, 0x00020000, 0x08000000, 0x08020208, 0x00000008, 0x00020208, 0x00020200, 0x08000008,
      0x08020000, 0x08000208, 0x00000208, 0x08020000, 0x00020208, 0x00000008, 0x08020008, 0x00020200],
     [0x00802001, 0x00002081, 0x00002081, 0x00000080, 0x00802080, 0x00800081, 0x00800001, 0x00002001,
      0x00000000, 0x00802000, 0x00802000, 0x00802081, 0x00000081, 0x00000000, 0x00800080, 0x00800001,
      0x00000001, 0x00002000, 0x00800000, 0x00802001, 0x00000080, 0x00800000, 0x00002001, 0x00002080,
      0x00800081, 0x00000001, 0x00002080, 0x00800080, 0x00002000, 0x00802080, 0x00802081, 0x00000081,
      0x00800080, 0x00800001, 0x00802000, 0x00802081, 0x00000081, 0x00000000, 0x00000000, 0x00802000,
      0x00002080, 0x00800080, 0x00800081, 0x00000001, 0x00802001, 0x00002081, 0x00002081, 0x00000080,
      0x00802081, 0x00000081, 0x00000001, 0x00002000, 0x00800001, 0x00002001, 0x00802080, 0x00800081,
      0x00002001, 0x00002080, 0x00800000, 0x00802001, 0x00000080, 0x00800000, 0x00002000, 0x00802080],
     [0x00000100, 0x02080100, 0x02080000, 0x42000100, 0x00080000, 0x00000100, 0x40000000, 0x02080000,
      0x40080100, 0x00080000, 0x02000100, 0x40080100, 0x42000100, 0x42080000, 0x00080100, 0x40000000,
      0x02000000, 0x40080000, 0x40080000, 0x00000000, 0x40000100, 0x42080100, 0x42080100, 0x02000100,
      0x42080000, 0x40000100, 0x00000000, 0x42000000, 0x02080100, 0x02000000, 0x42000000, 0x00080100,
      0x00080000, 0x42000100, 0x00000100, 0x02000000, 0x40000000, 0x02080000, 0x42000100, 0x40080100,
      0x02000100, 0x40000000, 0x42080000, 0x02080100, 0x40080100, 0x00000100, 0x02000000, 0x42080000,
      0x42080100, 0x00080100, 0x42000000, 0x42080100, 0x02080000, 0x00000000, 0x40080000, 0x42000000,
      0x00080100, 0x02000100, 0x40000100, 0x00080000, 0x00000000, 0x40080000, 0x02080100, 0x40000100],
     [0x20000010, 0x20400000, 0x00004000, 0x20404010, 0x20400000, 0x00000010, 0x20404010, 0x00400000,
      0x20004000, 0x00404010, 0x00400000, 0x20000010, 0x00400010, 0x20004000, 0x20000000, 0x00004010,
      0x00000000, 0x00400010, 0x20004010, 0x00004000, 0x00404000, 0x20004010, 0x00000010, 0x20400010,
      0x20400010, 0x00000000, 0x00404010, 0x20404000, 0x00004010, 0x00404000, 0x20404000, 0x20000000,
      0x20004000, 0x00000010, 0x20400010, 0x00404000, 0x20404010, 0x00400000, 0x00004010, 0x20000010,
      0x00400000, 0x20004000, 0x20000000, 0x00004010, 0x20000010, 0x20404010, 0x00404000, 0x20400000,
      0x00404010, 0x20404000, 0x00000000, 0x20400010, 0x00000010, 0x00004000, 0x20400000, 0x00404010,
      0x00004000, 0x00400010, 0x20004010, 0x00000000, 0x20404000, 0x20000000, 0x00400010, 0x20004010],
     [0x00200000, 0x04200002, 0x04000802, 0x00000000, 0x00000800, 0x04000802, 0x00200802, 0x04200800,
      0x04200802, 0x00200000, 0x00000000, 0x04000002, 0x00000002, 0x04000000, 0x04200002, 0x00000802,
      0x04000800, 0x00200802, 0x00200002, 0x04000800, 0x04000002, 0x04200000, 0x04200800, 0x00200002,
      0x04200000, 0x00000800, 0x00000802, 0x04200802, 0x00200800, 0x00000002, 0x04000000, 0x00200800,
      0x04000000, 0x00200800, 0x00200000, 0x04000802, 0x04000802, 0x04200002, 0x04200002, 0x00000002,
      0x00200002, 0x04000000, 0x04000800, 0x00200000, 0x04200800, 0x00000802, 0x00200802, 0x04200800,
      0x00000802, 0x04000002, 0x04200802, 0x04200000, 0x00200800, 0x00000000, 0x00000002, 0x04200802,
      0x00000000, 0x00200802, 0x04200000, 0x00000800, 0x04000002, 0x04000800, 0x00000800, 0x00200002],
     [0x10001040, 0x00001000, 0x00040000, 0x10041040, 0x10000000, 0x10001040, 0x00000040, 0x10000000,
      0x00040040, 0x10040000, 0x10041040, 0x00041000, 0x10041000, 0x00041040, 0x00001000, 0x00000040,
      0x10040000, 0x10000040, 0x10001000, 0x00001040, 0x00041000, 0x00040040, 0x10040040, 0x10041000,
      0x00001040, 0x00000000, 0x00000000, 0x10040040, 0x10000040, 0x10001000, 0x00041040, 0x00040000,
      0x00041040, 0x00040000, 0x10041000, 0x00001000, 0x00000040, 0x10040040, 0x00001000, 0x00041040,
      0x10001000, 0x00000040, 0x10000040, 0x10040000, 0x10040040, 0x10000000, 0x00040000, 0x10001040,
      0x00000000, 0x10041040, 0x00040040, 0x10000040, 0x10040000, 0x10001000, 0x10001040, 0x00000000,
      0x10041040, 0x00041000, 0x00041000, 0x00001040, 0x00001040, 0x00040040, 0x10000000, 0x10041000]]"

section \<open>Key schedule\<close>

definition des_pc1m :: "bytes \<Rightarrow> nat list" where
  "des_pc1m key =
     map (\<lambda>j. let l = pc1 ! j - 1; m = l mod 8
              in if key ! (l div 8) AND bytebit ! m \<noteq> 0 then 1 else 0) [0..<56]"

definition des_pcr :: "nat list \<Rightarrow> nat \<Rightarrow> nat list" where
  "des_pcr pc1m i =
     map (\<lambda>j. let l = j + totrot ! i
              in pc1m ! (if l < (if j < 28 then 28 else 56) then l else l - 28)) [0..<56]"

definition des_ks :: "nat list \<Rightarrow> u8 list" where
  "des_ks pcr =
     fold (\<lambda>j ks. if pcr ! (pc2 ! j - 1) \<noteq> 0
                  then ks[j div 6 := ks ! (j div 6) OR drop_bit 2 (bytebit ! (j mod 6))] else ks)
       [0..<48] (replicate 8 0)"

definition des_pack :: "u8 \<Rightarrow> u8 \<Rightarrow> u8 \<Rightarrow> u8 \<Rightarrow> u32" where
  "des_pack a b c d = push_bit 24 (ucast a) OR push_bit 16 (ucast b) OR push_bit 8 (ucast c) OR ucast d"

definition des_round_keys :: "bytes \<Rightarrow> nat \<Rightarrow> u32 list" where
  "des_round_keys key i =
     (let ks = des_ks (des_pcr (des_pc1m key) i)
      in [des_pack (ks ! 0) (ks ! 2) (ks ! 4) (ks ! 6), des_pack (ks ! 1) (ks ! 3) (ks ! 5) (ks ! 7)])"

text \<open>The exchange of the schedule words of round \<open>i div 2\<close> and of the round at the same distance
  from the end, for \<open>i\<close> = 0, 2, ..., 14.\<close>

definition des_swap :: "nat \<Rightarrow> u32 list \<Rightarrow> u32 list" where
  "des_swap i k =
     (let b = k ! i; k = k[i := k ! (32 - 2 - i)]; k = k[32 - 2 - i := b];
          b = k ! (i + 1); k = k[i + 1 := k ! (32 - 1 - i)]
      in k[32 - 1 - i := b])"

definition RawSetKey :: "bool \<Rightarrow> bytes \<Rightarrow> u32 list" where
  "RawSetKey encryption key =
     (let k = concat (map (des_round_keys key) [0..<16])
      in if encryption then k else fold des_swap [0, 2, 4, 6, 8, 10, 12, 14] k)"

definition TripleDesSetKey :: "bytes \<Rightarrow> TDES_KEY" where
  "TripleDesSetKey userKey =
     \<lparr>k1 = RawSetKey True (drop 0 userKey), k2 = RawSetKey True (drop 8 userKey),
      k3 = RawSetKey True (drop 16 userKey), k1d = RawSetKey False (drop 16 userKey),
      k2d = RawSetKey False (drop 8 userKey), k3d = RawSetKey False (drop 0 userKey)\<rparr>"

section \<open>Rounds\<close>

definition six :: "u32 \<Rightarrow> nat \<Rightarrow> nat" where
  "six w s = unat (drop_bit s w AND 0x3f)"

definition des_half :: "u32 \<Rightarrow> u32 \<Rightarrow> u32 \<Rightarrow> u32 \<Rightarrow> u32" where
  "des_half l r ka kb =
     (let work = word_rotr 4 r XOR ka;
          l = l XOR (Spbox ! 6 ! six work 0 XOR Spbox ! 4 ! six work 8
                XOR Spbox ! 2 ! six work 16 XOR Spbox ! 0 ! six work 24);
          work = r XOR kb
      in l XOR (Spbox ! 7 ! six work 0 XOR Spbox ! 5 ! six work 8
                XOR Spbox ! 3 ! six work 16 XOR Spbox ! 1 ! six work 24))"

definition des_round2 :: "u32 list \<Rightarrow> nat \<Rightarrow> u32 \<times> u32 \<Rightarrow> u32 \<times> u32" where
  "des_round2 k i = (\<lambda>(l, r).
     let l = des_half l r (k ! (4 * i + 0)) (k ! (4 * i + 1));
         r = des_half r l (k ! (4 * i + 2)) (k ! (4 * i + 3))
     in (l, r))"

definition RawProcessBlock :: "u32 list \<Rightarrow> u32 \<times> u32 \<Rightarrow> u32 \<times> u32" where
  "RawProcessBlock k lr = fold (des_round2 k) [0..<8] lr"

section \<open>Permutations and triple DES\<close>

definition exch :: "u32 \<Rightarrow> u32 \<times> u32 \<Rightarrow> u32 \<times> u32" where
  "exch m = (\<lambda>(left, right). let work = (left XOR right) AND m in (left XOR work, right XOR work))"

text \<open>
  The permutations on the pair \<open>(left, right)\<close>: \<open>exch m\<close> is the assignment of \<open>work\<close> with its two
  exclusive ors, \<open>apsnd\<close> and \<open>apfst\<close> are the rotations of \<open>right\<close> and \<open>left\<close>.
\<close>

definition des_ip :: "u32 \<times> u32 \<Rightarrow> u32 \<times> u32" where
  "des_ip p =
     (let p = apsnd (word_rotl 4) p;
          p = apsnd (word_rotr 20) (exch 0xf0f0f0f0 p);
          p = apsnd (word_rotr 18) (exch 0xffff0000 p);
          p = apsnd (word_rotr 6) (exch 0x33333333 p);
          p = apsnd (word_rotl 9) (exch 0x00ff00ff p)
      in apfst (word_rotl 1) (exch 0xaaaaaaaa p))"

definition des_fp :: "u32 \<times> u32 \<Rightarrow> u32 \<times> u32" where
  "des_fp p =
     (let p = apsnd (word_rotr 1) p;
          p = apfst (word_rotr 9) (exch 0xaaaaaaaa p);
          p = apfst (word_rotl 6) (exch 0x00ff00ff p);
          p = apfst (word_rotl 18) (exch 0x33333333 p);
          p = apfst (word_rotl 20) (exch 0xffff0000 p)
      in apfst (word_rotr 4) (exch 0xf0f0f0f0 p))"

definition TripleDesEncrypt :: "TDES_KEY \<Rightarrow> bool \<Rightarrow> bytes \<Rightarrow> bytes" where
  "TripleDesEncrypt key encrypt inBlock =
     (let lr = des_ip (be_to_word (get_at 0 4 inBlock), be_to_word (get_at 4 4 inBlock));
          (left, right) = RawProcessBlock (if encrypt then k1 key else k1d key) lr;
          (right, left) = RawProcessBlock (if \<not> encrypt then k2 key else k2d key) (right, left);
          (left, right) = RawProcessBlock (if encrypt then k3 key else k3d key) (left, right);
          (left, right) = des_fp (left, right)
      in word_to_be 4 right @ word_to_be 4 left)"

section \<open>The rounds are a Feistel network\<close>

definition des_F :: "u32 \<times> u32 \<Rightarrow> u32 \<Rightarrow> u32" where
  "des_F = (\<lambda>(ka, kb) r. des_half 0 r ka kb)"

lemma des_half_F: "des_half l r ka kb = l XOR des_F (ka, kb) r"
  by (simp add: des_half_def des_F_def Let_def xor.assoc)

definition key_pairs :: "u32 list \<Rightarrow> (u32 \<times> u32) list" where
  "key_pairs k = map (\<lambda>i. (k ! (2 * i), k ! (2 * i + 1))) [0..<16]"

lemma des_rounds_feistel:
  "prod.swap (fold (des_round2 k) [0..<n] lr) =
   feistel des_F (map (\<lambda>i. (k ! (2 * i), k ! (2 * i + 1))) [0..<2 * n]) (prod.swap lr)"
proof (induction n)
  case 0
  show ?case by (cases lr) simp
next
  case (Suc n)
  have "[0..<2 * Suc n] = [0..<2 * n] @ [2 * n, 2 * n + 1]"
    by simp
  then have ks: "map (\<lambda>i. (k ! (2 * i), k ! (2 * i + 1))) [0..<2 * Suc n] =
      map (\<lambda>i. (k ! (2 * i), k ! (2 * i + 1))) [0..<2 * n] @
      [(k ! (4 * n), k ! (4 * n + 1)), (k ! (4 * n + 2), k ! (4 * n + 3))]"
    by (simp add: add.assoc [symmetric] mult_2 [symmetric] numeral_3_eq_3 flip: mult.assoc)
  obtain l r where lr: "fold (des_round2 k) [0..<n] lr = (l, r)" by (metis surj_pair)
  have step: "fold (des_round2 k) [0..<Suc n] lr = des_round2 k n (l, r)"
    by (simp add: lr)
  have "feistel des_F (map (\<lambda>i. (k ! (2 * i), k ! (2 * i + 1))) [0..<2 * n]) (prod.swap lr) = (r, l)"
    using Suc lr by simp
  then show ?case
    unfolding step ks feistel_append by (simp add: des_round2_def des_half_F Let_def)
qed

lemma RawProcessBlock_feistel:
  "RawProcessBlock k lr = prod.swap (feistel des_F (key_pairs k) (prod.swap lr))"
proof -
  have "prod.swap (RawProcessBlock k lr) = feistel des_F (key_pairs k) (prod.swap lr)"
    using des_rounds_feistel [of k 8 lr] by (simp add: RawProcessBlock_def key_pairs_def)
  then show ?thesis by (metis swap_swap)
qed

lemma RawProcessBlock_inverse:
  assumes "key_pairs k' = rev (key_pairs k)"
  shows "RawProcessBlock k' (prod.swap (RawProcessBlock k lr)) = prod.swap lr"
  using feistel_inverse [of des_F "key_pairs k" "prod.swap lr"]
  by (simp add: RawProcessBlock_feistel assms)

section \<open>The permutations are inverse\<close>

lemma exch_exch [simp]: "exch m (exch m p) = p"
  by (cases p) (auto simp: exch_def Let_def intro!: bit_word_eqI simp: bit_simps)

lemma swap_exch [simp]: "prod.swap (exch m p) = exch m (prod.swap p)"
  by (cases p) (simp add: exch_def Let_def xor.commute)

lemma swap_ap [simp]: "prod.swap (apfst f p) = apsnd f (prod.swap p)" "prod.swap (apsnd f p) = apfst f (prod.swap p)"
  by (cases p; simp)+

lemma rot_ap [simp]:
  "apfst (word_rotl n) (apfst (word_rotr n) p) = p" "apfst (word_rotr n) (apfst (word_rotl n) p) = p"
  "apsnd (word_rotl n) (apsnd (word_rotr n) p) = p" "apsnd (word_rotr n) (apsnd (word_rotl n) p) = p"
  by (cases p; simp add: word_rot_lr word_rot_rl)+

lemma fp_ip [simp]: "des_fp (prod.swap (des_ip p)) = prod.swap p"
  by (simp add: des_ip_def des_fp_def Let_def)

lemma ip_fp [simp]: "des_ip (prod.swap (des_fp p)) = prod.swap p"
  by (simp add: des_ip_def des_fp_def Let_def)

section \<open>Schedules for decryption are reversed schedules\<close>

lemma length_RawSetKey_rounds: "length (concat (map (des_round_keys key) [0..<n])) = 2 * n"
  by (induction n) (simp_all add: des_round_keys_def Let_def)

lemma key_pairs_swapped:
  assumes "length k = 32"
  shows "key_pairs (fold des_swap [0, 2, 4, 6, 8, 10, 12, 14] k) = rev (key_pairs k)"
  using assms by (simp add: key_pairs_def upt_rec des_swap_def Let_def)

lemma key_pairs_RawSetKey: "key_pairs (RawSetKey False key) = rev (key_pairs (RawSetKey True key))"
  using key_pairs_swapped [OF length_RawSetKey_rounds [of key 16, simplified]]
  by (simp add: RawSetKey_def)

section \<open>Triple DES\<close>

definition tdes_pair :: "u32 list \<Rightarrow> u32 list \<Rightarrow> u32 list \<Rightarrow> u32 \<times> u32 \<Rightarrow> u32 \<times> u32" where
  "tdes_pair ka kb kc p =
     prod.swap (des_fp (RawProcessBlock kc (prod.swap (RawProcessBlock kb (prod.swap (RawProcessBlock ka (des_ip p)))))))"

lemma tdes_pair_inverse:
  assumes "key_pairs ka' = rev (key_pairs kc)" "key_pairs kb' = rev (key_pairs kb)"
    "key_pairs kc' = rev (key_pairs ka)"
  shows "tdes_pair ka' kb' kc' (tdes_pair ka kb kc p) = p"
  by (simp add: tdes_pair_def RawProcessBlock_inverse [OF assms(1)] RawProcessBlock_inverse [OF assms(2)]
      RawProcessBlock_inverse [OF assms(3)])

lemma TripleDesEncrypt_pair:
  "TripleDesEncrypt key e b =
     (case tdes_pair (if e then k1 key else k1d key) (if \<not> e then k2 key else k2d key)
             (if e then k3 key else k3d key) (be_to_word (get_at 0 4 b), be_to_word (get_at 4 4 b)) of
        (l, r) \<Rightarrow> word_to_be 4 l @ word_to_be 4 r)"
  by (simp add: TripleDesEncrypt_def tdes_pair_def Let_def prod.swap_def split: prod.splits)

lemma length_TripleDesEncrypt [simp, tc_len]: "length (TripleDesEncrypt key e b) = 8"
  by (simp add: TripleDesEncrypt_pair split: prod.splits)

text \<open>The invariant of a scheduled key.\<close>

definition tdes_scheduled :: "TDES_KEY \<Rightarrow> bool" where
  "tdes_scheduled key \<longleftrightarrow> key_pairs (k1d key) = rev (key_pairs (k3 key)) \<and>
     key_pairs (k2d key) = rev (key_pairs (k2 key)) \<and> key_pairs (k3d key) = rev (key_pairs (k1 key))"

lemma TripleDesSetKey_scheduled: "tdes_scheduled (TripleDesSetKey userKey)"
  by (simp add: tdes_scheduled_def TripleDesSetKey_def key_pairs_RawSetKey)

lemma des_block_split:
  "length b = 8 \<Longrightarrow> get_at 0 4 b @ get_at 4 4 b = b"
  by (rule nth_equalityI) (auto simp: nth_append get_at_def)

lemma des_get_pair [simp]:
  "get_at 0 4 (word_to_be 4 (x :: u32) @ word_to_be 4 (y :: u32)) = word_to_be 4 x"
  "get_at 4 4 (word_to_be 4 x @ word_to_be 4 y) = word_to_be 4 y"
  by (simp_all add: get_at_def)

lemma tdes_decrypt_encrypt_block:
  assumes "tdes_scheduled key" "length b = 8"
  shows "TripleDesEncrypt key (\<not> e) (TripleDesEncrypt key e b) = b"
proof -
  let ?p = "(be_to_word (get_at 0 4 b) :: u32, be_to_word (get_at 4 4 b) :: u32)"
  let ?t = "\<lambda>e. tdes_pair (if e then k1 key else k1d key) (if \<not> e then k2 key else k2d key)
             (if e then k3 key else k3d key)"
  have inv: "?t (\<not> e) (?t e ?p) = ?p"
    by (rule tdes_pair_inverse) (use assms(1) in \<open>auto simp: tdes_scheduled_def\<close>)
  obtain l r where lr: "?t e ?p = (l, r)" by (metis surj_pair)
  show ?thesis
    using inv assms(2) by (simp only: TripleDesEncrypt_pair lr) (simp add: des_block_split)
qed

end
