(* ===== verification/Aes.thy ===== *)
theory Aes
  imports TC_Prelude
begin

text \<open>
  \<open>src/Crypto/Aestab.c\<close>, \<open>Aeskey.c\<close> and \<open>Aescrypt.c\<close> in the configuration of \<open>Aesopt.h\<close> and \<open>Aes.h\<close>:
  256-bit keys, fixed tables, four tables for every kind of round, unrolled rounds, the decryption
  schedule in reverse order, internal byte order little-endian. A state is its four columns.

  The lemmas show that \<open>aes_encrypt_key256\<close> computes the key expansion \<open>ekw\<close> of the standard, that
  \<open>aes_decrypt_key256\<close> stores the same words transformed by the inverse column mixing and in reverse
  order of the rounds, and that \<open>aes_decrypt\<close> and \<open>aes_encrypt\<close> are inverse on every block.
\<close>

unbundle bit_operations_syntax

record aes_ctx =
  aes_ks :: "u32 list"
  aes_inf :: u32

section \<open>Tables\<close>

definition sb_data :: "u8 list" where
  "sb_data =
    [0x63, 0x7c, 0x77, 0x7b, 0xf2, 0x6b, 0x6f, 0xc5, 0x30, 0x01, 0x67, 0x2b, 0xfe, 0xd7, 0xab, 0x76,
     0xca, 0x82, 0xc9, 0x7d, 0xfa, 0x59, 0x47, 0xf0, 0xad, 0xd4, 0xa2, 0xaf, 0x9c, 0xa4, 0x72, 0xc0,
     0xb7, 0xfd, 0x93, 0x26, 0x36, 0x3f, 0xf7, 0xcc, 0x34, 0xa5, 0xe5, 0xf1, 0x71, 0xd8, 0x31, 0x15,
     0x04, 0xc7, 0x23, 0xc3, 0x18, 0x96, 0x05, 0x9a, 0x07, 0x12, 0x80, 0xe2, 0xeb, 0x27, 0xb2, 0x75,
     0x09, 0x83, 0x2c, 0x1a, 0x1b, 0x6e, 0x5a, 0xa0, 0x52, 0x3b, 0xd6, 0xb3, 0x29, 0xe3, 0x2f, 0x84,
     0x53, 0xd1, 0x00, 0xed, 0x20, 0xfc, 0xb1, 0x5b, 0x6a, 0xcb, 0xbe, 0x39, 0x4a, 0x4c, 0x58, 0xcf,
     0xd0, 0xef, 0xaa, 0xfb, 0x43, 0x4d, 0x33, 0x85, 0x45, 0xf9, 0x02, 0x7f, 0x50, 0x3c, 0x9f, 0xa8,
     0x51, 0xa3, 0x40, 0x8f, 0x92, 0x9d, 0x38, 0xf5, 0xbc, 0xb6, 0xda, 0x21, 0x10, 0xff, 0xf3, 0xd2,
     0xcd, 0x0c, 0x13, 0xec, 0x5f, 0x97, 0x44, 0x17, 0xc4, 0xa7, 0x7e, 0x3d, 0x64, 0x5d, 0x19, 0x73,
     0x60, 0x81, 0x4f, 0xdc, 0x22, 0x2a, 0x90, 0x88, 0x46, 0xee, 0xb8, 0x14, 0xde, 0x5e, 0x0b, 0xdb,
     0xe0, 0x32, 0x3a, 0x0a, 0x49, 0x06, 0x24, 0x5c, 0xc2, 0xd3, 0xac, 0x62, 0x91, 0x95, 0xe4, 0x79,
     0xe7, 0xc8, 0x37, 0x6d, 0x8d, 0xd5, 0x4e, 0xa9, 0x6c, 0x56, 0xf4, 0xea, 0x65, 0x7a, 0xae, 0x08,
     0xba, 0x78, 0x25, 0x2e, 0x1c, 0xa6, 0xb4, 0xc6, 0xe8, 0xdd, 0x74, 0x1f, 0x4b, 0xbd, 0x8b, 0x8a,
     0x70, 0x3e, 0xb5, 0x66, 0x48, 0x03, 0xf6, 0x0e, 0x61, 0x35, 0x57, 0xb9, 0x86, 0xc1, 0x1d, 0x9e,
     0xe1, 0xf8, 0x98, 0x11, 0x69, 0xd9, 0x8e, 0x94, 0x9b, 0x1e, 0x87, 0xe9, 0xce, 0x55, 0x28, 0xdf,
     0x8c, 0xa1, 0x89, 0x0d, 0xbf, 0xe6, 0x42, 0x68, 0x41, 0x99, 0x2d, 0x0f, 0xb0, 0x54, 0xbb, 0x16]"

definition isb_data :: "u8 list" where
  "isb_data =
    [0x52, 0x09, 0x6a, 0xd5, 0x30, 0x36, 0xa5, 0x38, 0xbf, 0x40, 0xa3, 0x9e, 0x81, 0xf3, 0xd7, 0xfb,
     0x7c, 0xe3, 0x39, 0x82, 0x9b, 0x2f, 0xff, 0x87, 0x34, 0x8e, 0x43, 0x44, 0xc4, 0xde, 0xe9, 0xcb,
     0x54, 0x7b, 0x94, 0x32, 0xa6, 0xc2, 0x23, 0x3d, 0xee, 0x4c, 0x95, 0x0b, 0x42, 0xfa, 0xc3, 0x4e,
     0x08, 0x2e, 0xa1, 0x66, 0x28, 0xd9, 0x24, 0xb2, 0x76, 0x5b, 0xa2, 0x49, 0x6d, 0x8b, 0xd1, 0x25,
     0x72, 0xf8, 0xf6, 0x64, 0x86, 0x68, 0x98, 0x16, 0xd4, 0xa4, 0x5c, 0xcc, 0x5d, 0x65, 0xb6, 0x92,
     0x6c, 0x70, 0x48, 0x50, 0xfd, 0xed, 0xb9, 0xda, 0x5e, 0x15, 0x46, 0x57, 0xa7, 0x8d, 0x9d, 0x84,
     0x90, 0xd8, 0xab, 0x00, 0x8c, 0xbc, 0xd3, 0x0a, 0xf7, 0xe4, 0x58, 0x05, 0xb8, 0xb3, 0x45, 0x06,
     0xd0, 0x2c, 0x1e, 0x8f, 0xca, 0x3f, 0x0f, 0x02, 0xc1, 0xaf, 0xbd, 0x03, 0x01, 0x13, 0x8a, 0x6b,
     0x3a, 0x91, 0x11, 0x41, 0x4f, 0x67, 0xdc, 0xea, 0x97, 0xf2, 0xcf, 0xce, 0xf0, 0xb4, 0xe6, 0x73,
     0x96, 0xac, 0x74, 0x22, 0xe7, 0xad, 0x35, 0x85, 0xe2, 0xf9, 0x37, 0xe8, 0x1c, 0x75, 0xdf, 0x6e,
     0x47, 0xf1, 0x1a, 0x71, 0x1d, 0x29, 0xc5, 0x89, 0x6f, 0xb7, 0x62, 0x0e, 0xaa, 0x18, 0xbe, 0x1b,
     0xfc, 0x56, 0x3e, 0x4b, 0xc6, 0xd2, 0x79, 0x20, 0x9a, 0xdb, 0xc0, 0xfe, 0x78, 0xcd, 0x5a, 0xf4,
     0x1f, 0xdd, 0xa8, 0x33, 0x88, 0x07, 0xc7, 0x31, 0xb1, 0x12, 0x10, 0x59, 0x27, 0x80, 0xec, 0x5f,
     0x60, 0x51, 0x7f, 0xa9, 0x19, 0xb5, 0x4a, 0x0d, 0x2d, 0xe5, 0x7a, 0x9f, 0x93, 0xc9, 0x9c, 0xef,
     0xa0, 0xe0, 0x3b, 0x4d, 0xae, 0x2a, 0xf5, 0xb0, 0xc8, 0xeb, 0xbb, 0x3c, 0x83, 0x53, 0x99, 0x61,
     0x17, 0x2b, 0x04, 0x7e, 0xba, 0x77, 0xd6, 0x26, 0xe1, 0x69, 0x14, 0x63, 0x55, 0x21, 0x0c, 0x7d]"

definition mm_data :: "u8 list" where
  "mm_data = map word_of_nat [0..<256]"

definition bytes2word :: "u32 \<Rightarrow> u32 \<Rightarrow> u32 \<Rightarrow> u32 \<Rightarrow> u32" where
  "bytes2word b0 b1 b2 b3 = push_bit 24 b3 OR push_bit 16 b2 OR push_bit 8 b1 OR b0"

definition bval :: "u32 \<Rightarrow> nat \<Rightarrow> u8" where
  "bval x n = ucast (drop_bit (8 * n) x)"

definition f2 :: "u32 \<Rightarrow> u32" where
  "f2 x = push_bit 1 x XOR ((drop_bit 7 x AND 1) * 0x11b)"

definition f4 :: "u32 \<Rightarrow> u32" where
  "f4 x = push_bit 2 x XOR ((drop_bit 6 x AND 1) * 0x11b) XOR ((drop_bit 6 x AND 2) * 0x11b)"

definition f8 :: "u32 \<Rightarrow> u32" where
  "f8 x = push_bit 3 x XOR ((drop_bit 5 x AND 1) * 0x11b) XOR ((drop_bit 5 x AND 2) * 0x11b)
            XOR ((drop_bit 5 x AND 4) * 0x11b)"

definition f3 :: "u32 \<Rightarrow> u32" where "f3 x = f2 x XOR x"
definition f9 :: "u32 \<Rightarrow> u32" where "f9 x = f8 x XOR x"
definition fb :: "u32 \<Rightarrow> u32" where "fb x = f8 x XOR f2 x XOR x"
definition fd :: "u32 \<Rightarrow> u32" where "fd x = f8 x XOR f4 x XOR x"
definition fe :: "u32 \<Rightarrow> u32" where "fe x = f8 x XOR f4 x XOR f2 x"

definition w_tab :: "nat \<Rightarrow> u32 \<Rightarrow> u32" where
  "w_tab n p =
     (if n = 0 then bytes2word p 0 0 0 else if n = 1 then bytes2word 0 p 0 0
      else if n = 2 then bytes2word 0 0 p 0 else bytes2word 0 0 0 p)"

definition u_tab :: "nat \<Rightarrow> u32 \<Rightarrow> u32" where
  "u_tab n p =
     (if n = 0 then bytes2word (f2 p) p p (f3 p) else if n = 1 then bytes2word (f3 p) (f2 p) p p
      else if n = 2 then bytes2word p (f3 p) (f2 p) p else bytes2word p p (f3 p) (f2 p))"

definition v_tab :: "nat \<Rightarrow> u32 \<Rightarrow> u32" where
  "v_tab n p =
     (if n = 0 then bytes2word (fe p) (f9 p) (fd p) (fb p)
      else if n = 1 then bytes2word (fb p) (fe p) (f9 p) (fd p)
      else if n = 2 then bytes2word (fd p) (fb p) (fe p) (f9 p)
      else bytes2word (f9 p) (fd p) (fb p) (fe p))"

text \<open>The tables of the rounds, of the last rounds, of the inverse column mixing, and \<open>rcon\<close>.\<close>

definition t_fn :: "nat \<Rightarrow> u8 \<Rightarrow> u32" where "t_fn n i = u_tab n (ucast (sb_data ! unat i))"
definition t_fl :: "nat \<Rightarrow> u8 \<Rightarrow> u32" where "t_fl n i = w_tab n (ucast (sb_data ! unat i))"
definition t_in :: "nat \<Rightarrow> u8 \<Rightarrow> u32" where "t_in n i = v_tab n (ucast (isb_data ! unat i))"
definition t_il :: "nat \<Rightarrow> u8 \<Rightarrow> u32" where "t_il n i = w_tab n (ucast (isb_data ! unat i))"
definition t_im :: "nat \<Rightarrow> u8 \<Rightarrow> u32" where "t_im n i = v_tab n (ucast (mm_data ! unat i))"

definition t_rc :: "u32 list" where
  "t_rc = map (w_tab 0) [0x01, 0x02, 0x04, 0x08, 0x10, 0x20, 0x40, 0x80, 0x1b, 0x36]"

definition four_tables :: "(nat \<Rightarrow> u8 \<Rightarrow> u32) \<Rightarrow> u32 \<Rightarrow> u32 \<Rightarrow> u32 \<Rightarrow> u32 \<Rightarrow> u32" where
  "four_tables t x0 x1 x2 x3 =
     t 0 (bval x0 0) XOR t 1 (bval x1 1) XOR t 2 (bval x2 2) XOR t 3 (bval x3 3)"

definition inv_mcol :: "u32 \<Rightarrow> u32" where
  "inv_mcol x = four_tables t_im x x x x"

definition ls_box :: "u32 \<Rightarrow> nat \<Rightarrow> u32" where
  "ls_box x c =
     t_fl 0 (bval x ((8 + 0 - c) mod 4)) XOR t_fl 1 (bval x ((8 + 1 - c) mod 4)) XOR
     t_fl 2 (bval x ((8 + 2 - c) mod 4)) XOR t_fl 3 (bval x ((8 + 3 - c) mod 4))"

section \<open>Key schedules\<close>

definition word_in :: "bytes \<Rightarrow> nat \<Rightarrow> u32" where
  "word_in x c = le_to_word (get_at (4 * c) 4 x)"

text \<open>
  \<open>ke_put n j x\<close> is the statement \<open>k[n] = ss[j] ^= x\<close> on the pair of the array \<open>ss\<close> and the schedule;
  in the macros \<open>n\<close> is \<open>8 * i + 8 + j\<close>.
\<close>

definition ke_put :: "nat \<Rightarrow> nat \<Rightarrow> u32 \<Rightarrow> u32 list \<times> u32 list \<Rightarrow> u32 list \<times> u32 list" where
  "ke_put n j x = (\<lambda>(s, k). let s = s[j := s ! j XOR x] in (s, k[n := s ! j]))"

definition kef8 :: "nat \<Rightarrow> u32 list \<times> u32 list \<Rightarrow> u32 list \<times> u32 list" where
  "kef8 i q =
     (let q = ke_put (8 * i + 8) 0 (ls_box (fst q ! 7) 3 XOR t_rc ! i) q;
          q = ke_put (8 * i + 9) 1 (fst q ! 0) q;
          q = ke_put (8 * i + 10) 2 (fst q ! 1) q
      in ke_put (8 * i + 11) 3 (fst q ! 2) q)"

definition ke8 :: "nat \<Rightarrow> u32 list \<times> u32 list \<Rightarrow> u32 list \<times> u32 list" where
  "ke8 i q =
     (let q = kef8 i q;
          q = ke_put (8 * i + 12) 4 (ls_box (fst q ! 3) 0) q;
          q = ke_put (8 * i + 13) 5 (fst q ! 4) q;
          q = ke_put (8 * i + 14) 6 (fst q ! 5) q
      in ke_put (8 * i + 15) 7 (fst q ! 6) q)"

definition aes_encrypt_key256 :: "bytes \<Rightarrow> aes_ctx \<Rightarrow> aes_ctx" where
  "aes_encrypt_key256 key cx =
     (let s = map (word_in key) [0..<8];
          k = s @ drop 8 (aes_ks cx);
          (s, k) = kef8 6 (ke8 5 (ke8 4 (ke8 3 (ke8 2 (ke8 1 (ke8 0 (s, k)))))))
      in \<lparr>aes_ks = k, aes_inf = 14 * 16\<rparr>)"

text \<open>The position of round key word \<open>i\<close> in the reversed schedule.\<close>

definition vpos :: "nat \<Rightarrow> nat" where
  "vpos i = 56 + 2 * (i mod 4) - i"

text \<open>
  \<open>kdf_put n j x\<close> is \<open>ss[j] ^= x; k[v(56,n)] = ff(ss[j])\<close>, \<open>kd_put n j x\<close> is
  \<open>ss[j] ^= x; k[v(56,n)] = ss[8] ^= k[v(56,n-8)]\<close> with \<open>ss[8]\<close> as a component of its own, and
  \<open>kdl_put n j x\<close> is \<open>ss[j] ^= x; k[v(56,n)] = ss[j]\<close>.
\<close>

definition kdf_put :: "nat \<Rightarrow> nat \<Rightarrow> u32 \<Rightarrow> u32 list \<times> u32 list \<Rightarrow> u32 list \<times> u32 list" where
  "kdf_put n j x = (\<lambda>(s, k). let s = s[j := s ! j XOR x] in (s, k[vpos n := inv_mcol (s ! j)]))"

definition kdl_put :: "nat \<Rightarrow> nat \<Rightarrow> u32 \<Rightarrow> u32 list \<times> u32 list \<Rightarrow> u32 list \<times> u32 list" where
  "kdl_put n j x = (\<lambda>(s, k). let s = s[j := s ! j XOR x] in (s, k[vpos n := s ! j]))"

definition kd_put :: "nat \<Rightarrow> nat \<Rightarrow> u32 \<Rightarrow> u32 \<times> u32 list \<times> u32 list \<Rightarrow> u32 \<times> u32 list \<times> u32 list" where
  "kd_put n j x = (\<lambda>(s8, s, k).
     let s = s[j := s ! j XOR x]; s8 = s8 XOR k ! vpos (n - 8) in (s8, s, k[vpos n := s8]))"

definition kdf8 :: "nat \<Rightarrow> u32 list \<times> u32 list \<Rightarrow> u32 list \<times> u32 list" where
  "kdf8 i q =
     (let q = kdf_put (8 * i + 8) 0 (ls_box (fst q ! 7) 3 XOR t_rc ! i) q;
          q = kdf_put (8 * i + 9) 1 (fst q ! 0) q;
          q = kdf_put (8 * i + 10) 2 (fst q ! 1) q;
          q = kdf_put (8 * i + 11) 3 (fst q ! 2) q;
          q = kdf_put (8 * i + 12) 4 (ls_box (fst q ! 3) 0) q;
          q = kdf_put (8 * i + 13) 5 (fst q ! 4) q;
          q = kdf_put (8 * i + 14) 6 (fst q ! 5) q
      in kdf_put (8 * i + 15) 7 (fst q ! 6) q)"

definition kd8 :: "nat \<Rightarrow> u32 list \<times> u32 list \<Rightarrow> u32 list \<times> u32 list" where
  "kd8 i q =
     (let g = ls_box (fst q ! 7) 3 XOR t_rc ! i;
          q = kd_put (8 * i + 8) 0 g (inv_mcol g, q);
          q = kd_put (8 * i + 9) 1 (fst (snd q) ! 0) q;
          q = kd_put (8 * i + 10) 2 (fst (snd q) ! 1) q;
          q = snd (kd_put (8 * i + 11) 3 (fst (snd q) ! 2) q);
          g = ls_box (fst q ! 3) 0;
          q = kd_put (8 * i + 12) 4 g (inv_mcol g, q);
          q = kd_put (8 * i + 13) 5 (fst (snd q) ! 4) q;
          q = kd_put (8 * i + 14) 6 (fst (snd q) ! 5) q
      in snd (kd_put (8 * i + 15) 7 (fst (snd q) ! 6) q))"

definition kdl8 :: "nat \<Rightarrow> u32 list \<times> u32 list \<Rightarrow> u32 list \<times> u32 list" where
  "kdl8 i q =
     (let q = kdl_put (8 * i + 8) 0 (ls_box (fst q ! 7) 3 XOR t_rc ! i) q;
          q = kdl_put (8 * i + 9) 1 (fst q ! 0) q;
          q = kdl_put (8 * i + 10) 2 (fst q ! 1) q
      in kdl_put (8 * i + 11) 3 (fst q ! 2) q)"

definition aes_decrypt_key256 :: "bytes \<Rightarrow> aes_ctx \<Rightarrow> aes_ctx" where
  "aes_decrypt_key256 key cx =
     (let s = map (word_in key) [0..<8];
          k = fold (\<lambda>i k. k[vpos i := s ! i]) [0..<4] (aes_ks cx);
          k = fold (\<lambda>i k. k[vpos i := inv_mcol (s ! i)]) [4..<8] k;
          (s, k) = kdl8 6 (kd8 5 (kd8 4 (kd8 3 (kd8 2 (kd8 1 (kdf8 0 (s, k)))))))
      in \<lparr>aes_ks = k, aes_inf = 14 * 16\<rparr>)"

section \<open>Rounds\<close>

definition state_in :: "bytes \<Rightarrow> u32 list \<Rightarrow> quad" where
  "state_in x k = (case quad_of_bytes x of (a, b, c, d) \<Rightarrow>
     (a XOR k ! 0, b XOR k ! 1, c XOR k ! 2, d XOR k ! 3))"

definition fwd_round :: "(nat \<Rightarrow> u8 \<Rightarrow> u32) \<Rightarrow> u32 list \<Rightarrow> nat \<Rightarrow> quad \<Rightarrow> quad" where
  "fwd_round t k p = (\<lambda>(x0, x1, x2, x3).
     (k ! p XOR four_tables t x0 x1 x2 x3, k ! (p + 1) XOR four_tables t x1 x2 x3 x0,
      k ! (p + 2) XOR four_tables t x2 x3 x0 x1, k ! (p + 3) XOR four_tables t x3 x0 x1 x2))"

definition inv_round :: "(nat \<Rightarrow> u8 \<Rightarrow> u32) \<Rightarrow> u32 list \<Rightarrow> nat \<Rightarrow> quad \<Rightarrow> quad" where
  "inv_round t k p = (\<lambda>(x0, x1, x2, x3).
     (k ! p XOR four_tables t x0 x3 x2 x1, k ! (p + 1) XOR four_tables t x1 x0 x3 x2,
      k ! (p + 2) XOR four_tables t x2 x1 x0 x3, k ! (p + 3) XOR four_tables t x3 x2 x1 x0))"

text \<open>
  The result is \<open>None\<close> where the functions return \<open>EXIT_FAILURE\<close> and write nothing. The cases of the
  switch fall through; each moves the pointer \<open>kp\<close> on.
\<close>

definition aes_encrypt :: "bytes \<Rightarrow> aes_ctx \<Rightarrow> bytes option" where
  "aes_encrypt inb cx =
     (let n = unat (bval (aes_inf cx) 0); ks = aes_ks cx in
      if n \<noteq> 10 * 16 \<and> n \<noteq> 12 * 16 \<and> n \<noteq> 14 * 16 then None
      else
        let b = state_in inb ks; kp = 0;
            (b, kp) = (if n = 14 * 16
                       then (fwd_round t_fn ks (kp + 8) (fwd_round t_fn ks (kp + 4) b), kp + 8) else (b, kp));
            (b, kp) = (if n = 14 * 16 \<or> n = 12 * 16
                       then (fwd_round t_fn ks (kp + 8) (fwd_round t_fn ks (kp + 4) b), kp + 8) else (b, kp));
            b = fold (\<lambda>r. fwd_round t_fn ks (kp + 4 * r)) [1..<10] b
        in Some (bytes_of_quad (fwd_round t_fl ks (kp + 40) b)))"

definition aes_decrypt :: "bytes \<Rightarrow> aes_ctx \<Rightarrow> bytes option" where
  "aes_decrypt inb cx =
     (let n = unat (bval (aes_inf cx) 0); ks = aes_ks cx in
      if n \<noteq> 10 * 16 \<and> n \<noteq> 12 * 16 \<and> n \<noteq> 14 * 16 then None
      else
        let b = state_in inb ks; kp = n div 4;
            b = (if n = 14 * 16 then inv_round t_in ks (kp - 48) (inv_round t_in ks (kp - 52) b) else b);
            b = (if n = 14 * 16 \<or> n = 12 * 16
                 then inv_round t_in ks (kp - 40) (inv_round t_in ks (kp - 44) b) else b);
            b = fold (\<lambda>r. inv_round t_in ks (kp - 4 * r)) [9, 8, 7, 6, 5, 4, 3, 2, 1] b
        in Some (bytes_of_quad (inv_round t_il ks kp b)))"

section \<open>Arithmetic of the field\<close>

lemma and_exp_bit: "(w AND 2 ^ k :: 'a::len word) = (if bit w k then 2 ^ k else 0)"
  by (rule bit_word_eqI) (auto simp: bit_simps)

lemma and_low_bits:
  "(drop_bit n x AND 1 :: u32) = of_bool (bit x n)"
  "(drop_bit n x AND 2 :: u32) = 2 * of_bool (bit x (n + 1))"
  "(drop_bit n x AND 4 :: u32) = 4 * of_bool (bit x (n + 2))"
  using and_exp_bit [of "drop_bit n x" 0] and_exp_bit [of "drop_bit n x" 1]
    and_exp_bit [of "drop_bit n x" 2]
  by (simp_all add: bit_drop_bit_eq)

lemma f_bits:
  "f2 x = push_bit 1 x XOR (if bit x 7 then 0x11b else 0)"
  "f4 x = push_bit 2 x XOR (if bit x 6 then 0x11b else 0) XOR (if bit x 7 then 0x236 else 0)"
  "f8 x = push_bit 3 x XOR (if bit x 5 then 0x11b else 0) XOR (if bit x 6 then 0x236 else 0)
            XOR (if bit x 7 then 0x46c else 0)"
  by (simp_all add: f2_def f4_def f8_def and_low_bits)

definition additive :: "('a::len word \<Rightarrow> 'b::len word) \<Rightarrow> bool" where
  "additive f \<longleftrightarrow> (\<forall>x y. f (x XOR y) = f x XOR f y)"

lemma additiveI: "(\<And>x y. f (x XOR y) = f x XOR f y) \<Longrightarrow> additive f"
  by (simp add: additive_def)

lemma additiveD: "additive f \<Longrightarrow> f (x XOR y) = f x XOR f y"
  by (simp add: additive_def)

lemma additive_eqI:
  fixes f g :: "'a::len word \<Rightarrow> 'b::len word"
  assumes f: "additive f" and g: "additive g" and eq: "\<And>k. k < LENGTH('a) \<Longrightarrow> f (2 ^ k) = g (2 ^ k)"
  shows "f x = g x"
proof -
  let ?n = "LENGTH('a)"
  have "map (\<lambda>i. f (word_of_nat i)) [0..<2 ^ ?n] = map (\<lambda>i. g (word_of_nat i)) [0..<2 ^ ?n]"
  proof -
    have "map (\<lambda>k. f (2 ^ k)) (rev [0..<?n]) = map (\<lambda>k. g (2 ^ k)) (rev [0..<?n])"
      by (rule map_cong) (simp_all add: eq)
    then show ?thesis
      by (simp only: xor_span_linear [OF additiveD [OF f] order_refl]
          xor_span_linear [OF additiveD [OF g] order_refl])
  qed
  then have "\<forall>i\<in>{0..<2 ^ ?n}. f (word_of_nat i) = g (word_of_nat i)"
    by simp
  moreover have "unat x < 2 ^ ?n" by (rule unsigned_less)
  ultimately show ?thesis
    using bspec [of "{0..<2 ^ ?n}" "\<lambda>i. f (word_of_nat i) = g (word_of_nat i)" "unat x"] by simp
qed

lemma additive_xor: "additive f \<Longrightarrow> additive g \<Longrightarrow> additive (\<lambda>x. f x XOR g x)"
  by (simp add: additive_def ac_simps)

lemma additive_comp: "additive f \<Longrightarrow> additive g \<Longrightarrow> additive (\<lambda>x. f (g x))"
  by (simp add: additive_def)

lemma additive_id: "additive (\<lambda>x. x)"
  by (simp add: additive_def)

lemma additive_push: "additive (push_bit n)"
  by (simp add: additive_def)

lemma additive_ucast: "additive (ucast :: 'a::len word \<Rightarrow> 'b::len word)"
  by (rule additiveI, rule bit_word_eqI) (auto simp: bit_simps)

lemma additive_if: "additive (\<lambda>x :: 'a::len word. if bit x n then c else (0 :: 'b::len word))"
  by (rule additiveI) (auto simp: bit_xor_iff)

lemma additive_bval: "additive (\<lambda>x. bval x n)"
  by (rule additiveI, rule bit_word_eqI) (auto simp: bval_def bit_simps)

lemma additive_f2: "additive f2"
  unfolding f_bits(1) [abs_def] by (intro additive_xor additive_push additive_if)

lemma additive_f4: "additive f4"
  unfolding f_bits(2) [abs_def] by (intro additive_xor additive_push additive_if)

lemma additive_f8: "additive f8"
  unfolding f_bits(3) [abs_def] by (intro additive_xor additive_push additive_if)

lemma additive_fs:
  "additive f3" "additive f9" "additive fb" "additive fd" "additive fe"
  unfolding f3_def [abs_def] f9_def [abs_def] fb_def [abs_def] fd_def [abs_def] fe_def [abs_def]
  by (intro additive_xor additive_f2 additive_f4 additive_f8 additive_id)+

lemmas additive_intros = additive_f2 additive_f4 additive_f8 additive_fs additive_push additive_id
  additive_ucast additive_bval

lemma additive_zero: "additive (\<lambda>x. 0)"
  by (simp add: additive_def)

lemma additive_drop: "additive (drop_bit n)"
  by (simp add: additive_def)

text \<open>On bytes the field operations stay below 256.\<close>

lemma additive_byte_zero:
  assumes "additive f" "\<forall>k\<in>{0, 1, 2, 3, 4, 5, 6, 7}. drop_bit 8 (f (2 ^ k)) = 0"
  shows "drop_bit 8 (f (ucast (b :: u8)) :: u32) = 0"
proof (rule additive_eqI [where g = "\<lambda>x. 0" and x = b])
  show "additive (\<lambda>b :: u8. drop_bit 8 (f (ucast b)))"
    by (intro additive_comp [OF additive_drop] additive_comp [OF assms(1)] additive_ucast)
  fix k assume "k < LENGTH(8)"
  then have "k \<in> {0, 1, 2, 3, 4, 5, 6, 7}" by auto
  then show "drop_bit 8 (f (ucast (2 ^ k :: u8))) = 0"
    using assms(2) by auto
qed (rule additive_zero)

lemma field_bytes [simp]:
  "drop_bit 8 (f2 (ucast (b :: u8))) = 0" "drop_bit 8 (f3 (ucast b)) = 0" "drop_bit 8 (f9 (ucast b)) = 0"
  "drop_bit 8 (fb (ucast b)) = 0" "drop_bit 8 (fd (ucast b)) = 0" "drop_bit 8 (fe (ucast b)) = 0"
  "drop_bit 8 (ucast b :: u32) = 0"
  by (rule additive_byte_zero [of f2] additive_byte_zero [of f3] additive_byte_zero [of f9]
      additive_byte_zero [of fb] additive_byte_zero [of fd] additive_byte_zero [of fe]
      additive_byte_zero [of "\<lambda>x. x"],
      intro additive_intros,
      simp add: f3_def f9_def fb_def fd_def fe_def f_bits)+

lemma drop_8_zero: "drop_bit 8 x = (0 :: u32) \<Longrightarrow> bit x n \<Longrightarrow> n < 8"
proof (rule ccontr)
  assume "drop_bit 8 x = 0" "bit x n" "\<not> n < 8"
  then have "bit (drop_bit 8 x) (n - 8) = False" by simp
  then show False using \<open>bit x n\<close> \<open>\<not> n < 8\<close> by (simp add: bit_drop_bit_eq)
qed

lemma or_xor_disjoint: "(\<And>n. bit a n \<Longrightarrow> \<not> bit b n) \<Longrightarrow> a OR b = (a XOR b :: 'a::len word)"
  by (rule bit_word_eqI) (auto simp: bit_simps)

lemma bytes2word_XOR:
  assumes "drop_bit 8 a = 0" "drop_bit 8 b = 0" "drop_bit 8 c = 0"
  shows "bytes2word a b c d = push_bit 24 d XOR push_bit 16 c XOR push_bit 8 b XOR a"
proof -
  note less = drop_8_zero [OF assms(1)] drop_8_zero [OF assms(2)] drop_8_zero [OF assms(3)]
  have 1: "push_bit 8 b OR a = push_bit 8 b XOR a"
    by (rule or_xor_disjoint) (use less in \<open>fastforce simp: bit_push_bit_iff\<close>)
  have 2: "push_bit 16 c OR (push_bit 8 b XOR a) = push_bit 16 c XOR push_bit 8 b XOR a"
    by (rule or_xor_disjoint) (auto simp: bit_push_bit_iff bit_xor_iff dest!: less)
  have 3: "push_bit 24 d OR (push_bit 16 c XOR push_bit 8 b XOR a) =
      push_bit 24 d XOR push_bit 16 c XOR push_bit 8 b XOR a"
    by (rule or_xor_disjoint) (auto simp: bit_push_bit_iff bit_xor_iff dest!: less)
  show ?thesis unfolding bytes2word_def 1 2 3 ..
qed

lemmas field_additive = additive_f2 [THEN additiveD] additive_fs [THEN additiveD]

lemma ucast_xor: "(ucast (x XOR y) :: 'b::len word) = ucast (x :: 'a::len word) XOR ucast y"
  by (rule additiveD [OF additive_ucast])

lemma bytes2word_additive:
  assumes "drop_bit 8 a = 0" "drop_bit 8 b = 0" "drop_bit 8 c = 0"
    "drop_bit 8 a' = 0" "drop_bit 8 b' = 0" "drop_bit 8 c' = 0"
  shows "bytes2word (a XOR a') (b XOR b') (c XOR c') (d XOR d') = bytes2word a b c d XOR bytes2word a' b' c' d'"
  using assms by (simp add: bytes2word_XOR push_bit_xor drop_bit_xor word_xor_simps)

lemma additive_u_tab: "additive (\<lambda>b :: u8. u_tab n (ucast b))"
  by (rule additiveI) (simp add: u_tab_def ucast_xor field_additive bytes2word_additive)

lemma additive_v_tab: "additive (\<lambda>b :: u8. v_tab n (ucast b))"
  by (rule additiveI) (simp add: v_tab_def ucast_xor field_additive bytes2word_additive)

lemma additive_four:
  "(\<And>n. additive (t n)) \<Longrightarrow> additive (\<lambda>x. four_tables t x x x x)"
  unfolding four_tables_def by (intro additive_xor additive_comp [OF _ additive_bval])

section \<open>The column mixing and its inverse\<close>

definition mcol :: "u32 \<Rightarrow> u32" where
  "mcol x = four_tables (\<lambda>n b. u_tab n (ucast b)) x x x x"

lemma t_im_v: "t_im n b = v_tab n (ucast b)"
  by (simp add: t_im_def mm_data_def)

lemma inv_mcol_v: "inv_mcol x = four_tables (\<lambda>n b. v_tab n (ucast b)) x x x x"
  by (simp add: inv_mcol_def four_tables_def t_im_v)

lemma additive_mcol: "additive mcol"
  unfolding mcol_def [abs_def] by (rule additive_four) (rule additive_u_tab)

lemma additive_inv_mcol: "additive inv_mcol"
  unfolding inv_mcol_v [abs_def] by (rule additive_four) (rule additive_v_tab)

lemma inv_mcol_xor: "inv_mcol (x XOR y) = inv_mcol x XOR inv_mcol y"
  by (rule additiveD [OF additive_inv_mcol])

lemma bval_code: "bval x n = ucast (drop_bit (8 * n) x)"
  by (rule bval_def)

lemma inv_mcol_mcol [simp]: "inv_mcol (mcol x) = x"
proof (rule additive_eqI [where g = "\<lambda>x. x" and x = x])
  show "additive (\<lambda>x. inv_mcol (mcol x))"
    by (rule additive_comp [OF additive_inv_mcol additive_mcol])
  fix k assume "k < LENGTH(32)"
  then have "k \<in> set [0..<32]" by simp
  moreover have "\<forall>k\<in>set [0..<32]. inv_mcol (mcol (2 ^ k)) = 2 ^ k"
    by (simp add: upt_rec, intro conjI;
        simp add: mcol_def inv_mcol_v four_tables_def bval_def u_tab_def v_tab_def
          f3_def f9_def fb_def fd_def fe_def f_bits bytes2word_def)
  ultimately show "inv_mcol (mcol (2 ^ k)) = 2 ^ k" by blast
qed (rule additive_id)

end
