(* ===== verification/Aes_Inverse.thy ===== *)
theory Aes_Inverse
  imports Aes
begin

text \<open>
  The functional correctness of \<open>Aes\<close>: the tables compute substitution, row shift and column mixing;
  \<open>aes_encrypt_key256\<close> is the key expansion of the standard and \<open>aes_decrypt_key256\<close> its transformed
  reversal; the two block functions are inverse for the two contexts of one key.
\<close>

unbundle bit_operations_syntax

section \<open>The tables are inverse\<close>

lemma isb_sb_list: "map (\<lambda>s. isb_data ! unat s) sb_data = mm_data"
  by (simp add: isb_data_def sb_data_def mm_data_def upt_rec)

lemma sb_isb_list: "map (\<lambda>s. sb_data ! unat s) isb_data = mm_data"
  by (simp add: isb_data_def sb_data_def mm_data_def upt_rec)

lemma mcol_inv_mcol [simp]: "mcol (inv_mcol x) = x"
proof -
  have "inj mcol" by (rule inj_on_inverseI [where g = inv_mcol]) simp
  then have "surj mcol" by (rule finite_UNIV_inj_surj [OF finite])
  then obtain y where "x = mcol y" by (metis surjD)
  then show ?thesis by simp
qed

lemma length_boxes: "length sb_data = 256" "length isb_data = 256"
  by (simp_all add: sb_data_def isb_data_def)

lemma aes_isb_sb [simp]: "isb_data ! unat (sb_data ! unat (x :: u8)) = x"
proof -
  have "map (\<lambda>s. isb_data ! unat s) sb_data ! unat x = mm_data ! unat x" by (simp add: isb_sb_list)
  then show ?thesis by (simp add: length_boxes mm_data_def)
qed

lemma aes_sb_isb [simp]: "sb_data ! unat (isb_data ! unat (x :: u8)) = x"
proof -
  have "map (\<lambda>s. sb_data ! unat s) isb_data ! unat x = mm_data ! unat x" by (simp add: sb_isb_list)
  then show ?thesis by (simp add: length_boxes mm_data_def)
qed

section \<open>Rounds as substitution, row shift and column mixing\<close>

lemma w_tab_push: "n < 4 \<Longrightarrow> w_tab n p = push_bit (8 * n) p"
  by (auto simp: w_tab_def bytes2word_def less_Suc_eq numeral_eq_Suc)

definition word4 :: "u8 \<Rightarrow> u8 \<Rightarrow> u8 \<Rightarrow> u8 \<Rightarrow> u32" where
  "word4 a b c d = w_tab 0 (ucast a) XOR w_tab 1 (ucast b) XOR w_tab 2 (ucast c) XOR w_tab 3 (ucast d)"

lemma bval_word4 [simp]:
  "bval (word4 a b c d) 0 = a" "bval (word4 a b c d) 1 = b" "bval (word4 a b c d) (Suc 0) = b"
  "bval (word4 a b c d) 2 = c" "bval (word4 a b c d) 3 = d"
  by (rule bit_word_eqI; auto simp: word4_def bval_def w_tab_def bytes2word_def bit_simps dest: bit_imp_le_length; fail)+

lemma word4_bval [simp]: "word4 (bval x 0) (bval x 1) (bval x 2) (bval x 3) = x"
proof (rule bit_word_eqI)
  fix n assume n: "n < LENGTH(32)"
  consider "n < 8" | "8 \<le> n" "n < 16" | "16 \<le> n" "n < 24" | "24 \<le> n" "n < 32" using n by force
  then show "bit (word4 (bval x 0) (bval x 1) (bval x 2) (bval x 3)) n = bit x n"
    by cases (auto simp: word4_def bval_def w_tab_def bytes2word_def bit_simps)
qed

lemma four_fl: "four_tables t_fl a b c d =
    word4 (sb_data ! unat (bval a 0)) (sb_data ! unat (bval b 1)) (sb_data ! unat (bval c 2)) (sb_data ! unat (bval d 3))"
  by (simp add: four_tables_def t_fl_def word4_def)

lemma four_il: "four_tables t_il a b c d =
    word4 (isb_data ! unat (bval a 0)) (isb_data ! unat (bval b 1)) (isb_data ! unat (bval c 2)) (isb_data ! unat (bval d 3))"
  by (simp add: four_tables_def t_il_def word4_def)

lemma four_fn: "four_tables t_fn a b c d = mcol (four_tables t_fl a b c d)"
  by (simp add: four_fl mcol_def) (simp add: four_tables_def t_fn_def)

lemma four_in: "four_tables t_in a b c d = inv_mcol (four_tables t_il a b c d)"
  by (simp add: four_il inv_mcol_v) (simp add: four_tables_def t_in_def)

fun map_quad :: "(u32 \<Rightarrow> u32) \<Rightarrow> quad \<Rightarrow> quad" where
  "map_quad f (a, b, c, d) = (f a, f b, f c, f d)"

fun xor_quad :: "quad \<Rightarrow> quad \<Rightarrow> quad" where
  "xor_quad (a, b, c, d) (a', b', c', d') = (a XOR a', b XOR b', c XOR c', d XOR d')"

definition quad_at :: "u32 list \<Rightarrow> nat \<Rightarrow> quad" where
  "quad_at k p = (k ! p, k ! (p + 1), k ! (p + 2), k ! (p + 3))"

definition sub_shift :: "quad \<Rightarrow> quad" where
  "sub_shift = (\<lambda>(x0, x1, x2, x3).
     (four_tables t_fl x0 x1 x2 x3, four_tables t_fl x1 x2 x3 x0,
      four_tables t_fl x2 x3 x0 x1, four_tables t_fl x3 x0 x1 x2))"

definition inv_sub_shift :: "quad \<Rightarrow> quad" where
  "inv_sub_shift = (\<lambda>(x0, x1, x2, x3).
     (four_tables t_il x0 x3 x2 x1, four_tables t_il x1 x0 x3 x2,
      four_tables t_il x2 x1 x0 x3, four_tables t_il x3 x2 x1 x0))"

lemma rounds_spec:
  "fwd_round t_fl k p q = xor_quad (quad_at k p) (sub_shift q)"
  "fwd_round t_fn k p q = xor_quad (quad_at k p) (map_quad mcol (sub_shift q))"
  "inv_round t_il k p q = xor_quad (quad_at k p) (inv_sub_shift q)"
  "inv_round t_in k p q = xor_quad (quad_at k p) (map_quad inv_mcol (inv_sub_shift q))"
  by (cases q; simp only: fwd_round_def inv_round_def quad_at_def sub_shift_def inv_sub_shift_def
      four_fn four_in prod.case xor_quad.simps map_quad.simps)+

lemma sub_shift_inverse [simp]: "inv_sub_shift (sub_shift q) = q" "sub_shift (inv_sub_shift q) = q"
  by (cases q; simp only: sub_shift_def inv_sub_shift_def prod.case four_fl four_il bval_word4 aes_isb_sb aes_sb_isb word4_bval)+

lemma map_quad_mcol [simp]:
  "map_quad inv_mcol (map_quad mcol q) = q" "map_quad mcol (map_quad inv_mcol q) = q"
  by (cases q; simp)+

lemma map_quad_xor: "map_quad inv_mcol (xor_quad q r) = xor_quad (map_quad inv_mcol q) (map_quad inv_mcol r)"
  by (cases q; cases r) (simp add: inv_mcol_xor)

lemma xor_quad_cancel [simp]: "xor_quad q (xor_quad q r) = r"
  by (cases q; cases r) (simp add: word_xor_cancel)

lemma xor_quad_commute: "xor_quad q r = xor_quad r q"
  by (cases q; cases r) (simp add: xor.commute)

text \<open>A decryption round with the transformed key undoes the key addition and mixing of an encryption round.\<close>

lemma inv_round_step:
  assumes "quad_at dk p' = map_quad inv_mcol (quad_at ek p)"
  shows "inv_round t_in dk p' (sub_shift (fwd_round t_fn ek p q)) = sub_shift q"
  by (simp add: rounds_spec assms map_quad_xor)

lemma fwd_round_step:
  assumes "quad_at dk p' = map_quad inv_mcol (quad_at ek p)"
  shows "fwd_round t_fn ek p (inv_sub_shift (inv_round t_in dk p' q)) = inv_sub_shift q"
proof -
  have "fwd_round t_fn ek p (inv_sub_shift (inv_round t_in dk p' q)) =
    xor_quad (quad_at ek p) (map_quad mcol (map_quad inv_mcol (xor_quad (quad_at ek p) (inv_sub_shift q))))"
    by (simp only: rounds_spec assms map_quad_xor sub_shift_inverse)
  then show ?thesis by simp
qed

section \<open>The key schedules\<close>

text \<open>The key expansion of the standard for eight key words: \<open>ekw key n\<close> is round key word \<open>n\<close>.\<close>

fun ekw :: "(nat \<Rightarrow> u32) \<Rightarrow> nat \<Rightarrow> u32" where
  "ekw key n =
     (if n < 8 then key n
      else ekw key (n - 8) XOR
        (if n mod 8 = 0 then ls_box (ekw key (n - 1)) 3 XOR t_rc ! (n div 8 - 1)
         else if n mod 8 = 4 then ls_box (ekw key (n - 1)) 0 else ekw key (n - 1)))"

declare ekw.simps [simp del]

text \<open>The array \<open>ss\<close> holds the last eight words before word \<open>n\<close>.\<close>

definition window :: "(nat \<Rightarrow> u32) \<Rightarrow> nat \<Rightarrow> u32 list \<Rightarrow> bool" where
  "window w n s \<longleftrightarrow> length s = 8 \<and> (\<forall>p. n \<le> p + 8 \<and> p < n \<longrightarrow> s ! (p mod 8) = w p)"

lemma window_last: "window w (Suc n) s \<Longrightarrow> s ! (n mod 8) = w n"
  by (simp add: window_def)

lemma window_put:
  assumes "window w n s" "8 \<le> n" "w n = w (n - 8) XOR x"
  shows "window w (Suc n) (s[n mod 8 := s ! (n mod 8) XOR x])"
proof -
  have "s ! (n mod 8) = w (n - 8)"
  proof -
    have "(n - 8) mod 8 = n mod 8" by (rule le_mod_geq [OF assms(2), symmetric])
    moreover have "s ! ((n - 8) mod 8) = w (n - 8)"
      using assms(1,2) by (simp add: window_def)
    ultimately show ?thesis by simp
  qed
  moreover have "n mod 8 \<noteq> p mod 8" if "Suc n \<le> p + 8" "p < n" for p
  proof
    assume "n mod 8 = p mod 8"
    then have "8 dvd n - p" using that mod_eq_dvd_iff_nat [of p n 8] by simp
    then show False using that by (auto dest: dvd_imp_le)
  qed
  moreover have "length s = 8" "n mod 8 < 8" using assms(1) by (simp_all add: window_def)
  moreover have "s ! (p mod 8) = w p" if "Suc n \<le> p + 8" "p < n" for p
    using that assms(1) by (simp add: window_def)
  ultimately show ?thesis
    unfolding window_def less_Suc_eq by (auto simp: assms(3))
qed

definition enc_inv :: "(nat \<Rightarrow> u32) \<Rightarrow> nat \<Rightarrow> u32 list \<times> u32 list \<Rightarrow> bool" where
  "enc_inv w n = (\<lambda>(s, k). window w n s \<and> length k = 60 \<and> (\<forall>p<n. k ! p = w p))"

lemma enc_inv_put:
  assumes "enc_inv w n q" "8 \<le> n" "n < 60" "j = n mod 8" "w n = w (n - 8) XOR x" "m = Suc n"
  shows "enc_inv w m (ke_put n j x q)"
proof -
  obtain s k where q: "q = (s, k)" by (cases q)
  have "window w m (s[j := s ! j XOR x])"
    using assms window_put [of w n s x] by (simp add: enc_inv_def q)
  moreover from this have "s[j := s ! j XOR x] ! j = w n"
    using window_last [of w n "s[j := s ! j XOR x]"] assms by simp
  ultimately show ?thesis
    using assms by (auto simp: enc_inv_def q ke_put_def Let_def nth_list_update less_Suc_eq)
qed

lemma ekw_step:
  "8 \<le> n \<Longrightarrow> n mod 8 = 0 \<Longrightarrow> ekw key n = ekw key (n - 8) XOR (ls_box (ekw key (n - 1)) 3 XOR t_rc ! (n div 8 - 1))"
  "8 \<le> n \<Longrightarrow> n mod 8 = 4 \<Longrightarrow> ekw key n = ekw key (n - 8) XOR ls_box (ekw key (n - 1)) 0"
  "8 \<le> n \<Longrightarrow> n mod 8 \<noteq> 0 \<Longrightarrow> n mod 8 \<noteq> 4 \<Longrightarrow> ekw key n = ekw key (n - 8) XOR ekw key (n - 1)"
  by (simp_all add: ekw.simps [of key n])

lemma pred_mod_8: "8 \<le> (n :: nat) \<Longrightarrow> (n - 1) mod 8 = (n mod 8 + 7) mod 8"
proof -
  assume n: "8 \<le> n"
  have "(n - 1) mod 8 = (n - 1 + 8) mod 8" by simp
  also have "n - 1 + 8 = n + 7" using n by simp
  finally show ?thesis by (simp add: mod_add_left_eq)
qed

lemma window_next:
  assumes "window (ekw key) n s" "8 \<le> n" "j = n mod 8"
  shows "j \<noteq> 0 \<Longrightarrow> j \<noteq> 4 \<Longrightarrow> j = Suc l \<Longrightarrow> ekw key n = ekw key (n - 8) XOR s ! l"
    and "j = 0 \<Longrightarrow> i = n div 8 - 1 \<Longrightarrow> ekw key n = ekw key (n - 8) XOR (ls_box (s ! 7) 3 XOR t_rc ! i)"
    and "j = 4 \<Longrightarrow> ekw key n = ekw key (n - 8) XOR ls_box (s ! 3) 0"
proof -
  have last: "l = (n - 1) mod 8 \<Longrightarrow> s ! l = ekw key (n - 1)" for l
    using window_last [of "ekw key" "n - 1" s] assms by simp
  note pred = pred_mod_8 [OF assms(2)]
  show "j \<noteq> 0 \<Longrightarrow> j \<noteq> 4 \<Longrightarrow> j = Suc l \<Longrightarrow> ekw key n = ekw key (n - 8) XOR s ! l"
    using ekw_step(3) last pred assms by simp
  show "j = 0 \<Longrightarrow> i = n div 8 - 1 \<Longrightarrow> ekw key n = ekw key (n - 8) XOR (ls_box (s ! 7) 3 XOR t_rc ! i)"
    using ekw_step(1) last pred assms by simp
  show "j = 4 \<Longrightarrow> ekw key n = ekw key (n - 8) XOR ls_box (s ! 3) 0"
    using ekw_step(2) last pred assms by simp
qed

lemma enc_next:
  assumes "enc_inv (ekw key) n q" "8 \<le> n" "n < 60" "j = n mod 8" "m = Suc n"
  shows "j \<noteq> 0 \<Longrightarrow> j \<noteq> 4 \<Longrightarrow> j = Suc l \<Longrightarrow> enc_inv (ekw key) m (ke_put n j (fst q ! l) q)"
    and "j = 0 \<Longrightarrow> i = n div 8 - 1 \<Longrightarrow> enc_inv (ekw key) m (ke_put n j (ls_box (fst q ! 7) 3 XOR t_rc ! i) q)"
    and "j = 4 \<Longrightarrow> enc_inv (ekw key) m (ke_put n j (ls_box (fst q ! 3) 0) q)"
proof -
  have win: "window (ekw key) n (fst q)" using assms(1) by (auto simp: enc_inv_def)
  note nxt = window_next [OF win assms(2,4)]
  show "j \<noteq> 0 \<Longrightarrow> j \<noteq> 4 \<Longrightarrow> j = Suc l \<Longrightarrow> enc_inv (ekw key) m (ke_put n j (fst q ! l) q)"
    by (rule enc_inv_put [OF assms(1-4) nxt(1) assms(5)])
  show "j = 0 \<Longrightarrow> i = n div 8 - 1 \<Longrightarrow> enc_inv (ekw key) m (ke_put n j (ls_box (fst q ! 7) 3 XOR t_rc ! i) q)"
    by (rule enc_inv_put [OF assms(1-4) nxt(2) assms(5)])
  show "j = 4 \<Longrightarrow> enc_inv (ekw key) m (ke_put n j (ls_box (fst q ! 3) 0) q)"
    by (rule enc_inv_put [OF assms(1-4) nxt(3) assms(5)])
qed

lemma kef8_inv:
  assumes q: "enc_inv (ekw key) (8 * i + 8) q" and i: "i < 7"
  shows "enc_inv (ekw key) (8 * i + 12) (kef8 i q)"
  unfolding kef8_def Let_def by (rule q enc_next | use i in simp; fail)+

lemma ke8_inv:
  assumes q: "enc_inv (ekw key) (8 * i + 8) q" and i: "i < 6"
  shows "enc_inv (ekw key) (8 * i + 16) (ke8 i q)"
  unfolding ke8_def Let_def by (rule kef8_inv q enc_next | use i in simp; fail)+

lemma word_in_window:
  "window (ekw (word_in key)) 8 (map (word_in key) [0..<8])"
  by (auto simp: window_def ekw.simps [of "word_in key"])

lemma aes_encrypt_key256_words:
  assumes "length (aes_ks cx) = 60" "p < 60"
  shows "aes_ks (aes_encrypt_key256 key cx) ! p = ekw (word_in key) p"
proof -
  let ?s = "map (word_in key) [0..<8]"
  let ?q = "(?s, ?s @ drop 8 (aes_ks cx))"
  have "enc_inv (ekw (word_in key)) (8 * 0 + 8) ?q"
    using word_in_window [of key] assms(1)
    by (auto simp: enc_inv_def nth_append ekw.simps [of "word_in key"] simp del: upt_Suc)
  then have "enc_inv (ekw (word_in key)) (8 * 1 + 8) (ke8 0 ?q)"
    using ke8_inv [of "word_in key" 0 ?q] by simp
  then have "enc_inv (ekw (word_in key)) (8 * 2 + 8) (ke8 1 (ke8 0 ?q))"
    using ke8_inv [of "word_in key" 1] by simp
  then have "enc_inv (ekw (word_in key)) (8 * 3 + 8) (ke8 2 (ke8 1 (ke8 0 ?q)))"
    using ke8_inv [of "word_in key" 2] by simp
  then have "enc_inv (ekw (word_in key)) (8 * 4 + 8) (ke8 3 (ke8 2 (ke8 1 (ke8 0 ?q))))"
    using ke8_inv [of "word_in key" 3] by simp
  then have "enc_inv (ekw (word_in key)) (8 * 5 + 8) (ke8 4 (ke8 3 (ke8 2 (ke8 1 (ke8 0 ?q)))))"
    using ke8_inv [of "word_in key" 4] by simp
  then have "enc_inv (ekw (word_in key)) (8 * 6 + 8) (ke8 5 (ke8 4 (ke8 3 (ke8 2 (ke8 1 (ke8 0 ?q))))))"
    using ke8_inv [of "word_in key" 5] by simp
  then have "enc_inv (ekw (word_in key)) 60 (kef8 6 (ke8 5 (ke8 4 (ke8 3 (ke8 2 (ke8 1 (ke8 0 ?q)))))))"
    using kef8_inv [of "word_in key" 6] by simp
  then show ?thesis
    using assms(2) by (auto simp: aes_encrypt_key256_def Let_def enc_inv_def split: prod.splits)
qed

text \<open>The decryption schedule.\<close>

definition dkw :: "(nat \<Rightarrow> u32) \<Rightarrow> nat \<Rightarrow> u32" where
  "dkw w p = (if p < 4 \<or> 56 \<le> p then w p else inv_mcol (w p))"

lemma vpos_eq: "b < 4 \<Longrightarrow> r \<le> 14 \<Longrightarrow> vpos (4 * r + b) = 4 * (14 - r) + b"
  by (simp add: vpos_def)

lemma vpos_row: "p < 60 \<Longrightarrow> vpos p = 4 * (14 - p div 4) + p mod 4"
  using vpos_eq [of "p mod 4" "p div 4"] by simp

lemma vpos_less [simp]: "p < 60 \<Longrightarrow> vpos p < 60"
  using vpos_row [of p] mod_less_divisor [of 4 p] by linarith

lemma vpos_inj: "p < 60 \<Longrightarrow> p' < 60 \<Longrightarrow> vpos p = vpos p' \<longleftrightarrow> p = p'"
proof
  assume p: "p < 60" "p' < 60" "vpos p = vpos p'"
  then have eq: "4 * (14 - p div 4) + p mod 4 = 4 * (14 - p' div 4) + p' mod 4"
    by (simp add: vpos_row)
  have "p mod 4 = p' mod 4"
    using arg_cong [OF eq, of "\<lambda>x. x mod 4"] by simp
  moreover have "14 - p div 4 = 14 - p' div 4"
    using arg_cong [OF eq, of "\<lambda>x. x div 4"] by simp
  ultimately have "p mod 4 = p' mod 4" "p div 4 = p' div 4"
    using p(1,2) by simp_all
  then show "p = p'" by (metis mult_div_mod_eq)
qed simp

definition dec_inv :: "(nat \<Rightarrow> u32) \<Rightarrow> nat \<Rightarrow> u32 list \<times> u32 list \<Rightarrow> bool" where
  "dec_inv w n = (\<lambda>(s, k). window w n s \<and> length k = 60 \<and> (\<forall>p<n. k ! vpos p = dkw w p))"

lemma dec_inv_store:
  assumes "dec_inv w n (s, k)" "8 \<le> n" "n < 60" "j = n mod 8" "w n = w (n - 8) XOR x" "v = dkw w n"
  shows "dec_inv w (Suc n) (s[j := s ! j XOR x], k[vpos n := v])"
proof -
  have "window w (Suc n) (s[j := s ! j XOR x])"
    using assms window_put [of w n s x] by (simp add: dec_inv_def)
  moreover have "k[vpos n := v] ! vpos p = dkw w p" if "p < Suc n" for p
    using that assms vpos_inj [of n p] by (auto simp: dec_inv_def nth_list_update less_Suc_eq)
  ultimately show ?thesis
    using assms(1) by (simp add: dec_inv_def)
qed

lemma window_value:
  "window w n s \<Longrightarrow> 8 \<le> n \<Longrightarrow> w n = w (n - 8) XOR x \<Longrightarrow> s[n mod 8 := s ! (n mod 8) XOR x] ! (n mod 8) = w n"
  using window_put window_last by blast

lemma dec_inv_put:
  assumes "dec_inv w n q" "8 \<le> n" "n < 60" "j = n mod 8" "w n = w (n - 8) XOR x" "m = Suc n"
  shows "n < 56 \<Longrightarrow> dec_inv w m (kdf_put n j x q)" and "56 \<le> n \<Longrightarrow> dec_inv w m (kdl_put n j x q)"
proof -
  obtain s k where q: "q = (s, k)" by (cases q)
  have "s[j := s ! j XOR x] ! j = w n"
    using assms window_value [of w n s x] by (simp add: dec_inv_def q)
  then show "n < 56 \<Longrightarrow> dec_inv w m (kdf_put n j x q)" "56 \<le> n \<Longrightarrow> dec_inv w m (kdl_put n j x q)"
    using assms by (auto simp: q kdf_put_def kdl_put_def Let_def dkw_def intro!: dec_inv_store)
qed

definition dec_inv8 :: "(nat \<Rightarrow> u32) \<Rightarrow> nat \<Rightarrow> u32 \<times> u32 list \<times> u32 list \<Rightarrow> bool" where
  "dec_inv8 w n q \<longleftrightarrow> fst q = inv_mcol (w (n - 1)) \<and> dec_inv w n (snd q)"

lemma dec_inv8_put:
  assumes "dec_inv w n q" "12 \<le> n" "n < 56" "j = n mod 8" "w n = w (n - 8) XOR x" "m = Suc n"
  shows "dec_inv8 w m (kd_put n j x (inv_mcol x, q))"
proof -
  obtain s k where q: "q = (s, k)" by (cases q)
  have "k ! vpos (n - 8) = inv_mcol (w (n - 8))"
  proof -
    have "\<not> n - 8 < 4" "n - 8 < n" "\<not> 56 \<le> n - 8" using assms(2,3) by simp_all
    then show ?thesis using assms(1) by (simp add: dec_inv_def q dkw_def)
  qed
  then have v: "inv_mcol x XOR k ! vpos (n - 8) = inv_mcol (w n)"
    by (simp add: assms(5) inv_mcol_xor xor.commute)
  have "dec_inv w m (s[j := s ! j XOR x], k[vpos n := inv_mcol (w n)])"
    unfolding assms(6) by (rule dec_inv_store) (use assms in \<open>auto simp: q dkw_def\<close>)
  then show ?thesis
    by (simp add: dec_inv8_def q kd_put_def Let_def v assms(6))
qed

lemma dec_next:
  assumes "dec_inv (ekw key) n q" "8 \<le> n" "n < 60" "j = n mod 8" "m = Suc n"
  shows "n < 56 \<Longrightarrow> j \<noteq> 0 \<Longrightarrow> j \<noteq> 4 \<Longrightarrow> j = Suc l \<Longrightarrow> dec_inv (ekw key) m (kdf_put n j (fst q ! l) q)"
    and "n < 56 \<Longrightarrow> j = 0 \<Longrightarrow> i = n div 8 - 1 \<Longrightarrow> dec_inv (ekw key) m (kdf_put n j (ls_box (fst q ! 7) 3 XOR t_rc ! i) q)"
    and "n < 56 \<Longrightarrow> j = 4 \<Longrightarrow> dec_inv (ekw key) m (kdf_put n j (ls_box (fst q ! 3) 0) q)"
    and "56 \<le> n \<Longrightarrow> j \<noteq> 0 \<Longrightarrow> j \<noteq> 4 \<Longrightarrow> j = Suc l \<Longrightarrow> dec_inv (ekw key) m (kdl_put n j (fst q ! l) q)"
    and "56 \<le> n \<Longrightarrow> j = 0 \<Longrightarrow> i = n div 8 - 1 \<Longrightarrow> dec_inv (ekw key) m (kdl_put n j (ls_box (fst q ! 7) 3 XOR t_rc ! i) q)"
proof -
  have win: "window (ekw key) n (fst q)" using assms(1) by (auto simp: dec_inv_def)
  note nxt = window_next [OF win assms(2,4)] and put = dec_inv_put [OF assms(1-4) _ assms(5)]
  show "n < 56 \<Longrightarrow> j \<noteq> 0 \<Longrightarrow> j \<noteq> 4 \<Longrightarrow> j = Suc l \<Longrightarrow> dec_inv (ekw key) m (kdf_put n j (fst q ! l) q)"
    by (rule put(1) [OF nxt(1)])
  show "n < 56 \<Longrightarrow> j = 0 \<Longrightarrow> i = n div 8 - 1 \<Longrightarrow> dec_inv (ekw key) m (kdf_put n j (ls_box (fst q ! 7) 3 XOR t_rc ! i) q)"
    by (rule put(1) [OF nxt(2)])
  show "n < 56 \<Longrightarrow> j = 4 \<Longrightarrow> dec_inv (ekw key) m (kdf_put n j (ls_box (fst q ! 3) 0) q)"
    by (rule put(1) [OF nxt(3)])
  show "56 \<le> n \<Longrightarrow> j \<noteq> 0 \<Longrightarrow> j \<noteq> 4 \<Longrightarrow> j = Suc l \<Longrightarrow> dec_inv (ekw key) m (kdl_put n j (fst q ! l) q)"
    by (rule put(2) [OF nxt(1)])
  show "56 \<le> n \<Longrightarrow> j = 0 \<Longrightarrow> i = n div 8 - 1 \<Longrightarrow> dec_inv (ekw key) m (kdl_put n j (ls_box (fst q ! 7) 3 XOR t_rc ! i) q)"
    by (rule put(2) [OF nxt(2)])
qed

lemma kd_first:
  assumes "dec_inv (ekw key) n q" "12 \<le> n" "n < 56" "j = n mod 8" "m = Suc n"
  shows "j = 0 \<Longrightarrow> i = n div 8 - 1 \<Longrightarrow> g = ls_box (fst q ! 7) 3 XOR t_rc ! i \<Longrightarrow> dec_inv8 (ekw key) m (kd_put n j g (inv_mcol g, q))"
    and "j = 4 \<Longrightarrow> g = ls_box (fst q ! 3) 0 \<Longrightarrow> dec_inv8 (ekw key) m (kd_put n j g (inv_mcol g, q))"
proof -
  have win: "window (ekw key) n (fst q)" and n: "8 \<le> n"
    using assms(1,2) by (auto simp: dec_inv_def)
  note nxt = window_next [OF win n assms(4)]
  show "j = 0 \<Longrightarrow> i = n div 8 - 1 \<Longrightarrow> g = ls_box (fst q ! 7) 3 XOR t_rc ! i \<Longrightarrow> dec_inv8 (ekw key) m (kd_put n j g (inv_mcol g, q))"
    using dec_inv8_put [OF assms(1-4) nxt(2) assms(5)] by simp
  show "j = 4 \<Longrightarrow> g = ls_box (fst q ! 3) 0 \<Longrightarrow> dec_inv8 (ekw key) m (kd_put n j g (inv_mcol g, q))"
    using dec_inv8_put [OF assms(1-4) nxt(3) assms(5)] by simp
qed

lemma kd_next:
  assumes "dec_inv8 (ekw key) n q" "12 \<le> n" "n < 56" "j = n mod 8" "j \<noteq> 0" "j \<noteq> 4" "j = Suc l" "m = Suc n"
  shows "dec_inv8 (ekw key) m (kd_put n j (fst (snd q) ! l) q)"
proof -
  obtain s8 s k where q: "q = (s8, s, k)" by (cases q)
  have inv: "dec_inv (ekw key) n (s, k)" and s8: "s8 = inv_mcol (ekw key (n - 1))"
    using assms(1) by (simp_all add: dec_inv8_def q)
  have win: "window (ekw key) n s" using inv by (simp add: dec_inv_def)
  have x: "ekw key n = ekw key (n - 8) XOR s ! l"
    using window_next(1) [OF win _ assms(4-7)] assms(2) by simp
  have "l = (n - 1) mod 8"
  proof -
    have "(n - 1) mod 8 = (Suc l + 7) mod 8"
      using pred_mod_8 [of n] assms(2,4,7) by simp
    moreover have "l < 8" using assms(4,7) mod_less_divisor [of 8 n] by linarith
    ultimately show ?thesis by simp
  qed
  then have "s ! l = ekw key (n - 1)"
    using window_last [of "ekw key" "n - 1" s] win assms(2) by simp
  then show ?thesis
    using dec_inv8_put [OF inv assms(2-4) x assms(8)] by (simp add: q s8)
qed

lemma kdf8_inv:
  assumes q: "dec_inv (ekw key) (8 * i + 8) q" and i: "i < 5"
  shows "dec_inv (ekw key) (8 * i + 16) (kdf8 i q)"
  unfolding kdf8_def Let_def by (rule q dec_next(1-3) | use i in simp; fail)+

lemma kdl8_inv:
  assumes q: "dec_inv (ekw key) (8 * i + 8) q" and i: "i = 6"
  shows "dec_inv (ekw key) (8 * i + 12) (kdl8 i q)"
  unfolding kdl8_def Let_def by (rule q dec_next(4-5) | use i in simp; fail)+

lemma dec_inv8_snd: "dec_inv8 w n q \<Longrightarrow> dec_inv w n (snd q)"
  by (simp add: dec_inv8_def)

lemma kd8_inv:
  assumes q: "dec_inv (ekw key) (8 * i + 8) q" and i: "0 < i" "i < 6"
  shows "dec_inv (ekw key) (8 * i + 16) (kd8 i q)"
  unfolding kd8_def Let_def by (rule q dec_inv8_snd kd_next kd_first refl | use i in simp; fail)+

lemma dec_inv_first:
  assumes "length (aes_ks cx) = 60"
  shows "dec_inv (ekw (word_in key)) 8
    (map (word_in key) [0..<8],
     fold (\<lambda>i k. k[vpos i := inv_mcol (map (word_in key) [0..<8] ! i)]) [4..<8]
       (fold (\<lambda>i k. k[vpos i := map (word_in key) [0..<8] ! i]) [0..<4] (aes_ks cx)))"
proof -
  have e: "ekw (word_in key) p = word_in key p" if "p < 8" for p
    using that by (simp add: ekw.simps [of "word_in key"])
  show ?thesis
    unfolding dec_inv_def prod.case
  proof (intro conjI allI impI)
    show "window (ekw (word_in key)) 8 (map (word_in key) [0..<8])" by (rule word_in_window)
    fix p :: nat assume "p < 8"
    then have "p = 0 \<or> p = 1 \<or> p = 2 \<or> p = 3 \<or> p = 4 \<or> p = 5 \<or> p = 6 \<or> p = 7" by auto
    then show "fold (\<lambda>i k. k[vpos i := inv_mcol (map (word_in key) [0..<8] ! i)]) [4..<8]
       (fold (\<lambda>i k. k[vpos i := map (word_in key) [0..<8] ! i]) [0..<4] (aes_ks cx)) ! vpos p =
       dkw (ekw (word_in key)) p"
      using assms by (elim disjE) (simp_all add: vpos_def dkw_def e upt_rec, simp_all add: numeral_eq_Suc)
  qed (simp add: assms upt_rec)
qed

lemma aes_decrypt_key256_words:
  assumes "length (aes_ks cx) = 60" "p < 60"
  shows "aes_ks (aes_decrypt_key256 key cx) ! vpos p = dkw (ekw (word_in key)) p"
proof -
  let ?s = "map (word_in key) [0..<8]"
  let ?q = "(?s, fold (\<lambda>i k. k[vpos i := inv_mcol (?s ! i)]) [4..<8]
       (fold (\<lambda>i k. k[vpos i := ?s ! i]) [0..<4] (aes_ks cx)))"
  have "dec_inv (ekw (word_in key)) (8 * 0 + 8) ?q"
    using dec_inv_first [OF assms(1), of key] by simp
  then have "dec_inv (ekw (word_in key)) (8 * 1 + 8) (kdf8 0 ?q)"
    using kdf8_inv [of "word_in key" 0 ?q] by simp
  then have "dec_inv (ekw (word_in key)) (8 * 2 + 8) (kd8 1 (kdf8 0 ?q))"
    using kd8_inv [of "word_in key" 1] by simp
  then have "dec_inv (ekw (word_in key)) (8 * 3 + 8) (kd8 2 (kd8 1 (kdf8 0 ?q)))"
    using kd8_inv [of "word_in key" 2] by simp
  then have "dec_inv (ekw (word_in key)) (8 * 4 + 8) (kd8 3 (kd8 2 (kd8 1 (kdf8 0 ?q))))"
    using kd8_inv [of "word_in key" 3] by simp
  then have "dec_inv (ekw (word_in key)) (8 * 5 + 8) (kd8 4 (kd8 3 (kd8 2 (kd8 1 (kdf8 0 ?q)))))"
    using kd8_inv [of "word_in key" 4] by simp
  then have "dec_inv (ekw (word_in key)) (8 * 6 + 8) (kd8 5 (kd8 4 (kd8 3 (kd8 2 (kd8 1 (kdf8 0 ?q))))))"
    using kd8_inv [of "word_in key" 5] by simp
  then have "dec_inv (ekw (word_in key)) 60 (kdl8 6 (kd8 5 (kd8 4 (kd8 3 (kd8 2 (kd8 1 (kdf8 0 ?q)))))))"
    using kdl8_inv [of "word_in key" 6] by simp
  then show ?thesis
    using assms(2) by (auto simp: aes_decrypt_key256_def Let_def dec_inv_def split: prod.splits)
qed

section \<open>Decryption inverts encryption\<close>

text \<open>A pair of contexts as \<open>CipherInit\<close> makes them: both schedules of one key.\<close>

definition aes_pair :: "aes_ctx \<Rightarrow> aes_ctx \<Rightarrow> bool" where
  "aes_pair ex dx \<longleftrightarrow> aes_inf ex = 14 * 16 \<and> aes_inf dx = 14 * 16 \<and>
     (\<exists>w. \<forall>p<60. aes_ks ex ! p = w p \<and> aes_ks dx ! vpos p = dkw w p)"

lemma aes_pair_keys:
  "length (aes_ks cx) = 60 \<Longrightarrow> length (aes_ks cx') = 60 \<Longrightarrow>
   aes_pair (aes_encrypt_key256 key cx) (aes_decrypt_key256 key cx')"
  unfolding aes_pair_def
  by (intro conjI exI [of _ "ekw (word_in key)"])
    (simp_all add: aes_encrypt_key256_words aes_decrypt_key256_words,
     simp_all add: aes_encrypt_key256_def aes_decrypt_key256_def Let_def split: prod.splits)

lemma aes_pair_quads:
  assumes "aes_pair ex dx" "r \<le> 14"
  shows "quad_at (aes_ks dx) (4 * (14 - r)) =
     (if r = 0 \<or> r = 14 then quad_at (aes_ks ex) (4 * r) else map_quad inv_mcol (quad_at (aes_ks ex) (4 * r)))"
proof -
  obtain w where w: "\<And>p. p < 60 \<Longrightarrow> aes_ks ex ! p = w p \<and> aes_ks dx ! vpos p = dkw w p"
    using assms(1) by (auto simp: aes_pair_def)
  have "aes_ks dx ! (4 * (14 - r) + b) = (if r = 0 \<or> r = 14 then aes_ks ex ! (4 * r + b)
          else inv_mcol (aes_ks ex ! (4 * r + b)))" if "b < 4" for b
  proof -
    have "4 * r + b < 60" "4 * r + b < 4 \<longleftrightarrow> r = 0" "56 \<le> 4 * r + b \<longleftrightarrow> r = 14"
      using that assms(2) by auto
    then show ?thesis
      using w [of "4 * r + b"] vpos_eq [OF that assms(2)] by (auto simp: dkw_def)
  qed
  from this [of 0] this [of 1] this [of 2] this [of 3] show ?thesis
    by (auto simp: quad_at_def)
qed

lemma state_in_xor: "state_in x k = xor_quad (quad_at k 0) (quad_of_bytes x)"
  by (cases "quad_of_bytes x") (simp add: state_in_def quad_at_def xor.commute numeral_2_eq_2 numeral_3_eq_3)

lemma bval_224 [simp]: "bval 224 0 = 224"
  by (simp add: bval_def)

text \<open>The offsets of the round keys of the thirteen middle rounds.\<close>

definition mid_rounds :: "nat list" where
  "mid_rounds = [4, 8, 12, 16, 20, 24, 28, 32, 36, 40, 44, 48, 52]"

lemma aes_encrypt_rounds:
  "aes_inf cx = 14 * 16 \<Longrightarrow> aes_encrypt b cx = Some (bytes_of_quad
     (fwd_round t_fl (aes_ks cx) 56 (fold (fwd_round t_fn (aes_ks cx))
        mid_rounds (state_in b (aes_ks cx)))))"
  by (simp add: aes_encrypt_def Let_def upt_rec mid_rounds_def)

lemma aes_decrypt_rounds:
  "aes_inf cx = 14 * 16 \<Longrightarrow> aes_decrypt b cx = Some (bytes_of_quad
     (inv_round t_il (aes_ks cx) 56 (fold (inv_round t_in (aes_ks cx))
        mid_rounds (state_in b (aes_ks cx)))))"
  by (simp add: aes_decrypt_def Let_def mid_rounds_def)

lemma aes_inv_rounds:
  assumes "aes_pair ex dx"
  shows "fold (inv_round t_in (aes_ks dx)) mid_rounds
    (sub_shift (fold (fwd_round t_fn (aes_ks ex)) mid_rounds q)) = sub_shift q"
    and "fold (fwd_round t_fn (aes_ks ex)) mid_rounds
    (inv_sub_shift (fold (inv_round t_in (aes_ks dx)) mid_rounds q)) = inv_sub_shift q"
proof -
  note qd = aes_pair_quads [OF assms]
  note step = inv_round_step [of "aes_ks dx" _ "aes_ks ex"] fwd_round_step [of "aes_ks dx" _ "aes_ks ex"]
  note qds = qd [of 1, simplified] qd [of 2, simplified] qd [of 3, simplified] qd [of 4, simplified]
    qd [of 5, simplified] qd [of 6, simplified] qd [of 7, simplified] qd [of 8, simplified]
    qd [of 9, simplified] qd [of 10, simplified] qd [of 11, simplified] qd [of 12, simplified]
    qd [of 13, simplified]
  show "fold (inv_round t_in (aes_ks dx)) mid_rounds
    (sub_shift (fold (fwd_round t_fn (aes_ks ex)) mid_rounds q)) = sub_shift q"
    by (simp add: qds [THEN step(1)] mid_rounds_def)
  show "fold (fwd_round t_fn (aes_ks ex)) mid_rounds
    (inv_sub_shift (fold (inv_round t_in (aes_ks dx)) mid_rounds q)) = inv_sub_shift q"
    by (simp add: qds [THEN step(2)] mid_rounds_def)
qed

lemma aes_decrypt_encrypt_block:
  assumes "aes_pair ex dx" "length b = 16"
  shows "\<exists>c. aes_encrypt b ex = Some c \<and> length c = 16 \<and> aes_decrypt c dx = Some b"
proof -
  have inf: "aes_inf ex = 14 * 16" "aes_inf dx = 14 * 16" using assms(1) by (auto simp: aes_pair_def)
  have ends: "quad_at (aes_ks dx) 0 = quad_at (aes_ks ex) 56" "quad_at (aes_ks dx) 56 = quad_at (aes_ks ex) 0"
    using aes_pair_quads [OF assms(1), of 14] aes_pair_quads [OF assms(1), of 0] by simp_all
  show ?thesis
    unfolding aes_encrypt_rounds [OF inf(1)] aes_decrypt_rounds [OF inf(2)]
    by (simp add: state_in_xor rounds_spec(1,3) ends aes_inv_rounds(1) [OF assms(1)] assms(2))
qed

lemma aes_encrypt_decrypt_block:
  assumes "aes_pair ex dx" "length b = 16"
  shows "\<exists>c. aes_decrypt b dx = Some c \<and> length c = 16 \<and> aes_encrypt c ex = Some b"
proof -
  have inf: "aes_inf ex = 14 * 16" "aes_inf dx = 14 * 16" using assms(1) by (auto simp: aes_pair_def)
  have ends: "quad_at (aes_ks dx) 0 = quad_at (aes_ks ex) 56" "quad_at (aes_ks dx) 56 = quad_at (aes_ks ex) 0"
    using aes_pair_quads [OF assms(1), of 14] aes_pair_quads [OF assms(1), of 0] by simp_all
  show ?thesis
    unfolding aes_encrypt_rounds [OF inf(1)] aes_decrypt_rounds [OF inf(2)]
    by (simp add: state_in_xor rounds_spec(1,3) ends aes_inv_rounds(2) [OF assms(1)] assms(2))
qed

end
