(* ===== verification/Block_Ciphers.thy ===== *)
theory Block_Ciphers
  imports Cipher_Config Serpent Twofish Blowfish Cast5 Des Aes_Inverse
begin

text \<open>
  The cipher dispatch of Common/Crypto.c: \<open>CipherInit\<close>, \<open>EncipherBlock(s)\<close>, \<open>DecipherBlock(s)\<close> and
  \<open>EAInit\<close>. A key schedule lives in a byte buffer; the functions get the bytes from the pointer
  \<open>ks\<close> on. The structures of the ciphers are read from and written to the buffer at the offsets of
  their fields.

  \<open>None\<close> is the fatal exception of an unknown identifier. The assembly routines for AES instructions
  are parameters (the record \<open>cpu\<close>); \<open>hw_ok\<close> states that they compute the AES of the C code.

  The locale \<open>block_cipher\<close> is what the modes of operation rely on. \<open>cipher_contract\<close> shows that every
  identifier with a scheduled key provides it, and \<open>CipherInit_scheduled\<close> that \<open>CipherInit\<close>
  schedules the key.
\<close>

unbundle bit_operations_syntax

section \<open>The contract of a block cipher\<close>

primrec block_map :: "(bytes \<Rightarrow> bytes) \<Rightarrow> nat \<Rightarrow> nat \<Rightarrow> bytes \<Rightarrow> bytes" where
  "block_map f bs 0 d = d"
| "block_map f bs (Suc n) d = f (take bs d) @ block_map f bs n (drop bs d)"

locale block_cipher =
  fixes bsize :: nat and enc dec :: "bytes \<Rightarrow> bytes"
  assumes length_enc: "length b = bsize \<Longrightarrow> length (enc b) = bsize"
    and length_dec: "length b = bsize \<Longrightarrow> length (dec b) = bsize"
    and dec_enc: "length b = bsize \<Longrightarrow> dec (enc b) = b"
    and enc_dec: "length b = bsize \<Longrightarrow> enc (dec b) = b"
begin

lemma inj: "length b = bsize \<Longrightarrow> length c = bsize \<Longrightarrow> enc b = enc c \<longleftrightarrow> b = c"
  by (metis dec_enc)

lemma length_map_enc: "n * bsize \<le> length d \<Longrightarrow> length (block_map enc bsize n d) = length d"
  by (induction n arbitrary: d) (simp_all add: length_enc)

lemma map_dec_enc: "n * bsize \<le> length d \<Longrightarrow> block_map dec bsize n (block_map enc bsize n d) = d"
  by (induction n arbitrary: d) (simp_all add: length_enc dec_enc)

lemma map_enc_dec: "n * bsize \<le> length d \<Longrightarrow> block_map enc bsize n (block_map dec bsize n d) = d"
  by (induction n arbitrary: d) (simp_all add: length_dec enc_dec)

end

interpretation serpent: block_cipher 16 "\<lambda>b. serpent_encrypt b ks" "\<lambda>b. serpent_decrypt b ks" for ks
  by unfold_locales (simp_all add: serpent_decrypt_encrypt_block serpent_encrypt_decrypt_block)

interpretation twofish: block_cipher 16 "twofish_encrypt inst" "twofish_decrypt inst" for inst
  by unfold_locales (simp_all add: twofish_decrypt_encrypt_block twofish_encrypt_decrypt_block)

interpretation cast5: block_cipher 8 "Cast5Encrypt K" "Cast5Decrypt K" for K
  by unfold_locales (simp_all add: cast_decrypt_encrypt_block)

section \<open>Key schedules in memory\<close>

definition aes_ctx_at :: "nat \<Rightarrow> bytes \<Rightarrow> aes_ctx" where
  "aes_ctx_at off m = \<lparr>aes_ks = words_at off 60 m, aes_inf = le_to_word (get_at (off + 240) 4 m)\<rparr>"

definition aes_ctx_bytes :: "aes_ctx \<Rightarrow> bytes" where
  "aes_ctx_bytes cx = bytes_of_words (aes_ks cx) @ word_to_le 4 (aes_inf cx)"

definition twofish_at :: "bytes \<Rightarrow> TwofishInstance" where
  "twofish_at m = \<lparr>l_key = words_at 0 40 m, s_key = words_at 160 4 m, mk_tab = words_at 176 1024 m,
                   k_len = le_to_word (get_at 4272 4 m)\<rparr>"

definition twofish_bytes :: "TwofishInstance \<Rightarrow> bytes" where
  "twofish_bytes inst = bytes_of_words (l_key inst) @ bytes_of_words (s_key inst) @
                        bytes_of_words (mk_tab inst) @ word_to_le 4 (k_len inst)"

definition bf_at :: "bytes \<Rightarrow> BF_KEY" where
  "bf_at m = \<lparr>pbox = words_at 0 18 m, pbox_dec = words_at 72 18 m, sbox = words_at 144 1024 m\<rparr>"

definition bf_bytes :: "BF_KEY \<Rightarrow> bytes" where
  "bf_bytes key = bytes_of_words (pbox key) @ bytes_of_words (pbox_dec key) @ bytes_of_words (sbox key)"

definition tdes_at :: "bytes \<Rightarrow> TDES_KEY" where
  "tdes_at m = \<lparr>k1 = words_at 0 32 m, k2 = words_at 128 32 m, k3 = words_at 256 32 m,
                k1d = words_at 384 32 m, k2d = words_at 512 32 m, k3d = words_at 640 32 m\<rparr>"

definition tdes_bytes :: "TDES_KEY \<Rightarrow> bytes" where
  "tdes_bytes key = bytes_of_words (k1 key) @ bytes_of_words (k2 key) @ bytes_of_words (k3 key) @
                    bytes_of_words (k1d key) @ bytes_of_words (k2d key) @ bytes_of_words (k3d key)"

section \<open>Initialisation of a cipher\<close>

definition ERR_SUCCESS :: nat where "ERR_SUCCESS = 0"
definition ERR_CIPHER_INIT_FAILURE :: nat where "ERR_CIPHER_INIT_FAILURE = 17"
definition ERR_CIPHER_INIT_WEAK_KEY :: nat where "ERR_CIPHER_INIT_WEAK_KEY = 18"

lemmas err_codes [tc_cfg] = ERR_SUCCESS_def ERR_CIPHER_INIT_FAILURE_def ERR_CIPHER_INIT_WEAK_KEY_def

definition des_keys_equal :: "bytes \<Rightarrow> nat \<Rightarrow> nat \<Rightarrow> bool" where
  "des_keys_equal key i j \<longleftrightarrow>
     (le_to_word (get_at (8 * i) 8 key) XOR le_to_word (get_at (8 * j) 8 key) :: u64)
       AND 0xFEFEFEFEFEFEFEFE = 0"

text \<open>The result is the return value and the buffer; \<open>aes_encrypt_key256\<close> never fails.\<close>

definition CipherInit :: "nat \<Rightarrow> bytes \<Rightarrow> bytes \<Rightarrow> nat \<times> bytes" where
  "CipherInit cipher key ks =
     (if cipher = AES then
        (let ks = put_at 0 (aes_ctx_bytes (aes_encrypt_key256 key (aes_ctx_at 0 ks))) ks;
             ks = put_at AES_CTX_SIZE (aes_ctx_bytes (aes_decrypt_key256 key (aes_ctx_at AES_CTX_SIZE ks))) ks
         in (ERR_SUCCESS, ks))
      else if cipher = SERPENT then
        (ERR_SUCCESS,
         put_at 0 (bytes_of_words (serpent_set_key key (CipherGetKeySize SERPENT * 8) (words_at 0 140 ks))) ks)
      else if cipher = TWOFISH then
        (ERR_SUCCESS,
         put_at 0 (twofish_bytes (twofish_set_key (twofish_at ks) (words_at 0 8 key)
                     (word_of_nat (CipherGetKeySize TWOFISH * 8)))) ks)
      else if cipher = BLOWFISH then
        (ERR_SUCCESS, put_at 0 (bf_bytes (BlowfishSetKey (bf_at ks) (CipherGetKeySize BLOWFISH) key)) ks)
      else if cipher = CAST then
        (ERR_SUCCESS, put_at 0 (bytes_of_words (Cast5SetKey (words_at 0 32 ks) key)) ks)
      else if cipher = TRIPLEDES then
        (if des_keys_equal key 0 1 \<or> des_keys_equal key 1 2 \<or> des_keys_equal key 0 2
         then ERR_CIPHER_INIT_WEAK_KEY else ERR_SUCCESS,
         put_at 0 (tdes_bytes (TripleDesSetKey key)) ks)
      else (ERR_CIPHER_INIT_FAILURE, ks))"

section \<open>Blocks\<close>

record cpu =
  IsAesHwCpuSupported :: bool
  aes_hw_cpu_encrypt :: "bytes \<Rightarrow> bytes \<Rightarrow> bytes"
  aes_hw_cpu_decrypt :: "bytes \<Rightarrow> bytes \<Rightarrow> bytes"
  aes_hw_cpu_encrypt_32_blocks :: "bytes \<Rightarrow> bytes \<Rightarrow> bytes"
  aes_hw_cpu_decrypt_32_blocks :: "bytes \<Rightarrow> bytes \<Rightarrow> bytes"

text \<open>The return values of \<open>aes_encrypt\<close> and \<open>aes_decrypt\<close> are ignored: after a failure the data are
  what they were.\<close>

definition EncipherBlock :: "cpu \<Rightarrow> nat \<Rightarrow> bytes \<Rightarrow> bytes \<Rightarrow> bytes option" where
  "EncipherBlock u cipher data ks =
     (if cipher = AES then
        Some (if IsAesHwCpuSupported u then aes_hw_cpu_encrypt u ks data
              else (case aes_encrypt data (aes_ctx_at 0 ks) of None \<Rightarrow> data | Some c \<Rightarrow> c))
      else if cipher = TWOFISH then Some (twofish_encrypt (twofish_at ks) data)
      else if cipher = SERPENT then Some (serpent_encrypt data ks)
      else if cipher = BLOWFISH then Some (BlowfishEncryptLE (bf_at ks) True data)
      else if cipher = CAST then Some (Cast5Encrypt (words_at 0 32 ks) data)
      else if cipher = TRIPLEDES then Some (TripleDesEncrypt (tdes_at ks) True data)
      else None)"

definition DecipherBlock :: "cpu \<Rightarrow> nat \<Rightarrow> bytes \<Rightarrow> bytes \<Rightarrow> bytes option" where
  "DecipherBlock u cipher data ks =
     (if cipher = SERPENT then Some (serpent_decrypt data ks)
      else if cipher = TWOFISH then Some (twofish_decrypt (twofish_at ks) data)
      else if cipher = AES then
        Some (if IsAesHwCpuSupported u then aes_hw_cpu_decrypt u (drop AES_CTX_SIZE ks) data
              else (case aes_decrypt data (aes_ctx_at AES_CTX_SIZE ks) of None \<Rightarrow> data | Some c \<Rightarrow> c))
      else if cipher = BLOWFISH then Some (BlowfishEncryptLE (bf_at ks) False data)
      else if cipher = CAST then Some (Cast5Decrypt (words_at 0 32 ks) data)
      else if cipher = TRIPLEDES then Some (TripleDesEncrypt (tdes_at ks) False data)
      else None)"

text \<open>The loops over the blocks of a buffer, in place: \<open>n\<close> blocks of \<open>bs\<close> bytes.\<close>

primrec block_loop :: "(bytes \<Rightarrow> bytes option) \<Rightarrow> nat \<Rightarrow> nat \<Rightarrow> bytes \<Rightarrow> bytes option" where
  "block_loop f bs 0 d = Some d"
| "block_loop f bs (Suc n) d =
     (case f (take bs d) of None \<Rightarrow> None | Some c \<Rightarrow> map_option ((@) c) (block_loop f bs n (drop bs d)))"

definition EncipherBlocks :: "cpu \<Rightarrow> nat \<Rightarrow> bytes \<Rightarrow> bytes \<Rightarrow> nat \<Rightarrow> bytes option" where
  "EncipherBlocks u cipher data ks blockCount =
     (if cipher = AES \<and> blockCount mod 32 = 0 \<and> IsAesHwCpuSupported u
      then block_loop (\<lambda>d. Some (aes_hw_cpu_encrypt_32_blocks u ks d)) (32 * 16) (blockCount div 32) data
      else block_loop (\<lambda>d. EncipherBlock u cipher d ks) (CipherGetBlockSize cipher) blockCount data)"

definition DecipherBlocks :: "cpu \<Rightarrow> nat \<Rightarrow> bytes \<Rightarrow> bytes \<Rightarrow> nat \<Rightarrow> bytes option" where
  "DecipherBlocks u cipher data ks blockCount =
     (if cipher = AES \<and> blockCount mod 32 = 0 \<and> IsAesHwCpuSupported u
      then block_loop (\<lambda>d. Some (aes_hw_cpu_decrypt_32_blocks u (drop AES_CTX_SIZE ks) d)) (32 * 16)
             (blockCount div 32) data
      else block_loop (\<lambda>d. DecipherBlock u cipher d ks) (CipherGetBlockSize cipher) blockCount data)"

definition CipherSupportsIntraDataUnitParallelization :: "cpu \<Rightarrow> nat \<Rightarrow> bool" where
  "CipherSupportsIntraDataUnitParallelization u cipher \<longleftrightarrow> cipher = AES \<and> IsAesHwCpuSupported u"

section \<open>Initialisation of an algorithm\<close>

text \<open>
  The loop of \<open>EAInit\<close> over the ciphers \<open>cs\<close>: \<open>key\<close> and \<open>ks\<close> are what is left from the two pointers
  on. A failure returns at once; a weak key is remembered.
\<close>

fun EAInit_loop :: "nat list \<Rightarrow> bytes \<Rightarrow> bytes \<Rightarrow> nat \<Rightarrow> nat \<times> bytes" where
  "EAInit_loop [] key ks retVal = (retVal, ks)"
| "EAInit_loop (c # cs) key ks retVal =
     (let (r, ks) = CipherInit c key ks in
      if r = ERR_CIPHER_INIT_FAILURE then (ERR_CIPHER_INIT_FAILURE, ks)
      else
        let retVal = (if r = ERR_CIPHER_INIT_WEAK_KEY then ERR_CIPHER_INIT_WEAK_KEY else retVal);
            n = CipherGetKeyScheduleSize c;
            (retVal, rest) = EAInit_loop cs (drop (CipherGetKeySize c) key) (drop n ks) retVal
        in (retVal, take n ks @ rest))"

definition EAInit :: "nat \<Rightarrow> bytes \<Rightarrow> bytes \<Rightarrow> (nat \<times> bytes) option" where
  "EAInit ea key ks =
     (if ea = 0 then Some (ERR_CIPHER_INIT_FAILURE, ks)
      else map_option (\<lambda>cs. EAInit_loop cs key ks ERR_SUCCESS) (ea_ciphers_forward ea))"

section \<open>Reading back what was written\<close>

lemma get_at_drop: "get_at off n (drop k m) = get_at (k + off) n m"
  by (simp add: get_at_def add.commute)

lemma get_at_get_at: "i + n \<le> len \<Longrightarrow> get_at i n (get_at off len m) = get_at (off + i) n m"
  by (simp add: get_at_def drop_take min_def add.commute)

lemma words_at_get_at: "i + 4 * n \<le> len \<Longrightarrow> words_at i n (get_at off len m) = words_at (off + i) n m"
  by (auto simp: words_at_def get_at_get_at add.assoc)

lemma words_at_drop: "words_at off n (drop k m) = words_at (k + off) n m"
  by (simp add: words_at_def get_at_drop add.assoc)

lemma aes_ctx_at_drop: "aes_ctx_at 0 (drop k m) = aes_ctx_at k m"
  by (simp add: aes_ctx_at_def words_at_drop get_at_drop)

lemma length_aes_ctx_bytes [simp, tc_len]: "length (aes_ctx_bytes cx) = 4 * length (aes_ks cx) + 4"
  by (simp add: aes_ctx_bytes_def)

lemma words_of_front: "4 * n = length xs \<Longrightarrow> xs = bytes_of_words ws \<Longrightarrow> words_at 0 n (xs @ ys) = ws"
  using words_at_append_left [of 0 n xs ys] words_at_bytes_of_words [of ws] by auto

lemma aes_ctx_at_bytes: "length (aes_ks cx) = 60 \<Longrightarrow> aes_ctx_at 0 (aes_ctx_bytes cx) = cx"
  using get_at_append_right [of "bytes_of_words (aes_ks cx)" 0 4 "word_to_le 4 (aes_inf cx)"]
  by (simp add: aes_ctx_at_def aes_ctx_bytes_def words_of_front) (simp add: get_at_def)

lemma aes_ctx_at_put:
  assumes "length (aes_ks cx) = 60" "off + 244 \<le> length m"
  shows "aes_ctx_at off (put_at off (aes_ctx_bytes cx) m) = cx"
proof -
  have "get_at off 244 (put_at off (aes_ctx_bytes cx) m) = aes_ctx_bytes cx"
    using assms by (simp add: get_put_same)
  then have "aes_ctx_at 0 (get_at off 244 (put_at off (aes_ctx_bytes cx) m)) = cx"
    using aes_ctx_at_bytes [OF assms(1)] by simp
  then show ?thesis
    by (simp add: aes_ctx_at_def words_at_get_at get_at_get_at)
qed

lemma aes_ctx_at_put_other:
  assumes "off + length src \<le> length m" "off' + 244 \<le> length m" "off' + 244 \<le> off \<or> off + length src \<le> off'"
  shows "aes_ctx_at off' (put_at off src m) = aes_ctx_at off' m"
proof -
  have "get_at (off' + i) 4 (put_at off src m) = get_at (off' + i) 4 m" if "i + 4 \<le> 244" for i
    using assms that by (intro get_put_other) auto
  then show ?thesis by (simp add: aes_ctx_at_def words_at_def)
qed

lemma length_aes_puts [simp]:
  "length (snd (ke_put n j x q)) = length (snd q)" "length (snd (kdf_put n j x q)) = length (snd q)"
  "length (snd (kdl_put n j x q)) = length (snd q)"
  "length (snd (snd (kd_put n j x q'))) = length (snd (snd q'))"
  by (cases q; cases q'; simp add: ke_put_def kdf_put_def kdl_put_def kd_put_def Let_def)+

lemma length_aes_cycles [simp]:
  "length (snd (kef8 i q)) = length (snd q)" "length (snd (ke8 i q)) = length (snd q)"
  "length (snd (kdf8 i q)) = length (snd q)" "length (snd (kd8 i q)) = length (snd q)"
  "length (snd (kdl8 i q)) = length (snd q)"
  by (simp_all add: kef8_def ke8_def kdf8_def kd8_def kdl8_def Let_def)

lemma length_aes_key256 [simp]:
  assumes "length (aes_ks cx) = 60"
  shows "length (aes_ks (aes_encrypt_key256 key cx)) = 60" "length (aes_ks (aes_decrypt_key256 key cx)) = 60"
proof -
  show "length (aes_ks (aes_encrypt_key256 key cx)) = 60"
    by (simp add: aes_encrypt_key256_def Let_def case_prod_unfold assms)
  show "length (aes_ks (aes_decrypt_key256 key cx)) = 60"
    by (simp add: aes_decrypt_key256_def Let_def case_prod_unfold assms length_fold_update_idx)
qed

lemma length_bf_bytes [simp, tc_len]:
  "length (bf_bytes k) = 4 * (length (pbox k) + length (pbox_dec k) + length (sbox k))"
  by (simp add: bf_bytes_def)

lemma length_tdes_bytes [simp, tc_len]:
  "length (tdes_bytes k) = 4 * (length (k1 k) + length (k2 k) + length (k3 k) + length (k1d k) + length (k2d k) + length (k3d k))"
  by (simp add: tdes_bytes_def)

lemma words_at_skip: "off = length xs \<Longrightarrow> words_at off n (xs @ ys) = words_at 0 n ys"
  using words_at_append_right [of xs 0] by simp

lemma words_at_front:
  "n = length ws \<Longrightarrow> words_at 0 n (bytes_of_words ws @ ys) = ws"
  by (rule words_of_front) simp_all

lemma bf_at_bytes:
  assumes "length (pbox k) = 18" "length (pbox_dec k) = 18" "length (sbox k) = 1024"
  shows "bf_at (bf_bytes k @ rest) = k"
proof -
  have "words_at 72 18 (bf_bytes k @ rest) = pbox_dec k"
    unfolding bf_bytes_def append_assoc by (subst words_at_skip) (simp_all add: words_at_front assms)
  moreover have "words_at 144 1024 (bf_bytes k @ rest) = sbox k"
    unfolding bf_bytes_def append_assoc
    by (subst append_assoc [symmetric], subst words_at_skip) (simp_all add: words_at_front assms)
  ultimately show ?thesis
    by (simp add: bf_at_def) (simp add: bf_bytes_def words_at_front assms)
qed

lemma put_at_0: "length src \<le> length m \<Longrightarrow> put_at 0 src m = src @ drop (length src) m"
  by (simp add: put_at_def)

lemma tdes_at_bytes:
  assumes "length (k1 k) = 32" "length (k2 k) = 32" "length (k3 k) = 32"
    "length (k1d k) = 32" "length (k2d k) = 32" "length (k3d k) = 32"
  shows "tdes_at (tdes_bytes k @ rest) = k"
proof -
  let ?b = bytes_of_words
  have eq: "tdes_bytes k @ rest = ?b (k1 k @ k2 k @ k3 k @ k1d k @ k2d k @ k3d k) @ rest"
    by (simp add: tdes_bytes_def bytes_of_words_append)
  have at: "words_at (4 * length xs) 32 (?b (xs @ ws @ ys) @ rest) = ws" if "length ws = 32" for xs ws ys
    using that by (simp add: bytes_of_words_append words_at_skip words_at_front)
  show ?thesis
    unfolding eq
    using at [of "k1 k" "[]"] at [of "k2 k" "k1 k"] at [of "k3 k" "k1 k @ k2 k"]
      at [of "k1d k" "k1 k @ k2 k @ k3 k"] at [of "k2d k" "k1 k @ k2 k @ k3 k @ k1d k"]
      at [of "k3d k" "k1 k @ k2 k @ k3 k @ k1d k @ k2d k" "[]"] assms
    by (simp add: tdes_at_def)
qed

lemma length_RawSetKey [simp]: "length (RawSetKey e key) = 32"
proof -
  have swap: "length (fold des_swap is k) = length k" for "is" k
    by (induction "is" arbitrary: k) (simp_all add: des_swap_def Let_def)
  have "length (concat (map (des_round_keys key) [0..<16])) = 32"
    using length_RawSetKey_rounds [of key 16] by simp
  then show ?thesis
    by (cases e) (simp_all only: RawSetKey_def Let_def if_True if_False swap)
qed

lemma length_set_sbox [simp]:
  "length (sbox (set_sbox_pair i w k)) = length (sbox k)" "sbox (set_pbox_pair i w k) = sbox k"
  "sbox (set_pbox_dec k) = sbox k"
  by (simp_all add: set_sbox_pair_def set_pbox_pair_def set_pbox_dec_def)

lemma length_box_steps [simp]:
  "sbox (fold pbox_step is k) = sbox k" "length (sbox (fold sbox_step is k)) = length (sbox k)"
  by (induction "is" arbitrary: k) (simp_all add: pbox_step_def sbox_step_def)

lemma length_boxes_init: "length s_init = 1024" "length p_init = 18"
  by (simp_all add: s_init_def s_init0_def s_init1_def s_init2_def s_init3_def p_init_def)

lemma length_BlowfishSetKey:
  assumes "length (pbox_dec key) = 18"
  shows "length (sbox (BlowfishSetKey key n s)) = 1024"
  by (simp add: BlowfishSetKey_def Let_def length_boxes_init del: upt_Suc)

section \<open>Scheduled keys\<close>

definition valid_cipher :: "nat \<Rightarrow> bool" where
  "valid_cipher c \<longleftrightarrow> 1 \<le> c \<and> c \<le> 6"

lemma valid_cipherE:
  assumes "valid_cipher c"
  obtains "c = 1" | "c = 2" | "c = 3" | "c = 4" | "c = 5" | "c = 6"
  using assms by (fastforce simp: valid_cipher_def)

definition scheduled :: "nat \<Rightarrow> bytes \<Rightarrow> bool" where
  "scheduled c ks \<longleftrightarrow>
     (if c = AES then aes_pair (aes_ctx_at 0 ks) (aes_ctx_at AES_CTX_SIZE ks)
      else if c = BLOWFISH then bf_scheduled (bf_at ks)
      else if c = TRIPLEDES then tdes_scheduled (tdes_at ks)
      else valid_cipher c)"

lemma CipherInit_AES:
  assumes "488 \<le> length ks" "CipherInit 1 key ks = (r, ks')"
  shows "length ks' = length ks \<and> drop 488 ks' = drop 488 ks \<and> scheduled 1 ks'"
proof -
  let ?e = "aes_encrypt_key256 key (aes_ctx_at 0 ks)"
  let ?m = "put_at 0 (aes_ctx_bytes ?e) ks"
  let ?d = "aes_decrypt_key256 key (aes_ctx_at 244 ?m)"
  have le: "length (aes_ks ?e) = 60" "length (aes_ks ?d) = 60"
    by (simp_all add: aes_ctx_at_def)
  have ks': "ks' = put_at 244 (aes_ctx_bytes ?d) ?m"
    using assms(2) by (simp add: CipherInit_def Let_def AES_CTX_SIZE_def)
  have len: "length ?m = length ks" "length ks' = length ks"
    using assms(1) le by (simp_all add: ks')
  have "aes_ctx_at 0 ks' = ?e"
    using assms(1) le len by (simp add: ks' aes_ctx_at_put_other aes_ctx_at_put)
  moreover have "aes_ctx_at 244 ks' = ?d"
    using assms(1) le len by (simp add: ks' aes_ctx_at_put)
  moreover have "aes_pair ?e ?d"
    by (rule aes_pair_keys) (simp_all add: aes_ctx_at_def)
  moreover have "drop 488 ks' = drop 488 ks"
    using assms(1) le by (simp add: ks' put_at_def)
  ultimately show ?thesis
    using len by (simp add: scheduled_def AES_CTX_SIZE_def)
qed

lemma length_serpent_set_key [simp]: "length (serpent_set_key u n k) = length k"
proof -
  have "length (sbox_at sb i k) = length k" for sb i k
    by (simp add: sbox_at_def split: prod.splits)
  moreover from this have "length (sbox_pass i k) = length k" for i k
    by (simp add: sbox_pass_def Let_def)
  then have "length (fold sbox_pass is k) = length k" for "is" k
    by (induction "is" arbitrary: k) simp_all
  ultimately show ?thesis
    by (simp add: serpent_set_key_def Let_def prekeys_def length_prekey_fold set_key_pad_def)
qed

lemma length_twofish_set_key:
  "length (s_key inst) = 4 \<Longrightarrow> length (twofish_bytes (twofish_set_key inst key 256)) = 4276"
proof -
  assume s: "length (s_key inst) = 4"
  have l: "length (concat (map f [0..<n])) = m * n" if "\<And>i. length (f i) = m" for f :: "nat \<Rightarrow> u32 list" and n m
    by (induction n) (simp_all add: that)
  have "length (mk_row klen k i) = 4" for klen k i by (simp add: mk_row_def Let_def)
  moreover have "length (l_key_pair klen a b i) = 2" for klen a b i by (simp add: l_key_pair_def Let_def)
  ultimately show ?thesis
    using s by (simp add: twofish_bytes_def twofish_set_key_def Let_def gen_mk_tab_def l length_fold_update_idx del: upt_Suc)
qed

lemma length_Cast5SetKey [simp]: "length (Cast5SetKey K u) = length K"
proof -
  have "length (snd (snd (cast_key_half 16 (cast_key_half 0 (X, Z, K))))) = length K" for X Z
    by simp
  then show ?thesis
    by (simp add: Cast5SetKey_def Let_def case_prod_unfold)
qed

lemma put_at_0_facts:
  assumes "length src = n" "n \<le> length m"
  shows "length (put_at 0 src m) = length m \<and> drop n (put_at 0 src m) = drop n m"
  using assms by (simp add: put_at_def)

text \<open>\<open>CipherInit\<close> schedules the key, and writes nothing past the key schedule of the cipher.\<close>

lemma CipherInit_scheduled:
  assumes "valid_cipher c" "CipherGetKeyScheduleSize c \<le> length ks" "CipherInit c key ks = (r, ks')"
  shows "length ks' = length ks \<and>
    drop (CipherGetKeyScheduleSize c) ks' = drop (CipherGetKeyScheduleSize c) ks \<and>
    scheduled c ks' \<and> r \<noteq> ERR_CIPHER_INIT_FAILURE"
  using assms(1)
proof (cases rule: valid_cipherE)
  case 1
  then show ?thesis
    using assms CipherInit_AES [of ks key r ks'] by (auto simp: tc_cfg CipherInit_def Let_def)
next
  case 2
  have "length (bytes_of_words (serpent_set_key key n (words_at 0 140 ks))) = 560" for n
    by simp
  from put_at_0_facts [OF this] 2 show ?thesis
    using assms by (auto simp: tc_cfg CipherInit_def scheduled_def)
next
  case 3
  have "length (twofish_bytes (twofish_set_key (twofish_at ks) (words_at 0 8 key) 256)) = 4276"
    by (rule length_twofish_set_key) (simp add: twofish_at_def)
  from put_at_0_facts [OF this] 3 show ?thesis
    using assms by (auto simp: tc_cfg CipherInit_def scheduled_def)
next
  case 4
  let ?k = "BlowfishSetKey (bf_at ks) 56 key"
  have k: "bf_scheduled ?k" "length (sbox ?k) = 1024"
    by (rule BlowfishSetKey_scheduled length_BlowfishSetKey, simp add: bf_at_def)+
  then have "length (pbox ?k) = 18" "length (pbox_dec ?k) = 18" by (simp_all add: bf_scheduled_def)
  with k have "length (bf_bytes ?k) = 4240" "bf_at (bf_bytes ?k @ rest) = ?k" for rest
    by (simp_all add: bf_at_bytes)
  with put_at_0_facts [of "bf_bytes ?k" 4240 ks] 4 show ?thesis
    using assms k(1) by (auto simp: tc_cfg CipherInit_def scheduled_def put_at_0)
next
  case 5
  have "length (bytes_of_words (Cast5SetKey (words_at 0 32 ks) key)) = 128"
    by simp
  from put_at_0_facts [OF this] 5 show ?thesis
    using assms by (auto simp: tc_cfg CipherInit_def scheduled_def)
next
  case 6
  let ?k = "TripleDesSetKey key"
  have "length (tdes_bytes ?k) = 768" "tdes_at (tdes_bytes ?k @ rest) = ?k" for rest
    by (simp_all add: TripleDesSetKey_def tdes_at_bytes)
  with put_at_0_facts [of "tdes_bytes ?k" 768 ks] 6 show ?thesis
    using assms TripleDesSetKey_scheduled [of key]
    by (auto simp: tc_cfg CipherInit_def scheduled_def put_at_0 split: if_splits)
qed

section \<open>The contract holds\<close>

text \<open>
  What the code relies on of the assembly routines: on a context with 14 rounds they compute the
  block functions of the C code, and the routines for 32 blocks apply the block function to each. The
  byte strings are the memory from a pointer on.
\<close>

definition hw_ok :: "cpu \<Rightarrow> bool" where
  "hw_ok u \<longleftrightarrow>
     (\<forall>ks b. aes_inf (aes_ctx_at 0 ks) = 14 * 16 \<longrightarrow>
        aes_encrypt b (aes_ctx_at 0 ks) = Some (aes_hw_cpu_encrypt u ks b) \<and>
        aes_decrypt b (aes_ctx_at 0 ks) = Some (aes_hw_cpu_decrypt u ks b)) \<and>
     (\<forall>ks d. aes_hw_cpu_encrypt_32_blocks u ks d = block_map (aes_hw_cpu_encrypt u ks) 16 32 d \<and>
        aes_hw_cpu_decrypt_32_blocks u ks d = block_map (aes_hw_cpu_decrypt u ks) 16 32 d)"

definition cipher_enc :: "cpu \<Rightarrow> nat \<Rightarrow> bytes \<Rightarrow> bytes \<Rightarrow> bytes" where
  "cipher_enc u c ks b = the (EncipherBlock u c b ks)"

definition cipher_dec :: "cpu \<Rightarrow> nat \<Rightarrow> bytes \<Rightarrow> bytes \<Rightarrow> bytes" where
  "cipher_dec u c ks b = the (DecipherBlock u c b ks)"

lemma EncipherBlock_eq: "valid_cipher c \<Longrightarrow> EncipherBlock u c b ks = Some (cipher_enc u c ks b)"
  by (erule valid_cipherE) (simp_all add: cipher_enc_def EncipherBlock_def)

lemma DecipherBlock_eq: "valid_cipher c \<Longrightarrow> DecipherBlock u c b ks = Some (cipher_dec u c ks b)"
  by (erule valid_cipherE) (simp_all add: cipher_dec_def DecipherBlock_def)

lemma unknown_cipher:
  "\<not> valid_cipher c \<Longrightarrow> EncipherBlock u c b ks = None \<and> DecipherBlock u c b ks = None"
  by (auto simp: valid_cipher_def EncipherBlock_def DecipherBlock_def)

lemma aes_contract:
  assumes "hw_ok u" "scheduled 1 ks"
  shows "block_cipher 16 (cipher_enc u 1 ks) (cipher_dec u 1 ks)"
proof -
  let ?e = "aes_ctx_at 0 ks" and ?d = "aes_ctx_at 244 ks"
  have pair: "aes_pair ?e ?d" using assms(2) by (simp add: scheduled_def AES_CTX_SIZE_def)
  then have inf: "aes_inf ?e = 14 * 16" "aes_inf (aes_ctx_at 0 (drop 244 ks)) = 14 * 16"
    by (simp_all add: aes_pair_def aes_ctx_at_drop)
  have enc: "length b = 16 \<Longrightarrow> aes_encrypt b ?e = Some (cipher_enc u 1 ks b)" for b
    using assms(1) inf(1) aes_decrypt_encrypt_block [OF pair, of b]
    by (cases "IsAesHwCpuSupported u") (auto simp: cipher_enc_def EncipherBlock_def hw_ok_def)
  have dec: "length b = 16 \<Longrightarrow> aes_decrypt b ?d = Some (cipher_dec u 1 ks b)" for b
    using assms(1) inf(2) aes_encrypt_decrypt_block [OF pair, of b]
    by (cases "IsAesHwCpuSupported u")
      (auto simp: cipher_dec_def DecipherBlock_def hw_ok_def AES_CTX_SIZE_def aes_ctx_at_drop [symmetric, of 244])
  show ?thesis
  proof
    fix b :: bytes assume b: "length b = 16"
    show "length (cipher_enc u 1 ks b) = 16" "cipher_dec u 1 ks (cipher_enc u 1 ks b) = b"
      using aes_decrypt_encrypt_block [OF pair b] enc [OF b] dec by auto
    show "length (cipher_dec u 1 ks b) = 16" "cipher_enc u 1 ks (cipher_dec u 1 ks b) = b"
      using aes_encrypt_decrypt_block [OF pair b] dec [OF b] enc by auto
  qed
qed

lemma cipher_contract:
  assumes "hw_ok u" "valid_cipher c" "scheduled c ks"
  shows "block_cipher (CipherGetBlockSize c) (cipher_enc u c ks) (cipher_dec u c ks)"
  using assms(2)
proof (cases rule: valid_cipherE)
  case 1
  then show ?thesis using aes_contract [of u ks] assms by (simp add: tc_cfg)
next
  case 2
  then show ?thesis
    using serpent.block_cipher_axioms [of ks]
    by (simp add: tc_cfg cipher_enc_def [abs_def] cipher_dec_def [abs_def] EncipherBlock_def DecipherBlock_def)
next
  case 3
  then show ?thesis
    using twofish.block_cipher_axioms [of "twofish_at ks"]
    by (simp add: tc_cfg cipher_enc_def [abs_def] cipher_dec_def [abs_def] EncipherBlock_def DecipherBlock_def)
next
  case 4
  then have "bf_scheduled (bf_at ks)" using assms(3) by (simp add: scheduled_def)
  with 4 show ?thesis
    by (unfold_locales) (simp_all add: tc_cfg cipher_enc_def cipher_dec_def EncipherBlock_def
        DecipherBlock_def blowfish_decrypt_encrypt_block)
next
  case 5
  then show ?thesis
    using cast5.block_cipher_axioms [of "words_at 0 32 ks"]
    by (simp add: tc_cfg cipher_enc_def [abs_def] cipher_dec_def [abs_def] EncipherBlock_def DecipherBlock_def)
next
  case 6
  then have s: "tdes_scheduled (tdes_at ks)" using assms(3) by (simp add: scheduled_def)
  show ?thesis
    using 6 tdes_decrypt_encrypt_block [OF s, of _ True] tdes_decrypt_encrypt_block [OF s, of _ False]
    by (unfold_locales) (simp_all add: tc_cfg cipher_enc_def cipher_dec_def EncipherBlock_def DecipherBlock_def)
qed

section \<open>Several blocks\<close>

lemma block_loop_total:
  "(\<And>d. f d = Some (g d)) \<Longrightarrow> block_loop f bs n d = Some (block_map g bs n d)"
  by (induction n arbitrary: d) simp_all

lemma block_map_add:
  "m * bs \<le> length d \<Longrightarrow>
   block_map f bs (m + n) d = block_map f bs m (take (m * bs) d) @ block_map f bs n (drop (m * bs) d)"
proof (induction m arbitrary: d)
  case (Suc m)
  have "take bs (take (Suc m * bs) d) = take bs d" "drop bs (take (Suc m * bs) d) = take (m * bs) (drop bs d)"
    by (simp_all add: min_def drop_take)
  then show ?case using Suc by (simp add: add.commute)
qed simp

lemma block_map_nested:
  "k * (m * bs) \<le> length d \<Longrightarrow> block_map (block_map f bs m) (m * bs) k d = block_map f bs (k * m) d"
proof (induction k arbitrary: d)
  case (Suc k)
  have "m * bs \<le> length d" using Suc.prems by simp
  then show ?case using Suc block_map_add [of m bs d f "k * m"] by simp
qed simp

lemma block_map_cong:
  "(\<And>b. length b = bs \<Longrightarrow> f b = g b) \<Longrightarrow> n * bs \<le> length d \<Longrightarrow> block_map f bs n d = block_map g bs n d"
  by (induction n arbitrary: d) simp_all

lemma EncipherBlocks_eq:
  assumes "hw_ok u" "valid_cipher c" "n * CipherGetBlockSize c \<le> length d"
  shows "EncipherBlocks u c d ks n = Some (block_map (cipher_enc u c ks) (CipherGetBlockSize c) n d)"
proof (cases "c = AES \<and> n mod 32 = 0 \<and> IsAesHwCpuSupported u")
  case True
  have hw: "aes_hw_cpu_encrypt u ks = cipher_enc u c ks"
    using True by (auto simp: cipher_enc_def EncipherBlock_def)
  have len: "n div 32 * (32 * 16) \<le> length d"
    using True assms(3) by (simp add: tc_cfg)
  have "EncipherBlocks u c d ks n = Some (block_map (aes_hw_cpu_encrypt_32_blocks u ks) (32 * 16) (n div 32) d)"
    using True by (simp add: EncipherBlocks_def block_loop_total)
  also have "block_map (aes_hw_cpu_encrypt_32_blocks u ks) (32 * 16) (n div 32) d =
      block_map (block_map (aes_hw_cpu_encrypt u ks) 16 32) (32 * 16) (n div 32) d"
    using assms(1) len by (intro block_map_cong) (auto simp: hw_ok_def)
  also have "\<dots> = block_map (aes_hw_cpu_encrypt u ks) 16 (n div 32 * 32) d"
    using len by (rule block_map_nested)
  also have "n div 32 * 32 = n"
    using True by (simp add: mod_0_imp_dvd)
  finally show ?thesis using True by (simp add: hw tc_cfg)
next
  case False
  then show ?thesis
    using assms(2) by (auto simp: EncipherBlocks_def block_loop_total [OF EncipherBlock_eq])
qed

lemma DecipherBlocks_eq:
  assumes "hw_ok u" "valid_cipher c" "n * CipherGetBlockSize c \<le> length d"
  shows "DecipherBlocks u c d ks n = Some (block_map (cipher_dec u c ks) (CipherGetBlockSize c) n d)"
proof (cases "c = AES \<and> n mod 32 = 0 \<and> IsAesHwCpuSupported u")
  case True
  let ?ks = "drop AES_CTX_SIZE ks"
  have hw: "aes_hw_cpu_decrypt u ?ks = cipher_dec u c ks"
    using True by (auto simp: cipher_dec_def DecipherBlock_def)
  have len: "n div 32 * (32 * 16) \<le> length d"
    using True assms(3) by (simp add: tc_cfg)
  have "DecipherBlocks u c d ks n = Some (block_map (aes_hw_cpu_decrypt_32_blocks u ?ks) (32 * 16) (n div 32) d)"
    using True by (simp add: DecipherBlocks_def block_loop_total)
  also have "block_map (aes_hw_cpu_decrypt_32_blocks u ?ks) (32 * 16) (n div 32) d =
      block_map (block_map (aes_hw_cpu_decrypt u ?ks) 16 32) (32 * 16) (n div 32) d"
    using assms(1) len by (intro block_map_cong) (auto simp: hw_ok_def)
  also have "\<dots> = block_map (aes_hw_cpu_decrypt u ?ks) 16 (n div 32 * 32) d"
    using len by (rule block_map_nested)
  also have "n div 32 * 32 = n"
    using True by (simp add: mod_0_imp_dvd)
  finally show ?thesis unfolding hw using True by (simp add: tc_cfg)
next
  case False
  then show ?thesis
    using assms(2) by (auto simp: DecipherBlocks_def block_loop_total [OF DecipherBlock_eq])
qed

text \<open>Routines that satisfy \<open>hw_ok\<close>: the C code itself.\<close>

definition soft_cpu :: "bool \<Rightarrow> cpu" where
  "soft_cpu h =
     (let e = (\<lambda>ks b. the (aes_encrypt b (aes_ctx_at 0 ks))); d = (\<lambda>ks b. the (aes_decrypt b (aes_ctx_at 0 ks)))
      in \<lparr>IsAesHwCpuSupported = h, aes_hw_cpu_encrypt = e, aes_hw_cpu_decrypt = d,
          aes_hw_cpu_encrypt_32_blocks = (\<lambda>ks. block_map (e ks) 16 32),
          aes_hw_cpu_decrypt_32_blocks = (\<lambda>ks. block_map (d ks) 16 32)\<rparr>)"

lemma hw_ok_soft_cpu: "hw_ok (soft_cpu h)"
  by (simp add: hw_ok_def soft_cpu_def Let_def aes_encrypt_rounds aes_decrypt_rounds del: block_map.simps)

section \<open>Scheduling the keys of an algorithm\<close>

lemma at_take:
  "off + 4 * n \<le> m \<Longrightarrow> words_at off n (take m ks) = words_at off n ks"
  by (auto simp: words_at_def get_at_take)

lemma scheduled_take: "scheduled c (take (CipherGetKeyScheduleSize c) ks) = scheduled c ks"
proof (cases "valid_cipher c")
  case True
  then show ?thesis
    by (cases rule: valid_cipherE)
      (simp_all add: scheduled_def tc_cfg aes_ctx_at_def bf_at_def tdes_at_def at_take get_at_take)
next
  case False
  then show ?thesis by (auto simp: scheduled_def valid_cipher_def)
qed

lemma scheduled_cong:
  "take (CipherGetKeyScheduleSize c) ks = take (CipherGetKeyScheduleSize c) ks' \<Longrightarrow> scheduled c ks = scheduled c ks'"
  by (metis scheduled_take)

text \<open>The ciphers of the list are scheduled one after the other in the buffer.\<close>

fun all_scheduled :: "nat list \<Rightarrow> bytes \<Rightarrow> bool" where
  "all_scheduled [] ks \<longleftrightarrow> True"
| "all_scheduled (c # cs) ks \<longleftrightarrow> scheduled c ks \<and> all_scheduled cs (drop (CipherGetKeyScheduleSize c) ks)"

abbreviation ks_total :: "nat list \<Rightarrow> nat" where
  "ks_total cs \<equiv> sum_list (map CipherGetKeyScheduleSize cs)"

lemma EAInit_loop_scheduled:
  assumes "\<forall>c\<in>set cs. valid_cipher c" "ks_total cs \<le> length ks"
    "EAInit_loop cs key ks r0 = (r, ks')" "r0 \<noteq> ERR_CIPHER_INIT_FAILURE"
  shows "length ks' = length ks \<and> drop (ks_total cs) ks' = drop (ks_total cs) ks \<and>
    all_scheduled cs ks' \<and> r \<noteq> ERR_CIPHER_INIT_FAILURE"
  using assms
proof (induction cs arbitrary: key ks r0 r ks')
  case (Cons c cs)
  let ?n = "CipherGetKeyScheduleSize c"
  obtain rc ks1 where init: "CipherInit c key ks = (rc, ks1)" by (metis surj_pair)
  have one: "length ks1 = length ks" "drop ?n ks1 = drop ?n ks" "scheduled c ks1" "rc \<noteq> ERR_CIPHER_INIT_FAILURE"
    using CipherInit_scheduled [OF _ _ init] Cons.prems by auto
  let ?r1 = "if rc = ERR_CIPHER_INIT_WEAK_KEY then ERR_CIPHER_INIT_WEAK_KEY else r0"
  obtain r2 rest where loop: "EAInit_loop cs (drop (CipherGetKeySize c) key) (drop ?n ks1) ?r1 = (r2, rest)"
    by (metis surj_pair)
  have IH: "length rest = length (drop ?n ks1)" "drop (ks_total cs) rest = drop (ks_total cs) (drop ?n ks1)"
    "all_scheduled cs rest" "r2 \<noteq> ERR_CIPHER_INIT_FAILURE"
    using Cons.IH [OF _ _ loop] Cons.prems one by (auto simp: tc_cfg)
  have ks': "ks' = take ?n ks1 @ rest" "r = r2"
    using Cons.prems(3) one(4) by (auto simp: init loop Let_def)
  have n: "?n \<le> length ks1" using Cons.prems(2) one(1) by simp
  have "scheduled c ks'"
    using one(3) n scheduled_cong [of c ks' ks1] by (simp add: ks')
  moreover have "length ks' = length ks" "drop ?n ks' = rest"
    using n one(1) IH(1) by (simp_all add: ks')
  moreover have "drop (?n + ks_total cs) ks' = drop (?n + ks_total cs) ks"
    using n IH(2) one(2) by (simp add: ks' add.commute [of _ "ks_total cs"] flip: drop_drop)
  ultimately show ?case
    using IH ks'(2) by simp
qed simp

lemma ciphers_of_valid: "valid_ea ea \<Longrightarrow> \<forall>c\<in>set (ciphers_of ea). valid_cipher c"
  by (erule valid_eaE) (simp_all add: tc_cfg valid_cipher_def)

lemma EAGetKeyScheduleSize_eq: "valid_ea ea \<Longrightarrow> EAGetKeyScheduleSize ea = Some (ks_total (ciphers_of ea))"
  by (simp add: EAGetKeyScheduleSize_def ea_ciphers_forward_table)

lemma EAInit_all_scheduled:
  assumes "valid_ea ea" "ks_total (ciphers_of ea) \<le> length ks"
  shows "\<exists>r ks'. EAInit ea key ks = Some (r, ks') \<and> r \<noteq> ERR_CIPHER_INIT_FAILURE \<and>
    length ks' = length ks \<and> drop (ks_total (ciphers_of ea)) ks' = drop (ks_total (ciphers_of ea)) ks \<and>
    all_scheduled (ciphers_of ea) ks'"
proof -
  obtain r ks' where loop: "EAInit_loop (ciphers_of ea) key ks ERR_SUCCESS = (r, ks')" by (metis surj_pair)
  then show ?thesis
    using EAInit_loop_scheduled [OF ciphers_of_valid [OF assms(1)] assms(2) loop] assms(1)
    by (auto simp: EAInit_def ea_ciphers_forward_table tc_cfg valid_ea_def)
qed

end
