(* ===== verification/Xts.thy ===== *)
theory Xts
  imports Block_Ciphers
begin

text \<open>
  Common/Xts.c: the XTS mode of operation. The whitening value is a pair of 64-bit words, low half
  first; the build without 64-bit integers keeps four 32-bit words and the halves of the data unit
  number.

  The three loops over the data units of a buffer share the skeleton \<open>xts_loop\<close>, a partial function:
  the code's loop ends only if the block numbers fit the data unit, and \<open>None\<close> stands for the loop that
  does not end as well as for a fatal exception. \<open>xts_run\<close> is the mode as the standard has it, block
  by block; \<open>xts_loop_run\<close> shows that the loops compute it. The locale \<open>xts\<close> extends the contract of a
  block cipher to the mode.
\<close>

unbundle bit_operations_syntax

type_synonym wv = "u64 \<times> u64"

section \<open>Whitening values\<close>

definition wv_of_bytes :: "bytes \<Rightarrow> wv" where
  "wv_of_bytes b = (le_to_word (get_at 0 8 b), le_to_word (get_at 8 8 b))"

definition wv_bytes :: "wv \<Rightarrow> bytes" where
  "wv_bytes w = word_to_le 8 (fst w) @ word_to_le 8 (snd w)"

definition next_whitening :: "wv \<Rightarrow> wv" where
  "next_whitening = (\<lambda>(lo, hi).
     let finalCarry = (if hi AND 0x8000000000000000 \<noteq> 0 then 135 else 0 :: u8);
         hi = push_bit 1 hi;
         hi = (if lo AND 0x8000000000000000 \<noteq> 0 then hi OR 1 else hi);
         lo = push_bit 1 lo
     in (lo XOR ucast finalCarry, hi))"

section \<open>The blocks of a data unit\<close>

text \<open>
  Without parallelization: the body of the loop over the blocks from \<open>block\<close> on, \<open>n\<close> of them, on the
  buffer from \<open>bufPtr\<close> on. \<open>f\<close> is \<open>EncipherBlock\<close> or \<open>DecipherBlock\<close>. The result is what is written.
\<close>

fun xts_blocks :: "(bytes \<Rightarrow> bytes option) \<Rightarrow> nat \<Rightarrow> nat \<Rightarrow> nat \<Rightarrow> bytes \<Rightarrow> wv \<Rightarrow> bytes option" where
  "xts_blocks f start block 0 buf w = Some []"
| "xts_blocks f start block (Suc n) buf w =
     (if start \<le> block then
        (case f (xor_bytes (take 16 buf) (wv_bytes w)) of
           None \<Rightarrow> None
         | Some c \<Rightarrow> map_option ((@) (xor_bytes c (wv_bytes w)))
                      (xts_blocks f start (Suc block) n (drop 16 buf) (next_whitening w)))
      else xts_blocks f start (Suc block) n buf (next_whitening w))"

definition unit_nonparallel :: "(bytes \<Rightarrow> bytes option) \<Rightarrow> nat \<Rightarrow> nat \<Rightarrow> bytes \<Rightarrow> bytes \<Rightarrow> bytes option" where
  "unit_nonparallel f startBlock endBlock buf whiteningValue =
     xts_blocks f startBlock 0 endBlock buf (wv_of_bytes whiteningValue)"

text \<open>
  With parallelization: the whitening values are stored first (in memory in the reverse order, read
  back in it), then applied, the blocks enciphered together, and the values applied again.
\<close>

fun whitening_values :: "nat \<Rightarrow> nat \<Rightarrow> nat \<Rightarrow> wv \<Rightarrow> wv list" where
  "whitening_values start block 0 w = []"
| "whitening_values start block (Suc n) w =
     (if start \<le> block then [w] else []) @ whitening_values start (Suc block) n (next_whitening w)"

fun whiten_blocks :: "wv list \<Rightarrow> bytes \<Rightarrow> bytes" where
  "whiten_blocks [] buf = []"
| "whiten_blocks (w # ws) buf = xor_bytes (take 16 buf) (wv_bytes w) @ whiten_blocks ws (drop 16 buf)"

definition unit_parallel :: "(bytes \<Rightarrow> nat \<Rightarrow> bytes option) \<Rightarrow> nat \<Rightarrow> nat \<Rightarrow> bytes \<Rightarrow> bytes \<Rightarrow> bytes option" where
  "unit_parallel F startBlock endBlock buf whiteningValue =
     (let ws = whitening_values startBlock 0 endBlock (wv_of_bytes whiteningValue) in
      map_option (whiten_blocks ws) (F (whiten_blocks ws buf) (endBlock - startBlock)))"

section \<open>The loop over the data units\<close>

text \<open>
  \<open>unit\<close> processes one data unit, \<open>tweak\<close> enciphers the unit number under the secondary key;
  \<open>nbytes\<close> and \<open>nsucc\<close> are the 16-byte array of the unit number and its increment. Block numbers are
  32-bit words, the count has the width of the build's largest integer.
\<close>

definition end_block :: "'a::len word \<Rightarrow> u32 \<Rightarrow> u32" where
  "end_block blockCount startBlock =
     (if blockCount < word_of_nat BLOCKS_PER_XTS_DATA_UNIT then startBlock + ucast blockCount
      else word_of_nat BLOCKS_PER_XTS_DATA_UNIT)"

partial_function (option) xts_loop ::
  "(nat \<Rightarrow> nat \<Rightarrow> bytes \<Rightarrow> bytes \<Rightarrow> bytes option) \<Rightarrow> (bytes \<Rightarrow> bytes option) \<Rightarrow> ('n \<Rightarrow> bytes) \<Rightarrow> ('n \<Rightarrow> 'n) \<Rightarrow>
   bytes \<Rightarrow> 'a::len word \<Rightarrow> u32 \<Rightarrow> 'n \<Rightarrow> bytes option" where
  "xts_loop unit tweak nbytes nsucc buf blockCount startBlock dataUnitNo =
     (if 0 < blockCount then
        (let endBlock = end_block blockCount startBlock
         in Option.bind (tweak (nbytes dataUnitNo)) (\<lambda>w.
            Option.bind (unit (unat startBlock) (unat endBlock) buf w) (\<lambda>out.
            Option.bind (xts_loop unit tweak nbytes nsucc (drop (length out) buf)
                           (blockCount - ucast (endBlock - startBlock)) 0 (nsucc dataUnitNo)) (\<lambda>rest.
            Some (out @ rest)))))
      else Some [])"

definition unit_no_bytes :: "u64 \<Rightarrow> bytes" where
  "unit_no_bytes no = word_to_le 8 no @ word_to_le 8 (0 :: u64)"

text \<open>What the code writes goes over the front of the buffer.\<close>

definition over_front :: "bytes \<Rightarrow> bytes \<Rightarrow> bytes" where
  "over_front buf out = out @ drop (length out) buf"

definition xts_buffer ::
  "(nat \<Rightarrow> nat \<Rightarrow> bytes \<Rightarrow> bytes \<Rightarrow> bytes option) \<Rightarrow> (bytes \<Rightarrow> bytes option) \<Rightarrow> bytes \<Rightarrow> u64 \<Rightarrow> u64 \<Rightarrow> u32 \<Rightarrow> bytes option" where
  "xts_buffer unit tweak buffer len startDataUnitNo startCipherBlockNo =
     (if len mod word_of_nat BYTES_PER_XTS_BLOCK \<noteq> 0 then None
      else map_option (over_front buffer)
             (xts_loop unit tweak unit_no_bytes (\<lambda>n. n + 1) buffer (len div word_of_nat BYTES_PER_XTS_BLOCK)
                startCipherBlockNo startDataUnitNo))"

definition EncryptBufferXTSParallel where
  "EncryptBufferXTSParallel u buffer len startDataUnitNo startCipherBlockNo ks ks2 cipher =
     xts_buffer (unit_parallel (\<lambda>d n. EncipherBlocks u cipher d ks n)) (\<lambda>b. EncipherBlock u cipher b ks2)
       buffer len startDataUnitNo startCipherBlockNo"

definition EncryptBufferXTSNonParallel where
  "EncryptBufferXTSNonParallel u buffer len startDataUnitNo startCipherBlockNo ks ks2 cipher =
     xts_buffer (unit_nonparallel (\<lambda>b. EncipherBlock u cipher b ks)) (\<lambda>b. EncipherBlock u cipher b ks2)
       buffer len startDataUnitNo startCipherBlockNo"

definition DecryptBufferXTSParallel where
  "DecryptBufferXTSParallel u buffer len startDataUnitNo startCipherBlockNo ks ks2 cipher =
     xts_buffer (unit_parallel (\<lambda>d n. DecipherBlocks u cipher d ks n)) (\<lambda>b. EncipherBlock u cipher b ks2)
       buffer len startDataUnitNo startCipherBlockNo"

definition DecryptBufferXTSNonParallel where
  "DecryptBufferXTSNonParallel u buffer len startDataUnitNo startCipherBlockNo ks ks2 cipher =
     xts_buffer (unit_nonparallel (\<lambda>b. DecipherBlock u cipher b ks)) (\<lambda>b. EncipherBlock u cipher b ks2)
       buffer len startDataUnitNo startCipherBlockNo"

definition EncryptBufferXTS where
  "EncryptBufferXTS u buffer len startDataUnitNo startCipherBlockNo ks ks2 cipher =
     (if CipherSupportsIntraDataUnitParallelization u cipher
      then EncryptBufferXTSParallel u buffer len startDataUnitNo startCipherBlockNo ks ks2 cipher
      else EncryptBufferXTSNonParallel u buffer len startDataUnitNo startCipherBlockNo ks ks2 cipher)"

definition DecryptBufferXTS where
  "DecryptBufferXTS u buffer len startDataUnitNo startCipherBlockNo ks ks2 cipher =
     (if CipherSupportsIntraDataUnitParallelization u cipher
      then DecryptBufferXTSParallel u buffer len startDataUnitNo startCipherBlockNo ks ks2 cipher
      else DecryptBufferXTSNonParallel u buffer len startDataUnitNo startCipherBlockNo ks ks2 cipher)"

section \<open>The build without 64-bit integers\<close>

text \<open>One step of the loop over the double words of the whitening value, from the highest down.\<close>

definition shift_dword :: "nat \<Rightarrow> u32 list \<times> u8 \<Rightarrow> u32 list \<times> u8" where
  "shift_dword i = (\<lambda>(w, finalCarry).
     let (w, finalCarry) =
           (if w ! i AND 0x80000000 \<noteq> 0
            then if i \<noteq> 3 then (w[i + 1 := w ! (i + 1) OR 1], finalCarry) else (w, 135)
            else (w, finalCarry))
     in (w[i := push_bit 1 (w ! i)], finalCarry))"

definition next_whitening32 :: "u32 list \<Rightarrow> u32 list" where
  "next_whitening32 w =
     (let (w, finalCarry) = fold shift_dword [3, 2, 1, 0] (w, 0) in w[0 := w ! 0 XOR ucast finalCarry])"

fun xts_blocks32 :: "(bytes \<Rightarrow> bytes option) \<Rightarrow> nat \<Rightarrow> nat \<Rightarrow> nat \<Rightarrow> bytes \<Rightarrow> u32 list \<Rightarrow> bytes option" where
  "xts_blocks32 f start block 0 buf w = Some []"
| "xts_blocks32 f start block (Suc n) buf w =
     (if start \<le> block then
        (case f (xor_bytes (take 16 buf) (bytes_of_words w)) of
           None \<Rightarrow> None
         | Some c \<Rightarrow> map_option ((@) (xor_bytes c (bytes_of_words w)))
                      (xts_blocks32 f start (Suc block) n (drop 16 buf) (next_whitening32 w)))
      else xts_blocks32 f start (Suc block) n buf (next_whitening32 w))"

definition unit32 :: "(bytes \<Rightarrow> bytes option) \<Rightarrow> nat \<Rightarrow> nat \<Rightarrow> bytes \<Rightarrow> bytes \<Rightarrow> bytes option" where
  "unit32 f startBlock endBlock buf whiteningValue =
     xts_blocks32 f startBlock 0 endBlock buf (words_at 0 4 whiteningValue)"

text \<open>The data unit number is the pair of its high and low halves.\<close>

definition Uint64ToLE16ByteArray :: "u32 \<times> u32 \<Rightarrow> bytes" where
  "Uint64ToLE16ByteArray no = bytes_of_words [snd no, fst no, 0, 0]"

definition inc_unit_no32 :: "u32 \<times> u32 \<Rightarrow> u32 \<times> u32" where
  "inc_unit_no32 no =
     (let low = snd no + 1 in (if low = 0 then (fst no + 1, low) else (fst no, low)))"

definition EncryptDecryptBufferXTS32 ::
  "cpu \<Rightarrow> bytes \<Rightarrow> u32 \<Rightarrow> u32 \<times> u32 \<Rightarrow> u32 \<Rightarrow> bytes \<Rightarrow> bytes \<Rightarrow> nat \<Rightarrow> bool \<Rightarrow> bytes option" where
  "EncryptDecryptBufferXTS32 u buffer len startDataUnitNo startBlock ks ks2 cipher decryption =
     map_option (over_front buffer)
       (xts_loop
          (unit32 (\<lambda>b. if decryption then DecipherBlock u cipher b ks else EncipherBlock u cipher b ks))
          (\<lambda>b. EncipherBlock u cipher b ks2) Uint64ToLE16ByteArray inc_unit_no32 buffer
          (len div word_of_nat BYTES_PER_XTS_BLOCK) startBlock startDataUnitNo)"

definition EncryptBufferXTS32 where
  "EncryptBufferXTS32 u buffer len startDataUnitNo startCipherBlockNo ks ks2 cipher =
     EncryptDecryptBufferXTS32 u buffer len startDataUnitNo startCipherBlockNo ks ks2 cipher False"

definition DecryptBufferXTS32 where
  "DecryptBufferXTS32 u buffer len startDataUnitNo startCipherBlockNo ks ks2 cipher =
     EncryptDecryptBufferXTS32 u buffer len startDataUnitNo startCipherBlockNo ks ks2 cipher True"

section \<open>The mode, block by block\<close>

primrec xts_unit :: "(bytes \<Rightarrow> bytes) \<Rightarrow> wv \<Rightarrow> nat \<Rightarrow> bytes \<Rightarrow> bytes" where
  "xts_unit g w 0 buf = []"
| "xts_unit g w (Suc n) buf =
     xor_bytes (g (xor_bytes (take 16 buf) (wv_bytes w))) (wv_bytes w) @
     xts_unit g (next_whitening w) n (drop 16 buf)"

text \<open>
  Block \<open>a\<close>, counted from the first block of the data unit that the buffer starts in: its unit is
  \<open>a div 32\<close> and its number in the unit \<open>a mod 32\<close>.
\<close>

definition block_tweak :: "(bytes \<Rightarrow> bytes) \<Rightarrow> (nat \<Rightarrow> bytes) \<Rightarrow> nat \<Rightarrow> wv" where
  "block_tweak t U a = (next_whitening ^^ (a mod 32)) (wv_of_bytes (t (U (a div 32))))"

primrec xts_run :: "(bytes \<Rightarrow> bytes) \<Rightarrow> (bytes \<Rightarrow> bytes) \<Rightarrow> (nat \<Rightarrow> bytes) \<Rightarrow> nat \<Rightarrow> nat \<Rightarrow> bytes \<Rightarrow> bytes" where
  "xts_run g t U a 0 buf = []"
| "xts_run g t U a (Suc n) buf =
     (let w = wv_bytes (block_tweak t U a) in
      xor_bytes (g (xor_bytes (take 16 buf) w)) w @ xts_run g t U (Suc a) n (drop 16 buf))"

lemma length_wv_bytes [simp, tc_len]: "length (wv_bytes w) = 16"
  by (simp add: wv_bytes_def)

lemma wv_of_bytes_bytes [simp]: "wv_of_bytes (wv_bytes w) = w"
  by (simp add: wv_of_bytes_def wv_bytes_def get_at_def)

lemma wv_bytes_of_bytes [simp]: "length b = 16 \<Longrightarrow> wv_bytes (wv_of_bytes b) = b"
  by (simp add: wv_of_bytes_def wv_bytes_def) (simp add: get_at_def)

lemma xts_run_unit:
  "a mod 32 + n \<le> 32 \<Longrightarrow> xts_run g t U a n buf = xts_unit g (block_tweak t U a) n buf"
proof (induction n arbitrary: a buf)
  case (Suc n)
  show ?case
  proof (cases n)
    case (Suc m)
    then have *: "Suc a mod 32 = Suc (a mod 32)" "Suc a div 32 = a div 32"
      using Suc.prems by (simp_all add: mod_Suc div_Suc)
    have "block_tweak t U (Suc a) = next_whitening (block_tweak t U a)"
      by (simp add: block_tweak_def *)
    then show ?thesis using Suc.prems Suc.IH [of "Suc a"] by (simp add: * Let_def)
  qed (simp add: Let_def)
qed simp

lemma xts_run_add:
  "xts_run g t U a (m + n) buf = xts_run g t U a m buf @ xts_run g t U (a + m) n (drop (16 * m) buf)"
  by (induction m arbitrary: a buf) (simp_all add: Let_def add.commute)

lemma xts_run_shift: "xts_run g t U (32 + a) n buf = xts_run g t (\<lambda>k. U (Suc k)) a n buf"
proof (induction n arbitrary: a buf)
  case (Suc n)
  have "(32 + a) div 32 = Suc (a div 32)" by simp
  then have "block_tweak t U (32 + a) = block_tweak t (\<lambda>k. U (Suc k)) a" by (simp add: block_tweak_def)
  then show ?case using Suc.IH [of "Suc a"] by (simp add: Let_def)
qed simp

section \<open>The loops over the blocks compute it\<close>

definition total16 :: "(bytes \<Rightarrow> bytes option) \<Rightarrow> (bytes \<Rightarrow> bytes) \<Rightarrow> bool" where
  "total16 f g \<longleftrightarrow> (\<forall>b. length b = 16 \<longrightarrow> f b = Some (g b) \<and> length (g b) = 16)"

lemma total16D: "total16 f g \<Longrightarrow> length b = 16 \<Longrightarrow> f b = Some (g b) \<and> length (g b) = 16"
  by (simp add: total16_def)

lemma length_xts_unit:
  "total16 f g \<Longrightarrow> 16 * n \<le> length buf \<Longrightarrow> length (xts_unit g w n buf) = 16 * n"
  by (induction n arbitrary: w buf) (simp_all add: total16_def)

lemma xts_blocks_start:
  "total16 f g \<Longrightarrow> start \<le> block \<Longrightarrow> 16 * n \<le> length buf \<Longrightarrow>
   xts_blocks f start block n buf w = Some (xts_unit g w n buf)"
  by (induction n arbitrary: block buf w) (simp_all add: total16_def)

lemma xts_blocks_skip:
  "xts_blocks f (block + k) block (k + n) buf w = xts_blocks f (block + k) (block + k) n buf ((next_whitening ^^ k) w)"
proof (induction k arbitrary: block w)
  case (Suc k)
  have "xts_blocks f (block + Suc k) block (Suc k + n) buf w =
      xts_blocks f (Suc block + k) (Suc block) (k + n) buf (next_whitening w)" by simp
  also have "\<dots> = xts_blocks f (Suc block + k) (Suc block + k) n buf ((next_whitening ^^ k) (next_whitening w))"
    by (rule Suc.IH)
  finally show ?case by (simp add: funpow_swap1)
qed simp

text \<open>What the loop over the data units relies on of the processing of one unit.\<close>

definition unit_ok :: "(nat \<Rightarrow> nat \<Rightarrow> bytes \<Rightarrow> bytes \<Rightarrow> bytes option) \<Rightarrow> (bytes \<Rightarrow> bytes) \<Rightarrow> bool" where
  "unit_ok unit g \<longleftrightarrow> (\<forall>s e buf w. length w = 16 \<longrightarrow> s \<le> e \<longrightarrow> 16 * (e - s) \<le> length buf \<longrightarrow>
     unit s e buf w = Some (xts_unit g ((next_whitening ^^ s) (wv_of_bytes w)) (e - s) buf))"

lemma unit_nonparallel_ok:
  assumes "total16 f g"
  shows "unit_ok (unit_nonparallel f) g"
  unfolding unit_ok_def
proof (intro allI impI)
  fix s e :: nat and buf w :: bytes assume "length w = 16" "s \<le> e" "16 * (e - s) \<le> length buf"
  then show "unit_nonparallel f s e buf w = Some (xts_unit g ((next_whitening ^^ s) (wv_of_bytes w)) (e - s) buf)"
    using xts_blocks_skip [of f 0 s "e - s" buf "wv_of_bytes w"]
    by (simp add: unit_nonparallel_def xts_blocks_start [OF assms])
qed

lemma whitening_values_skip:
  "whitening_values (block + k) block (k + n) w = whitening_values (block + k) (block + k) n ((next_whitening ^^ k) w)"
proof (induction k arbitrary: block w)
  case (Suc k)
  have "whitening_values (block + Suc k) block (Suc k + n) w =
      whitening_values (Suc block + k) (Suc block) (k + n) (next_whitening w)" by simp
  also have "\<dots> = whitening_values (Suc block + k) (Suc block + k) n ((next_whitening ^^ k) (next_whitening w))"
    by (rule Suc.IH)
  finally show ?case by (simp add: funpow_swap1)
qed simp

lemma whiten_start:
  assumes "total16 f g"
  shows "start \<le> block \<Longrightarrow> 16 * n \<le> length buf \<Longrightarrow>
    length (whiten_blocks (whitening_values start block n w) buf) = 16 * n \<and>
    whiten_blocks (whitening_values start block n w)
      (block_map g 16 n (whiten_blocks (whitening_values start block n w) buf)) = xts_unit g w n buf"
proof (induction n arbitrary: block buf w)
  case (Suc n)
  have "length (xor_bytes (take 16 buf) (wv_bytes w)) = 16" using Suc.prems by simp
  with Suc show ?case using assms by (simp add: total16_def)
qed simp

lemma unit_parallel_ok:
  assumes g: "total16 f g" and F: "\<And>d n. length d = 16 * n \<Longrightarrow> F d n = Some (block_map g 16 n d)"
  shows "unit_ok (unit_parallel F) g"
  unfolding unit_ok_def
proof (intro allI impI)
  fix s e :: nat and buf w :: bytes assume "length w = 16" "s \<le> e" "16 * (e - s) \<le> length buf"
  then show "unit_parallel F s e buf w = Some (xts_unit g ((next_whitening ^^ s) (wv_of_bytes w)) (e - s) buf)"
    using F whitening_values_skip [of 0 s "e - s" "wv_of_bytes w"]
      whiten_start [OF g, of s s "e - s" buf "(next_whitening ^^ s) (wv_of_bytes w)"]
    by (simp add: unit_parallel_def)
qed

section \<open>The loop over the data units computes it\<close>

lemma unat_small:
  assumes "32 \<le> LENGTH('a)" "n < 64"
  shows "unat (word_of_nat n :: 'a::len word) = n"
proof -
  have "(64::nat) \<le> 2 ^ 32" by simp
  also have "(2::nat) ^ 32 \<le> 2 ^ LENGTH('a)" using assms(1) by (rule power_increasing) simp
  finally show ?thesis using assms(2) by (simp add: unat_of_nat)
qed

lemma few_blocks:
  assumes "32 \<le> LENGTH('a)"
  shows "blockCount < word_of_nat BLOCKS_PER_XTS_DATA_UNIT \<longleftrightarrow> unat (blockCount :: 'a::len word) < 32"
  using unat_small [OF assms, of 32] by (simp only: word_less_nat_alt tc_cfg) simp

lemma end_block_unat:
  fixes blockCount :: "'a::len word"
  assumes "32 \<le> LENGTH('a)" "unat start < 32"
  shows "unat (end_block blockCount start) = (if unat blockCount < 32 then unat start + unat blockCount else 32)"
proof (cases "unat blockCount < 32")
  case True
  then have "unat (ucast blockCount :: u32) = unat blockCount"
    by (simp add: unsigned_ucast_eq take_bit_nat_eq_self)
  with True assms show ?thesis
    by (simp add: end_block_def few_blocks unat_word_ariths del: of_nat_numeral)
next
  case False
  then show ?thesis
    by (simp only: end_block_def few_blocks [OF assms(1)] if_False) (simp add: tc_cfg)
qed

text \<open>One iteration: \<open>m\<close> blocks are processed; the count that is left is exact.\<close>

lemma xts_loop_step:
  fixes blockCount :: "'a::len word"
  defines "n \<equiv> unat blockCount" and "m \<equiv> \<lambda>s. if unat blockCount < 32 then unat blockCount else 32 - unat s"
  assumes wide: "32 \<le> LENGTH('a)" and start: "unat start < 32" and n: "0 < n"
    and unit: "unit_ok unit g"
    and g: "total16 f g" and tweak: "total16 tweak t" and nb: "length (nbytes no) = 16"
    and fits: "16 * n \<le> length buf"
  shows "m start \<le> n \<and> unat (blockCount - word_of_nat (m start)) = n - m start \<and>
    xts_loop unit tweak nbytes nsucc buf blockCount start no =
      Option.bind (xts_loop unit tweak nbytes nsucc (drop (16 * m start) buf)
                     (blockCount - word_of_nat (m start)) 0 (nsucc no))
        (\<lambda>rest. Some (xts_unit g ((next_whitening ^^ unat start) (wv_of_bytes (t (nbytes no)))) (m start) buf @ rest))"
proof -
  have mn: "m start \<le> n" "m start \<le> 32" by (auto simp: m_def n_def)
  let ?e = "end_block blockCount start"
  have e: "unat ?e - unat start = m start" "unat start \<le> unat ?e"
    using end_block_unat [OF wide start, of blockCount] start by (auto simp: m_def)
  have u: "unat (?e - start) = m start"
    using e by (simp add: unat_sub word_le_nat_alt)
  have "word_of_nat (unat (?e - start)) = (ucast (?e - start) :: 'a word)"
    by (rule of_nat_unat)
  then have d: "ucast (?e - start) = (word_of_nat (m start) :: 'a word)"
    by (simp only: u)
  have left: "unat (blockCount - word_of_nat (m start)) = n - m start"
    using mn unat_small [OF wide, of "m start"] by (simp add: unat_sub word_le_nat_alt n_def)
  have "0 < blockCount" using n by (simp add: n_def word_less_nat_alt)
  moreover have "tweak (nbytes no) = Some (t (nbytes no))" "length (t (nbytes no)) = 16"
    using total16D [OF tweak, of "nbytes no"] nb by simp_all
  moreover have "16 * m start \<le> length buf" using mn(1) fits by linarith
  ultimately show ?thesis
    using mn(1) left unit e(2) length_xts_unit [OF g, of "m start" buf]
    by (simp add: xts_loop.simps [of unit tweak nbytes nsucc buf blockCount start no] Let_def e(1) d unit_ok_def)
qed

text \<open>
  The whole loop, if the blocks of an incomplete data unit do not run past its end; it returns, and
  the unit numbers are those of \<open>nsucc\<close>.
\<close>

lemma xts_loop_run:
  fixes blockCount :: "'a::len word"
  assumes wide: "32 \<le> LENGTH('a)"
    and unit: "unit_ok unit g"
    and g: "total16 f g" and tweak: "total16 tweak t" and nb: "\<And>k. length (nbytes k) = 16"
  shows "unat start < 32 \<Longrightarrow> (unat blockCount < 32 \<longrightarrow> unat start + unat blockCount \<le> 32) \<Longrightarrow>
    16 * unat blockCount \<le> length buf \<Longrightarrow>
    xts_loop unit tweak nbytes nsucc buf blockCount start no =
      Some (xts_run g t (\<lambda>k. nbytes ((nsucc ^^ k) no)) (unat start) (unat blockCount) buf)"
proof (induction "unat blockCount" arbitrary: blockCount start no buf rule: less_induct)
  case less
  show ?case
  proof (cases "unat blockCount = 0")
    case True
    then have "blockCount = 0" by (simp add: unsigned_eq_0_iff)
    then show ?thesis by (simp add: xts_loop.simps)
  next
    case False
    let ?n = "unat blockCount" and ?U = "\<lambda>k. nbytes ((nsucc ^^ k) no)"
    define m where "m = (if ?n < 32 then ?n else 32 - unat start)"
    have m: "m \<le> ?n" "0 < m" "unat start + m \<le> 32" using less.prems(1,2) False by (auto simp: m_def)
    note step = xts_loop_step [where nbytes = nbytes and no = no and nsucc = nsucc,
        OF wide less.prems(1) _ unit g tweak nb less.prems(3), folded m_def]
    have rest: "xts_loop unit tweak nbytes nsucc (drop (16 * m) buf) (blockCount - word_of_nat m) 0 (nsucc no) =
        Some (xts_run g t (\<lambda>k. ?U (Suc k)) 0 (?n - m) (drop (16 * m) buf))"
      using less.hyps [of "blockCount - word_of_nat m" 0 "drop (16 * m) buf" "nsucc no"] step m less.prems(3) False
      by (simp add: funpow_swap1)
    have tail: "xts_run g t ?U (unat start + m) (?n - m) b = xts_run g t (\<lambda>k. ?U (Suc k)) 0 (?n - m) b" for b
    proof (cases "?n < 32")
      case False
      then have "unat start + m = 32 + 0" using less.prems(1) by (simp add: m_def)
      then show ?thesis using xts_run_shift [of g t ?U 0] by simp
    qed (simp add: m_def)
    have "xts_run g t ?U (unat start) m buf =
        xts_unit g ((next_whitening ^^ unat start) (wv_of_bytes (t (nbytes no)))) m buf"
      using xts_run_unit [of "unat start" m g t ?U buf] less.prems(1) m(3) by (simp add: block_tweak_def)
    then show ?thesis
      using step rest tail False xts_run_add [of g t ?U "unat start" m "?n - m" buf] m(1) by simp
  qed
qed

text \<open>
  With fewer than 32 blocks the loop ends after one data unit whatever the first block is: blocks that
  would belong to the next unit are whitened as further blocks of this one.
\<close>

lemma xts_loop_overrun:
  fixes blockCount :: "'a::len word"
  assumes wide: "32 \<le> LENGTH('a)"
    and unit: "unit_ok unit g"
    and g: "total16 f g" and tweak: "total16 tweak t" and nb: "length (nbytes no) = 16"
    and n: "0 < unat blockCount" "unat blockCount < 32" and start: "unat start < 32"
    and fits: "16 * unat blockCount \<le> length buf"
  shows "xts_loop unit tweak nbytes nsucc buf blockCount start no =
    Some (xts_unit g ((next_whitening ^^ unat start) (wv_of_bytes (t (nbytes no)))) (unat blockCount) buf)"
  using xts_loop_step [where nbytes = nbytes and no = no and nsucc = nsucc,
      OF wide start n(1) unit g tweak nb fits] n
  by (simp add: xts_loop.simps)

section \<open>The 64-bit functions\<close>

text \<open>The 16-byte array of the \<open>k\<close>-th data unit number from \<open>no\<close> on; the number wraps.\<close>

definition unit_no_seq :: "u64 \<Rightarrow> nat \<Rightarrow> bytes" where
  "unit_no_seq no k = unit_no_bytes (no + word_of_nat k)"

lemma funpow_inc: "((\<lambda>n :: 'a::len word. n + 1) ^^ k) no = no + word_of_nat k"
  by (induction k) (simp_all add: ac_simps)

lemma length_unit_no_bytes [simp]: "length (unit_no_bytes no) = 16"
  by (simp add: unit_no_bytes_def)

text \<open>What the callers owe: whole blocks, inside the buffer, and inside a data unit if it is the last.\<close>

definition xts_args :: "bytes \<Rightarrow> u64 \<Rightarrow> u32 \<Rightarrow> bool" where
  "xts_args buf len start \<longleftrightarrow> unat len mod 16 = 0 \<and> unat len \<le> length buf \<and> unat start < 32 \<and>
     (unat len < 512 \<longrightarrow> 16 * unat start + unat len \<le> 512)"

lemma xts_buffer_run:
  assumes unit: "unit_ok unit g"
    and g: "total16 f g" and tweak: "total16 tweak t" and args: "xts_args buf len start"
  shows "xts_buffer unit tweak buf len no start =
    Some (over_front buf (xts_run g t (unit_no_seq no) (unat start) (unat len div 16) buf))"
proof -
  let ?bc = "len div word_of_nat BYTES_PER_XTS_BLOCK"
  obtain k where k: "unat len = 16 * k"
    using args by (auto simp: xts_args_def dvd_def dest: mod_0_imp_dvd)
  have n: "unat ?bc = unat len div 16" by (simp add: tc_cfg unat_div)
  have "len mod word_of_nat BYTES_PER_XTS_BLOCK = 0"
    using args by (simp add: tc_cfg xts_args_def unat_eq_zero [symmetric] unat_mod del: unat_eq_zero)
  moreover have "xts_loop unit tweak unit_no_bytes (\<lambda>n. n + 1) buf ?bc start no =
      Some (xts_run g t (unit_no_seq no) (unat start) (unat len div 16) buf)"
    using args xts_loop_run [OF _ unit g tweak, of unit_no_bytes start ?bc buf "\<lambda>n. n + 1" no, unfolded n]
    by (auto simp: xts_args_def funpow_inc unit_no_seq_def [abs_def] k)
  ultimately show ?thesis by (simp add: xts_buffer_def)
qed

section \<open>The contract of the mode\<close>

text \<open>
  A block cipher for the data and a function for the tweaks give a mode whose decryption undoes its
  encryption, from any block on and with any numbering of the data units.
\<close>

locale xts = data: block_cipher 16 enc dec for enc dec +
  fixes tweak :: "bytes \<Rightarrow> bytes"
  assumes length_tweak: "length b = 16 \<Longrightarrow> length (tweak b) = 16"
begin

lemma length_run_enc: "16 * n \<le> length d \<Longrightarrow> length (xts_run enc tweak U a n d) = 16 * n"
  by (induction n arbitrary: a d) (simp_all add: Let_def data.length_enc)

lemma length_run_dec: "16 * n \<le> length d \<Longrightarrow> length (xts_run dec tweak U a n d) = 16 * n"
  by (induction n arbitrary: a d) (simp_all add: Let_def data.length_dec)

lemma run_dec_enc:
  "16 * n \<le> length d \<Longrightarrow> xts_run dec tweak U a n (xts_run enc tweak U a n d @ r) = take (16 * n) d"
proof (induction n arbitrary: a d)
  case (Suc n)
  let ?w = "wv_bytes (block_tweak tweak U a)"
  have "length (enc (xor_bytes (take 16 d) ?w)) = 16" using Suc.prems by (simp add: data.length_enc)
  moreover have "take (16 * Suc n) d = take 16 d @ take (16 * n) (drop 16 d)"
    by (simp add: take_add [of 16 "16 * n" d, symmetric])
  ultimately show ?case using Suc by (simp add: Let_def data.dec_enc)
qed simp

lemma total16_enc: "(\<And>b. f b = Some (enc b)) \<Longrightarrow> total16 f enc"
  by (simp add: total16_def data.length_enc)

lemma total16_dec: "(\<And>b. f b = Some (dec b)) \<Longrightarrow> total16 f dec"
  by (simp add: total16_def data.length_dec)

lemma total16_tweak: "(\<And>b. f b = Some (tweak b)) \<Longrightarrow> total16 f tweak"
  by (simp add: total16_def length_tweak)

end

interpretation serpent_xts:
  xts "\<lambda>b. serpent_encrypt b ks" "\<lambda>b. serpent_decrypt b ks" "\<lambda>b. serpent_encrypt b ks2" for ks ks2
  by unfold_locales simp

interpretation twofish_xts:
  xts "twofish_encrypt inst" "twofish_decrypt inst" "twofish_encrypt inst2" for inst inst2
  by unfold_locales simp

text \<open>Every cipher with 16-byte blocks and two scheduled keys provides the contract.\<close>

lemma xts_contract:
  assumes "hw_ok u" "valid_cipher c" "CipherGetBlockSize c = 16" "scheduled c ks" "scheduled c ks2"
  shows "xts (cipher_enc u c ks) (cipher_dec u c ks) (cipher_enc u c ks2)"
  using cipher_contract [OF assms(1,2,4)] cipher_contract [OF assms(1,2,5)] assms(3)
  by (simp add: xts_def xts_axioms_def block_cipher.length_enc)

section \<open>The builds agree with the mode\<close>

text \<open>The result of the mode on a buffer.\<close>

definition xts_result :: "(bytes \<Rightarrow> bytes) \<Rightarrow> (bytes \<Rightarrow> bytes) \<Rightarrow> bytes \<Rightarrow> u64 \<Rightarrow> u64 \<Rightarrow> u32 \<Rightarrow> bytes" where
  "xts_result g t buf len no start =
     over_front buf (xts_run g t (unit_no_seq no) (unat start) (unat len div 16) buf)"

lemma xts_functions_run:
  assumes ok: "hw_ok u" "valid_cipher c" "CipherGetBlockSize c = 16" "scheduled c ks" "scheduled c ks2"
    and args: "xts_args buf len start"
  shows "EncryptBufferXTSNonParallel u buf len no start ks ks2 c =
      Some (xts_result (cipher_enc u c ks) (cipher_enc u c ks2) buf len no start)"
    and "EncryptBufferXTSParallel u buf len no start ks ks2 c =
      Some (xts_result (cipher_enc u c ks) (cipher_enc u c ks2) buf len no start)"
    and "DecryptBufferXTSNonParallel u buf len no start ks ks2 c =
      Some (xts_result (cipher_dec u c ks) (cipher_enc u c ks2) buf len no start)"
    and "DecryptBufferXTSParallel u buf len no start ks ks2 c =
      Some (xts_result (cipher_dec u c ks) (cipher_enc u c ks2) buf len no start)"
proof -
  note X = xts_contract [OF ok]
  note te = xts.total16_enc [OF X EncipherBlock_eq [OF ok(2)]]
    and td = xts.total16_dec [OF X DecipherBlock_eq [OF ok(2)]]
    and tt = xts.total16_tweak [OF X EncipherBlock_eq [OF ok(2)]]
  have E: "length d = 16 * n \<Longrightarrow> EncipherBlocks u c d ks n = Some (block_map (cipher_enc u c ks) 16 n d)" for d n
    using EncipherBlocks_eq [OF ok(1,2)] ok(3) by simp
  have D: "length d = 16 * n \<Longrightarrow> DecipherBlocks u c d ks n = Some (block_map (cipher_dec u c ks) 16 n d)" for d n
    using DecipherBlocks_eq [OF ok(1,2)] ok(3) by simp
  show "EncryptBufferXTSNonParallel u buf len no start ks ks2 c =
      Some (xts_result (cipher_enc u c ks) (cipher_enc u c ks2) buf len no start)"
    unfolding EncryptBufferXTSNonParallel_def xts_result_def
    by (rule xts_buffer_run [OF unit_nonparallel_ok [OF te] te tt args])
  show "EncryptBufferXTSParallel u buf len no start ks ks2 c =
      Some (xts_result (cipher_enc u c ks) (cipher_enc u c ks2) buf len no start)"
    unfolding EncryptBufferXTSParallel_def xts_result_def
    by (rule xts_buffer_run [OF unit_parallel_ok [OF te E] te tt args])
  show "DecryptBufferXTSNonParallel u buf len no start ks ks2 c =
      Some (xts_result (cipher_dec u c ks) (cipher_enc u c ks2) buf len no start)"
    unfolding DecryptBufferXTSNonParallel_def xts_result_def
    by (rule xts_buffer_run [OF unit_nonparallel_ok [OF td] td tt args])
  show "DecryptBufferXTSParallel u buf len no start ks ks2 c =
      Some (xts_result (cipher_dec u c ks) (cipher_enc u c ks2) buf len no start)"
    unfolding DecryptBufferXTSParallel_def xts_result_def
    by (rule xts_buffer_run [OF unit_parallel_ok [OF td D] td tt args])
qed

lemma EncryptBufferXTS_run:
  assumes "hw_ok u" "valid_cipher c" "CipherGetBlockSize c = 16" "scheduled c ks" "scheduled c ks2"
    and "xts_args buf len start"
  shows "EncryptBufferXTS u buf len no start ks ks2 c =
      Some (xts_result (cipher_enc u c ks) (cipher_enc u c ks2) buf len no start)"
    and "DecryptBufferXTS u buf len no start ks ks2 c =
      Some (xts_result (cipher_dec u c ks) (cipher_enc u c ks2) buf len no start)"
  by (simp_all add: EncryptBufferXTS_def DecryptBufferXTS_def xts_functions_run [OF assms])

lemma xts_result_roundtrip:
  assumes "xts e d t" "xts_args buf len start"
  shows "length (xts_result e t buf len no start) = length buf \<and>
    xts_result d t (xts_result e t buf len no start) len no start = buf \<and>
    drop (unat len) (xts_result e t buf len no start) = drop (unat len) buf"
proof -
  obtain k where k: "unat len = 16 * k" and fits: "16 * k \<le> length buf"
    using assms(2) by (auto simp: xts_args_def dvd_def dest: mod_0_imp_dvd)
  let ?e = "xts_run e t (unit_no_seq no) (unat start) k buf"
  have "length ?e = 16 * k" by (rule xts.length_run_enc [OF assms(1) fits])
  moreover have "xts_run d t (unit_no_seq no) (unat start) k (?e @ drop (16 * k) buf) = take (16 * k) buf"
    by (rule xts.run_dec_enc [OF assms(1) fits])
  ultimately show ?thesis using fits by (simp add: xts_result_def over_front_def k)
qed

section \<open>The next whitening value is the double in the field\<close>

text \<open>Multiplication by \<open>x\<close> modulo \<open>x^128 + x^7 + x^2 + x + 1\<close> on polynomials as words.\<close>

definition gf_double :: "128 word \<Rightarrow> 128 word" where
  "gf_double a = (if bit a 127 then push_bit 1 a XOR 0x87 else push_bit 1 a)"

definition wv_word :: "wv \<Rightarrow> 128 word" where
  "wv_word w = le_to_word (wv_bytes w)"

lemma bit_wv_word:
  "bit (wv_word (lo, hi)) n \<longleftrightarrow> (if n < 64 then bit lo n else bit hi (n - 64))"
proof -
  have low: "k < 64" if "bit (v :: u64) k" for v k
    using bit_imp_le_length [OF that] by simp
  have le: "bit (le_to_word (word_to_le 8 v) :: 128 word) k \<longleftrightarrow> bit v k" for v :: u64 and k
    using low [of v k] by (auto simp: bit_le_to_word nth_word_to_le bit_ucast_iff bit_drop_bit_eq)
  show ?thesis
    using low [of lo n] low [of hi "n - 64"]
    by (auto simp: wv_word_def wv_bytes_def le_to_word_append bit_or_iff bit_push_bit_iff le)
qed

lemma and_top64: "(w :: u64) AND 0x8000000000000000 = 0 \<longleftrightarrow> \<not> bit w 63"
  using and_exp_bit [of w 63] by simp

lemma wv_word_shift: "wv_word (push_bit 1 lo, push_bit 1 hi OR of_bool (bit lo 63)) = push_bit 1 (wv_word (lo, hi))"
proof (rule bit_word_eqI)
  fix n assume "n < LENGTH(128)"
  have low: "n < 64" if "bit lo n" for n using bit_imp_le_length [OF that] by simp
  show "bit (wv_word (push_bit 1 lo, push_bit 1 hi OR of_bool (bit lo 63))) n \<longleftrightarrow>
      bit (push_bit 1 (wv_word (lo, hi))) n"
  proof (cases "n < 64 \<or> n = 64")
    case True
    then show ?thesis
      by (auto simp only: bit_wv_word bit_push_bit_iff bit_or_iff bit_of_bool_iff) (use low in auto)
  next
    case False
    then have "n - 64 - 1 = n - 1 - 64" "1 \<le> n - 64" "\<not> n - 1 < 64" "n - 64 \<noteq> 0" by linarith+
    moreover have "n - 64 < 64" using \<open>n < LENGTH(128)\<close> False by simp
    ultimately show ?thesis using False \<open>n < LENGTH(128)\<close>
      by (simp only: bit_wv_word bit_push_bit_iff bit_or_iff bit_of_bool_iff) simp
  qed
qed

lemma wv_word_xor: "wv_word (lo XOR c, hi) = wv_word (lo, hi) XOR wv_word (c, 0)"
  by (rule bit_word_eqI) (simp add: bit_wv_word bit_xor_iff)

lemma next_whitening_double: "wv_word (next_whitening w) = gf_double (wv_word w)"
proof (cases w)
  case (Pair lo hi)
  have top: "bit (wv_word (lo, hi)) 127 \<longleftrightarrow> bit hi 63" by (simp add: bit_wv_word)
  have "next_whitening (lo, hi) =
      (push_bit 1 lo XOR (if bit hi 63 then 135 else 0), push_bit 1 hi OR of_bool (bit lo 63))"
    by (simp add: next_whitening_def and_top64 Let_def)
  moreover have "wv_word (135, 0) = 0x87" "wv_word (0, 0) = 0"
    by (simp_all add: wv_word_def wv_bytes_def word_to_le_def upt_rec)
  ultimately show ?thesis
    using wv_word_shift [of lo hi] by (cases "bit lo 63") (simp_all add: Pair gf_double_def top wv_word_xor)
qed

section \<open>The 32-bit build\<close>

definition wv_dwords :: "wv \<Rightarrow> u32 list" where
  "wv_dwords w = [ucast (fst w), ucast (drop_bit 32 (fst w)), ucast (snd w), ucast (drop_bit 32 (snd w))]"

lemma and_top32: "(w :: u32) AND 0x80000000 = 0 \<longleftrightarrow> \<not> bit w 31"
  using and_exp_bit [of w 31] by simp

lemma dword_halves:
  fixes v :: u64
  defines "L \<equiv> \<lambda>v :: u64. (ucast v :: u32)" and "H \<equiv> \<lambda>v :: u64. (ucast (drop_bit 32 v) :: u32)"
  shows "bit (L v) 31 = bit v 31" "bit (H v) 31 = bit v 63"
    "L (push_bit 1 v) = push_bit 1 (L v)" "H (push_bit 1 v) = push_bit 1 (H v) OR of_bool (bit v 31)"
    "L (v XOR 135) = L v XOR 135" "H (v XOR 135) = H v" "L (v OR 1) = L v OR 1" "H (v OR 1) = H v"
proof -
  have c: "ucast (135 :: u64) = (135 :: u32)" "ucast (drop_bit 32 (135 :: u64)) = (0 :: u32)"
    "ucast (drop_bit 32 (1 :: u64)) = (0 :: u32)" by simp_all
  show "bit (L v) 31 = bit v 31" "bit (H v) 31 = bit v 63"
    by (simp_all add: L_def H_def bit_ucast_iff bit_drop_bit_eq)
  show "L (push_bit 1 v) = push_bit 1 (L v)"
    unfolding L_def by (rule bit_word_eqI) (auto simp: bit_ucast_iff bit_push_bit_iff simp del: push_bit_Suc)
  show "H (push_bit 1 v) = push_bit 1 (H v) OR of_bool (bit v 31)"
  proof (rule bit_word_eqI)
    fix n assume "n < LENGTH(32)"
    then show "bit (H (push_bit 1 v)) n \<longleftrightarrow> bit (push_bit 1 (H v) OR of_bool (bit v 31)) n"
      by (cases n) (auto simp: H_def bit_ucast_iff bit_push_bit_iff bit_drop_bit_eq bit_or_iff bit_1_iff
          simp del: push_bit_Suc)
  qed
  show "L (v XOR 135) = L v XOR 135" "H (v XOR 135) = H v"
    unfolding L_def H_def by (simp_all only: ucast_xor drop_bit_xor c xor.right_neutral)
  have ucast_or: "ucast (a OR b :: u64) = (ucast a OR ucast b :: u32)" for a b
    by (rule bit_word_eqI) (auto simp: bit_ucast_iff bit_or_iff)
  show "L (v OR 1) = L v OR 1" "H (v OR 1) = H v"
    unfolding L_def H_def by (simp_all only: ucast_or drop_bit_or c or.right_neutral) simp
qed

lemma next_whitening32_dwords: "next_whitening32 (wv_dwords w) = wv_dwords (next_whitening w)"
proof (cases w)
  case (Pair lo hi)
  show ?thesis
    using dword_halves(3,4) [of lo] dword_halves(3,4) [of hi] dword_halves(1,2) [of lo] dword_halves(1,2) [of hi]
    by (cases "bit lo 31"; cases "bit lo 63"; cases "bit hi 31"; cases "bit hi 63";
        simp add: Pair next_whitening32_def shift_dword_def wv_dwords_def next_whitening_def and_top32
        and_top64 Let_def dword_halves(5-8))
qed

lemma byte_of_dword: "k + 8 \<le> 32 \<Longrightarrow> (ucast (drop_bit k (ucast v :: u32)) :: u8) = ucast (drop_bit k (v :: u64))"
  by (rule bit_word_eqI) (simp add: bit_ucast_iff bit_drop_bit_eq)

lemma word_to_le_dwords: "word_to_le 4 (ucast v :: u32) @ word_to_le 4 (ucast (drop_bit 32 v) :: u32) = word_to_le 8 (v :: u64)"
  using byte_of_dword [of 0 v] byte_of_dword [of 8 v] byte_of_dword [of 16 v] byte_of_dword [of 24 v]
    byte_of_dword [of 0 "drop_bit 32 v"] byte_of_dword [of 8 "drop_bit 32 v"]
    byte_of_dword [of 16 "drop_bit 32 v"] byte_of_dword [of 24 "drop_bit 32 v"]
  by (simp add: word_to_le_def upt_rec)

lemma bytes_of_wv_dwords: "bytes_of_words (wv_dwords w) = wv_bytes w"
  using word_to_le_dwords [of "fst w"] word_to_le_dwords [of "snd w"]
  by (simp add: wv_dwords_def wv_bytes_def bytes_of_words_def)

lemma words_at_wv: "length b = 16 \<Longrightarrow> words_at 0 4 b = wv_dwords (wv_of_bytes b)"
  using words_at_bytes_of_words [of "wv_dwords (wv_of_bytes b)"]
  by (simp add: bytes_of_wv_dwords numeral_eq_Suc) (simp add: wv_dwords_def)

lemma xts_blocks32_eq: "xts_blocks32 f s k n buf (wv_dwords w) = xts_blocks f s k n buf w"
proof (induction n arbitrary: k buf w)
  case (Suc n)
  then show ?case
    by (cases "f (xor_bytes (take 16 buf) (wv_bytes w))") (simp_all add: bytes_of_wv_dwords next_whitening32_dwords)
qed simp

lemma unit32_ok:
  assumes "total16 f g"
  shows "unit_ok (unit32 f) g"
proof -
  have "unit32 f s e buf w = unit_nonparallel f s e buf w" if "length w = 16" for s e buf w
    using that by (simp add: unit32_def unit_nonparallel_def words_at_wv xts_blocks32_eq)
  then show ?thesis using unit_nonparallel_ok [OF assms] by (simp add: unit_ok_def)
qed

text \<open>The halves of the data unit number count as the 64-bit number does.\<close>

definition join_unit_no :: "u32 \<times> u32 \<Rightarrow> u64" where
  "join_unit_no no = push_bit 32 (ucast (fst no)) OR ucast (snd no)"

lemma join_unit_no_halves:
  "ucast (join_unit_no no) = snd no" "ucast (drop_bit 32 (join_unit_no no)) = fst no"
proof -
  show "ucast (join_unit_no no) = snd no"
    by (rule bit_word_eqI) (auto simp: join_unit_no_def bit_ucast_iff bit_or_iff bit_push_bit_iff)
  have "\<not> bit (snd no) (32 + n)" for n using bit_imp_le_length [of "snd no" "32 + n"] by auto
  then show "ucast (drop_bit 32 (join_unit_no no)) = fst no"
    by (intro bit_word_eqI) (auto simp: join_unit_no_def bit_ucast_iff bit_or_iff bit_push_bit_iff bit_drop_bit_eq)
qed

lemma join_unit_no_bytes: "Uint64ToLE16ByteArray no = unit_no_bytes (join_unit_no no)"
  using word_to_le_dwords [of "join_unit_no no"] word_to_le_dwords [of 0]
  by (simp add: Uint64ToLE16ByteArray_def unit_no_bytes_def join_unit_no_halves bytes_of_words_def)

lemma unat_u32_less: "unat (v :: u32) < 4294967296"
  using unsigned_less [of v] by simp

lemma unat_join: "unat (join_unit_no no) = 2 ^ 32 * unat (fst no) + unat (snd no)"
proof -
  have up: "unat (ucast v :: u64) = unat v" for v :: u32
    using unat_u32_less [of v] by (simp add: unsigned_ucast_eq take_bit_nat_eq_self)
  have "push_bit 32 (ucast (fst no)) AND (ucast (snd no) :: u64) = 0"
    by (rule bit_word_eqI) (auto simp: bit_simps dest: bit_imp_le_length)
  then have "join_unit_no no = push_bit 32 (ucast (fst no)) + ucast (snd no)"
    by (simp add: join_unit_no_def disjunctive_add_eq_or)
  moreover have "unat (push_bit 32 (ucast (fst no) :: u64)) = 2 ^ 32 * unat (fst no)"
    using unat_u32_less [of "fst no"] by (simp add: push_bit_eq_mult unat_word_ariths up)
  ultimately show ?thesis
    using unat_u32_less [of "fst no"] unat_u32_less [of "snd no"] by (simp add: unat_word_ariths up)
qed

lemma join_inc: "join_unit_no (inc_unit_no32 no) = join_unit_no no + 1"
proof (rule word_unat_eq_iff [THEN iffD2])
  show "unat (join_unit_no (inc_unit_no32 no)) = unat (join_unit_no no + 1)"
  proof (cases "snd no + 1 = 0")
    case True
    then have "snd no = - 1" by (simp add: eq_neg_iff_add_eq_0)
    then have s: "unat (snd no) = 4294967295" by (simp add: unsigned_minus_1_eq_mask mask_eq_exp_minus_1)
    show ?thesis
      using unat_u32_less [of "fst no"]
      by (simp add: inc_unit_no32_def True unat_join unat_word_ariths s mult_mod_right)
  next
    case False
    then have "unat (snd no + 1) \<noteq> 0" by (simp only: unat_0_iff not_False_eq_True)
    then have "unat (snd no + 1) = unat (snd no) + 1"
      using unat_u32_less [of "snd no"] by (cases "unat (snd no) = 4294967295") (simp_all add: unat_word_ariths)
    then show ?thesis
      using unat_u32_less [of "fst no"] unat_u32_less [of "snd no"] False
      by (simp add: inc_unit_no32_def unat_join unat_word_ariths)
  qed
qed

lemma funpow_inc32: "join_unit_no ((inc_unit_no32 ^^ k) no) = join_unit_no no + word_of_nat k"
  by (induction k) (simp_all add: join_inc ac_simps)

lemma EncryptDecryptBufferXTS32_run:
  fixes len :: u32
  assumes ok: "hw_ok u" "valid_cipher c" "CipherGetBlockSize c = 16" "scheduled c ks" "scheduled c ks2"
    and args: "xts_args buf (ucast len) start"
  shows "EncryptDecryptBufferXTS32 u buf len no start ks ks2 c decryption =
    Some (xts_result (if decryption then cipher_dec u c ks else cipher_enc u c ks) (cipher_enc u c ks2)
            buf (ucast len) (join_unit_no no) start)"
proof -
  note X = xts_contract [OF ok]
  let ?f = "\<lambda>b. if decryption then DecipherBlock u c b ks else EncipherBlock u c b ks"
  let ?g = "if decryption then cipher_dec u c ks else cipher_enc u c ks"
  have g: "total16 ?f ?g"
    using xts.total16_enc [OF X EncipherBlock_eq [OF ok(2)]] xts.total16_dec [OF X DecipherBlock_eq [OF ok(2)]]
    by simp
  have t: "total16 (\<lambda>b. EncipherBlock u c b ks2) (cipher_enc u c ks2)"
    by (rule xts.total16_tweak [OF X EncipherBlock_eq [OF ok(2)]])
  let ?bc = "len div word_of_nat BYTES_PER_XTS_BLOCK"
  have up: "unat (ucast len :: u64) = unat len"
    using unat_u32_less [of len] by (simp add: unsigned_ucast_eq take_bit_nat_eq_self)
  obtain k where k: "unat len = 16 * k"
    using args by (auto simp: xts_args_def dvd_def up dest: mod_0_imp_dvd)
  have n: "unat ?bc = k" by (simp add: tc_cfg unat_div k)
  have "xts_loop (unit32 ?f) (\<lambda>b. EncipherBlock u c b ks2) Uint64ToLE16ByteArray inc_unit_no32 buf ?bc start no =
      Some (xts_run ?g (cipher_enc u c ks2) (unit_no_seq (join_unit_no no)) (unat start) k buf)"
    using args xts_loop_run [OF _ unit32_ok [OF g] g t, of Uint64ToLE16ByteArray start ?bc buf inc_unit_no32 no, unfolded n]
    by (auto simp: xts_args_def up k join_unit_no_bytes funpow_inc32 unit_no_seq_def [abs_def])
  then show ?thesis
    by (simp add: EncryptDecryptBufferXTS32_def xts_result_def up k)
qed

end
