(* ===== verification/Gf_Mul.thy ===== *)
theory Gf_Mul
  imports TC_Prelude
begin

text \<open>
  Common/GfMul.c: multiplication in \<open>GF(2^128)\<close> and \<open>GF(2^64)\<close> by tables, which the LRW mode uses. A
  field element is an array of 32-bit words in memory; a table is a function of the row and of the
  value of a nibble. The code of a little-endian machine is modelled.
\<close>

unbundle bit_operations_syntax

type_synonym gf_table = "nat \<Rightarrow> nat \<Rightarrow> u32 list"

record GfCtx =
  gf_t128 :: gf_table
  gf_t64 :: gf_table

section \<open>Multiplication by a power of x\<close>

definition bswap_32 :: "u32 \<Rightarrow> u32" where
  "bswap_32 x = (word_rotr 24 x AND 0x00ff00ff) OR (word_rotr 8 x AND 0xff00ff00)"

definition bsw_32 :: "u32 list \<Rightarrow> nat \<Rightarrow> u32 list" where
  "bsw_32 p n = map bswap_32 (take n p) @ drop n p"

definition gf_poly :: "u32 list" where "gf_poly = [0, 0xe1000000]"
definition gf_poly64 :: "u32 list" where "gf_poly64 = [0, 0xd8000000]"

definition mul_x :: "u32 list \<Rightarrow> u32 list" where
  "mul_x x =
     (let x = bsw_32 x 4;
          t = gf_poly ! unat (x ! 3 AND 1);
          x = x[3 := drop_bit 1 (x ! 3) OR push_bit 31 (x ! 2)];
          x = x[2 := drop_bit 1 (x ! 2) OR push_bit 31 (x ! 1)];
          x = x[1 := drop_bit 1 (x ! 1) OR push_bit 31 (x ! 0)];
          x = x[0 := drop_bit 1 (x ! 0) XOR t]
      in bsw_32 x 4)"

definition mul_x64 :: "u32 list \<Rightarrow> u32 list" where
  "mul_x64 x =
     (let x = bsw_32 x 2;
          t = gf_poly64 ! unat (x ! 1 AND 1);
          x = x[1 := drop_bit 1 (x ! 1) OR push_bit 31 (x ! 0)];
          x = x[0 := drop_bit 1 (x ! 0) XOR t]
      in bsw_32 x 2)"

text \<open>The two bytes of the macro \<open>xp\<close>, and the table \<open>gft_le\<close> of the little-endian order.\<close>

definition pick :: "u32 \<Rightarrow> u32 list \<Rightarrow> u32" where
  "pick i vs = fold (XOR) (map (\<lambda>k. if i AND push_bit (7 - k) 1 \<noteq> 0 then vs ! k else 0) [0..<8]) 0"

definition xp_x :: "u32 \<Rightarrow> u32" where "xp_x i = pick i [0xe1, 0x70, 0x38, 0x1c, 0x0e, 0x07, 0x03, 0x01]"
definition xp_y :: "u32 \<Rightarrow> u32" where "xp_y i = pick i [0x00, 0x80, 0x40, 0x20, 0x10, 0x08, 0x84, 0xc2]"
definition xp64_x :: "u32 \<Rightarrow> u32" where "xp64_x i = pick i [0xd8, 0x6c, 0x36, 0x1b, 0x0d, 0x06, 0x03, 0x01]"
definition xp64_y :: "u32 \<Rightarrow> u32" where "xp64_y i = pick i [0x00, 0x00, 0x00, 0x00, 0x80, 0xc0, 0x60, 0xb0]"

definition gft_le :: "u32 list" where
  "gft_le = map (\<lambda>i. xp_x (word_of_nat i) OR push_bit 8 (xp_y (word_of_nat i))) [0..<256]"

definition gft_le64 :: "u32 list" where
  "gft_le64 = map (\<lambda>i. xp64_x (word_of_nat i) OR push_bit 8 (xp64_y (word_of_nat i))) [0..<256]"

definition mul_lex8 :: "u32 list \<Rightarrow> u32 list" where
  "mul_lex8 x =
     (let t = drop_bit 24 (x ! 3);
          x = x[3 := push_bit 8 (x ! 3) OR drop_bit 24 (x ! 2)];
          x = x[2 := push_bit 8 (x ! 2) OR drop_bit 24 (x ! 1)];
          x = x[1 := push_bit 8 (x ! 1) OR drop_bit 24 (x ! 0)]
      in x[0 := push_bit 8 (x ! 0) XOR gft_le ! unat t])"

definition mul_lex8_64 :: "u32 list \<Rightarrow> u32 list" where
  "mul_lex8_64 x =
     (let t = drop_bit 24 (x ! 1);
          x = x[1 := push_bit 8 (x ! 1) OR drop_bit 24 (x ! 0)]
      in x[0 := push_bit 8 (x ! 0) XOR gft_le64 ! unat t])"

section \<open>The tables\<close>

definition set_entry :: "nat \<Rightarrow> nat \<Rightarrow> u32 list \<Rightarrow> gf_table \<Rightarrow> gf_table" where
  "set_entry i j v t = t(i := (t i)(j := v))"

text \<open>Rows 0 and 1 from the element, further rows from the row two before, then the sums.\<close>

definition table_first :: "(u32 list \<Rightarrow> u32 list) \<Rightarrow> u32 list \<Rightarrow> gf_table \<Rightarrow> gf_table" where
  "table_first mx a t =
     (let t = set_entry 1 8 a t;
          t = fold (\<lambda>j t. set_entry 1 j (mx (t 1 (j + j))) t) [4, 2, 1] t;
          t = set_entry 0 8 (mx (t 1 1)) t
      in fold (\<lambda>j t. set_entry 0 j (mx (t 0 (j + j))) t) [4, 2, 1] t)"

definition table_shift :: "(u32 list \<Rightarrow> u32 list) \<Rightarrow> nat \<Rightarrow> gf_table \<Rightarrow> gf_table" where
  "table_shift mx8 i t = fold (\<lambda>j t. set_entry i j (mx8 (t (i - 2) j)) t) [8, 4, 2, 1] t"

definition table_sums :: "nat \<Rightarrow> gf_table \<Rightarrow> gf_table" where
  "table_sums i t =
     fold (\<lambda>j t. fold (\<lambda>k t. set_entry i (j + k) (map2 (XOR) (t i j) (t i k)) t) [1..<j] t) [2, 4, 8] t"

definition compile_table ::
  "(u32 list \<Rightarrow> u32 list) \<Rightarrow> (u32 list \<Rightarrow> u32 list) \<Rightarrow> nat \<Rightarrow> u32 list \<Rightarrow> gf_table" where
  "compile_table mx mx8 rows a =
     fold (\<lambda>i t. table_sums i (if i = 0 then table_first mx a t else if 1 < i then table_shift mx8 i t else t))
       [0..<rows] (\<lambda>i j. replicate 4 0)"

definition compile_8k_table :: "bytes \<Rightarrow> gf_table" where
  "compile_8k_table a = compile_table mul_x mul_lex8 32 (words_at 0 4 a)"

text \<open>The entries of the small table have the size of the large one's; their upper halves stay zero.\<close>

definition compile_4k_table64 :: "bytes \<Rightarrow> gf_table" where
  "compile_4k_table64 a = compile_table mul_x64 mul_lex8_64 16 (words_at 0 2 a @ [0, 0])"

section \<open>Bit order\<close>

definition IsBitSet128 :: "nat \<Rightarrow> bytes \<Rightarrow> bool" where
  "IsBitSet128 b a \<longleftrightarrow> a ! ((127 - b) div 8) AND drop_bit ((127 - b) mod 8) 0x80 \<noteq> 0"

definition IsBitSet64 :: "nat \<Rightarrow> bytes \<Rightarrow> bool" where
  "IsBitSet64 b a \<longleftrightarrow> a ! ((63 - b) div 8) AND drop_bit ((63 - b) mod 8) 0x80 \<noteq> 0"

definition SetBit128 :: "nat \<Rightarrow> bytes \<Rightarrow> bytes" where
  "SetBit128 b a = a[(127 - b) div 8 := a ! ((127 - b) div 8) OR drop_bit ((127 - b) mod 8) 0x80]"

definition SetBit64 :: "nat \<Rightarrow> bytes \<Rightarrow> bytes" where
  "SetBit64 b a = a[(63 - b) div 8 := a ! ((63 - b) div 8) OR drop_bit ((63 - b) mod 8) 0x80]"

definition MirrorBits128 :: "bytes \<Rightarrow> bytes" where
  "MirrorBits128 a =
     fold (\<lambda>i t. if IsBitSet128 i a then SetBit128 (127 - i) t else t) [0..<128] (replicate 16 0)"

definition MirrorBits64 :: "bytes \<Rightarrow> bytes" where
  "MirrorBits64 a =
     fold (\<lambda>i t. if IsBitSet64 i a then SetBit64 (63 - i) t else t) [0..<64] (replicate 8 0)"

text \<open>The index \<open>jm\<close>: the nibble \<open>j\<close> with its bits reversed.\<close>

definition mirror_nibble :: "nat \<Rightarrow> nat" where
  "mirror_nibble j = j mod 2 * 8 + j div 2 mod 2 * 4 + j div 4 mod 2 * 2 + j div 8 mod 2"

text \<open>\<open>alloc\<close> tells whether the temporary table could be allocated; the result is the return value.\<close>

definition Gf128Tab64Init :: "bool \<Rightarrow> bytes \<Rightarrow> GfCtx \<Rightarrow> bool \<times> GfCtx" where
  "Gf128Tab64Init alloc a ctx =
     (if \<not> alloc then (False, ctx)
      else
        let t8k = compile_8k_table (MirrorBits128 (take 16 a));
            t = fold (\<lambda>i t. fold (\<lambda>j t. set_entry (i - 16) (mirror_nibble j)
                    (words_at 0 4 (MirrorBits128 (bytes_of_words (t8k (31 - i) j)))) t) [0..<16] t)
                  [16..<32] (gf_t128 ctx)
        in (True, ctx\<lparr>gf_t128 := t\<rparr>))"

definition Gf64TabInit :: "bool \<Rightarrow> bytes \<Rightarrow> GfCtx \<Rightarrow> bool \<times> GfCtx" where
  "Gf64TabInit alloc a ctx =
     (if \<not> alloc then (False, ctx)
      else
        let t4k = compile_4k_table64 (MirrorBits64 (take 8 a));
            t = fold (\<lambda>i t. fold (\<lambda>j t. set_entry i (mirror_nibble j)
                    (words_at 0 2 (MirrorBits64 (bytes_of_words (take 2 (t4k (15 - i) j))))) t) [0..<16] t)
                  [0..<16] (gf_t64 ctx)
        in (True, ctx\<lparr>gf_t64 := t\<rparr>))"

section \<open>Multiplication\<close>

text \<open>The macros \<open>xor_8kt64\<close> and \<open>xor_8k64\<close>.\<close>

definition xor_row :: "gf_table \<Rightarrow> bytes \<Rightarrow> nat \<Rightarrow> u32 list \<Rightarrow> u32 list" where
  "xor_row t a i r =
     map2 (XOR) (map2 (XOR) r (t (i + i) (unat (a ! i AND 15)))) (t (i + i + 1) (unat (drop_bit 4 (a ! i))))"

definition mul_by_table :: "gf_table \<Rightarrow> bytes \<Rightarrow> u32 list" where
  "mul_by_table t a =
     (let r = map2 (XOR) (t 14 (unat (a ! 7 AND 15))) (t 15 (unat (drop_bit 4 (a ! 7))));
          r = (if a ! 0 \<noteq> 0 \<or> a ! 1 \<noteq> 0 then xor_row t a 1 (xor_row t a 0 r) else r);
          r = (if a ! 2 \<noteq> 0 then xor_row t a 2 r else r)
      in xor_row t a 6 (xor_row t a 5 (xor_row t a 4 (xor_row t a 3 r))))"

definition Gf128MulBy64Tab :: "bytes \<Rightarrow> GfCtx \<Rightarrow> bytes" where
  "Gf128MulBy64Tab a ctx = bytes_of_words (mul_by_table (gf_t128 ctx) a)"

definition Gf64MulTab :: "bytes \<Rightarrow> GfCtx \<Rightarrow> bytes" where
  "Gf64MulTab a ctx = bytes_of_words (mul_by_table (gf_t64 ctx) a)"

section \<open>The basic algorithms\<close>

text \<open>Shift of a big-endian number by one bit; \<open>x\<close> is the carry from the byte after.\<close>

definition shl_step :: "nat \<Rightarrow> bytes \<times> u8 \<Rightarrow> bytes \<times> u8" where
  "shl_step i = (\<lambda>(a, x). let xx = drop_bit 7 (a ! i AND 0x80) in (a[i := push_bit 1 (a ! i) OR x], xx))"

definition shl128 :: "bytes \<Rightarrow> bytes" where
  "shl128 a = fst (fold shl_step (rev [0..<16]) (a, 0))"

definition shl64 :: "bytes \<Rightarrow> bytes" where
  "shl64 a = fst (fold shl_step (rev [0..<8]) (a, 0))"

definition GfMul128Basic :: "bytes \<Rightarrow> bytes \<Rightarrow> bytes" where
  "GfMul128Basic a b =
     snd (fold (\<lambda>i (la, p).
            let p = (if IsBitSet128 i b then xor_bytes p la else p);
                la' = shl128 la;
                la' = (if la ! 0 AND 0x80 \<noteq> 0 then la'[15 := la' ! 15 XOR 0x87] else la')
            in (la', p)) [0..<128] (a, replicate 16 0))"

definition GfMul64Basic :: "bytes \<Rightarrow> bytes \<Rightarrow> bytes" where
  "GfMul64Basic a b =
     snd (fold (\<lambda>i (la, p).
            let p = (if IsBitSet64 i b then xor_bytes p la else p);
                la' = shl64 la;
                la' = (if la ! 0 AND 0x80 \<noteq> 0 then la'[7 := la' ! 7 XOR 0x1b] else la')
            in (la', p)) [0..<64] (a, replicate 8 0))"

end
