(* ===== verification/Crypto_Modes.thy ===== *)
theory Crypto_Modes
  imports Xts Gf_Mul Crc32 Endianness
begin

text \<open>
  The modes of operation of Common/Crypto.c over whole volumes: \<open>EAInitMode\<close>, the legacy modes LRW and
  CBC, \<open>EncryptBuffer\<close> and \<open>DecryptBuffer\<close> for volume headers, and the encryption of data units.

  \<open>None\<close> is the fatal exception. The loops over the ciphers of a cascade are \<open>cascade_fwd\<close> and
  \<open>cascade_bwd\<close>, which pass each cipher the offset of its key schedule; \<open>cascade_inverse\<close> shows once
  that the second undoes the first.
\<close>

unbundle bit_operations_syntax

section \<open>The state of a volume\<close>

record CRYPTO_INFO =
  ci_ea :: nat
  ci_mode :: nat
  ci_ks :: bytes
  ci_ks2 :: bytes
  hiddenVolume :: bool
  HeaderVersion :: u16
  gf_ctx :: GfCtx
  ci_master_keydata :: bytes
  ci_k2 :: bytes
  ci_salt :: bytes
  ci_noIterations :: nat
  ci_pkcs5 :: nat
  volume_creation_time :: u64
  header_creation_time :: u64
  bProtectHiddenVolume :: bool
  bHiddenVolProtectionAction :: bool
  volDataAreaOffset :: u64
  hiddenVolumeSize :: u64
  hiddenVolumeOffset :: u64
  hiddenVolumeProtectedSize :: u64
  bPartitionInInactiveSysEncScope :: bool
  FirstDataUnitNo :: u64
  RequiredProgramVersion :: u16
  LegacyVolume :: bool
  SectorSize :: u32
  VolumeSize :: u64
  EncryptedAreaStart :: u64
  EncryptedAreaLength :: u64
  HeaderFlags :: u32

definition TC_VOLUME_HEADER_SIZE_LEGACY :: nat where "TC_VOLUME_HEADER_SIZE_LEGACY = 512"

lemmas header_size_legacy [tc_cfg] = TC_VOLUME_HEADER_SIZE_LEGACY_def

text \<open>\<open>alloc\<close> tells whether the tables of the LRW mode could be allocated.\<close>

definition EAInitMode :: "bool \<Rightarrow> CRYPTO_INFO \<Rightarrow> (bool \<times> CRYPTO_INFO) option" where
  "EAInitMode alloc ci =
     (if ci_mode ci = XTS then
        map_option (\<lambda>(r, ks2). (r = ERR_SUCCESS, ci\<lparr>ci_ks2 := ks2\<rparr>)) (EAInit (ci_ea ci) (ci_k2 ci) (ci_ks2 ci))
      else if ci_mode ci = LRW then
        (let bs = CipherGetBlockSize (EAGetFirstCipher (ci_ea ci)) in
         if bs = 8 then
           (let (r, ctx) = Gf64TabInit alloc (ci_k2 ci) (gf_ctx ci) in Some (r, ci\<lparr>gf_ctx := ctx\<rparr>))
         else if bs = 16 then
           (let (r, ctx) = Gf128Tab64Init alloc (ci_k2 ci) (gf_ctx ci) in Some (r, ci\<lparr>gf_ctx := ctx\<rparr>))
         else None)
      else if ci_mode ci = CBC \<or> ci_mode ci = INNER_CBC \<or> ci_mode ci = OUTER_CBC then Some (True, ci)
      else None)"

section \<open>Cascades\<close>

fun cascade_fwd :: "(nat \<Rightarrow> nat \<Rightarrow> bytes \<Rightarrow> bytes option) \<Rightarrow> nat \<Rightarrow> nat list \<Rightarrow> bytes \<Rightarrow> bytes option" where
  "cascade_fwd f off [] p = Some p"
| "cascade_fwd f off (c # cs) p =
     (case f c off p of None \<Rightarrow> None | Some q \<Rightarrow> cascade_fwd f (off + CipherGetKeyScheduleSize c) cs q)"

fun cascade_bwd :: "(nat \<Rightarrow> nat \<Rightarrow> bytes \<Rightarrow> bytes option) \<Rightarrow> nat \<Rightarrow> nat list \<Rightarrow> bytes \<Rightarrow> bytes option" where
  "cascade_bwd f off [] p = Some p"
| "cascade_bwd f off (c # cs) p =
     (case f c (off - CipherGetKeyScheduleSize c) p of None \<Rightarrow> None
      | Some q \<Rightarrow> cascade_bwd f (off - CipherGetKeyScheduleSize c) cs q)"

text \<open>The loops \<open>for (cipher = EAGetFirstCipher (ea); ...)\<close> and \<open>for (cipher = EAGetLastCipher (ea); ...)\<close>.\<close>

definition for_ciphers :: "nat \<Rightarrow> (nat \<Rightarrow> nat \<Rightarrow> bytes \<Rightarrow> bytes option) \<Rightarrow> bytes \<Rightarrow> bytes option" where
  "for_ciphers ea f p = Option.bind (ea_ciphers_forward ea) (\<lambda>cs. cascade_fwd f 0 cs p)"

definition for_ciphers_back :: "nat \<Rightarrow> (nat \<Rightarrow> nat \<Rightarrow> bytes \<Rightarrow> bytes option) \<Rightarrow> bytes \<Rightarrow> bytes option" where
  "for_ciphers_back ea f p =
     Option.bind (EAGetKeyScheduleSize ea) (\<lambda>n.
     Option.bind (ea_ciphers_backward ea) (\<lambda>cs. cascade_bwd f n cs p))"

definition encipher_cascade :: "cpu \<Rightarrow> nat \<Rightarrow> bytes \<Rightarrow> bytes \<Rightarrow> bytes option" where
  "encipher_cascade u ea ks = for_ciphers ea (\<lambda>c off p. EncipherBlock u c p (drop off ks))"

definition decipher_cascade :: "cpu \<Rightarrow> nat \<Rightarrow> bytes \<Rightarrow> bytes \<Rightarrow> bytes option" where
  "decipher_cascade u ea ks = for_ciphers_back ea (\<lambda>c off p. DecipherBlock u c p (drop off ks))"

section \<open>LRW\<close>

definition lrw_inc :: "bytes \<Rightarrow> bytes" where
  "lrw_inc i = (if i ! 7 \<noteq> 0xff then i[7 := i ! 7 + 1] else word_to_le 8 (BE64 (BE64 (le_to_word i) + 1)))"

text \<open>\<open>n\<close> blocks of \<open>bs\<close> bytes from the index \<open>i\<close> on.\<close>

primrec lrw_loop ::
  "(bytes \<Rightarrow> bytes) \<Rightarrow> (bytes \<Rightarrow> bytes option) \<Rightarrow> nat \<Rightarrow> nat \<Rightarrow> bytes \<Rightarrow> bytes \<Rightarrow> bytes option" where
  "lrw_loop mult crypt bs 0 i p = Some p"
| "lrw_loop mult crypt bs (Suc n) i p =
     (case crypt (xor_bytes (take bs p) (mult i)) of
        None \<Rightarrow> None
      | Some c \<Rightarrow> map_option ((@) (xor_bytes c (mult i))) (lrw_loop mult crypt bs n (lrw_inc i) (drop bs p)))"

definition EncryptBufferLRW128 :: "cpu \<Rightarrow> bytes \<Rightarrow> u64 \<Rightarrow> u64 \<Rightarrow> CRYPTO_INFO \<Rightarrow> bytes option" where
  "EncryptBufferLRW128 u buffer len blockIndex ci =
     (if len mod 16 \<noteq> 0 then None
      else lrw_loop (\<lambda>i. Gf128MulBy64Tab i (gf_ctx ci))
             (if EAGetCipherCount (ci_ea ci) > 1 then encipher_cascade u (ci_ea ci) (ci_ks ci)
              else (\<lambda>p. EncipherBlock u (EAGetFirstCipher (ci_ea ci)) p (ci_ks ci)))
             16 (unat (drop_bit 4 len)) (word_to_le 8 (BE64 blockIndex)) buffer)"

definition EncryptBufferLRW64 :: "cpu \<Rightarrow> bytes \<Rightarrow> u64 \<Rightarrow> u64 \<Rightarrow> CRYPTO_INFO \<Rightarrow> bytes option" where
  "EncryptBufferLRW64 u buffer len blockIndex ci =
     (if len mod 8 \<noteq> 0 then None
      else lrw_loop (\<lambda>i. Gf64MulTab i (gf_ctx ci))
             (\<lambda>p. EncipherBlock u (EAGetFirstCipher (ci_ea ci)) p (ci_ks ci))
             8 (unat (drop_bit 3 len)) (word_to_le 8 (BE64 blockIndex)) buffer)"

definition DecryptBufferLRW128 :: "cpu \<Rightarrow> bytes \<Rightarrow> u64 \<Rightarrow> u64 \<Rightarrow> CRYPTO_INFO \<Rightarrow> bytes option" where
  "DecryptBufferLRW128 u buffer len blockIndex ci =
     (if len mod 16 \<noteq> 0 then None
      else lrw_loop (\<lambda>i. Gf128MulBy64Tab i (gf_ctx ci))
             (if EAGetCipherCount (ci_ea ci) > 1 then decipher_cascade u (ci_ea ci) (ci_ks ci)
              else (\<lambda>p. DecipherBlock u (EAGetFirstCipher (ci_ea ci)) p (ci_ks ci)))
             16 (unat (drop_bit 4 len)) (word_to_le 8 (BE64 blockIndex)) buffer)"

definition DecryptBufferLRW64 :: "cpu \<Rightarrow> bytes \<Rightarrow> u64 \<Rightarrow> u64 \<Rightarrow> CRYPTO_INFO \<Rightarrow> bytes option" where
  "DecryptBufferLRW64 u buffer len blockIndex ci =
     (if len mod 8 \<noteq> 0 then None
      else lrw_loop (\<lambda>i. Gf64MulTab i (gf_ctx ci))
             (\<lambda>p. DecipherBlock u (EAGetFirstCipher (ci_ea ci)) p (ci_ks ci))
             8 (unat (drop_bit 3 len)) (word_to_le 8 (BE64 blockIndex)) buffer)"

section \<open>CBC\<close>

definition InitSectorIVAndWhitening :: "u64 \<Rightarrow> nat \<Rightarrow> bytes \<Rightarrow> (bytes \<times> bytes) option" where
  "InitSectorIVAndWhitening unitNo blockSize ivSeed =
     (let n = (if blockSize = 16 then 4 else 3);
          iv64 = concat (map (\<lambda>j. word_to_le 8 (le_to_word (get_at (8 * j) 8 ivSeed) XOR unitNo)) [0..<n]);
          iv32 = (\<lambda>j. le_to_word (get_at (4 * j) 4 iv64) :: u32)
      in if blockSize = 16 then
           Some (take 16 iv64, word_to_le 4 (crc32int (iv32 4) XOR crc32int (iv32 7)) @
                               word_to_le 4 (crc32int (iv32 5) XOR crc32int (iv32 6)))
         else if blockSize = 8 then
           Some (take 8 iv64, word_to_le 4 (crc32int (iv32 2) XOR crc32int (iv32 5)) @
                              word_to_le 4 (crc32int (iv32 3) XOR crc32int (iv32 4)))
         else None)"

text \<open>The two whitening words are applied to the block, twice to a block of 16 bytes.\<close>

definition cbc_whitening :: "nat \<Rightarrow> bytes \<Rightarrow> bytes" where
  "cbc_whitening blockSize w = (if blockSize = 16 then take 8 w @ take 8 w else take 8 w)"

primrec cbc_encrypt_loop ::
  "(bytes \<Rightarrow> bytes option) \<Rightarrow> nat \<Rightarrow> bytes \<Rightarrow> nat \<Rightarrow> bytes \<Rightarrow> bytes \<Rightarrow> bytes option" where
  "cbc_encrypt_loop crypt bs w 0 bufIV p = Some p"
| "cbc_encrypt_loop crypt bs w (Suc n) bufIV p =
     (case crypt (xor_bytes (take bs p) bufIV) of
        None \<Rightarrow> None
      | Some c \<Rightarrow> map_option ((@) (xor_bytes c w)) (cbc_encrypt_loop crypt bs w n c (drop bs p)))"

primrec cbc_decrypt_loop ::
  "(bytes \<Rightarrow> bytes option) \<Rightarrow> nat \<Rightarrow> bytes \<Rightarrow> nat \<Rightarrow> bytes \<Rightarrow> bytes \<Rightarrow> bytes option" where
  "cbc_decrypt_loop crypt bs w 0 bufIV p = Some p"
| "cbc_decrypt_loop crypt bs w (Suc n) bufIV p =
     (let ct = xor_bytes (take bs p) w in
      case crypt ct of
        None \<Rightarrow> None
      | Some d \<Rightarrow> map_option ((@) (xor_bytes d bufIV)) (cbc_decrypt_loop crypt bs w n ct (drop bs p)))"

text \<open>\<open>ea\<close> is 0 for CBC and inner CBC; then \<open>cipher\<close> is the cipher.\<close>

definition EncryptBufferCBC ::
  "cpu \<Rightarrow> bytes \<Rightarrow> nat \<Rightarrow> bytes \<Rightarrow> bytes \<Rightarrow> bytes \<Rightarrow> nat \<Rightarrow> nat \<Rightarrow> bytes option" where
  "EncryptBufferCBC u data len ks iv whitening ea cipher =
     (let bs = CipherGetBlockSize (if ea \<noteq> 0 then EAGetFirstCipher ea else cipher) in
      if len mod bs \<noteq> 0 then None
      else cbc_encrypt_loop (if ea \<noteq> 0 then encipher_cascade u ea ks else (\<lambda>p. EncipherBlock u cipher p ks))
             bs (cbc_whitening bs whitening) (len div bs) (take bs iv) data)"

definition DecryptBufferCBC ::
  "cpu \<Rightarrow> bytes \<Rightarrow> nat \<Rightarrow> bytes \<Rightarrow> bytes \<Rightarrow> bytes \<Rightarrow> nat \<Rightarrow> nat \<Rightarrow> bytes option" where
  "DecryptBufferCBC u data len ks iv whitening ea cipher =
     (let bs = CipherGetBlockSize (if ea \<noteq> 0 then EAGetFirstCipher ea else cipher) in
      if len mod bs \<noteq> 0 then None
      else cbc_decrypt_loop (if ea \<noteq> 0 then decipher_cascade u ea ks else (\<lambda>p. DecipherBlock u cipher p ks))
             bs (cbc_whitening bs whitening) (len div bs) (take bs iv) data)"

section \<open>Buffers\<close>

definition EncryptBuffer :: "cpu \<Rightarrow> bytes \<Rightarrow> u64 \<Rightarrow> CRYPTO_INFO \<Rightarrow> bytes option" where
  "EncryptBuffer u buf len ci =
     (let ea = ci_ea ci; ks = ci_ks ci; ks2 = ci_ks2 ci; mode = ci_mode ci in
      if mode = XTS then
        for_ciphers ea (\<lambda>c off b. EncryptBufferXTS u b len 0 0 (drop off ks) (drop off ks2) c) buf
      else if mode = LRW then
        (if CipherGetBlockSize (EAGetFirstCipher ea) = 8 then EncryptBufferLRW64 u buf len 1 ci
         else if CipherGetBlockSize (EAGetFirstCipher ea) = 16 then EncryptBufferLRW128 u buf len 1 ci
         else None)
      else if mode = CBC \<or> mode = INNER_CBC then
        for_ciphers ea (\<lambda>c off b. EncryptBufferCBC u b (unat (ucast len :: u32)) (drop off ks)
                                     (ci_k2 ci) (drop 8 (ci_k2 ci)) 0 c) buf
      else if mode = OUTER_CBC then
        EncryptBufferCBC u buf (unat (ucast len :: u32)) ks (ci_k2 ci) (drop 8 (ci_k2 ci)) ea 0
      else None)"

definition DecryptBuffer :: "cpu \<Rightarrow> bytes \<Rightarrow> u64 \<Rightarrow> CRYPTO_INFO \<Rightarrow> bytes option" where
  "DecryptBuffer u buf len ci =
     (let ea = ci_ea ci; ks = ci_ks ci; ks2 = ci_ks2 ci; mode = ci_mode ci in
      if mode = XTS then
        for_ciphers_back ea (\<lambda>c off b. DecryptBufferXTS u b len 0 0 (drop off ks) (drop off ks2) c) buf
      else if mode = LRW then
        (if CipherGetBlockSize (EAGetFirstCipher ea) = 8 then DecryptBufferLRW64 u buf len 1 ci
         else if CipherGetBlockSize (EAGetFirstCipher ea) = 16 then DecryptBufferLRW128 u buf len 1 ci
         else None)
      else if mode = CBC \<or> mode = INNER_CBC then
        for_ciphers_back ea (\<lambda>c off b. DecryptBufferCBC u b (unat (ucast len :: u32)) (drop off ks)
                                     (ci_k2 ci) (drop 8 (ci_k2 ci)) 0 c) buf
      else if mode = OUTER_CBC then
        DecryptBufferCBC u buf (unat (ucast len :: u32)) ks (ci_k2 ci) (drop 8 (ci_k2 ci)) ea 0
      else None)"

section \<open>Data units\<close>

definition DataUnit2LRWIndex :: "u64 \<Rightarrow> nat \<Rightarrow> CRYPTO_INFO \<Rightarrow> u64 option" where
  "DataUnit2LRWIndex dataUnit blockSize ci =
     (let dataUnit = (if hiddenVolume ci
                      then dataUnit - hiddenVolumeOffset ci div word_of_nat ENCRYPTION_DATA_UNIT_SIZE
                      else dataUnit - word_of_nat (TC_VOLUME_HEADER_SIZE_LEGACY div ENCRYPTION_DATA_UNIT_SIZE))
      in if blockSize = 8 then Some (push_bit 6 dataUnit OR 1)
         else if blockSize = 16 then Some (push_bit 5 dataUnit OR 1)
         else None)"

text \<open>The loops \<open>while (nbrUnits--)\<close>: \<open>f\<close> processes the unit at the front of the buffer.\<close>

primrec for_units :: "(u64 \<Rightarrow> bytes \<Rightarrow> bytes option) \<Rightarrow> nat \<Rightarrow> u64 \<Rightarrow> bytes \<Rightarrow> bytes option" where
  "for_units f 0 unitNo buf = Some buf"
| "for_units f (Suc n) unitNo buf =
     Option.bind (f unitNo buf) (\<lambda>b. map_option ((@) (take ENCRYPTION_DATA_UNIT_SIZE b))
       (for_units f n (unitNo + 1) (drop ENCRYPTION_DATA_UNIT_SIZE b)))"

definition EncryptDataUnitsCurrentThread :: "cpu \<Rightarrow> bytes \<Rightarrow> u64 \<Rightarrow> u64 \<Rightarrow> CRYPTO_INFO \<Rightarrow> bytes option" where
  "EncryptDataUnitsCurrentThread u buf unitNo nbrUnits ci =
     (let ea = ci_ea ci; ks = ci_ks ci; ks2 = ci_ks2 ci; mode = ci_mode ci;
          bytes = nbrUnits * word_of_nat ENCRYPTION_DATA_UNIT_SIZE in
      if mode = XTS then
        for_ciphers ea (\<lambda>c off b. EncryptBufferXTS u b bytes unitNo 0 (drop off ks) (drop off ks2) c) buf
      else if mode = LRW then
        (let bs = CipherGetBlockSize (EAGetFirstCipher ea) in
         if bs = 8 then
           Option.bind (DataUnit2LRWIndex unitNo 8 ci) (\<lambda>i. EncryptBufferLRW64 u buf bytes i ci)
         else if bs = 16 then
           Option.bind (DataUnit2LRWIndex unitNo 16 ci) (\<lambda>i. EncryptBufferLRW128 u buf bytes i ci)
         else None)
      else if mode = CBC \<or> mode = INNER_CBC then
        for_units (\<lambda>no. for_ciphers ea (\<lambda>c off b.
            Option.bind (InitSectorIVAndWhitening no (CipherGetBlockSize c) (ci_k2 ci)) (\<lambda>(iv, w).
              EncryptBufferCBC u b ENCRYPTION_DATA_UNIT_SIZE (drop off ks) iv w 0 c)))
          (unat nbrUnits) unitNo buf
      else if mode = OUTER_CBC then
        for_units (\<lambda>no b.
            Option.bind (InitSectorIVAndWhitening no (CipherGetBlockSize (EAGetFirstCipher ea)) (ci_k2 ci)) (\<lambda>(iv, w).
              EncryptBufferCBC u b ENCRYPTION_DATA_UNIT_SIZE ks iv w ea 0))
          (unat nbrUnits) unitNo buf
      else None)"

definition DecryptDataUnitsCurrentThread :: "cpu \<Rightarrow> bytes \<Rightarrow> u64 \<Rightarrow> u64 \<Rightarrow> CRYPTO_INFO \<Rightarrow> bytes option" where
  "DecryptDataUnitsCurrentThread u buf unitNo nbrUnits ci =
     (let ea = ci_ea ci; ks = ci_ks ci; ks2 = ci_ks2 ci; mode = ci_mode ci;
          bytes = nbrUnits * word_of_nat ENCRYPTION_DATA_UNIT_SIZE in
      if mode = XTS then
        for_ciphers_back ea (\<lambda>c off b. DecryptBufferXTS u b bytes unitNo 0 (drop off ks) (drop off ks2) c) buf
      else if mode = LRW then
        (let bs = CipherGetBlockSize (EAGetFirstCipher ea) in
         if bs = 8 then
           Option.bind (DataUnit2LRWIndex unitNo 8 ci) (\<lambda>i. DecryptBufferLRW64 u buf bytes i ci)
         else if bs = 16 then
           Option.bind (DataUnit2LRWIndex unitNo 16 ci) (\<lambda>i. DecryptBufferLRW128 u buf bytes i ci)
         else None)
      else if mode = CBC \<or> mode = INNER_CBC then
        for_units (\<lambda>no. for_ciphers_back ea (\<lambda>c off b.
            Option.bind (InitSectorIVAndWhitening no (CipherGetBlockSize c) (ci_k2 ci)) (\<lambda>(iv, w).
              DecryptBufferCBC u b ENCRYPTION_DATA_UNIT_SIZE (drop off ks) iv w 0 c)))
          (unat nbrUnits) unitNo buf
      else if mode = OUTER_CBC then
        for_units (\<lambda>no b.
            Option.bind (InitSectorIVAndWhitening no (CipherGetBlockSize (EAGetFirstCipher ea)) (ci_k2 ci)) (\<lambda>(iv, w).
              DecryptBufferCBC u b ENCRYPTION_DATA_UNIT_SIZE ks iv w ea 0))
          (unat nbrUnits) unitNo buf
      else None)"

end
