(* ===== verification/Data_Units.thy ===== *)
theory Data_Units
  imports Crypto_Modes
begin

text \<open>
  The encryption of data units, for every algorithm in every mode it supports: a run over \<open>n\<close> units is
  the run over each unit by itself (\<open>units_map\<close>), and decryption undoes encryption. \<open>unit_pair\<close> is that
  contract; it is closed under composition, so a cascade has it when its ciphers do
  (\<open>cascade_closed\<close>).
\<close>

unbundle bit_operations_syntax

section \<open>Cascades of a closed relation\<close>

fun offsets :: "nat \<Rightarrow> nat list \<Rightarrow> (nat \<times> nat) list" where
  "offsets off [] = []"
| "offsets off (c # cs) = (c, off) # offsets (off + CipherGetKeyScheduleSize c) cs"

lemma cascade_fwd_bind:
  "cascade_fwd f off (c # cs) p = Option.bind (f c off p) (cascade_fwd f (off + CipherGetKeyScheduleSize c) cs)"
  by (simp split: option.splits)

lemma cascade_bwd_append:
  "cascade_bwd f off (xs @ ys) p = Option.bind (cascade_bwd f off xs p) (cascade_bwd f (off - ks_total xs) ys)"
  by (induction xs arbitrary: off p) (auto split: option.splits)

lemma cascade_closed:
  assumes base: "R (\<lambda>x. Some) (\<lambda>x. Some)"
    and comp: "\<And>f f' g g'. R f g \<Longrightarrow> R f' g' \<Longrightarrow>
      R (\<lambda>x p. Option.bind (f x p) (f' x)) (\<lambda>x p. Option.bind (g' x p) (g x))"
  shows "\<forall>(c, i)\<in>set (offsets off cs). R (\<lambda>x. f x c i) (\<lambda>x. g x c i) \<Longrightarrow>
    R (\<lambda>x. cascade_fwd (f x) off cs) (\<lambda>x. cascade_bwd (g x) (off + ks_total cs) (rev cs))"
proof (induction cs arbitrary: off)
  case Nil
  then show ?case using base by (simp add: fun_eq_iff [symmetric])
next
  case (Cons c cs)
  let ?n = "CipherGetKeyScheduleSize c"
  have tail: "R (\<lambda>x. cascade_fwd (f x) (off + ?n) cs) (\<lambda>x. cascade_bwd (g x) (off + ?n + ks_total cs) (rev cs))"
    using Cons by simp
  have head: "R (\<lambda>x. f x c off) (\<lambda>x. g x c off)" using Cons.prems by simp
  have last: "cascade_bwd (g x) (off + ?n) [c] = g x c off" for x
    by (rule ext) (simp split: option.splits)
  have "cascade_bwd (g x) (off + ?n + ks_total cs) (rev cs @ [c]) p =
      Option.bind (cascade_bwd (g x) (off + ?n + ks_total cs) (rev cs) p) (g x c off)" for x p
    by (simp add: cascade_bwd_append rev_map [symmetric] sum_list_rev last del: cascade_bwd.simps)
  then show ?case
    using comp [OF head tail] by (simp add: cascade_fwd_bind [abs_def] add.assoc del: cascade_fwd.simps)
qed

text \<open>For the loops over the ciphers of an algorithm.\<close>

lemma for_ciphers_closed:
  assumes "valid_ea ea" and base: "R (\<lambda>x. Some) (\<lambda>x. Some)"
    and comp: "\<And>f f' g g'. R f g \<Longrightarrow> R f' g' \<Longrightarrow>
      R (\<lambda>x p. Option.bind (f x p) (f' x)) (\<lambda>x p. Option.bind (g' x p) (g x))"
    and each: "\<forall>(c, i)\<in>set (offsets 0 (ciphers_of ea)). R (\<lambda>x. f x c i) (\<lambda>x. g x c i)"
  shows "R (\<lambda>x. for_ciphers ea (f x)) (\<lambda>x. for_ciphers_back ea (g x))"
proof -
  have fwd: "(\<lambda>x. for_ciphers ea (f x)) = (\<lambda>x. cascade_fwd (f x) 0 (ciphers_of ea))"
    unfolding for_ciphers_def ea_ciphers_forward_table [OF assms(1)] by simp
  have bwd: "(\<lambda>x. for_ciphers_back ea (g x)) =
      (\<lambda>x. cascade_bwd (g x) (0 + ks_total (ciphers_of ea)) (rev (ciphers_of ea)))"
    unfolding for_ciphers_back_def ea_ciphers_backward_table [OF assms(1)] EAGetKeyScheduleSize_eq [OF assms(1)] by simp
  show ?thesis
    unfolding fwd bwd by (rule cascade_closed [where R = R, OF base comp each])
qed

lemma all_scheduled_offsets:
  "all_scheduled cs (drop off ks) \<Longrightarrow> (c, i) \<in> set (offsets off cs) \<Longrightarrow> c \<in> set cs \<and> scheduled c (drop i ks)"
  by (induction cs arbitrary: off) (auto simp: add.commute)

section \<open>Block functions\<close>

text \<open>
  A pair of fallible functions on blocks of \<open>bs\<close> bytes: both return a block, and the second undoes
  the first.
\<close>

definition crypt_pair :: "nat \<Rightarrow> (bytes \<Rightarrow> bytes option) \<Rightarrow> (bytes \<Rightarrow> bytes option) \<Rightarrow> bool" where
  "crypt_pair bs f g \<longleftrightarrow>
     (\<forall>p. length p = bs \<longrightarrow> (\<exists>q. f p = Some q \<and> length q = bs \<and> g q = Some p) \<and>
                             (\<exists>q. g p = Some q \<and> length q = bs))"

lemma crypt_pairI:
  assumes "\<And>p. length p = bs \<Longrightarrow> \<exists>q. f p = Some q \<and> length q = bs \<and> g q = Some p"
    and "\<And>p. length p = bs \<Longrightarrow> \<exists>q. g p = Some q \<and> length q = bs"
  shows "crypt_pair bs f g"
  using assms by (simp add: crypt_pair_def)

lemma crypt_pairE:
  assumes "crypt_pair bs f g" "length p = bs"
  obtains q where "f p = Some q" "length q = bs" "g q = Some p"
  using assms by (auto simp: crypt_pair_def)

lemma crypt_pairE2:
  assumes "crypt_pair bs f g" "length p = bs"
  obtains q where "g p = Some q" "length q = bs"
  using assms by (auto simp: crypt_pair_def)

lemma crypt_pair_the:
  assumes "crypt_pair bs f g" "length p = bs"
  shows "length (the (f p)) = bs \<and> length (the (g p)) = bs \<and> the (g (the (f p))) = p"
  using assms by (auto simp: crypt_pair_def)

lemma crypt_pair_total:
  assumes "\<And>p. length p = bs \<Longrightarrow> f p = Some (e p) \<and> g p = Some (d p)"
    and "\<And>p. length p = bs \<Longrightarrow> length (e p) = bs \<and> length (d p) = bs \<and> d (e p) = p"
  shows "crypt_pair bs f g"
  using assms by (simp add: crypt_pair_def)

lemma crypt_pair_cipher:
  assumes "hw_ok u" "valid_cipher c" "scheduled c ks"
  shows "crypt_pair (CipherGetBlockSize c) (\<lambda>p. EncipherBlock u c p ks) (\<lambda>p. DecipherBlock u c p ks)"
proof (rule crypt_pair_total [where e = "cipher_enc u c ks" and d = "cipher_dec u c ks"])
  note c = cipher_contract [OF assms]
  fix p :: bytes assume p: "length p = CipherGetBlockSize c"
  show "EncipherBlock u c p ks = Some (cipher_enc u c ks p) \<and> DecipherBlock u c p ks = Some (cipher_dec u c ks p)"
    by (rule conjI [OF EncipherBlock_eq [OF assms(2)] DecipherBlock_eq [OF assms(2)]])
  show "length (cipher_enc u c ks p) = CipherGetBlockSize c \<and> length (cipher_dec u c ks p) = CipherGetBlockSize c \<and>
      cipher_dec u c ks (cipher_enc u c ks p) = p"
    by (intro conjI block_cipher.length_enc [OF c p] block_cipher.length_dec [OF c p] block_cipher.dec_enc [OF c p])
qed

lemma crypt_pair_comp:
  assumes "crypt_pair bs f g" "crypt_pair bs f' g'"
  shows "crypt_pair bs (\<lambda>p. Option.bind (f p) f') (\<lambda>p. Option.bind (g' p) g)"
proof (rule crypt_pairI)
  fix p :: bytes assume p: "length p = bs"
  show "\<exists>q. Option.bind (f p) f' = Some q \<and> length q = bs \<and> Option.bind (g' q) g = Some p"
    by (rule crypt_pairE [OF assms(1) p], rule crypt_pairE [OF assms(2)], assumption) simp
  show "\<exists>q. Option.bind (g' p) g = Some q \<and> length q = bs"
    by (rule crypt_pairE2 [OF assms(2) p], rule crypt_pairE2 [OF assms(1)], assumption) simp
qed

lemma crypt_pair_cascade:
  assumes "hw_ok u" "valid_ea ea" "all_scheduled (ciphers_of ea) ks"
    "\<forall>c\<in>set (ciphers_of ea). CipherGetBlockSize c = bs"
  shows "crypt_pair bs (encipher_cascade u ea ks) (decipher_cascade u ea ks)"
  unfolding encipher_cascade_def decipher_cascade_def
proof (rule for_ciphers_closed [OF assms(2), where R = "\<lambda>f g. crypt_pair bs (f ()) (g ())"])
  show "crypt_pair bs Some Some" by (simp add: crypt_pair_def)
  show "\<forall>(c, i)\<in>set (offsets 0 (ciphers_of ea)).
      crypt_pair bs (\<lambda>p. EncipherBlock u c p (drop i ks)) (\<lambda>p. DecipherBlock u c p (drop i ks))"
    using all_scheduled_offsets [of "ciphers_of ea" 0 ks] assms crypt_pair_cipher [OF assms(1)]
      ciphers_of_valid [OF assms(2)] by fastforce
qed (rule crypt_pair_comp)

section \<open>Runs over data units\<close>

primrec units_map :: "(u64 \<Rightarrow> bytes \<Rightarrow> bytes) \<Rightarrow> nat \<Rightarrow> u64 \<Rightarrow> bytes \<Rightarrow> bytes" where
  "units_map G 0 no buf = buf"
| "units_map G (Suc n) no buf = G no (take 512 buf) @ units_map G n (no + 1) (drop 512 buf)"

definition keeps512 :: "(u64 \<Rightarrow> bytes \<Rightarrow> bytes) \<Rightarrow> bool" where
  "keeps512 G \<longleftrightarrow> (\<forall>no b. length b = 512 \<longrightarrow> length (G no b) = 512)"

lemma length_units_map: "keeps512 G \<Longrightarrow> 512 * n \<le> length buf \<Longrightarrow> length (units_map G n no buf) = length buf"
  by (induction n arbitrary: no buf) (simp_all add: keeps512_def)

lemma units_map_comp:
  "keeps512 G \<Longrightarrow> 512 * n \<le> length buf \<Longrightarrow>
   units_map H n no (units_map G n no buf) = units_map (\<lambda>no b. H no (G no b)) n no buf"
  by (induction n arbitrary: no buf) (simp_all add: keeps512_def)

lemma units_map_id:
  "(\<And>no b. length b = 512 \<Longrightarrow> G no b = b) \<Longrightarrow> 512 * n \<le> length buf \<Longrightarrow> units_map G n no buf = buf"
  by (induction n arbitrary: no buf) simp_all

lemma units_map_split:
  "512 * m \<le> length buf \<Longrightarrow> units_map G (m + n) no buf =
   units_map G m no (take (512 * m) buf) @ units_map G n (no + word_of_nat m) (drop (512 * m) buf)"
proof (induction m arbitrary: no buf)
  case (Suc m)
  have "take 512 (take (512 * Suc m) buf) = take 512 buf" "drop 512 (take (512 * Suc m) buf) = take (512 * m) (drop 512 buf)"
    by (simp_all add: drop_take)
  then show ?case using Suc by (simp add: ac_simps)
qed simp

text \<open>
  \<open>unit_pair N F F'\<close>: for the numbers of units in \<open>N\<close>, the functions \<open>F\<close> and \<open>F'\<close> of the number of
  units, the first unit number and the buffer process each unit by itself, and undo each other.
\<close>

definition inverse512 :: "(u64 \<Rightarrow> bytes \<Rightarrow> bytes) \<Rightarrow> (u64 \<Rightarrow> bytes \<Rightarrow> bytes) \<Rightarrow> bool" where
  "inverse512 G H \<longleftrightarrow> keeps512 G \<and> keeps512 H \<and> (\<forall>no b. length b = 512 \<longrightarrow> H no (G no b) = b)"

definition unitwise :: "nat set \<Rightarrow> (nat \<times> u64 \<Rightarrow> bytes \<Rightarrow> bytes option) \<Rightarrow> (u64 \<Rightarrow> bytes \<Rightarrow> bytes) \<Rightarrow> bool" where
  "unitwise N F G \<longleftrightarrow>
     (\<forall>n no buf. n \<in> N \<longrightarrow> 512 * n \<le> length buf \<longrightarrow> F (n, no) buf = Some (units_map G n no buf))"

definition unit_pair ::
  "nat set \<Rightarrow> (nat \<times> u64 \<Rightarrow> bytes \<Rightarrow> bytes option) \<Rightarrow> (nat \<times> u64 \<Rightarrow> bytes \<Rightarrow> bytes option) \<Rightarrow> bool" where
  "unit_pair N F F' \<longleftrightarrow> (\<exists>G H. inverse512 G H \<and> unitwise N F G \<and> unitwise N F' H)"

lemma unitwiseD: "unitwise N F G \<Longrightarrow> n \<in> N \<Longrightarrow> 512 * n \<le> length buf \<Longrightarrow> F (n, no) buf = Some (units_map G n no buf)"
  by (simp add: unitwise_def)

lemma unitwise_comp:
  assumes "unitwise N f G" "unitwise N f' G'" "keeps512 G"
  shows "unitwise N (\<lambda>x p. Option.bind (f x p) (f' x)) (\<lambda>no b. G' no (G no b))"
  using assms by (simp add: unitwise_def length_units_map units_map_comp)

lemma unit_pair_comp:
  assumes "unit_pair N f g" "unit_pair N f' g'"
  shows "unit_pair N (\<lambda>x p. Option.bind (f x p) (f' x)) (\<lambda>x p. Option.bind (g' x p) (g x))"
proof -
  obtain G H where 1: "inverse512 G H" "unitwise N f G" "unitwise N g H"
    using assms(1) by (auto simp: unit_pair_def)
  obtain G' H' where 2: "inverse512 G' H'" "unitwise N f' G'" "unitwise N g' H'"
    using assms(2) by (auto simp: unit_pair_def)
  have "inverse512 (\<lambda>no b. G' no (G no b)) (\<lambda>no b. H no (H' no b))"
    using 1(1) 2(1) by (simp add: inverse512_def keeps512_def)
  moreover have "unitwise N (\<lambda>x p. Option.bind (f x p) (f' x)) (\<lambda>no b. G' no (G no b))"
    "unitwise N (\<lambda>x p. Option.bind (g' x p) (g x)) (\<lambda>no b. H no (H' no b))"
    using unitwise_comp [OF 1(2) 2(2)] unitwise_comp [OF 2(3) 1(3)] 1(1) 2(1) by (simp_all add: inverse512_def)
  ultimately show ?thesis by (auto simp: unit_pair_def)
qed

lemma unit_pair_Some: "unit_pair N (\<lambda>x. Some) (\<lambda>x. Some)"
proof -
  have "inverse512 (\<lambda>no b. b) (\<lambda>no b. b)" "unitwise N (\<lambda>x. Some) (\<lambda>no b. b)"
    by (simp_all add: inverse512_def keeps512_def unitwise_def units_map_id)
  then show ?thesis by (auto simp: unit_pair_def)
qed

text \<open>A function that processes the unit at the front, repeated by \<open>for_units\<close>.\<close>

lemma unitwise_for_units:
  assumes "keeps512 G" "unitwise {1} (\<lambda>(n, no). f no) G"
  shows "unitwise UNIV (\<lambda>(n, no). for_units f n no) G"
proof -
  have f: "512 \<le> length buf \<Longrightarrow> f no buf = Some (G no (take 512 buf) @ drop 512 buf)" for no buf
    using unitwiseD [OF assms(2), of 1 buf no] by simp
  have "512 * n \<le> length buf \<Longrightarrow> for_units f n no buf = Some (units_map G n no buf)" for n no buf
  proof (induction n arbitrary: no buf)
    case (Suc n)
    have "length (G no (take 512 buf)) = 512" using assms(1) Suc.prems by (simp add: keeps512_def)
    then show ?case using Suc f [of buf no] by (simp add: tc_cfg)
  qed simp
  then show ?thesis by (simp add: unitwise_def)
qed

lemma unit_pair_for_units:
  assumes "unit_pair {1} (\<lambda>(n, no). f no) (\<lambda>(n, no). g no)"
  shows "unit_pair UNIV (\<lambda>(n, no). for_units f n no) (\<lambda>(n, no). for_units g n no)"
  using assms unitwise_for_units unfolding unit_pair_def inverse512_def by meson

section \<open>The loops over the blocks\<close>

text \<open>A loop over blocks reads and writes the front of the buffer only.\<close>

definition front :: "nat \<Rightarrow> (bytes \<Rightarrow> bytes option) \<Rightarrow> bool" where
  "front L f \<longleftrightarrow> (\<forall>p r. length p = L \<longrightarrow> f (p @ r) = map_option (\<lambda>q. q @ r) (f p))"

lemma frontD: "front L f \<Longrightarrow> length p = L \<Longrightarrow> f (p @ r) = map_option (\<lambda>q. q @ r) (f p)"
  by (simp add: front_def)

lemma length_split: "length p = m + n \<Longrightarrow> \<exists>a b. p = a @ b \<and> length a = m \<and> length b = n"
  by (rule exI [of _ "take m p"], rule exI [of _ "drop m p"]) simp

lemma lrw_loop_front: "length p = bs * n \<Longrightarrow>
   lrw_loop mult f bs n i (p @ r) = map_option (\<lambda>q. q @ r) (lrw_loop mult f bs n i p)"
proof (induction n arbitrary: i p)
  case (Suc n)
  then show ?case by (auto simp: option.map_comp comp_def split: option.splits)
qed simp

lemma lrw_loop_add: "length p = bs * m \<Longrightarrow>
   lrw_loop mult f bs (m + n) i (p @ r) =
     Option.bind (lrw_loop mult f bs m i p) (\<lambda>q. map_option ((@) q) (lrw_loop mult f bs n ((lrw_inc ^^ m) i) r))"
proof (induction m arbitrary: i p)
  case (Suc m)
  then show ?case
    by (auto simp: funpow_swap1 option.map_comp comp_def Option.bind_map_option map_conv_bind_option split: option.splits)
qed (simp add: option.map_ident_strong)

lemma lrw_loop_pair:
  assumes f: "crypt_pair bs f g" and m: "\<And>i. length (mult i) = bs"
  shows "crypt_pair (bs * n) (lrw_loop mult f bs n i) (lrw_loop mult g bs n i)"
proof (induction n arbitrary: i)
  case (Suc n)
  show ?case
  proof (rule crypt_pairI)
    fix p :: bytes assume "length p = bs * Suc n"
    then obtain a b where p: "p = a @ b" "length a = bs" "length b = bs * n"
      using length_split [of p bs "bs * n"] by auto
    have x: "length (xor_bytes a (mult i)) = bs" using p m by simp
    obtain q where q: "f (xor_bytes a (mult i)) = Some q" "length q = bs" "g q = Some (xor_bytes a (mult i))"
      by (rule crypt_pairE [OF f x])
    obtain t where t: "lrw_loop mult f bs n (lrw_inc i) b = Some t" "length t = bs * n"
        "lrw_loop mult g bs n (lrw_inc i) t = Some b"
      by (rule crypt_pairE [OF Suc.IH p(3)])
    show "\<exists>q. lrw_loop mult f bs (Suc n) i p = Some q \<and> length q = bs * Suc n \<and>
        lrw_loop mult g bs (Suc n) i q = Some p"
      using p q t m by simp
    obtain q where q: "g (xor_bytes a (mult i)) = Some q" "length q = bs"
      by (rule crypt_pairE2 [OF f x])
    obtain t where t: "lrw_loop mult g bs n (lrw_inc i) b = Some t" "length t = bs * n"
      by (rule crypt_pairE2 [OF Suc.IH p(3)])
    show "\<exists>q. lrw_loop mult g bs (Suc n) i p = Some q \<and> length q = bs * Suc n"
      using p q t m by simp
  qed
qed (simp add: crypt_pair_def)

lemma cbc_encrypt_front: "length p = bs * n \<Longrightarrow>
   cbc_encrypt_loop f bs w n v (p @ r) = map_option (\<lambda>q. q @ r) (cbc_encrypt_loop f bs w n v p)"
  by (induction n arbitrary: v p) (auto simp: option.map_comp comp_def split: option.splits)

lemma cbc_decrypt_front: "length p = bs * n \<Longrightarrow>
   cbc_decrypt_loop f bs w n v (p @ r) = map_option (\<lambda>q. q @ r) (cbc_decrypt_loop f bs w n v p)"
  by (induction n arbitrary: v p) (auto simp: option.map_comp comp_def Let_def split: option.splits)

lemma cbc_loop_pair:
  assumes f: "crypt_pair bs f g" and w: "length w = bs"
  shows "length v = bs \<Longrightarrow> crypt_pair (bs * n) (cbc_encrypt_loop f bs w n v) (cbc_decrypt_loop g bs w n v)"
proof (induction n arbitrary: v)
  case (Suc n)
  show ?case
  proof (rule crypt_pairI)
    fix p :: bytes assume "length p = bs * Suc n"
    then obtain a b where p: "p = a @ b" "length a = bs" "length b = bs * n"
      using length_split [of p bs "bs * n"] by auto
    have x: "length (xor_bytes a v) = bs" "length (xor_bytes a w) = bs" using p w Suc.prems by simp_all
    obtain q where q: "f (xor_bytes a v) = Some q" "length q = bs" "g q = Some (xor_bytes a v)"
      by (rule crypt_pairE [OF f x(1)])
    obtain t where t: "cbc_encrypt_loop f bs w n q b = Some t" "length t = bs * n"
        "cbc_decrypt_loop g bs w n q t = Some b"
      by (rule crypt_pairE [OF Suc.IH [OF q(2)] p(3)])
    show "\<exists>q. cbc_encrypt_loop f bs w (Suc n) v p = Some q \<and> length q = bs * Suc n \<and>
        cbc_decrypt_loop g bs w (Suc n) v q = Some p"
      using p q t w Suc.prems by simp
    obtain q where q: "g (xor_bytes a w) = Some q" "length q = bs"
      by (rule crypt_pairE2 [OF f x(2)])
    obtain t where t: "cbc_decrypt_loop g bs w n (xor_bytes a w) b = Some t" "length t = bs * n"
      by (rule crypt_pairE2 [OF Suc.IH [OF x(2)] p(3)])
    show "\<exists>q. cbc_decrypt_loop g bs w (Suc n) v p = Some q \<and> length q = bs * Suc n"
      using p q t w Suc.prems by simp
  qed
qed (simp add: crypt_pair_def)

section \<open>Functions over data units\<close>

text \<open>The recursion over the units that a function of the number of units satisfies.\<close>

definition unit_rec :: "nat set \<Rightarrow> (nat \<times> u64 \<Rightarrow> bytes \<Rightarrow> bytes option) \<Rightarrow> bool" where
  "unit_rec N F \<longleftrightarrow> (\<forall>no p. F (0, no) p = Some p) \<and>
     (\<forall>n no p r. Suc n \<in> N \<longrightarrow> length p = 512 \<longrightarrow> 512 * n \<le> length r \<longrightarrow>
        F (Suc n, no) (p @ r) = Option.bind (F (1, no) p) (\<lambda>q. map_option ((@) q) (F (n, no + 1) r)))"

lemma unitwise_rec:
  assumes F: "unit_rec N F" and down: "\<And>n. Suc n \<in> N \<Longrightarrow> n \<in> N"
    and one: "\<And>no p. length p = 512 \<Longrightarrow> \<exists>q. F (1, no) p = Some q \<and> length q = 512"
  shows "unitwise N F (\<lambda>no p. the (F (1, no) p))"
proof -
  have "n \<in> N \<Longrightarrow> 512 * n \<le> length buf \<Longrightarrow> F (n, no) buf = Some (units_map (\<lambda>no p. the (F (1, no) p)) n no buf)" for n no buf
  proof (induction n arbitrary: no buf)
    case 0
    then show ?case using F by (simp add: unit_rec_def)
  next
    case (Suc n)
    have p: "length (take 512 buf) = 512" and r: "512 * n \<le> length (drop 512 buf)" using Suc.prems by simp_all
    have "F (Suc n, no) (take 512 buf @ drop 512 buf) =
        Option.bind (F (1, no) (take 512 buf)) (\<lambda>q. map_option ((@) q) (F (n, no + 1) (drop 512 buf)))"
      using F Suc.prems(1) p r unfolding unit_rec_def by blast
    then show ?case using Suc.IH [OF down [OF Suc.prems(1)] r] one [OF p, of no] by auto
  qed
  then show ?thesis by (simp add: unitwise_def)
qed

lemma unit_pairI:
  assumes "unit_rec N F" "unit_rec N F'" "\<And>n. Suc n \<in> N \<Longrightarrow> n \<in> N"
    and one: "\<And>no. crypt_pair 512 (F (1, no)) (F' (1, no))"
  shows "unit_pair N F F'"
proof -
  let ?G = "\<lambda>no p. the (F (1, no) p)" and ?H = "\<lambda>no p. the (F' (1, no) p)"
  have "inverse512 ?G ?H"
    using crypt_pair_the [OF one] by (simp add: inverse512_def keeps512_def)
  moreover have "unitwise N F ?G" "unitwise N F' ?H"
    using unitwise_rec [OF assms(1,3)] unitwise_rec [OF assms(2,3)] one unfolding crypt_pair_def by blast+
  ultimately show ?thesis by (auto simp: unit_pair_def)
qed

lemma for_units_rec:
  assumes "\<And>no. front 512 (f no)" and "\<And>no p. length p = 512 \<Longrightarrow> \<exists>q. f no p = Some q \<and> length q = 512"
  shows "unit_rec UNIV (\<lambda>(n, no). for_units f n no)"
proof -
  have "Option.bind (f no (p @ r)) (\<lambda>b. map_option ((@) (take 512 b)) (g (drop 512 b))) =
      Option.bind (f no p) (\<lambda>q. map_option ((@) q) (g r))" if "length p = 512" for no p r g
    using assms(2) [OF that, of no] frontD [OF assms(1) that, of no r] by auto
  moreover have "Option.bind (f no p) (\<lambda>b. Some (take 512 b @ drop 512 b)) = f no p" for no p
    by (cases "f no p") simp_all
  ultimately show ?thesis by (simp add: unit_rec_def tc_cfg)
qed

lemma for_units_pair:
  assumes "\<And>no. front 512 (f no)" "\<And>no. front 512 (g no)" and one: "\<And>no. crypt_pair 512 (f no) (g no)"
  shows "unit_pair UNIV (\<lambda>(n, no). for_units f n no) (\<lambda>(n, no). for_units g n no)"
proof (rule unit_pairI)
  show "unit_rec UNIV (\<lambda>(n, no). for_units f n no)" "unit_rec UNIV (\<lambda>(n, no). for_units g n no)"
    using one by (auto intro!: for_units_rec assms simp: crypt_pair_def)
  have "for_units h 1 no = h no" for h :: "u64 \<Rightarrow> bytes \<Rightarrow> bytes option" and no
    by (rule ext) (simp add: split: Option.bind_split)
  then show "crypt_pair 512 ((\<lambda>(n, no). for_units f n no) (1, no)) ((\<lambda>(n, no). for_units g n no) (1, no))" for no
    using one by simp
qed simp

lemma front_comp: 
  assumes "front L f" "front L g" "\<And>p. length p = L \<Longrightarrow> \<exists>q. f p = Some q \<and> length q = L"
  shows "front L (\<lambda>p. Option.bind (f p) g)"
  unfolding front_def
proof (intro allI impI)
  fix p r :: bytes assume p: "length p = L"
  then obtain q where "f p = Some q" "length q = L" using assms(3) by blast
  then show "Option.bind (f (p @ r)) g = map_option (\<lambda>q. q @ r) (Option.bind (f p) g)"
    using frontD [OF assms(1) p] frontD [OF assms(2)] by simp
qed

section \<open>XTS\<close>

lemma xts_units:
  assumes "512 * n < 2 ^ 64"
  shows "xts_result e t buf (word_of_nat n * word_of_nat ENCRYPTION_DATA_UNIT_SIZE) no 0 =
    over_front buf (xts_run e t (unit_no_seq no) 0 (32 * n) buf)"
    and "512 * n \<le> length buf \<Longrightarrow> xts_args buf (word_of_nat n * word_of_nat ENCRYPTION_DATA_UNIT_SIZE) 0"
proof -
  have "unat (word_of_nat n * word_of_nat ENCRYPTION_DATA_UNIT_SIZE :: u64) = 512 * n"
    using assms by (simp add: tc_cfg unat_word_ariths unat_of_nat mod_mult_right_eq mult.commute)
  moreover have "512 * n div 16 = 32 * n" by simp
  ultimately show "xts_result e t buf (word_of_nat n * word_of_nat ENCRYPTION_DATA_UNIT_SIZE) no 0 =
      over_front buf (xts_run e t (unit_no_seq no) 0 (32 * n) buf)"
    "512 * n \<le> length buf \<Longrightarrow> xts_args buf (word_of_nat n * word_of_nat ENCRYPTION_DATA_UNIT_SIZE) 0"
    by (simp_all add: xts_result_def xts_args_def)
qed

lemma xts_run_front: "length p = 16 * n \<Longrightarrow> xts_run g t U a n (p @ r) = xts_run g t U a n p"
  by (induction n arbitrary: a p) (simp_all add: Let_def)

lemma length_xts_run:
  "(\<And>b. length b = 16 \<Longrightarrow> length (g b) = 16) \<Longrightarrow> 16 * n \<le> length buf \<Longrightarrow>
   length (xts_run g t U a n buf) = 16 * n"
  by (induction n arbitrary: a buf) (simp_all add: Let_def)

lemma unit_no_seq_Suc: "(\<lambda>k. unit_no_seq no (Suc k)) = unit_no_seq (no + 1)"
  by (rule ext) (simp add: unit_no_seq_def ac_simps)

lemma xts_run_units:
  assumes p: "length p = 512"
  shows "xts_run g t (unit_no_seq no) 0 (32 * Suc n) (p @ r) =
    xts_run g t (unit_no_seq no) 0 32 p @ xts_run g t (unit_no_seq (no + 1)) 0 (32 * n) r"
  using xts_run_add [of g t "unit_no_seq no" 0 32 "32 * n" "p @ r"] xts_run_shift [of g t "unit_no_seq no" 0 "32 * n" r]
    xts_run_front [of p 32 g t "unit_no_seq no" 0 r] p by (simp add: unit_no_seq_Suc)

definition xts_units_count :: "nat set" where
  "xts_units_count = {n. 512 * n < 2 ^ 64}"

lemma xts_unit_rec:
  assumes F: "\<And>n no buf. 512 * n < 2 ^ 64 \<Longrightarrow> 512 * n \<le> length buf \<Longrightarrow>
      F (n, no) buf = Some (over_front buf (xts_run g t (unit_no_seq no) 0 (32 * n) buf))"
    and g: "\<And>b. length b = 16 \<Longrightarrow> length (g b) = 16"
  shows "unit_rec xts_units_count F"
  unfolding unit_rec_def
proof (intro conjI allI impI)
  show "F (0, no) p = Some p" for no p by (simp add: F over_front_def)
  fix n no and p r :: bytes assume "Suc n \<in> xts_units_count" and p: "length p = 512" and r: "512 * n \<le> length r"
  then have n: "512 * Suc n < 2 ^ 64" "512 * n < 2 ^ 64" by (simp_all add: xts_units_count_def)
  have "length (xts_run g t (unit_no_seq no) 0 32 p) = 512" "length (xts_run g t (unit_no_seq (no + 1)) 0 (32 * n) r) = 512 * n"
    using length_xts_run [of g 32 p t "unit_no_seq no" 0] length_xts_run [of g "32 * n" r t "unit_no_seq (no + 1)" 0] g p r
    by simp_all
  then show "F (Suc n, no) (p @ r) = Option.bind (F (1, no) p) (\<lambda>q. map_option ((@) q) (F (n, no + 1) r))"
    using F [of "Suc n" "p @ r" no] F [of 1 p no] F [of n r "no + 1"] p r n xts_run_units [OF p, of g t no n r]
    by (simp add: over_front_def)
qed

lemma xts_data_units_pair:
  assumes ok: "hw_ok u" "valid_cipher c" "CipherGetBlockSize c = 16" "scheduled c ks" "scheduled c ks2"
  shows "unit_pair xts_units_count
    (\<lambda>(n, no) b. EncryptBufferXTS u b (word_of_nat n * word_of_nat ENCRYPTION_DATA_UNIT_SIZE) no 0 ks ks2 c)
    (\<lambda>(n, no) b. DecryptBufferXTS u b (word_of_nat n * word_of_nat ENCRYPTION_DATA_UNIT_SIZE) no 0 ks ks2 c)"
    (is "unit_pair _ ?E ?D")
proof (rule unit_pairI)
  note X = xts_contract [OF ok] and c = cipher_contract [OF ok(1,2,4), unfolded ok(3)]
  let ?t = "cipher_enc u c ks2"
  have E: "?E (n, no) b = Some (xts_result (cipher_enc u c ks) ?t b (word_of_nat n * word_of_nat ENCRYPTION_DATA_UNIT_SIZE) no 0)"
    and D: "?D (n, no) b = Some (xts_result (cipher_dec u c ks) ?t b (word_of_nat n * word_of_nat ENCRYPTION_DATA_UNIT_SIZE) no 0)"
    if "512 * n < 2 ^ 64" "512 * n \<le> length b" for n no b
    using EncryptBufferXTS_run [OF ok xts_units(2) [OF that]] by simp_all
  show "unit_rec xts_units_count ?E"
    by (rule xts_unit_rec [where g = "cipher_enc u c ks" and t = ?t])
       (simp_all only: E xts_units block_cipher.length_enc [OF c])
  show "unit_rec xts_units_count ?D"
    by (rule xts_unit_rec [where g = "cipher_dec u c ks" and t = ?t])
       (simp_all only: D xts_units block_cipher.length_dec [OF c])
  show "crypt_pair 512 (?E (1, no)) (?D (1, no))" for no
  proof (rule crypt_pair_total)
    let ?len = "word_of_nat 1 * word_of_nat ENCRYPTION_DATA_UNIT_SIZE"
    fix p :: bytes assume p: "length p = 512"
    then have args: "xts_args p ?len 0" using xts_units(2) [of 1 p] by simp
    show "?E (1, no) p = Some (xts_result (cipher_enc u c ks) ?t p ?len no 0) \<and>
        ?D (1, no) p = Some (xts_result (cipher_dec u c ks) ?t p ?len no 0)"
      using E [of 1 p no] D [of 1 p no] p by simp
    have "length (xts_result (cipher_dec u c ks) ?t p ?len no 0) = 512"
      using length_xts_run [of "cipher_dec u c ks" 32 p ?t "unit_no_seq no" 0] block_cipher.length_dec [OF c] p
        xts_units(1) [of 1 "cipher_dec u c ks" ?t p no] by (simp add: over_front_def)
    then show "length (xts_result (cipher_enc u c ks) ?t p ?len no 0) = 512 \<and>
        length (xts_result (cipher_dec u c ks) ?t p ?len no 0) = 512 \<and>
        xts_result (cipher_dec u c ks) ?t (xts_result (cipher_enc u c ks) ?t p ?len no 0) ?len no 0 = p"
      using xts_result_roundtrip [OF X args, of no] p by (simp only: simp_thms)
  qed
qed (simp add: xts_units_count_def)

section \<open>Volumes\<close>

text \<open>The tables of the LRW mode have rows of full width.\<close>

definition rows_ok :: "nat \<Rightarrow> gf_table \<Rightarrow> bool" where
  "rows_ok n t \<longleftrightarrow> (\<forall>i j. length (t i j) = n)"

definition gf_wf :: "GfCtx \<Rightarrow> bool" where
  "gf_wf ctx \<longleftrightarrow> rows_ok 4 (gf_t128 ctx) \<and> rows_ok 2 (gf_t64 ctx)"

lemma length_mul_by_table: "(\<And>i j. length (t i j) = n) \<Longrightarrow> length (mul_by_table t a) = n"
  by (simp add: mul_by_table_def xor_row_def Let_def)

lemma length_Gf_mul:
  "gf_wf ctx \<Longrightarrow> length (Gf128MulBy64Tab a ctx) = 16" "gf_wf ctx \<Longrightarrow> length (Gf64MulTab a ctx) = 8"
  using length_mul_by_table [of "gf_t128 ctx" 4 a] length_mul_by_table [of "gf_t64 ctx" 2 a]
  by (simp_all add: Gf128MulBy64Tab_def Gf64MulTab_def gf_wf_def rows_ok_def)

text \<open>Ready for encryption: the keys are scheduled and the mode is one of the algorithm's.\<close>

definition volume_ready :: "cpu \<Rightarrow> CRYPTO_INFO \<Rightarrow> bool" where
  "volume_ready u ci \<longleftrightarrow> hw_ok u \<and> valid_ea (ci_ea ci) \<and> EAIsModeSupported (ci_ea ci) (ci_mode ci) = Some True \<and>
     all_scheduled (ciphers_of (ci_ea ci)) (ci_ks ci) \<and>
     (ci_mode ci = XTS \<longrightarrow> all_scheduled (ciphers_of (ci_ea ci)) (ci_ks2 ci)) \<and>
     (ci_mode ci = LRW \<longrightarrow> gf_wf (gf_ctx ci)) \<and> 16 \<le> length (ci_k2 ci)"

lemma volume_readyD:
  assumes "volume_ready u ci"
  shows "hw_ok u" "valid_ea (ci_ea ci)" "EAIsModeSupported (ci_ea ci) (ci_mode ci) = Some True"
    "all_scheduled (ciphers_of (ci_ea ci)) (ci_ks ci)"
    "ci_mode ci = XTS \<Longrightarrow> all_scheduled (ciphers_of (ci_ea ci)) (ci_ks2 ci)"
    "ci_mode ci = LRW \<Longrightarrow> gf_wf (gf_ctx ci)" "16 \<le> length (ci_k2 ci)"
  using assms by (simp_all add: volume_ready_def)

lemma supported_modes:
  assumes "valid_ea ea" "EAIsModeSupported ea mode = Some True"
  shows "mode \<in> {XTS, LRW, CBC, INNER_CBC, OUTER_CBC}"
    and "mode \<in> {XTS, OUTER_CBC} \<Longrightarrow> \<forall>c\<in>set (ciphers_of ea). CipherGetBlockSize c = 16"
    and "mode = LRW \<Longrightarrow> (\<forall>c\<in>set (ciphers_of ea). CipherGetBlockSize c = 16) \<or>
      (length (ciphers_of ea) = 1 \<and> CipherGetBlockSize (hd (ciphers_of ea)) = 8)"
  using assms by (auto elim!: valid_eaE simp: EAIsModeSupported_def ea_modes_def tc_cfg)

lemma ciphers_of_ends:
  "valid_ea ea \<Longrightarrow> EAGetCipherCount ea = length (ciphers_of ea) \<and> EAGetFirstCipher ea = hd (ciphers_of ea) \<and>
     hd (ciphers_of ea) \<in> set (ciphers_of ea)"
  by (auto elim!: valid_eaE simp: EAGetCipherCount_def tc_cfg)

lemma block_sizes: "valid_cipher c \<Longrightarrow> CipherGetBlockSize c \<in> {8, 16}"
  by (auto elim!: valid_cipherE simp: tc_cfg)

lemma all_scheduled_first: "all_scheduled cs ks \<Longrightarrow> cs \<noteq> [] \<Longrightarrow> scheduled (hd cs) ks"
  by (cases cs) simp_all

text \<open>The block functions of LRW: the cascade, or the only cipher.\<close>

lemma lrw_crypt_pair:
  assumes ready: "volume_ready u ci" and bs: "\<forall>c\<in>set (ciphers_of (ci_ea ci)). CipherGetBlockSize c = bs"
  shows "crypt_pair bs (\<lambda>p. EncipherBlock u (EAGetFirstCipher (ci_ea ci)) p (ci_ks ci))
      (\<lambda>p. DecipherBlock u (EAGetFirstCipher (ci_ea ci)) p (ci_ks ci))"
    and "crypt_pair bs (encipher_cascade u (ci_ea ci) (ci_ks ci)) (decipher_cascade u (ci_ea ci) (ci_ks ci))"
proof -
  note r = volume_readyD [OF ready] and e = ciphers_of_ends [OF volume_readyD(2) [OF ready]]
  have "valid_cipher (EAGetFirstCipher (ci_ea ci))" "CipherGetBlockSize (EAGetFirstCipher (ci_ea ci)) = bs"
    using ciphers_of_valid [OF r(2)] e bs by simp_all
  moreover have "scheduled (EAGetFirstCipher (ci_ea ci)) (ci_ks ci)"
    using e all_scheduled_first [OF r(4)] by force
  ultimately show "crypt_pair bs (\<lambda>p. EncipherBlock u (EAGetFirstCipher (ci_ea ci)) p (ci_ks ci))
      (\<lambda>p. DecipherBlock u (EAGetFirstCipher (ci_ea ci)) p (ci_ks ci))"
    using crypt_pair_cipher [OF r(1)] by blast
  show "crypt_pair bs (encipher_cascade u (ci_ea ci) (ci_ks ci)) (decipher_cascade u (ci_ea ci) (ci_ks ci))"
    by (rule crypt_pair_cascade [OF r(1,2,4) bs])
qed

section \<open>LRW\<close>

lemma unat_drop_bit: "unat (drop_bit n w) = unat w div 2 ^ n"
  by (simp only: unat_drop_bit_eq) (simp only: drop_bit_eq_div)

lemma lrw_inc_be: "lrw_inc (word_to_be 8 (k :: u64)) = word_to_be 8 (k + 1)"
proof (cases "(ucast k :: u8) = 0xff")
  case True
  have "word_to_be 8 k ! 7 = ucast k" by (simp add: word_to_be_def rev_nth nth_word_to_le)
  moreover have "BE64 (le_to_word (word_to_be 8 k)) = k"
    by (simp add: store_BE64 [symmetric]) (simp add: BE64_def MirrorBytes64_involution)
  ultimately show ?thesis using True by (simp add: lrw_inc_def store_BE64)
next
  case False
  have r: "unat k mod 256 \<noteq> 255"
  proof
    assume "unat k mod 256 = 255"
    then have "unat (ucast k :: u8) = 255" by (simp add: unsigned_ucast_eq take_bit_eq_mod)
    then have "(ucast k :: u8) = word_of_nat 255" by (metis of_nat_unat ucast_id)
    with False show False by simp
  qed
  have "(ucast (- 1 :: u64) :: u8) = - 1"
    by (rule bit_word_eqI) (simp add: bit_ucast_iff)
  then have "1 + k \<noteq> 0" using False by (auto simp: add_eq_0_iff)
  then have succ: "unat (1 + k) = Suc (unat k)" by (rule unatSuc)
  have "Suc n div 256 = n div 256" if "n mod 256 \<noteq> 255" for n :: nat
    using that by (simp add: div_Suc mod_Suc)
  then have "unat (1 + k) div 256 = unat k div 256" using r succ by simp
  then have d: "drop_bit 8 (k + 1) = drop_bit 8 k"
    using unat_drop_bit [of 8 "1 + k"] unat_drop_bit [of 8 k] by (simp add: word_unat_eq_iff add.commute)
  have split: "word_to_be 8 v = rev (word_to_le 7 (drop_bit 8 v)) @ [ucast v]" for v :: u64
    by (simp add: word_to_be_def word_to_le_def upt_rec)
  have "(ucast (k + 1) :: u8) = ucast k + 1"
    using arg_cong [OF succ, of "word_of_nat :: nat \<Rightarrow> u8"] by (simp add: add.commute)
  then show ?thesis
    using False by (simp add: lrw_inc_def split nth_append d list_update_append)
qed

lemma lrw_inc_be_pow: "(lrw_inc ^^ n) (word_to_be 8 (k :: u64)) = word_to_be 8 (k + word_of_nat n)"
  by (induction n) (simp_all add: lrw_inc_be ac_simps)

text \<open>The index of the first block of the next unit.\<close>

lemma lrw_index_shift: "m \<noteq> 0 \<Longrightarrow> push_bit m (x :: u64) OR 1 = push_bit m x + 1"
  by (subst disjunctive_add_eq_or [symmetric]) (auto intro!: bit_word_eqI simp: bit_simps)

lemma lrw_index_step:
  assumes "m \<noteq> 0"
  shows "push_bit m (x + 1 - a :: u64) OR 1 = (push_bit m (x - a) OR 1) + push_bit m 1"
proof -
  have "push_bit m (x + 1 - a) = push_bit m (x - a) + push_bit m 1"
    using push_bit_add [of m "x - a" 1] by (simp add: algebra_simps)
  then show ?thesis
    using lrw_index_shift [OF assms, of "x - a"] lrw_index_shift [OF assms, of "x + 1 - a"] by simp
qed

lemma DataUnit2LRWIndex_next:
  "bs = 16 \<and> m = 32 \<or> bs = 8 \<and> m = 64 \<Longrightarrow> DataUnit2LRWIndex no bs ci = Some i \<Longrightarrow>
   DataUnit2LRWIndex (no + 1) bs ci = Some (i + m)"
  using lrw_index_step [of 5 no] lrw_index_step [of 6 no]
  by (auto simp: DataUnit2LRWIndex_def Let_def split: if_splits)

lemma units_bytes:
  assumes "n < 2 ^ 55"
  shows "unat (word_of_nat n * word_of_nat ENCRYPTION_DATA_UNIT_SIZE :: u64) = 512 * n"
  using assms by (simp add: tc_cfg unat_word_ariths unat_of_nat mod_mult_right_eq mult.commute)

text \<open>Both block sizes: \<open>b\<close> blocks make a unit.\<close>

lemma lrw_units_rec:
  assumes F: "\<And>n no p. n \<in> N \<Longrightarrow>
      F (n, no) p = Option.bind (DataUnit2LRWIndex no bs ci) (\<lambda>i. lrw_loop mult f bs (b * n) (word_to_be 8 i) p)"
    and bs: "bs = 16 \<and> b = 32 \<or> bs = 8 \<and> b = 64"
    and N: "\<And>n. Suc n \<in> N \<Longrightarrow> n \<in> N" "0 \<in> N" "Suc 0 \<in> N"
  shows "unit_rec N F"
  unfolding unit_rec_def
proof (intro conjI allI impI)
  have i: "\<exists>i. DataUnit2LRWIndex no bs ci = Some i" for no
    using bs by (auto simp: DataUnit2LRWIndex_def Let_def)
  show "F (0, no) p = Some p" for no p using i [of no] N(2) by (auto simp: F)
  fix n no and p r :: bytes assume n: "Suc n \<in> N" and p: "length p = 512"
  obtain i where i: "DataUnit2LRWIndex no bs ci = Some i" using i by blast
  have after: "DataUnit2LRWIndex (no + 1) bs ci = Some (i + word_of_nat b)"
    using DataUnit2LRWIndex_next [of bs "word_of_nat b", OF _ i] bs by auto
  have "length p = bs * b" using bs p by auto
  then have "lrw_loop mult f bs (b + b * n) (word_to_be 8 i) (p @ r) =
      Option.bind (lrw_loop mult f bs b (word_to_be 8 i) p)
        (\<lambda>q. map_option ((@) q) (lrw_loop mult f bs (b * n) (word_to_be 8 (i + word_of_nat b)) r))"
    by (simp add: lrw_loop_add lrw_inc_be_pow)
  then show "F (Suc n, no) (p @ r) = Option.bind (F (1, no) p) (\<lambda>q. map_option ((@) q) (F (n, no + 1) r))"
    using n N by (simp add: F i after)
qed

lemma lrw_units_pair:
  assumes F: "\<And>n no p. n \<in> N \<Longrightarrow>
      F (n, no) p = Option.bind (DataUnit2LRWIndex no bs ci) (\<lambda>i. lrw_loop mult f bs (b * n) (word_to_be 8 i) p)"
    and F': "\<And>n no p. n \<in> N \<Longrightarrow>
      F' (n, no) p = Option.bind (DataUnit2LRWIndex no bs ci) (\<lambda>i. lrw_loop mult g bs (b * n) (word_to_be 8 i) p)"
    and bs: "bs = 16 \<and> b = 32 \<or> bs = 8 \<and> b = 64"
    and N: "\<And>n. Suc n \<in> N \<Longrightarrow> n \<in> N" "0 \<in> N" "Suc 0 \<in> N"
    and f: "crypt_pair bs f g" and m: "\<And>i. length (mult i) = bs"
  shows "unit_pair N F F'"
proof (rule unit_pairI)
  show "unit_rec N F" using F bs N by (rule lrw_units_rec)
  show "unit_rec N F'" using F' bs N by (rule lrw_units_rec)
  fix no
  obtain i where i: "DataUnit2LRWIndex no bs ci = Some i"
    using bs by (auto simp: DataUnit2LRWIndex_def Let_def)
  have "bs * b = 512" using bs by auto
  then show "crypt_pair 512 (F (1, no)) (F' (1, no))"
    using lrw_loop_pair [where mult = mult and n = b and i = "word_to_be 8 i", OF f m] by (simp add: F F' N i [abs_def] fun_eq_iff crypt_pair_def)
qed (rule N)

section \<open>CBC\<close>

text \<open>Pairs of functions of \<open>L\<close> bytes at the front of a buffer.\<close>

definition front_pair :: "nat \<Rightarrow> (bytes \<Rightarrow> bytes option) \<Rightarrow> (bytes \<Rightarrow> bytes option) \<Rightarrow> bool" where
  "front_pair L f g \<longleftrightarrow> crypt_pair L f g \<and> front L f \<and> front L g"

lemma front_pair_comp:
  assumes "front_pair L f g" "front_pair L f' g'"
  shows "front_pair L (\<lambda>p. Option.bind (f p) f') (\<lambda>p. Option.bind (g' p) g)"
proof -
  have "\<exists>q. f p = Some q \<and> length q = L" "\<exists>q. g' p = Some q \<and> length q = L" if "length p = L" for p
    using assms that by (auto simp: front_pair_def crypt_pair_def)
  then show ?thesis
    using assms crypt_pair_comp [of L f g f' g'] front_comp [of L f f'] front_comp [of L g' g]
    by (simp add: front_pair_def)
qed

lemma front_pair_Some: "front_pair L Some Some"
  by (simp add: front_pair_def crypt_pair_def front_def)

lemma front_pair_for_ciphers:
  assumes "valid_ea ea" "\<forall>(c, i)\<in>set (offsets 0 (ciphers_of ea)). front_pair L (f c i) (g c i)"
  shows "front_pair L (for_ciphers ea f) (for_ciphers_back ea g)"
  by (rule for_ciphers_closed [OF assms(1), where R = "\<lambda>f g. front_pair L (f ()) (g ())"])
     (use front_pair_Some front_pair_comp assms(2) in auto)

definition cbc_crypt :: "cpu \<Rightarrow> bytes \<Rightarrow> nat \<Rightarrow> nat \<Rightarrow> bytes \<Rightarrow> bytes option" where
  "cbc_crypt u ks ea c = (if ea \<noteq> 0 then encipher_cascade u ea ks else (\<lambda>p. EncipherBlock u c p ks))"

definition cbc_decrypt :: "cpu \<Rightarrow> bytes \<Rightarrow> nat \<Rightarrow> nat \<Rightarrow> bytes \<Rightarrow> bytes option" where
  "cbc_decrypt u ks ea c = (if ea \<noteq> 0 then decipher_cascade u ea ks else (\<lambda>p. DecipherBlock u c p ks))"

lemma cbc_buffer_pair:
  assumes bs: "CipherGetBlockSize (if ea \<noteq> 0 then EAGetFirstCipher ea else c) = bs" "bs \<in> {8, 16}"
    and f: "crypt_pair bs (cbc_crypt u ks ea c) (cbc_decrypt u ks ea c)"
    and len: "len mod bs = 0" and iv: "bs \<le> length iv" and w: "8 \<le> length w"
  shows "front_pair len (\<lambda>b. EncryptBufferCBC u b len ks iv w ea c) (\<lambda>b. DecryptBufferCBC u b len ks iv w ea c)"
proof -
  have n: "bs * (len div bs) = len" using len by (simp add: mod_eq_0_iff_dvd)
  have E: "EncryptBufferCBC u b len ks iv w ea c =
        cbc_encrypt_loop (cbc_crypt u ks ea c) bs (cbc_whitening bs w) (len div bs) (take bs iv) b"
    and D: "DecryptBufferCBC u b len ks iv w ea c =
        cbc_decrypt_loop (cbc_decrypt u ks ea c) bs (cbc_whitening bs w) (len div bs) (take bs iv) b" for b
    by (simp_all only: EncryptBufferCBC_def DecryptBufferCBC_def Let_def bs len cbc_crypt_def cbc_decrypt_def simp_thms if_False)
  have "length (cbc_whitening bs w) = bs" "length (take bs iv) = bs"
    using bs(2) w iv by (auto simp: cbc_whitening_def)
  then have "crypt_pair len (\<lambda>b. EncryptBufferCBC u b len ks iv w ea c) (\<lambda>b. DecryptBufferCBC u b len ks iv w ea c)"
    using cbc_loop_pair [where n = "len div bs" and w = "cbc_whitening bs w" and v = "take bs iv", OF f] n
    by (simp only: E D)
  moreover have "front len (\<lambda>b. EncryptBufferCBC u b len ks iv w ea c)" "front len (\<lambda>b. DecryptBufferCBC u b len ks iv w ea c)"
    using cbc_encrypt_front [where bs = bs and n = "len div bs", unfolded n]
      cbc_decrypt_front [where bs = bs and n = "len div bs", unfolded n] unfolding front_def E D by blast+
  ultimately show ?thesis by (simp add: front_pair_def)
qed

lemma InitSectorIVAndWhitening_lengths:
  assumes "bs \<in> {8, 16}"
  obtains iv w where "InitSectorIVAndWhitening no bs seed = Some (iv, w)" "length iv = bs" "length w = 8"
  using assms by (auto simp: InitSectorIVAndWhitening_def Let_def upt_rec)

text \<open>A sector: the initialisation vector and the whitening come from the sector number.\<close>

lemma cbc_sector_pair:
  assumes bs: "CipherGetBlockSize (if ea \<noteq> 0 then EAGetFirstCipher ea else c) = bs" "bs \<in> {8, 16}"
    and f: "crypt_pair bs (cbc_crypt u ks ea c) (cbc_decrypt u ks ea c)"
  shows "front_pair 512
    (\<lambda>b. Option.bind (InitSectorIVAndWhitening no bs seed)
           (\<lambda>(iv, w). EncryptBufferCBC u b ENCRYPTION_DATA_UNIT_SIZE ks iv w ea c))
    (\<lambda>b. Option.bind (InitSectorIVAndWhitening no bs seed)
           (\<lambda>(iv, w). DecryptBufferCBC u b ENCRYPTION_DATA_UNIT_SIZE ks iv w ea c))"
proof -
  obtain iv w where "InitSectorIVAndWhitening no bs seed = Some (iv, w)" "length iv = bs" "length w = 8"
    by (rule InitSectorIVAndWhitening_lengths [OF bs(2)])
  moreover have "512 mod bs = 0" using bs(2) by auto
  ultimately show ?thesis using cbc_buffer_pair [OF bs f, of 512 iv w] by (simp add: tc_cfg)
qed

section \<open>Every mode\<close>

lemma unit_pair_mono:
  assumes "unit_pair M F F'" "N \<subseteq> M"
    and "\<And>n no. n \<in> N \<Longrightarrow> G (n, no) = F (n, no)" "\<And>n no. n \<in> N \<Longrightarrow> G' (n, no) = F' (n, no)"
  shows "unit_pair N G G'"
proof -
  obtain A B where "inverse512 A B" "unitwise M F A" "unitwise M F' B"
    using assms(1) by (auto simp: unit_pair_def)
  then have "inverse512 A B" "unitwise N G A" "unitwise N G' B"
    using assms(2-4) by (auto simp: unitwise_def)
  then show ?thesis by (auto simp: unit_pair_def)
qed

lemma units_of_word: "n \<in> xts_units_count \<Longrightarrow> unat (word_of_nat n :: u64) = n"
  by (simp add: xts_units_count_def unat_of_nat)

lemma unat_units_count: "nbrUnits < 2 ^ 55 \<Longrightarrow> unat (nbrUnits :: u64) \<in> xts_units_count"
  by (simp add: xts_units_count_def word_less_nat_alt)

definition encrypt_units :: "cpu \<Rightarrow> CRYPTO_INFO \<Rightarrow> nat \<times> u64 \<Rightarrow> bytes \<Rightarrow> bytes option" where
  "encrypt_units u ci x b = EncryptDataUnitsCurrentThread u b (snd x) (word_of_nat (fst x)) ci"

definition decrypt_units :: "cpu \<Rightarrow> CRYPTO_INFO \<Rightarrow> nat \<times> u64 \<Rightarrow> bytes \<Rightarrow> bytes option" where
  "decrypt_units u ci x b = DecryptDataUnitsCurrentThread u b (snd x) (word_of_nat (fst x)) ci"

lemmas units_defs = encrypt_units_def decrypt_units_def EncryptDataUnitsCurrentThread_def
  DecryptDataUnitsCurrentThread_def Let_def

lemma units_pair_XTS:
  assumes ready: "volume_ready u ci" and mode: "ci_mode ci = XTS"
  shows "unit_pair xts_units_count (encrypt_units u ci) (decrypt_units u ci)"
proof -
  note r = volume_readyD [OF ready]
  let ?len = "\<lambda>x. word_of_nat (fst x) * word_of_nat ENCRYPTION_DATA_UNIT_SIZE :: u64"
  let ?E = "\<lambda>x c off b. EncryptBufferXTS u b (?len x) (snd x) 0 (drop off (ci_ks ci)) (drop off (ci_ks2 ci)) c"
  let ?D = "\<lambda>x c off b. DecryptBufferXTS u b (?len x) (snd x) 0 (drop off (ci_ks ci)) (drop off (ci_ks2 ci)) c"
  have "unit_pair xts_units_count (\<lambda>x. for_ciphers (ci_ea ci) (?E x)) (\<lambda>x. for_ciphers_back (ci_ea ci) (?D x))"
  proof (rule for_ciphers_closed [where R = "unit_pair xts_units_count", OF r(2) unit_pair_Some unit_pair_comp])
    show "\<forall>(c, i)\<in>set (offsets 0 (ciphers_of (ci_ea ci))). unit_pair xts_units_count (\<lambda>x. ?E x c i) (\<lambda>x. ?D x c i)"
    proof (intro ballI, clarify)
      fix c i assume "(c, i) \<in> set (offsets 0 (ciphers_of (ci_ea ci)))"
      then have "c \<in> set (ciphers_of (ci_ea ci)) \<and> scheduled c (drop i (ci_ks ci))" "scheduled c (drop i (ci_ks2 ci))"
        using all_scheduled_offsets [of "ciphers_of (ci_ea ci)" 0] r(4) r(5) [OF mode] by auto
      then show "unit_pair xts_units_count (\<lambda>x. ?E x c i) (\<lambda>x. ?D x c i)"
        using xts_data_units_pair [OF r(1), of c "drop i (ci_ks ci)" "drop i (ci_ks2 ci)"]
          ciphers_of_valid [OF r(2)] supported_modes(2) [OF r(2,3)] mode
        by (simp add: case_prod_unfold)
    qed
  qed
  then show ?thesis
    by (rule unit_pair_mono) (simp_all add: units_defs mode fun_eq_iff)
qed

lemma units_pair_LRW:
  assumes ready: "volume_ready u ci" and mode: "ci_mode ci = LRW"
  shows "unit_pair xts_units_count (encrypt_units u ci) (decrypt_units u ci)"
proof -
  note r = volume_readyD [OF ready] and e = ciphers_of_ends [OF volume_readyD(2) [OF ready]]
  have N: "\<And>n. Suc n \<in> xts_units_count \<Longrightarrow> n \<in> xts_units_count" "0 \<in> xts_units_count" "Suc 0 \<in> xts_units_count"
    by (simp_all add: xts_units_count_def)
  note len = units_bytes
  have small: "n < 2 ^ 55" if "n \<in> xts_units_count" for n using that by (simp add: xts_units_count_def)
  have blocks: "unat (drop_bit k (word_of_nat n * word_of_nat ENCRYPTION_DATA_UNIT_SIZE :: u64)) = 512 * n div 2 ^ k"
    if "n \<in> xts_units_count" for n k
    by (simp only: unat_drop_bit units_bytes [OF small [OF that]])
  have whole: "(word_of_nat n * word_of_nat ENCRYPTION_DATA_UNIT_SIZE :: u64) mod m = 0"
    if "n \<in> xts_units_count" "unat m = 16 \<or> unat m = 8" for n m
  proof -
    have "512 * n mod 16 = 0" "512 * n mod 8 = 0" by simp_all
    then show ?thesis using that(2) by (auto simp only: word_unat_eq_iff unat_mod units_bytes [OF small [OF that(1)]] unat_0 mod_eq_0_iff_dvd)
  qed
  from supported_modes(3) [OF r(2,3) mode] show ?thesis
  proof
    assume bs: "\<forall>c\<in>set (ciphers_of (ci_ea ci)). CipherGetBlockSize c = 16"
    then have b: "CipherGetBlockSize (EAGetFirstCipher (ci_ea ci)) = 16" using e by simp
    show ?thesis
    proof (rule lrw_units_pair [where bs = 16 and b = 32 and ci = ci and mult = "\<lambda>i. Gf128MulBy64Tab i (gf_ctx ci)"])
      show "crypt_pair 16
         (if EAGetCipherCount (ci_ea ci) > 1 then encipher_cascade u (ci_ea ci) (ci_ks ci)
          else (\<lambda>p. EncipherBlock u (EAGetFirstCipher (ci_ea ci)) p (ci_ks ci)))
         (if EAGetCipherCount (ci_ea ci) > 1 then decipher_cascade u (ci_ea ci) (ci_ks ci)
          else (\<lambda>p. DecipherBlock u (EAGetFirstCipher (ci_ea ci)) p (ci_ks ci)))"
        using lrw_crypt_pair [OF ready bs] by simp
    qed (use N length_Gf_mul r(6) [OF mode] in
        \<open>simp_all add: units_defs mode b EncryptBufferLRW128_def DecryptBufferLRW128_def blocks whole store_BE64\<close>)
  next
    assume "length (ciphers_of (ci_ea ci)) = 1 \<and> CipherGetBlockSize (hd (ciphers_of (ci_ea ci))) = 8"
    then have bs: "\<forall>c\<in>set (ciphers_of (ci_ea ci)). CipherGetBlockSize c = 8" and
        b: "CipherGetBlockSize (EAGetFirstCipher (ci_ea ci)) = 8"
      using e by (auto simp: length_Suc_conv)
    show ?thesis
      by (rule lrw_units_pair [where bs = 8 and b = 64 and ci = ci and mult = "\<lambda>i. Gf64MulTab i (gf_ctx ci)",
            OF _ _ _ N(1-3) lrw_crypt_pair(1) [OF ready bs]])
         (use N length_Gf_mul r(6) [OF mode] in
           \<open>simp_all add: units_defs mode b EncryptBufferLRW64_def DecryptBufferLRW64_def blocks whole store_BE64\<close>)
  qed
qed

lemma cbc_cipher_pair:
  assumes "hw_ok u" "valid_cipher c" "scheduled c ks"
  shows "crypt_pair (CipherGetBlockSize c) (cbc_crypt u ks 0 c) (cbc_decrypt u ks 0 c)"
  using crypt_pair_cipher [OF assms] by (simp add: cbc_crypt_def cbc_decrypt_def)

lemma for_units_count_pair:
  assumes "\<And>n no. n \<in> xts_units_count \<Longrightarrow> encrypt_units u ci (n, no) = for_units f n no"
    and "\<And>n no. n \<in> xts_units_count \<Longrightarrow> decrypt_units u ci (n, no) = for_units g n no"
    and "\<And>no. front_pair 512 (f no) (g no)"
  shows "unit_pair xts_units_count (encrypt_units u ci) (decrypt_units u ci)"
proof (rule unit_pair_mono)
  show "unit_pair UNIV (\<lambda>(n, no). for_units f n no) (\<lambda>(n, no). for_units g n no)"
    using assms(3) by (intro for_units_pair) (simp_all add: front_pair_def)
qed (simp_all add: assms)

lemma units_pair_CBC:
  assumes ready: "volume_ready u ci" and mode: "ci_mode ci = CBC \<or> ci_mode ci = INNER_CBC"
  shows "unit_pair xts_units_count (encrypt_units u ci) (decrypt_units u ci)"
proof -
  note r = volume_readyD [OF ready]
  have m: "ci_mode ci \<noteq> XTS" "ci_mode ci \<noteq> LRW" using mode by (auto simp: tc_cfg)
  let ?E = "\<lambda>no c off b. Option.bind (InitSectorIVAndWhitening no (CipherGetBlockSize c) (ci_k2 ci)) (\<lambda>(iv, w).
    EncryptBufferCBC u b ENCRYPTION_DATA_UNIT_SIZE (drop off (ci_ks ci)) iv w 0 c)"
  let ?D = "\<lambda>no c off b. Option.bind (InitSectorIVAndWhitening no (CipherGetBlockSize c) (ci_k2 ci)) (\<lambda>(iv, w).
    DecryptBufferCBC u b ENCRYPTION_DATA_UNIT_SIZE (drop off (ci_ks ci)) iv w 0 c)"
  show ?thesis
  proof (rule for_units_count_pair [where f = "\<lambda>no. for_ciphers (ci_ea ci) (?E no)" and
        g = "\<lambda>no. for_ciphers_back (ci_ea ci) (?D no)"])
    fix no
    show "front_pair 512 (for_ciphers (ci_ea ci) (?E no)) (for_ciphers_back (ci_ea ci) (?D no))"
    proof (rule front_pair_for_ciphers [OF r(2)], intro ballI, clarify)
      fix c i assume "(c, i) \<in> set (offsets 0 (ciphers_of (ci_ea ci)))"
      then have "c \<in> set (ciphers_of (ci_ea ci))" and s: "scheduled c (drop i (ci_ks ci))"
        using all_scheduled_offsets [of "ciphers_of (ci_ea ci)" 0 "ci_ks ci" c i] r(4) by auto
      then have c: "valid_cipher c" using ciphers_of_valid [OF r(2)] by blast
      show "front_pair 512 (?E no c i) (?D no c i)"
        by (rule cbc_sector_pair [OF _ block_sizes [OF c] cbc_cipher_pair [OF r(1) c s]]) simp
    qed
  qed (use mode m in \<open>simp_all add: units_defs units_of_word fun_eq_iff\<close>)
qed

lemma units_pair_OUTER_CBC:
  assumes ready: "volume_ready u ci" and mode: "ci_mode ci = OUTER_CBC"
  shows "unit_pair xts_units_count (encrypt_units u ci) (decrypt_units u ci)"
proof -
  note r = volume_readyD [OF ready] and e = ciphers_of_ends [OF volume_readyD(2) [OF ready]]
  have ea: "ci_ea ci \<noteq> 0" using r(2) by (simp add: valid_ea_def)
  have bs: "\<forall>c\<in>set (ciphers_of (ci_ea ci)). CipherGetBlockSize c = 16"
    using supported_modes(2) [OF r(2,3)] mode by simp
  then have b: "CipherGetBlockSize (EAGetFirstCipher (ci_ea ci)) = 16" using e by simp
  have f: "crypt_pair 16 (cbc_crypt u (ci_ks ci) (ci_ea ci) 0) (cbc_decrypt u (ci_ks ci) (ci_ea ci) 0)"
    using crypt_pair_cascade [OF r(1,2,4) bs] ea by (simp add: cbc_crypt_def cbc_decrypt_def)
  have m: "OUTER_CBC \<noteq> XTS" "OUTER_CBC \<noteq> LRW" "OUTER_CBC \<noteq> CBC" "OUTER_CBC \<noteq> INNER_CBC" by (simp_all add: tc_cfg)
  let ?E = "\<lambda>no b. Option.bind (InitSectorIVAndWhitening no 16 (ci_k2 ci))
    (\<lambda>(iv, w). EncryptBufferCBC u b ENCRYPTION_DATA_UNIT_SIZE (ci_ks ci) iv w (ci_ea ci) 0)"
  let ?D = "\<lambda>no b. Option.bind (InitSectorIVAndWhitening no 16 (ci_k2 ci))
    (\<lambda>(iv, w). DecryptBufferCBC u b ENCRYPTION_DATA_UNIT_SIZE (ci_ks ci) iv w (ci_ea ci) 0)"
  show ?thesis
  proof (rule for_units_count_pair [where f = ?E and g = ?D])
    show "front_pair 512 (?E no) (?D no)" for no
      by (rule cbc_sector_pair [OF _ _ f]) (use ea b in simp_all)
  qed (simp_all add: units_defs units_of_word fun_eq_iff mode m b)
qed

theorem data_units_pair:
  assumes "volume_ready u ci"
  shows "unit_pair xts_units_count (encrypt_units u ci) (decrypt_units u ci)"
  using supported_modes(1) [OF volume_readyD(2,3) [OF assms]] units_pair_XTS [OF assms] units_pair_LRW [OF assms]
    units_pair_CBC [OF assms] units_pair_OUTER_CBC [OF assms] by blast

section \<open>Headers\<close>

lemma xts_header_pair:
  assumes ok: "hw_ok u" "valid_cipher c" "CipherGetBlockSize c = 16" "scheduled c ks" "scheduled c ks2"
    and len: "unat len mod 16 = 0"
  shows "crypt_pair (unat len) (\<lambda>b. EncryptBufferXTS u b len 0 0 ks ks2 c) (\<lambda>b. DecryptBufferXTS u b len 0 0 ks ks2 c)"
proof (rule crypt_pair_total)
  note X = xts_contract [OF ok] and c = cipher_contract [OF ok(1,2,4), unfolded ok(3)]
  let ?E = "\<lambda>b. xts_result (cipher_enc u c ks) (cipher_enc u c ks2) b len 0 0"
  let ?D = "\<lambda>b. xts_result (cipher_dec u c ks) (cipher_enc u c ks2) b len 0 0"
  fix p :: bytes assume p: "length p = unat len"
  have args: "xts_args p len 0" using p len by (simp add: xts_args_def)
  show "EncryptBufferXTS u p len 0 0 ks ks2 c = Some (?E p) \<and> DecryptBufferXTS u p len 0 0 ks ks2 c = Some (?D p)"
    using EncryptBufferXTS_run [OF ok args] by simp
  have "16 * (unat len div 16) = unat len" using len by (simp add: mod_eq_0_iff_dvd)
  then have "length (?D p) = unat len"
    using length_xts_run [of "cipher_dec u c ks" "unat len div 16" p] block_cipher.length_dec [OF c] p
    by (simp add: xts_result_def over_front_def)
  then show "length (?E p) = unat len \<and> length (?D p) = unat len \<and> ?D (?E p) = p"
    using xts_result_roundtrip [OF X args, of 0] p by simp
qed

lemma crypt_pair_for_ciphers:
  assumes "valid_ea ea" "\<forall>(c, i)\<in>set (offsets 0 (ciphers_of ea)). crypt_pair L (f c i) (g c i)"
  shows "crypt_pair L (for_ciphers ea f) (for_ciphers_back ea g)"
  by (rule for_ciphers_closed [OF assms(1), where R = "\<lambda>f g. crypt_pair L (f ()) (g ())"])
     (use crypt_pair_comp assms(2) in \<open>auto simp: crypt_pair_def [of L Some Some]\<close>)

lemma header_pair_XTS:
  assumes ready: "volume_ready u ci" and len: "unat len mod 16 = 0" "unat len < 2 ^ 32" and mode: "ci_mode ci = XTS"
  shows "crypt_pair (unat len) (\<lambda>b. EncryptBuffer u b len ci) (\<lambda>b. DecryptBuffer u b len ci)"
proof -
  note r = volume_readyD [OF ready]
  have "crypt_pair (unat len)
    (for_ciphers (ci_ea ci) (\<lambda>c off b. EncryptBufferXTS u b len 0 0 (drop off (ci_ks ci)) (drop off (ci_ks2 ci)) c))
    (for_ciphers_back (ci_ea ci) (\<lambda>c off b. DecryptBufferXTS u b len 0 0 (drop off (ci_ks ci)) (drop off (ci_ks2 ci)) c))"
  proof (rule crypt_pair_for_ciphers [OF r(2)], intro ballI, clarify)
    fix c i assume "(c, i) \<in> set (offsets 0 (ciphers_of (ci_ea ci)))"
    then have "c \<in> set (ciphers_of (ci_ea ci)) \<and> scheduled c (drop i (ci_ks ci))" "scheduled c (drop i (ci_ks2 ci))"
      using all_scheduled_offsets [of "ciphers_of (ci_ea ci)" 0] r(4) r(5) [OF mode] by auto
    then show "crypt_pair (unat len)
        (\<lambda>b. EncryptBufferXTS u b len 0 0 (drop i (ci_ks ci)) (drop i (ci_ks2 ci)) c)
        (\<lambda>b. DecryptBufferXTS u b len 0 0 (drop i (ci_ks ci)) (drop i (ci_ks2 ci)) c)"
      using xts_header_pair [OF r(1) _ _ _ _ len(1)] ciphers_of_valid [OF r(2)] supported_modes(2) [OF r(2,3)] mode by auto
  qed
  then show ?thesis using mode by (simp add: EncryptBuffer_def DecryptBuffer_def Let_def)
qed

lemma header_pair_CBC:
  assumes ready: "volume_ready u ci" and len: "unat len mod 16 = 0" "unat len < 2 ^ 32" and mode: "ci_mode ci = CBC \<or> ci_mode ci = INNER_CBC"
  shows "crypt_pair (unat len) (\<lambda>b. EncryptBuffer u b len ci) (\<lambda>b. DecryptBuffer u b len ci)"
proof -
  note r = volume_readyD [OF ready]
  have u32: "unat (ucast len :: u32) = unat len"
    using len(2) by (simp add: unsigned_ucast_eq take_bit_nat_eq_self)
  have len8: "unat len mod 8 = 0" using len(1) by (auto simp: mod_eq_0_iff_dvd intro: dvd_trans [of 8 16])
  have m: "distinct [XTS, LRW, CBC, INNER_CBC, OUTER_CBC]" by (simp add: tc_cfg)
  have "crypt_pair (unat len)
    (for_ciphers (ci_ea ci) (\<lambda>c off b. EncryptBufferCBC u b (unat len) (drop off (ci_ks ci)) (ci_k2 ci) (drop 8 (ci_k2 ci)) 0 c))
    (for_ciphers_back (ci_ea ci) (\<lambda>c off b. DecryptBufferCBC u b (unat len) (drop off (ci_ks ci)) (ci_k2 ci) (drop 8 (ci_k2 ci)) 0 c))"
  proof (rule crypt_pair_for_ciphers [OF r(2)], intro ballI, clarify)
    fix c i assume "(c, i) \<in> set (offsets 0 (ciphers_of (ci_ea ci)))"
    then have "c \<in> set (ciphers_of (ci_ea ci))" and s: "scheduled c (drop i (ci_ks ci))"
      using all_scheduled_offsets [of "ciphers_of (ci_ea ci)" 0 "ci_ks ci" c i] r(4) by auto
    then have c: "valid_cipher c" using ciphers_of_valid [OF r(2)] by blast
    have "unat len mod CipherGetBlockSize c = 0" "CipherGetBlockSize c \<le> length (ci_k2 ci)" "8 \<le> length (drop 8 (ci_k2 ci))"
      using block_sizes [OF c] len(1) len8 r(7) by auto
    then show "crypt_pair (unat len)
        (\<lambda>b. EncryptBufferCBC u b (unat len) (drop i (ci_ks ci)) (ci_k2 ci) (drop 8 (ci_k2 ci)) 0 c)
        (\<lambda>b. DecryptBufferCBC u b (unat len) (drop i (ci_ks ci)) (ci_k2 ci) (drop 8 (ci_k2 ci)) 0 c)"
      using cbc_buffer_pair [OF _ block_sizes [OF c] cbc_cipher_pair [OF r(1) c s]] by (simp add: front_pair_def)
  qed
  then show ?thesis using mode m by (auto simp: EncryptBuffer_def DecryptBuffer_def Let_def u32)
qed

lemma header_pair_OUTER_CBC:
  assumes ready: "volume_ready u ci" and len: "unat len mod 16 = 0" "unat len < 2 ^ 32" and mode: "ci_mode ci = OUTER_CBC"
  shows "crypt_pair (unat len) (\<lambda>b. EncryptBuffer u b len ci) (\<lambda>b. DecryptBuffer u b len ci)"
proof -
  note r = volume_readyD [OF ready] and e = ciphers_of_ends [OF volume_readyD(2) [OF ready]]
  have u32: "unat (ucast len :: u32) = unat len"
    using len(2) by (simp add: unsigned_ucast_eq take_bit_nat_eq_self)
  have ea: "ci_ea ci \<noteq> 0" using r(2) by (simp add: valid_ea_def)
  have m: "distinct [XTS, LRW, CBC, INNER_CBC, OUTER_CBC]" by (simp add: tc_cfg)
  have bs: "\<forall>c\<in>set (ciphers_of (ci_ea ci)). CipherGetBlockSize c = 16"
    using supported_modes(2) [OF r(2,3)] mode by simp
  have f: "crypt_pair 16 (cbc_crypt u (ci_ks ci) (ci_ea ci) 0) (cbc_decrypt u (ci_ks ci) (ci_ea ci) 0)"
    using crypt_pair_cascade [OF r(1,2,4) bs] ea by (simp add: cbc_crypt_def cbc_decrypt_def)
  have "crypt_pair (unat len) (\<lambda>b. EncryptBufferCBC u b (unat len) (ci_ks ci) (ci_k2 ci) (drop 8 (ci_k2 ci)) (ci_ea ci) 0)
      (\<lambda>b. DecryptBufferCBC u b (unat len) (ci_ks ci) (ci_k2 ci) (drop 8 (ci_k2 ci)) (ci_ea ci) 0)"
    using cbc_buffer_pair [OF _ _ f len(1), of "ci_k2 ci" "drop 8 (ci_k2 ci)"] ea e bs r(7) by (simp add: front_pair_def)
  then show ?thesis using mode m by (simp add: EncryptBuffer_def DecryptBuffer_def Let_def u32)
qed

lemma header_pair_LRW:
  assumes ready: "volume_ready u ci" and len: "unat len mod 16 = 0" "unat len < 2 ^ 32" and mode: "ci_mode ci = LRW"
  shows "crypt_pair (unat len) (\<lambda>b. EncryptBuffer u b len ci) (\<lambda>b. DecryptBuffer u b len ci)"
proof -
  note r = volume_readyD [OF ready] and e = ciphers_of_ends [OF volume_readyD(2) [OF ready]]
  have len8: "unat len mod 8 = 0" using len(1) by (auto simp: mod_eq_0_iff_dvd intro: dvd_trans [of 8 16])
  have blocks: "len mod 16 = 0" "len mod 8 = 0" "unat (drop_bit 4 len) = unat len div 16" "unat (drop_bit 3 len) = unat len div 8"
    using len(1) len8 by (simp_all add: word_unat_eq_iff unat_mod unat_drop_bit)
  have n: "16 * (unat len div 16) = unat len" "8 * (unat len div 8) = unat len"
    using len(1) len8 by (simp_all add: mod_eq_0_iff_dvd)
  from supported_modes(3) [OF r(2,3) mode] show ?thesis
  proof
    assume bs: "\<forall>c\<in>set (ciphers_of (ci_ea ci)). CipherGetBlockSize c = 16"
    then have b: "CipherGetBlockSize (EAGetFirstCipher (ci_ea ci)) = 16" using e by simp
    show ?thesis
      using lrw_loop_pair [OF lrw_crypt_pair(1) [OF ready bs] length_Gf_mul(1) [OF r(6) [OF mode]], of "unat len div 16"]
        lrw_loop_pair [OF lrw_crypt_pair(2) [OF ready bs] length_Gf_mul(1) [OF r(6) [OF mode]], of "unat len div 16"]
      by (simp add: EncryptBuffer_def DecryptBuffer_def Let_def mode b EncryptBufferLRW128_def DecryptBufferLRW128_def blocks n)
  next
    assume "length (ciphers_of (ci_ea ci)) = 1 \<and> CipherGetBlockSize (hd (ciphers_of (ci_ea ci))) = 8"
    then have bs: "\<forall>c\<in>set (ciphers_of (ci_ea ci)). CipherGetBlockSize c = 8" and
        b: "CipherGetBlockSize (EAGetFirstCipher (ci_ea ci)) = 8"
      using e by (auto simp: length_Suc_conv)
    show ?thesis
      using lrw_loop_pair [OF lrw_crypt_pair(1) [OF ready bs] length_Gf_mul(2) [OF r(6) [OF mode]], of "unat len div 8"]
      by (simp add: EncryptBuffer_def DecryptBuffer_def Let_def mode b EncryptBufferLRW64_def DecryptBufferLRW64_def blocks n)
  qed
qed

theorem header_pair:
  assumes "volume_ready u ci" "unat len mod 16 = 0" "unat len < 2 ^ 32"
  shows "crypt_pair (unat len) (\<lambda>b. EncryptBuffer u b len ci) (\<lambda>b. DecryptBuffer u b len ci)"
  using supported_modes(1) [OF volume_readyD(2,3) [OF assms(1)]] header_pair_XTS [OF assms] header_pair_LRW [OF assms]
    header_pair_CBC [OF assms] header_pair_OUTER_CBC [OF assms] by blast

section \<open>Making a volume ready\<close>

lemma CipherInit_success:
  "valid_cipher c \<Longrightarrow> c \<noteq> TRIPLEDES \<Longrightarrow> fst (CipherInit c key ks) = ERR_SUCCESS"
  by (erule valid_cipherE) (simp_all add: CipherInit_def Let_def)

lemma EAInit_loop_success:
  "\<forall>c\<in>set cs. valid_cipher c \<and> c \<noteq> TRIPLEDES \<Longrightarrow> fst (EAInit_loop cs key ks ERR_SUCCESS) = ERR_SUCCESS"
proof (induction cs arbitrary: key ks)
  case (Cons c cs)
  have err: "ERR_SUCCESS \<noteq> ERR_CIPHER_INIT_FAILURE" "ERR_SUCCESS \<noteq> ERR_CIPHER_INIT_WEAK_KEY"
    by (simp_all add: tc_cfg)
  obtain ks1 where "CipherInit c key ks = (ERR_SUCCESS, ks1)"
    using CipherInit_success [of c key ks] Cons.prems by (cases "CipherInit c key ks") auto
  then show ?case
    using Cons by (simp only: EAInit_loop.simps) (simp add: Let_def split_beta err)
qed simp

lemma fold_invariant: "P s \<Longrightarrow> (\<And>x s. P s \<Longrightarrow> P (f x s)) \<Longrightarrow> P (fold f xs s)"
  by (induction xs arbitrary: s) auto

lemma rows_ok_fold: "rows_ok n t \<Longrightarrow> (\<And>i t. rows_ok n t \<Longrightarrow> rows_ok n (f i t)) \<Longrightarrow> rows_ok n (fold f is t)"
  by (rule fold_invariant [where P = "rows_ok n"])

lemma rows_ok_entry: "rows_ok n t \<Longrightarrow> length x = n \<Longrightarrow> rows_ok n (set_entry i j x t)"
  by (simp add: rows_ok_def set_entry_def)

text \<open>The tables of the LRW mode stay well-formed, whether they are filled or not.\<close>

lemma gf_wf_init:
  assumes "gf_wf ctx"
  shows "gf_wf (snd (Gf128Tab64Init alloc a ctx))" "gf_wf (snd (Gf64TabInit alloc a ctx))"
proof -
  have "rows_ok 4 (gf_t128 ctx)" "rows_ok 2 (gf_t64 ctx)" using assms by (simp_all add: gf_wf_def)
  moreover have "rows_ok 4 (fold (\<lambda>i. fold (\<lambda>j. set_entry (i - 16) (mirror_nibble j) (words_at 0 4 (g i j))) [0..<16]) [16..<32] t)"
    if "rows_ok 4 t" for t and g :: "nat \<Rightarrow> nat \<Rightarrow> bytes"
    by (intro rows_ok_fold rows_ok_entry that) simp_all
  moreover have "rows_ok 2 (fold (\<lambda>i. fold (\<lambda>j. set_entry i (mirror_nibble j) (words_at 0 2 (g i j))) [0..<16]) [0..<16] t)"
    if "rows_ok 2 t" for t and g :: "nat \<Rightarrow> nat \<Rightarrow> bytes"
    by (intro rows_ok_fold rows_ok_entry that) simp_all
  ultimately show "gf_wf (snd (Gf128Tab64Init alloc a ctx))" "gf_wf (snd (Gf64TabInit alloc a ctx))"
    by (simp_all add: gf_wf_def Gf128Tab64Init_def Gf64TabInit_def Let_def del: upt_Suc upt_rec_numeral)
qed

text \<open>The secondary keys of XTS: the mode's initialisation succeeds and schedules them.\<close>

lemma EAInitMode_ready:
  assumes ea: "valid_ea (ci_ea ci)" "EAIsModeSupported (ci_ea ci) (ci_mode ci) = Some True"
    and ks: "EAInit (ci_ea ci) key (ci_ks ci) = Some (r, ks)"
    and sizes: "ks_total (ciphers_of (ci_ea ci)) \<le> length (ci_ks ci)"
      "ks_total (ciphers_of (ci_ea ci)) \<le> length (ci_ks2 ci)" "16 \<le> length (ci_k2 ci)" "gf_wf (gf_ctx ci)"
    and u: "hw_ok u"
  shows "\<exists>ci'. EAInitMode True (ci\<lparr>ci_ks := ks\<rparr>) = Some (True, ci') \<and> volume_ready u ci'"
proof -
  have all: "all_scheduled (ciphers_of (ci_ea ci)) ks"
    using EAInit_all_scheduled [OF ea(1) sizes(1), of key] ks by simp
  have XTS: "\<forall>c\<in>set (ciphers_of (ci_ea ci)). c \<noteq> TRIPLEDES" if "ci_mode ci = XTS"
    using supported_modes(2) [OF ea] that by (auto simp: tc_cfg)
  obtain r2 ks2 where ks2: "EAInit (ci_ea ci) (ci_k2 ci) (ci_ks2 ci) = Some (r2, ks2)" "all_scheduled (ciphers_of (ci_ea ci)) ks2"
    using EAInit_all_scheduled [OF ea(1) sizes(2), of "ci_k2 ci"] by auto
  have r2: "r2 = ERR_SUCCESS" if "ci_mode ci = XTS"
    using EAInit_loop_success [of "ciphers_of (ci_ea ci)" "ci_k2 ci" "ci_ks2 ci"] ks2(1) ea(1) XTS [OF that] ciphers_of_valid [OF ea(1)]
    by (auto simp: EAInit_def ea_ciphers_forward_table valid_ea_def)
  note ready = volume_ready_def ea all u sizes
  from supported_modes(1) [OF ea] consider "ci_mode ci = XTS" | "ci_mode ci = LRW" |
    "ci_mode ci = CBC \<or> ci_mode ci = INNER_CBC \<or> ci_mode ci = OUTER_CBC" by auto
  then show ?thesis
  proof cases
    case 1
    then show ?thesis using ks2 r2 ea(2) by (auto simp: EAInitMode_def ready tc_cfg)
  next
    case 2
    have "CipherGetBlockSize (EAGetFirstCipher (ci_ea ci)) \<in> {8, 16}"
      using block_sizes ciphers_of_valid [OF ea(1)] ciphers_of_ends [OF ea(1)] by simp
    then show ?thesis
      using gf_wf_init [OF sizes(4), of True "ci_k2 ci"] ea(2) 2
      by (auto simp: EAInitMode_def Let_def ready split_beta Gf128Tab64Init_def Gf64TabInit_def tc_cfg)
  next
    case 3
    then show ?thesis using ea(2) by (auto simp: EAInitMode_def ready tc_cfg)
  qed
qed

section \<open>What the contract gives\<close>

lemma units_map_cong:
  "(\<And>no b. length b = 512 \<Longrightarrow> G no b = H no b) \<Longrightarrow> 512 * n \<le> length buf \<Longrightarrow> units_map G n no buf = units_map H n no buf"
  by (induction n arbitrary: no buf) simp_all

lemma unit_pair_run:
  assumes "unit_pair N F F'" "n \<in> N" "1 \<in> N" "512 * n \<le> length buf"
  shows "F (n, no) buf = Some (units_map (\<lambda>no b. the (F (1, no) b)) n no buf)"
    and "\<exists>enc. F (n, no) buf = Some enc \<and> length enc = length buf \<and> drop (512 * n) enc = drop (512 * n) buf \<and>
      F' (n, no) enc = Some buf"
proof -
  obtain G H where i: "inverse512 G H" and G: "unitwise N F G" and H: "unitwise N F' H"
    using assms(1) by (auto simp: unit_pair_def)
  have "the (F (1, no) b) = G no b" if "length b = 512" for no b
    using unitwiseD [OF G assms(3), of b no] that by simp
  then show "F (n, no) buf = Some (units_map (\<lambda>no b. the (F (1, no) b)) n no buf)"
    using unitwiseD [OF G assms(2,4)] units_map_cong [OF _ assms(4), of "\<lambda>no b. the (F (1, no) b)" G no] by simp
  let ?e = "units_map G n no buf"
  have k: "keeps512 G" and inv: "length b = 512 \<Longrightarrow> H no (G no b) = b" for no b
    using i by (simp_all add: inverse512_def)
  have len: "length ?e = length buf" by (rule length_units_map [OF k assms(4)])
  have rest: "512 * n \<le> length b \<Longrightarrow> drop (512 * n) (units_map G n no b) = drop (512 * n) b" for n no b
    using k by (induction n arbitrary: no b) (simp_all add: keeps512_def add.commute)
  have "units_map H n no ?e = buf"
    using units_map_comp [OF k assms(4), of H no] units_map_id [OF inv assms(4)] by simp
  then have "F' (n, no) ?e = Some buf" using unitwiseD [OF H assms(2), of ?e no] len assms(4) by simp
  then show "\<exists>enc. F (n, no) buf = Some enc \<and> length enc = length buf \<and> drop (512 * n) enc = drop (512 * n) buf \<and>
      F' (n, no) enc = Some buf"
    using unitwiseD [OF G assms(2,4)] len rest [OF assms(4)] by blast
qed

lemma unit_pair_run_back:
  assumes "unit_pair N F F'" "n \<in> N" "1 \<in> N" "512 * n \<le> length buf"
  shows "F' (n, no) buf = Some (units_map (\<lambda>no b. the (F' (1, no) b)) n no buf)"
proof -
  obtain H where H: "unitwise N F' H" using assms(1) by (auto simp: unit_pair_def)
  have "the (F' (1, no) b) = H no b" if "length b = 512" for no b
    using unitwiseD [OF H assms(3), of b no] that by simp
  then show ?thesis
    using unitwiseD [OF H assms(2,4)] units_map_cong [OF _ assms(4), of "\<lambda>no b. the (F' (1, no) b)" H no] by simp
qed

lemma xts_units_count_1: "1 \<in> xts_units_count"
  by (simp add: xts_units_count_def)

end
