(* ===== verification/Hash_Blocks.thy ===== *)
theory Hash_Blocks
  imports TC_Prelude
begin

text \<open>
  What the hash functions share: a compression function \<open>f\<close> is applied to the blocks of a message, and
  the bytes after the last whole block wait in a buffer. \<open>absorb\<close> is the state after a message: the
  chaining value and the waiting bytes; \<open>absorb_append\<close> is the law that every update function of the
  code satisfies.
\<close>

primrec md_blocks :: "('h \<Rightarrow> bytes \<Rightarrow> 'h) \<Rightarrow> nat \<Rightarrow> nat \<Rightarrow> 'h \<Rightarrow> bytes \<Rightarrow> 'h" where
  "md_blocks f B 0 h m = h"
| "md_blocks f B (Suc n) h m = md_blocks f B n (f h (take B m)) (drop B m)"

definition absorb :: "('h \<Rightarrow> bytes \<Rightarrow> 'h) \<Rightarrow> nat \<Rightarrow> 'h \<Rightarrow> bytes \<Rightarrow> 'h \<times> bytes" where
  "absorb f B h m = (md_blocks f B (length m div B) h m, drop (B * (length m div B)) m)"

lemma md_blocks_add:
  "md_blocks f B (i + j) h m = md_blocks f B j (md_blocks f B i h m) (drop (B * i) m)"
  by (induction i arbitrary: h m) (simp_all add: add.commute)

lemma md_blocks_append: "B * n \<le> length m \<Longrightarrow> md_blocks f B n h (m @ r) = md_blocks f B n h m"
  by (induction n arbitrary: h m) simp_all

lemma length_absorb_tail: "length (snd (absorb f B h m)) = length m mod B"
  by (simp add: absorb_def minus_mult_div_eq_mod)

lemma absorb_tail_less: "0 < B \<Longrightarrow> length (snd (absorb f B h m)) < B"
  by (simp add: length_absorb_tail)

lemma absorb_append:
  assumes "0 < B" "absorb f B h m = (s, t)"
  shows "absorb f B h (m @ d) = absorb f B s (t @ d)"
proof -
  let ?n = "length m div B"
  have s: "s = md_blocks f B ?n h m" and t: "t = drop (B * ?n) m"
    using assms(2) by (simp_all add: absorb_def)
  have le: "B * ?n \<le> length m" by simp
  have "length t + B * ?n = length m" by (simp add: t)
  then have len: "length (m @ d) = length (t @ d) + B * ?n" by simp
  have q: "length (m @ d) div B = ?n + length (t @ d) div B"
    unfolding len using assms(1) by simp
  have m: "m @ d = take (B * ?n) m @ t @ d" by (simp add: t)
  have "md_blocks f B (length (m @ d) div B) h (m @ d) = md_blocks f B (length (t @ d) div B) s (drop (B * ?n) (m @ d))"
    using md_blocks_append [OF le, of f h d] by (simp only: q md_blocks_add s)
  moreover have td: "drop (B * ?n) (m @ d) = t @ d" using le by (simp add: t)
  moreover have "drop (B * (?n + k)) (m @ d) = drop (B * k) (drop (B * ?n) (m @ d))" for k
    by (simp add: distrib_left add.commute)
  ultimately show ?thesis by (simp only: absorb_def q)
qed

lemma absorb_short: "length t < B \<Longrightarrow> absorb f B s t = (s, t)"
  by (simp add: absorb_def)

lemma absorb_block:
  assumes "0 < B" "length b = B"
  shows "absorb f B s (b @ r) = absorb f B (f s b) r"
  using absorb_append [of B f s b "f s b" "[]" r] assms by (simp add: absorb_def)

lemma absorb_blocks:
  assumes "0 < B" "length m = B * n"
  shows "absorb f B s m = (md_blocks f B n s m, [])"
  using assms by (simp add: absorb_def)

text \<open>A buffer holds the waiting bytes at its front.\<close>

definition holds :: "nat \<Rightarrow> bytes \<Rightarrow> bytes \<Rightarrow> bool" where
  "holds B buf t \<longleftrightarrow> length buf = B \<and> length t \<le> B \<and> take (length t) buf = t"

lemma holds_put: "holds B buf t \<Longrightarrow> length t + length d \<le> B \<Longrightarrow> holds B (put_at (length t) d buf) (t @ d)"
  by (auto simp: holds_def put_at_def)

lemma holds_full: "holds B buf t \<Longrightarrow> length t = B \<Longrightarrow> buf = t"
  by (auto simp: holds_def)

lemma holds_Nil: "holds B buf [] \<longleftrightarrow> length buf = B"
  by (simp add: holds_def)

unbundle bit_operations_syntax

section \<open>Rotations\<close>

text \<open>A rotation written with two shifts.\<close>

lemma word_rotl_shift:
  assumes "0 < n" "n < LENGTH('a)"
  shows "word_rotl n (x :: 'a::len word) = push_bit n x OR drop_bit (LENGTH('a) - n) x"
proof (rule bit_word_eqI)
  fix i assume i: "i < LENGTH('a)"
  have out: "\<not> bit x k" if "LENGTH('a) \<le> k" for k using bit_imp_le_length [of x k] that by auto
  show "bit (word_rotl n x) i \<longleftrightarrow> bit (push_bit n x OR drop_bit (LENGTH('a) - n) x) i"
  proof (cases "n \<le> i")
    case True
    then have "(i + LENGTH('a) - n) mod LENGTH('a) = i - n" using i assms by (simp add: mod_if)
    then show ?thesis
      using True i assms out [of "LENGTH('a) - n + i"]
      by (simp add: bit_word_rotl_iff bit_or_iff bit_push_bit_iff bit_drop_bit_eq)
  next
    case False
    then show ?thesis
      using i assms by (simp add: bit_word_rotl_iff bit_or_iff bit_push_bit_iff bit_drop_bit_eq add.commute)
  qed
qed

lemma word_rotr_shift:
  assumes "0 < n" "n < LENGTH('a)"
  shows "word_rotr n (x :: 'a::len word) = drop_bit n x OR push_bit (LENGTH('a) - n) x"
proof -
  have "word_rotr n x = word_rotl (LENGTH('a) - n) x"
    using assms by (simp add: word_rotl_eq_word_rotr)
  then show ?thesis using word_rotl_shift [of "LENGTH('a) - n" x] assms by (simp add: or.commute)
qed

end
