(* ===== verification/Ripemd160.thy ===== *)
theory Ripemd160
  imports Hash_Blocks
begin

text \<open>
  Crypto/Rmd160.c: RIPEMD-160. \<open>RMD160Transform\<close> is the unrolled compression function: the lines of the
  source as a table of the round function, the variable in the role of \<open>a\<close>, the index into the message,
  the rotation and the constant. \<open>RMD160Transform_min\<close> is the loop of the build with
  \<open>TC_MINIMIZE_CODE_SIZE\<close>. The updates and the padding are shown to absorb the padded message.
\<close>

unbundle bit_operations_syntax

section \<open>Compression\<close>

text \<open>The functions \<open>F\<close>, \<open>G\<close>, \<open>H\<close>, \<open>I\<close>, \<open>J\<close>, by number.\<close>

definition rmd_f :: "nat \<Rightarrow> u32 \<Rightarrow> u32 \<Rightarrow> u32 \<Rightarrow> u32" where
  "rmd_f j x y z =
     (if j = 0 then x XOR y XOR z
      else if j = 1 then z XOR (x AND (y XOR z))
      else if j = 2 then z XOR (x OR NOT y)
      else if j = 3 then y XOR (z AND (x XOR y))
      else x XOR (y OR NOT z))"

definition rotlFixed :: "u32 \<Rightarrow> nat \<Rightarrow> u32" where
  "rotlFixed x y = push_bit y x OR drop_bit (32 - y) x"

definition rmd_k :: "u32 list" where
  "rmd_k = [0, 0x5a827999, 0x6ed9eba1, 0x8f1bbcdc, 0xa953fd4e, 0x50a28be6, 0x5c4dd124, 0x6d703ef3, 0x7a6d76e9, 0]"

text \<open>\<open>Subround\<close> on the array of the variables \<open>a, b, c, d, e\<close>; \<open>p\<close> is the variable in the role of \<open>a\<close>.\<close>

definition Subround :: "u32 list \<Rightarrow> nat \<times> nat \<times> nat \<times> nat \<times> nat \<Rightarrow> u32 list \<Rightarrow> u32 list" where
  "Subround X = (\<lambda>(f, p, x, s, k) v.
     (let b = (p + 1) mod 5; c = (p + 2) mod 5; d = (p + 3) mod 5; e = (p + 4) mod 5;
          v = v[p := v ! p + (rmd_f f (v ! b) (v ! c) (v ! d) + X ! x + rmd_k ! k)];
          v = v[p := rotlFixed (v ! p) s + v ! e]
      in v[c := rotlFixed (v ! c) 10]))"

definition rmd_lines1 :: "(nat \<times> nat \<times> nat \<times> nat \<times> nat) list" where
  "rmd_lines1 =
   [(0, 0, 0, 11, 0), (0, 4, 1, 14, 0), (0, 3, 2, 15, 0), (0, 2, 3, 12, 0),
    (0, 1, 4, 5, 0), (0, 0, 5, 8, 0), (0, 4, 6, 7, 0), (0, 3, 7, 9, 0),
    (0, 2, 8, 11, 0), (0, 1, 9, 13, 0), (0, 0, 10, 14, 0), (0, 4, 11, 15, 0),
    (0, 3, 12, 6, 0), (0, 2, 13, 7, 0), (0, 1, 14, 9, 0), (0, 0, 15, 8, 0),
    (1, 4, 7, 7, 1), (1, 3, 4, 6, 1), (1, 2, 13, 8, 1), (1, 1, 1, 13, 1),
    (1, 0, 10, 11, 1), (1, 4, 6, 9, 1), (1, 3, 15, 7, 1), (1, 2, 3, 15, 1),
    (1, 1, 12, 7, 1), (1, 0, 0, 12, 1), (1, 4, 9, 15, 1), (1, 3, 5, 9, 1),
    (1, 2, 2, 11, 1), (1, 1, 14, 7, 1), (1, 0, 11, 13, 1), (1, 4, 8, 12, 1),
    (2, 3, 3, 11, 2), (2, 2, 10, 13, 2), (2, 1, 14, 6, 2), (2, 0, 4, 7, 2),
    (2, 4, 9, 14, 2), (2, 3, 15, 9, 2), (2, 2, 8, 13, 2), (2, 1, 1, 15, 2),
    (2, 0, 2, 14, 2), (2, 4, 7, 8, 2), (2, 3, 0, 13, 2), (2, 2, 6, 6, 2),
    (2, 1, 13, 5, 2), (2, 0, 11, 12, 2), (2, 4, 5, 7, 2), (2, 3, 12, 5, 2),
    (3, 2, 1, 11, 3), (3, 1, 9, 12, 3), (3, 0, 11, 14, 3), (3, 4, 10, 15, 3),
    (3, 3, 0, 14, 3), (3, 2, 8, 15, 3), (3, 1, 12, 9, 3), (3, 0, 4, 8, 3),
    (3, 4, 13, 9, 3), (3, 3, 3, 14, 3), (3, 2, 7, 5, 3), (3, 1, 15, 6, 3),
    (3, 0, 14, 8, 3), (3, 4, 5, 6, 3), (3, 3, 6, 5, 3), (3, 2, 2, 12, 3),
    (4, 1, 4, 9, 4), (4, 0, 0, 15, 4), (4, 4, 5, 5, 4), (4, 3, 9, 11, 4),
    (4, 2, 7, 6, 4), (4, 1, 12, 8, 4), (4, 0, 2, 13, 4), (4, 4, 10, 12, 4),
    (4, 3, 14, 5, 4), (4, 2, 1, 12, 4), (4, 1, 3, 13, 4), (4, 0, 8, 14, 4),
    (4, 4, 11, 11, 4), (4, 3, 6, 8, 4), (4, 2, 15, 5, 4), (4, 1, 13, 6, 4)]"

definition rmd_lines2 :: "(nat \<times> nat \<times> nat \<times> nat \<times> nat) list" where
  "rmd_lines2 =
   [(4, 0, 5, 8, 5), (4, 4, 14, 9, 5), (4, 3, 7, 9, 5), (4, 2, 0, 11, 5),
    (4, 1, 9, 13, 5), (4, 0, 2, 15, 5), (4, 4, 11, 15, 5), (4, 3, 4, 5, 5),
    (4, 2, 13, 7, 5), (4, 1, 6, 7, 5), (4, 0, 15, 8, 5), (4, 4, 8, 11, 5),
    (4, 3, 1, 14, 5), (4, 2, 10, 14, 5), (4, 1, 3, 12, 5), (4, 0, 12, 6, 5),
    (3, 4, 6, 9, 6), (3, 3, 11, 13, 6), (3, 2, 3, 15, 6), (3, 1, 7, 7, 6),
    (3, 0, 0, 12, 6), (3, 4, 13, 8, 6), (3, 3, 5, 9, 6), (3, 2, 10, 11, 6),
    (3, 1, 14, 7, 6), (3, 0, 15, 7, 6), (3, 4, 8, 12, 6), (3, 3, 12, 7, 6),
    (3, 2, 4, 6, 6), (3, 1, 9, 15, 6), (3, 0, 1, 13, 6), (3, 4, 2, 11, 6),
    (2, 3, 15, 9, 7), (2, 2, 5, 7, 7), (2, 1, 1, 15, 7), (2, 0, 3, 11, 7),
    (2, 4, 7, 8, 7), (2, 3, 14, 6, 7), (2, 2, 6, 6, 7), (2, 1, 9, 14, 7),
    (2, 0, 11, 12, 7), (2, 4, 8, 13, 7), (2, 3, 12, 5, 7), (2, 2, 2, 14, 7),
    (2, 1, 10, 13, 7), (2, 0, 0, 13, 7), (2, 4, 4, 7, 7), (2, 3, 13, 5, 7),
    (1, 2, 8, 15, 8), (1, 1, 6, 5, 8), (1, 0, 4, 8, 8), (1, 4, 1, 11, 8),
    (1, 3, 3, 14, 8), (1, 2, 11, 14, 8), (1, 1, 15, 6, 8), (1, 0, 0, 14, 8),
    (1, 4, 5, 6, 8), (1, 3, 12, 9, 8), (1, 2, 2, 12, 8), (1, 1, 13, 9, 8),
    (1, 0, 9, 12, 8), (1, 4, 7, 5, 8), (1, 3, 10, 15, 8), (1, 2, 14, 8, 8),
    (0, 1, 12, 8, 9), (0, 0, 15, 5, 9), (0, 4, 10, 12, 9), (0, 3, 4, 9, 9),
    (0, 2, 1, 12, 9), (0, 1, 5, 5, 9), (0, 0, 8, 14, 9), (0, 4, 7, 6, 9),
    (0, 3, 6, 8, 9), (0, 2, 2, 13, 9), (0, 1, 13, 6, 9), (0, 0, 14, 5, 9),
    (0, 4, 0, 15, 9), (0, 3, 3, 13, 9), (0, 2, 9, 11, 9), (0, 1, 11, 11, 9)]"

definition rmd_combine :: "u32 list \<Rightarrow> u32 list \<Rightarrow> u32 list \<Rightarrow> u32 list" where
  "rmd_combine s v w =
     [s ! 1 + v ! 2 + w ! 3, s ! 2 + v ! 3 + w ! 4, s ! 3 + v ! 4 + w ! 0, s ! 4 + v ! 0 + w ! 1, s ! 0 + v ! 1 + w ! 2]"

definition RMD160Transform :: "u32 list \<Rightarrow> u32 list \<Rightarrow> u32 list" where
  "RMD160Transform digest X =
     rmd_combine digest (fold (Subround X) rmd_lines1 digest) (fold (Subround X) rmd_lines2 digest)"

section \<open>The build of minimal size\<close>

definition OrderTab :: "nat list" where
  "OrderTab =
   [0, 1, 2, 3, 4, 5, 6, 7, 8, 9, 10, 11, 12, 13, 14, 15,
    7, 4, 13, 1, 10, 6, 15, 3, 12, 0, 9, 5, 2, 14, 11, 8,
    3, 10, 14, 4, 9, 15, 8, 1, 2, 7, 0, 6, 13, 11, 5, 12,
    1, 9, 11, 10, 0, 8, 12, 4, 13, 3, 7, 15, 14, 5, 6, 2,
    4, 0, 5, 9, 7, 12, 2, 10, 14, 1, 3, 8, 11, 6, 15, 13,
    5, 14, 7, 0, 9, 2, 11, 4, 13, 6, 15, 8, 1, 10, 3, 12,
    6, 11, 3, 7, 0, 13, 5, 10, 14, 15, 8, 12, 4, 9, 1, 2,
    15, 5, 1, 3, 7, 14, 6, 9, 11, 8, 12, 2, 10, 0, 4, 13,
    8, 6, 4, 1, 3, 11, 15, 0, 5, 12, 2, 13, 9, 7, 10, 14,
    12, 15, 10, 4, 1, 5, 8, 7, 6, 2, 13, 14, 0, 3, 9, 11]"

definition RolTab :: "nat list" where
  "RolTab =
   [11, 14, 15, 12, 5, 8, 7, 9, 11, 13, 14, 15, 6, 7, 9, 8,
    7, 6, 8, 13, 11, 9, 7, 15, 7, 12, 15, 9, 11, 7, 13, 12,
    11, 13, 6, 7, 14, 9, 13, 15, 14, 8, 13, 6, 5, 12, 7, 5,
    11, 12, 14, 15, 14, 15, 9, 8, 9, 14, 5, 6, 8, 6, 5, 12,
    9, 15, 5, 11, 6, 8, 13, 12, 5, 12, 13, 14, 11, 8, 5, 6,
    8, 9, 9, 11, 13, 15, 15, 5, 7, 7, 8, 11, 14, 14, 12, 6,
    9, 13, 15, 7, 12, 8, 9, 11, 7, 7, 12, 7, 6, 15, 13, 11,
    9, 7, 15, 11, 8, 6, 6, 14, 12, 13, 5, 14, 13, 13, 7, 5,
    15, 5, 8, 11, 14, 14, 6, 14, 6, 9, 12, 9, 12, 5, 15, 8,
    8, 5, 12, 9, 12, 5, 14, 6, 8, 13, 6, 5, 15, 13, 11, 11]"

definition KTab :: "u32 list" where
  "KTab = [0x00000000, 0x5a827999, 0x6ed9eba1, 0x8f1bbcdc, 0xa953fd4e, 0x50a28be6, 0x5c4dd124, 0x6d703ef3, 0x7a6d76e9, 0x00000000]"

definition min_f :: "nat \<Rightarrow> u32 \<Rightarrow> u32 \<Rightarrow> u32 \<Rightarrow> u32" where
  "min_f r = rmd_f (if r = 0 \<or> r = 9 then 0 else if r = 1 \<or> r = 8 then 1 else if r = 2 \<or> r = 7 then 2
                    else if r = 3 \<or> r = 6 then 3 else 4)"

type_synonym quintet = "u32 \<times> u32 \<times> u32 \<times> u32 \<times> u32"

definition min_step :: "u32 list \<Rightarrow> nat \<Rightarrow> quintet \<Rightarrow> quintet" where
  "min_step data pos = (\<lambda>(a, b, c, d, e).
     (let tmp = a + data ! (OrderTab ! pos) + KTab ! (pos div 16);
          tmp = tmp + min_f (pos div 16) b c d;
          tmp = word_rotl (RolTab ! pos) tmp + e
      in (e, tmp, b, word_rotl 10 c, d)))"

definition min_init :: "u32 list \<Rightarrow> quintet" where
  "min_init s = (s ! 0, s ! 1, s ! 2, s ! 3, s ! 4)"

text \<open>The loop saves its variables and starts again from the state after step 79.\<close>

definition min_saving :: "u32 list \<Rightarrow> u32 list \<Rightarrow> nat \<Rightarrow> quintet \<times> quintet \<Rightarrow> quintet \<times> quintet" where
  "min_saving state data pos = (\<lambda>(saved, now).
     let now = min_step data pos now in if pos = 79 then (now, min_init state) else (saved, now))"

definition RMD160Transform_min :: "u32 list \<Rightarrow> u32 list \<Rightarrow> u32 list" where
  "RMD160Transform_min state data =
     (let (first, second) =
            fold (min_saving state data) [0..<160] ((0, 0, 0, 0, 0), min_init state);
          (a2, b2, c2, d2, e2) = first; (a, b, c, d, e) = second
      in [state ! 1 + c2 + d, state ! 2 + d2 + e, state ! 3 + e2 + a, state ! 4 + a2 + b, state ! 0 + b2 + c])"

section \<open>The two builds compute the same function\<close>

text \<open>Step \<open>pos\<close> of the loop is the line of the table whose variables are those of the loop, renamed.\<close>

definition renamed :: "nat \<Rightarrow> u32 list \<Rightarrow> quintet" where
  "renamed p v = (v ! p, v ! ((p + 1) mod 5), v ! ((p + 2) mod 5), v ! ((p + 3) mod 5), v ! ((p + 4) mod 5))"

definition min_line :: "nat \<Rightarrow> nat \<times> nat \<times> nat \<times> nat \<times> nat" where
  "min_line pos = (let r = pos div 16 in (if r < 5 then r else 9 - r, (400 - pos) mod 5, OrderTab ! pos, RolTab ! pos, r))"

lemma min_lines: "rmd_lines1 = map min_line [0..<80]" "rmd_lines2 = map min_line [80..<160]"
  by code_simp+

lemma min_tables: "\<forall>pos\<in>set [0..<160]. 0 < RolTab ! pos \<and> RolTab ! pos < 32" "KTab = rmd_k"
  by code_simp+

lemma min_f_rmd_f: "r < 10 \<Longrightarrow> min_f r = rmd_f (if r < 5 then r else 9 - r)"
  by (auto simp: min_f_def numeral_eq_Suc less_Suc_eq)

lemma rotlFixed_rotl: "0 < n \<Longrightarrow> n < 32 \<Longrightarrow> rotlFixed x n = word_rotl n x"
  by (simp add: rotlFixed_def word_rotl_shift)

lemma length_Subround [simp]: "length (Subround X line v) = length v"
  by (simp add: Subround_def Let_def split_beta)

lemma min_step_renamed:
  assumes "length v = 5" "pos < 160"
  shows "renamed ((400 - Suc pos) mod 5) (Subround X (min_line pos) v) = min_step X pos (renamed ((400 - pos) mod 5) v)"
proof -
  obtain a b c d e where v: "v = [a, b, c, d, e]"
    using assms(1) by (auto simp: length_Suc_conv numeral_eq_Suc)
  have rol: "rotlFixed x (RolTab ! pos) = word_rotl (RolTab ! pos) x" "rotlFixed x 10 = word_rotl 10 x" for x
    using min_tables(1) assms(2) by (simp_all add: rotlFixed_rotl)
  have r: "min_f (pos div 16) = rmd_f (if pos div 16 < 5 then pos div 16 else 9 - pos div 16)"
    using assms(2) by (intro min_f_rmd_f) simp
  let ?p = "(400 - pos) mod 5"
  have p: "(400 - Suc pos) mod 5 = (?p + 4) mod 5"
  proof -
    have "400 - Suc pos + 5 = (400 - pos) + 4" using assms(2) by simp
    then show ?thesis by (metis mod_add_self2 mod_add_left_eq)
  qed
  have "?p < 5" by simp
  then consider "?p = 0" | "?p = 1" | "?p = 2" | "?p = 3" | "?p = 4" by linarith
  then show ?thesis unfolding p
    by cases (simp_all add: v renamed_def min_line_def min_step_def Subround_def Let_def rol r min_tables(2) ac_simps)
qed

lemma fold_min_renamed:
  assumes "length v = 5" "lo + n \<le> 160"
  shows "renamed ((400 - (lo + n)) mod 5) (fold (Subround X) (map min_line [lo..<lo + n]) v) =
      fold (min_step X) [lo..<lo + n] (renamed ((400 - lo) mod 5) v) \<and>
    length (fold (Subround X) (map min_line [lo..<lo + n]) v) = 5"
  using assms(2)
proof (induction n)
  case (Suc n)
  then show ?case using min_step_renamed [of "fold (Subround X) (map min_line [lo..<lo + n]) v" "lo + n" X] by simp
qed (simp add: assms(1))

text \<open>The saved variables are those after step 79, the others run from the state on.\<close>

lemma fold_saved:
  assumes "79 \<notin> set ps"
  shows "fold (min_saving state X) ps (s, n) = (s, fold (min_step X) ps n)"
  using assms by (induction ps arbitrary: n) (simp_all add: min_saving_def Let_def)

lemma RMD160Transform_builds:
  assumes "length state = 5"
  shows "RMD160Transform_min state data = RMD160Transform state data"
proof -
  obtain a b c d e where state: "state = [a, b, c, d, e]"
    using assms by (auto simp: length_Suc_conv numeral_eq_Suc)
  let ?run = "\<lambda>lo. fold (Subround data) (map min_line [lo..<lo + 80]) state"
  have start: "renamed 0 v = min_init v" for v by (simp add: renamed_def min_init_def numeral_2_eq_2)
  have run: "min_init (?run lo) = fold (min_step data) [lo..<lo + 80] (min_init state)" if "lo = 0 \<or> lo = 80" for lo
    using that fold_min_renamed [OF assms, of 0 80 data] fold_min_renamed [OF assms, of 80 80 data]
    by (auto simp: start simp del: upt_rec_numeral)
  have upt: "[0..<160] = [0..<79] @ [79] @ [80..<160]" "[0..<0 + 80] = [0..<79] @ [79]" "[80..<80 + 80] = [80..<160]"
    by code_simp+
  have saved: "fold (min_saving state data) [0..<160] (z, min_init state) =
      (fold (min_step data) [0..<0 + 80] (min_init state), fold (min_step data) [80..<80 + 80] (min_init state))" for z
    unfolding upt by (simp add: fold_saved min_saving_def Let_def del: upt_rec_numeral)
  have "[0..<0 + 80] = [0..<80]" "[80..<80 + 80] = [80..<160]" by simp_all
  then show ?thesis
    unfolding RMD160Transform_min_def saved run [OF disjI1 [OF refl], symmetric] run [OF disjI2 [OF refl], symmetric]
    by (simp only: RMD160Transform_def rmd_combine_def min_lines min_init_def Let_def prod.case)
qed

section \<open>Updates and padding\<close>

record RMD160_CTX =
  rmd_state :: "u32 list"
  rmd_count :: u64
  rmd_buffer :: bytes

definition rmd_iv :: "u32 list" where
  "rmd_iv = [0x67452301, 0xefcdab89, 0x98badcfe, 0x10325476, 0xc3d2e1f0]"

definition RMD160Init :: "RMD160_CTX \<Rightarrow> RMD160_CTX" where
  "RMD160Init ctx = ctx\<lparr>rmd_count := 0, rmd_state := rmd_iv\<rparr>"

definition rmd_block :: "u32 list \<Rightarrow> bytes \<Rightarrow> u32 list" where
  "rmd_block state buffer = RMD160Transform state (words_at 0 16 buffer)"

text \<open>The loop over the chunks of 64 bytes.\<close>

fun rmd_chunks :: "RMD160_CTX \<Rightarrow> bytes \<Rightarrow> nat \<Rightarrow> RMD160_CTX \<times> bytes \<times> nat" where
  "rmd_chunks ctx input len =
     (if 64 \<le> len
      then rmd_chunks (ctx\<lparr>rmd_state := rmd_block (rmd_state ctx) (take 64 input)\<rparr>) (drop 64 input) (len - 64)
      else (ctx, input, len))"

declare rmd_chunks.simps [simp del]

text \<open>The remaining bytes go to the buffer.\<close>

definition rmd_finish :: "RMD160_CTX \<times> bytes \<times> nat \<Rightarrow> nat \<Rightarrow> RMD160_CTX" where
  "rmd_finish = (\<lambda>(ctx, input, len) hv.
     if len \<noteq> 0 then ctx\<lparr>rmd_buffer := put_at hv (take len input) (rmd_buffer ctx)\<rparr> else ctx)"

definition RMD160Update :: "RMD160_CTX \<Rightarrow> bytes \<Rightarrow> u32 \<Rightarrow> RMD160_CTX" where
  "RMD160Update ctx input lenArg =
     (let len = unat lenArg;
          hv = unat (drop_bit 3 (rmd_count ctx) AND 63);
          need = 64 - hv;
          ctx = ctx\<lparr>rmd_count := rmd_count ctx + push_bit 3 (ucast lenArg)\<rparr>
      in if need \<le> len then
           (if hv \<noteq> 0 then
              let buffer = put_at hv (take need input) (rmd_buffer ctx);
                  ctx = ctx\<lparr>rmd_buffer := buffer, rmd_state := rmd_block (rmd_state ctx) buffer\<rparr>
              in rmd_finish (rmd_chunks ctx (drop need input) (len - need)) 0
            else rmd_finish (rmd_chunks ctx input len) hv)
         else rmd_finish (ctx, input, len) hv)"

definition rmd_padding :: bytes where
  "rmd_padding = 0x80 # replicate 63 0"

definition RMD160Pad :: "RMD160_CTX \<Rightarrow> RMD160_CTX" where
  "RMD160Pad ctx =
     (let count = word_to_le 8 (rmd_count ctx);
          padlen = 64 - ucast (drop_bit 3 (rmd_count ctx) AND 63) :: u32;
          padlen = (if padlen < 1 + 8 then padlen + 64 else padlen)
      in RMD160Update (RMD160Update ctx rmd_padding (padlen - 8)) count 8)"

definition RMD160Final :: "RMD160_CTX \<Rightarrow> bytes \<times> RMD160_CTX" where
  "RMD160Final ctx =
     (concat (map (\<lambda>i. word_to_le 4 (rmd_state (RMD160Pad ctx) ! i)) [0..<5]),
      \<lparr>rmd_state = replicate 5 0, rmd_count = 0, rmd_buffer = replicate 64 0\<rparr>)"

text \<open>The invariant: the context has absorbed the message \<open>m\<close>.\<close>

definition rmd_absorbed :: "bytes \<Rightarrow> RMD160_CTX \<Rightarrow> bool" where
  "rmd_absorbed m ctx \<longleftrightarrow>
     rmd_state ctx = fst (absorb rmd_block 64 rmd_iv m) \<and>
     holds 64 (rmd_buffer ctx) (snd (absorb rmd_block 64 rmd_iv m)) \<and> rmd_count ctx = word_of_nat (8 * length m)"

lemma RMD160Init_absorbed: "length (rmd_buffer ctx) = 64 \<Longrightarrow> rmd_absorbed [] (RMD160Init ctx)"
  by (simp add: rmd_absorbed_def RMD160Init_def absorb_def holds_Nil)

lemma rmd_chunks_absorb:
  "len \<le> length input \<Longrightarrow>
   rmd_chunks ctx input len =
     (ctx\<lparr>rmd_state := fst (absorb rmd_block 64 (rmd_state ctx) (take len input))\<rparr>,
      drop (64 * (len div 64)) input, len mod 64)"
proof (induction ctx input len rule: rmd_chunks.induct)
  case (1 ctx input len)
  show ?case
  proof (cases "64 \<le> len")
    case True
    then have "take len input = take 64 input @ take (len - 64) (drop 64 input)"
      by (metis le_add_diff_inverse take_add)
    moreover have "len div 64 = Suc ((len - 64) div 64)" "len mod 64 = (len - 64) mod 64"
      using True by (simp_all add: le_div_geq le_mod_geq)
    ultimately show ?thesis
      using 1 True absorb_block [of 64 "take 64 input" rmd_block "rmd_state ctx" "take (len - 64) (drop 64 input)"]
      by (subst rmd_chunks.simps) (simp add: add.commute)
  next
    case False
    then show ?thesis by (subst rmd_chunks.simps) (simp add: absorb_def)
  qed
qed

lemma count_mod: "unat (drop_bit 3 (word_of_nat (8 * n) :: u64) AND 63) = n mod 64"
proof -
  have "w AND 63 = take_bit 6 w" for w :: u64
    by (simp add: take_bit_eq_mask mask_eq_exp_minus_1)
  then have "unat (w AND 63) = unat w mod 64" for w :: u64
    by (simp add: unsigned_take_bit_eq take_bit_eq_mod unat_mod)
  moreover have "8 * n mod 2 ^ 64 = 8 * (n mod 2 ^ 61)"
    using mult_mod_right [of 8 n "2 ^ 61"] by simp
  moreover have "n mod 2 ^ 61 mod 64 = n mod (64 :: nat)"
    by (rule mod_mod_cancel) simp
  moreover have "unat (drop_bit 3 (word_of_nat (8 * n) :: u64)) = 8 * n mod 2 ^ 64 div 8"
    by (simp only: unat_drop_bit_eq) (simp add: drop_bit_eq_div unat_of_nat del: of_nat_mult)
  ultimately show ?thesis by simp
qed

text \<open>The chunks and the bytes after them, with an empty buffer.\<close>

lemma rmd_finish_chunks:
  assumes "len \<le> length input" "length (rmd_buffer ctx) = 64"
  defines "a \<equiv> absorb rmd_block 64 (rmd_state ctx) (take len input)"
  shows "rmd_state (rmd_finish (rmd_chunks ctx input len) 0) = fst a \<and>
    holds 64 (rmd_buffer (rmd_finish (rmd_chunks ctx input len) 0)) (snd a) \<and>
    rmd_count (rmd_finish (rmd_chunks ctx input len) 0) = rmd_count ctx"
proof -
  have "snd a = take (len mod 64) (drop (64 * (len div 64)) input)"
    using assms(1) by (simp add: a_def absorb_def drop_take minus_mult_div_eq_mod)
  moreover have "length (take (len mod 64) (drop (64 * (len div 64)) input)) = len mod 64"
  proof -
    have "len mod 64 + 64 * (len div 64) = len" by simp
    then have "len mod 64 \<le> length input - 64 * (len div 64)" using assms(1) by linarith
    then show ?thesis by simp
  qed
  ultimately have "holds 64 (put_at 0 (take (len mod 64) (drop (64 * (len div 64)) input)) (rmd_buffer ctx)) (snd a)"
    using holds_put [of 64 "rmd_buffer ctx" "[]" "snd a"] assms(2) by (simp add: holds_Nil)
  moreover have "snd a = []" if "len mod 64 = 0" using that \<open>snd a = _\<close> by simp
  ultimately show ?thesis
    using assms(2) by (auto simp: rmd_finish_def rmd_chunks_absorb [OF assms(1)] a_def holds_Nil)
qed

lemma RMD160Update_absorbed:
  assumes inv: "rmd_absorbed m ctx" and len: "unat lenArg \<le> length input"
  shows "rmd_absorbed (m @ take (unat lenArg) input) (RMD160Update ctx input lenArg)"
proof -
  define c where "c = rmd_count ctx + push_bit 3 (ucast lenArg)"
  let ?l = "unat lenArg"
  let ?d = "take ?l input"
  obtain s t where st: "absorb rmd_block 64 rmd_iv m = (s, t)" by force
  have t: "length t = length m mod 64" using length_absorb_tail [of rmd_block 64 rmd_iv m] st by simp
  have s: "rmd_state ctx = s" and buf: "holds 64 (rmd_buffer ctx) t" using inv st by (simp_all add: rmd_absorbed_def)
  have hv: "unat (drop_bit 3 (rmd_count ctx) AND 63) = length t"
    using inv count_mod [of "length m"] by (simp add: rmd_absorbed_def t)
  have count: "c = word_of_nat (8 * length (m @ ?d))"
    using inv len by (simp add: c_def rmd_absorbed_def push_bit_eq_mult mult.commute)
  have new: "absorb rmd_block 64 rmd_iv (m @ ?d) = absorb rmd_block 64 s (t @ ?d)"
    by (rule absorb_append [OF _ st]) simp
  have n: "length t < 64" by (simp add: t)
  note upd = RMD160Update_def Let_def hv c_def [symmetric]
  note goal = rmd_absorbed_def new count [symmetric]
  consider (short) "?l < 64 - length t" | (full) "64 - length t \<le> ?l" "t \<noteq> []" | (empty) "64 \<le> ?l" "t = []"
    by fastforce
  then show ?thesis
  proof cases
    case short
    have "RMD160Update ctx input lenArg = rmd_finish (ctx\<lparr>rmd_count := c\<rparr>, input, ?l) (length t)"
      using short unfolding upd by simp
    moreover have "holds 64 (put_at (length t) ?d (rmd_buffer ctx)) (t @ ?d)"
      using holds_put [OF buf, of ?d] short len by simp
    moreover have "absorb rmd_block 64 s (t @ ?d) = (s, t @ ?d)" using short len by (intro absorb_short) simp
    ultimately show ?thesis unfolding goal
      using buf by (auto simp: rmd_finish_def s)
  next
    case full
    let ?n = "64 - length t"
    let ?b = "put_at (length t) (take ?n input) (rmd_buffer ctx)"
    let ?ctx = "ctx\<lparr>rmd_count := c, rmd_buffer := ?b, rmd_state := rmd_block s ?b\<rparr>"
    have "RMD160Update ctx input lenArg = rmd_finish (rmd_chunks ?ctx (drop ?n input) (?l - ?n)) 0"
      using full unfolding upd by (simp add: s)
    moreover have b: "?b = t @ take ?n input" "length ?b = 64"
      using holds_full [OF holds_put [OF buf, of "take ?n input"]] full len n by auto
    moreover have "t @ ?d = ?b @ take (?l - ?n) (drop ?n input)"
      using full len by (simp add: b(1) flip: take_add)
    ultimately show ?thesis unfolding goal
      using rmd_finish_chunks [of "?l - ?n" "drop ?n input" ?ctx] len
        absorb_block [OF _ b(2), of rmd_block s "take (?l - ?n) (drop ?n input)"]
      by simp
  next
    case empty
    have "RMD160Update ctx input lenArg = rmd_finish (rmd_chunks (ctx\<lparr>rmd_count := c\<rparr>) input ?l) 0"
      using empty unfolding upd by simp
    then show ?thesis unfolding goal
      using rmd_finish_chunks [OF len, of "ctx\<lparr>rmd_count := c\<rparr>"] buf empty(2) by (simp add: s holds_Nil)
  qed
qed

section \<open>The digest\<close>

text \<open>
  RIPEMD-160 of a message: the message, a byte \<open>0x80\<close>, zeros up to 56 modulo 64 bytes, and the length in
  bits as 8 bytes.
\<close>

definition rmd_pad :: "nat \<Rightarrow> bytes" where
  "rmd_pad n = 0x80 # replicate ((119 - n mod 64) mod 64) 0 @ word_to_le 8 (word_of_nat (8 * n) :: u64)"

definition rmd_hash :: "bytes \<Rightarrow> bytes" where
  "rmd_hash m =
     (let p = m @ rmd_pad (length m); s = md_blocks rmd_block 64 (length p div 64) rmd_iv p
      in concat (map (word_to_le 4) s))"

lemma pad_zeros:
  fixes h :: nat
  assumes "h < 64"
  shows "(119 - h) mod 64 = (if h < 56 then 55 - h else 119 - h)"
proof (cases "h < 56")
  case True
  then have "119 - h = (55 - h) + 64" by linarith
  then have "(119 - h) mod 64 = (55 - h) mod 64" by (simp only: mod_add_self2)
  then show ?thesis using True by simp
qed (use assms in simp)

lemma rmd_pad_length: "(n + length (rmd_pad n)) mod 64 = 0"
proof -
  let ?h = "n mod 64"
  have h: "?h < 64" by simp
  have "(?h + (1 + (119 - ?h) mod 64 + 8)) mod 64 = 0"
    using h unfolding pad_zeros [OF h] by (cases "?h < 56") simp_all
  then have "(n + (1 + (119 - ?h) mod 64 + 8)) mod 64 = 0" by (simp add: mod_add_left_eq)
  then show ?thesis by (simp add: rmd_pad_def)
qed

lemma unat_pad_len:
  fixes w :: u32
  assumes "unat w < 64"
  shows "unat ((let p = 64 - w in if p < 1 + 8 then p + 64 else p) - 8) = 1 + (119 - unat w) mod 64"
proof -
  have p: "unat (64 - w) = 64 - unat w" using assms by (simp add: unat_sub word_le_nat_alt)
  have c: "64 - w < 1 + 8 \<longleftrightarrow> 56 \<le> unat w" using assms by (simp add: word_less_nat_alt p) linarith
  show ?thesis
  proof (cases "unat w < 56")
    case True
    then have "unat (64 - w - 8) = 56 - unat w" by (simp add: unat_sub word_le_nat_alt p)
    then show ?thesis using True c by (simp add: pad_zeros [OF assms] Let_def)
  next
    case False
    have a: "unat (64 - w + 64) = 128 - unat w" using assms by (simp add: unat_sub word_le_nat_alt)
    then have "unat (64 - w + 64 - 8) = 120 - unat w" using False assms by (simp add: unat_sub word_le_nat_alt)
    moreover have "120 - unat w = Suc (119 - unat w)" using assms by linarith
    ultimately show ?thesis using False c by (simp add: pad_zeros [OF assms] Let_def)
  qed
qed

lemma RMD160Pad_absorbed:
  assumes "rmd_absorbed m ctx"
  shows "rmd_absorbed (m @ rmd_pad (length m)) (RMD160Pad ctx)"
proof -
  let ?h = "length m mod 64"
  let ?w = "ucast (drop_bit 3 (rmd_count ctx) AND 63) :: u32"
  define p where "p = (let p = 64 - ?w in if p < 1 + 8 then p + 64 else p) - 8"
  let ?z = "0x80 # replicate ((119 - ?h) mod 64) 0 :: bytes" and ?c = "word_to_le 8 (rmd_count ctx)"
  have hv: "unat (drop_bit 3 (rmd_count ctx) AND 63) = ?h"
    using assms count_mod [of "length m"] by (simp add: rmd_absorbed_def)
  have w: "unat ?w = ?h"
    by (simp only: unsigned_ucast_eq hv) (simp add: take_bit_eq_mod less_trans [of _ 64])
  have p: "unat p = 1 + (119 - ?h) mod 64" unfolding p_def by (rule unat_pad_len [of ?w, unfolded w]) simp
  have "(119 - ?h) mod 64 < 64" by simp
  then have z: "unat p \<le> length rmd_padding" "take (unat p) rmd_padding = ?z"
    by (simp_all add: p rmd_padding_def min_def)
  have "rmd_absorbed (m @ ?z) (RMD160Update ctx rmd_padding p)"
    using RMD160Update_absorbed [OF assms z(1)] unfolding z(2) .
  then have "rmd_absorbed ((m @ ?z) @ take (unat (8 :: u32)) ?c) (RMD160Update (RMD160Update ctx rmd_padding p) ?c 8)"
    by (rule RMD160Update_absorbed) simp
  moreover have "rmd_count ctx = word_of_nat (8 * length m)" using assms by (simp add: rmd_absorbed_def)
  ultimately show ?thesis by (simp add: RMD160Pad_def rmd_pad_def p_def Let_def)
qed

lemma length_md_blocks:
  "(\<And>s b. length s = n \<Longrightarrow> length (f s b) = n) \<Longrightarrow> length h = n \<Longrightarrow> length (md_blocks f B k h m) = n"
  by (induction k arbitrary: h m) simp_all

theorem RMD160Final_hash:
  assumes "rmd_absorbed m ctx"
  shows "fst (RMD160Final ctx) = rmd_hash m"
proof -
  let ?p = "m @ rmd_pad (length m)"
  have s: "rmd_state (RMD160Pad ctx) = md_blocks rmd_block 64 (length ?p div 64) rmd_iv ?p"
    using RMD160Pad_absorbed [OF assms] by (simp add: rmd_absorbed_def absorb_def)
  have "length (rmd_state (RMD160Pad ctx)) = 5"
    unfolding s by (rule length_md_blocks) (simp_all add: rmd_block_def RMD160Transform_def rmd_combine_def rmd_iv_def)
  then have "map (\<lambda>i. word_to_le 4 (rmd_state (RMD160Pad ctx) ! i)) [0..<5] = map (word_to_le 4) (rmd_state (RMD160Pad ctx))"
    by (intro nth_equalityI) simp_all
  then show ?thesis by (simp add: RMD160Final_def rmd_hash_def s Let_def)
qed

end
