(* ===== verification/Sha_Core.thy ===== *)
theory Sha_Core
  imports Hash_Blocks
begin

text \<open>
  What Crypto/Sha1.c and Crypto/Sha2.c share: the context, the update loop and the padding are the same
  code for 32-bit and 64-bit words, with the compression function and the byte swap of the word as
  parameters. \<open>Sha1\<close> and \<open>Sha2\<close> instantiate them. Shown here: the updates absorb the message and
  the end computes the digest of the padded message; the message schedule in the ring of 16 words is the
  expanded schedule of the standard.
\<close>

unbundle bit_operations_syntax

section \<open>Words in memory\<close>

text \<open>An array of words as the bytes of memory it occupies, on a little-endian platform, and back.\<close>

definition word_bytes :: "'w::len word itself \<Rightarrow> nat" where
  "word_bytes _ = LENGTH('w) div 8"

definition mem_of :: "'w::len word list \<Rightarrow> bytes" where
  "mem_of ws = concat (map (word_to_le (word_bytes TYPE('w word))) ws)"

definition of_mem :: "nat \<Rightarrow> bytes \<Rightarrow> 'w::len word list" where
  "of_mem n b = map (\<lambda>i. le_to_word (get_at (word_bytes TYPE('w word) * i) (word_bytes TYPE('w word)) b)) [0..<n]"

text \<open>The bytes of an array of words, most significant byte first: how the standard reads a block.\<close>

definition be_bytes :: "'w::len word list \<Rightarrow> bytes" where
  "be_bytes ws = concat (map (word_to_be (word_bytes TYPE('w word))) ws)"

definition be_words :: "nat \<Rightarrow> bytes \<Rightarrow> 'w::len word list" where
  "be_words n b = map (\<lambda>i. be_to_word (get_at (word_bytes TYPE('w word) * i) (word_bytes TYPE('w word)) b)) [0..<n]"

section \<open>The context and its operations\<close>

record 'x sha_ctx =
  sha_count0 :: 'x
  sha_count1 :: 'x
  sha_state :: "'x list"
  sha_wbuf :: "'x list"

text \<open>\<open>bsw (p, n)\<close>: the first \<open>n\<close> words are byte-swapped in place.\<close>

definition sha_bsw :: "('w::len word \<Rightarrow> 'w word) \<Rightarrow> nat \<Rightarrow> 'w word list \<Rightarrow> 'w word list" where
  "sha_bsw bswap n p = map bswap (take n p) @ drop n p"

text \<open>\<open>memcpy (((unsigned char *) wbuf) + pos, sp, n)\<close>.\<close>

definition sha_copy :: "nat \<Rightarrow> bytes \<Rightarrow> nat \<Rightarrow> 'w::len word sha_ctx \<Rightarrow> 'w word sha_ctx" where
  "sha_copy pos sp n ctx =
     ctx\<lparr>sha_wbuf := of_mem (length (sha_wbuf ctx)) (put_at pos (take n sp) (mem_of (sha_wbuf ctx)))\<rparr>"

text \<open>A compression function takes the hash value and the words of the buffer and leaves both changed.\<close>

type_synonym 'x sha_compile = "'x list \<Rightarrow> 'x list \<Rightarrow> 'x list \<times> 'x list"

definition sha_run :: "'w::len word sha_compile \<Rightarrow> 'w word sha_ctx \<Rightarrow> 'w word sha_ctx" where
  "sha_run compile ctx =
     (let (h, w) = compile (sha_state ctx) (sha_wbuf ctx) in ctx\<lparr>sha_state := h, sha_wbuf := w\<rparr>)"

text \<open>
  The loop of the update function: \<open>B\<close> is the block size. The guard \<open>0 < space\<close> stands for the fact that
  the caller computes \<open>space\<close> as \<open>B - pos\<close> with \<open>pos < B\<close>.
\<close>

fun sha_loop ::
  "nat \<Rightarrow> ('w::len word \<Rightarrow> 'w word) \<Rightarrow> 'w word sha_compile \<Rightarrow> 'w word sha_ctx \<Rightarrow> nat \<Rightarrow> nat \<Rightarrow> bytes \<Rightarrow> nat \<Rightarrow>
    'w word sha_ctx \<times> nat \<times> bytes \<times> nat" where
  "sha_loop B bswap compile ctx pos space sp len =
     (if space \<le> len \<and> 0 < space then
        let ctx = sha_copy pos sp space ctx;
            ctx = ctx\<lparr>sha_wbuf := sha_bsw bswap (B div word_bytes TYPE('w word)) (sha_wbuf ctx)\<rparr>
        in sha_loop B bswap compile (sha_run compile ctx) 0 B (drop space sp) (len - space)
      else (ctx, pos, sp, len))"

declare sha_loop.simps [simp del]

definition sha_update ::
  "nat \<Rightarrow> ('w::len word \<Rightarrow> 'w word) \<Rightarrow> 'w word sha_compile \<Rightarrow> bytes \<Rightarrow> u32 \<Rightarrow> 'w word sha_ctx \<Rightarrow> 'w word sha_ctx" where
  "sha_update B bswap compile data len ctx =
     (let pos = unat (sha_count0 ctx AND word_of_nat (B - 1));
          space = B - pos;
          c0 = sha_count0 ctx + ucast len;
          ctx = ctx\<lparr>sha_count0 := c0\<rparr>;
          ctx = (if c0 < ucast len then ctx\<lparr>sha_count1 := sha_count1 ctx + 1\<rparr> else ctx);
          (ctx, pos, sp, len) = sha_loop B bswap compile ctx pos space data (unat len)
      in sha_copy pos sp len ctx)"

text \<open>
  The padding: \<open>keep\<close> is the mask of the word that takes the first padding byte, before the shift;
  \<open>~i & 3\<close> of the source is the distance of byte \<open>i\<close> from the end of its word.
\<close>

definition sha_pad_word :: "'w::len word \<Rightarrow> nat \<Rightarrow> 'w word \<Rightarrow> 'w word" where
  "sha_pad_word keep i w =
     (let W = word_bytes TYPE('w word); s = 8 * (W - 1 - i mod W)
      in (w AND push_bit s keep) OR push_bit s 0x80)"

definition sha_pad_first :: "('w::len word \<Rightarrow> 'w word) \<Rightarrow> 'w word \<Rightarrow> nat \<Rightarrow> 'w word list \<Rightarrow> 'w word list" where
  "sha_pad_first bswap keep i p =
     (let W = word_bytes TYPE('w word); w = sha_bsw bswap ((i + (W - 1)) div W) p
      in w[i div W := sha_pad_word keep i (w ! (i div W))])"

definition sha_finish ::
  "nat \<Rightarrow> ('w::len word \<Rightarrow> 'w word) \<Rightarrow> 'w word \<Rightarrow> 'w word sha_compile \<Rightarrow> 'w word sha_ctx \<Rightarrow> 'w word sha_ctx" where
  "sha_finish B bswap keep compile ctx =
     (let W = word_bytes TYPE('w word);
          i = unat (sha_count0 ctx AND word_of_nat (B - 1));
          ctx = ctx\<lparr>sha_wbuf := sha_pad_first bswap keep i (sha_wbuf ctx)\<rparr>;
          (ctx, i) =
            (if B - (2 * W + 1) < i then
               let ctx = (if i < 15 * W then ctx\<lparr>sha_wbuf := (sha_wbuf ctx)[15 := 0]\<rparr> else ctx)
               in (sha_run compile ctx, 0)
             else (ctx, i div W + 1));
          w = fold (\<lambda>i w. w[i := 0]) [i..<14] (sha_wbuf ctx);
          w = w[14 := push_bit 3 (sha_count1 ctx) OR drop_bit (LENGTH('w) - 3) (sha_count0 ctx)];
          w = w[15 := push_bit 3 (sha_count0 ctx)]
      in sha_run compile (ctx\<lparr>sha_wbuf := w\<rparr>))"

definition sha_output :: "nat \<Rightarrow> 'w::len word list \<Rightarrow> bytes" where
  "sha_output hlen h =
     (let W = word_bytes TYPE('w word)
      in map (\<lambda>i. ucast (drop_bit (8 * (W - 1 - i mod W)) (h ! (i div W)))) [0..<hlen])"

section \<open>Facts on words in memory\<close>

lemma length_concat_const: "(\<And>x. x \<in> set xs \<Longrightarrow> length (f x) = n) \<Longrightarrow> length (concat (map f xs)) = n * length xs"
  by (induction xs) simp_all

lemma length_mem_of [simp]: "length (mem_of (ws :: 'w::len word list)) = word_bytes TYPE('w word) * length ws"
  by (simp add: mem_of_def length_concat_const)

lemma length_be_bytes [simp]: "length (be_bytes (ws :: 'w::len word list)) = word_bytes TYPE('w word) * length ws"
  by (simp add: be_bytes_def length_concat_const)

lemma length_of_mem [simp]: "length (of_mem n b) = n"
  by (simp add: of_mem_def)

lemma length_be_words [simp]: "length (be_words n b) = n"
  by (simp add: be_words_def)

lemma be_bytes_simps [simp]:
  "be_bytes ([] :: 'w::len word list) = []"
  "be_bytes ((x :: 'w word) # xs) = word_to_be (word_bytes TYPE('w word)) x @ be_bytes xs"
  "be_bytes ((xs :: 'w word list) @ ys) = be_bytes xs @ be_bytes ys"
  by (simp_all add: be_bytes_def)

lemma of_mem_Suc:
  "of_mem (Suc n) b = (le_to_word (get_at 0 (word_bytes TYPE('w word)) b) :: 'w::len word) #
     of_mem n (drop (word_bytes TYPE('w word)) b)"
  by (simp add: of_mem_def upt_conv_Cons map_Suc_upt [symmetric] get_at_def comp_def add.commute del: upt_Suc)

lemma be_words_Suc:
  "be_words (Suc n) b = (be_to_word (get_at 0 (word_bytes TYPE('w word)) b) :: 'w::len word) #
     be_words n (drop (word_bytes TYPE('w word)) b)"
  by (simp add: be_words_def upt_conv_Cons map_Suc_upt [symmetric] get_at_def comp_def add.commute del: upt_Suc)

lemma mem_of_of_mem:
  assumes "8 * word_bytes TYPE('w word) \<le> LENGTH('w)" "length b = word_bytes TYPE('w word) * n"
  shows "mem_of (of_mem n b :: 'w::len word list) = b"
  using assms(2)
proof (induction n arbitrary: b)
  case (Suc n)
  let ?W = "word_bytes TYPE('w word)"
  have "mem_of (of_mem n (drop ?W b) :: 'w word list) = drop ?W b" using Suc by simp
  moreover have "word_to_le ?W (le_to_word (take ?W b) :: 'w word) = take ?W b"
    using Suc.prems assms(1) by (intro word_to_le_le_to_word) simp_all
  ultimately show ?case by (simp add: mem_of_def of_mem_Suc get_at_def)
qed (simp add: mem_of_def of_mem_def)

lemma be_words_be_bytes:
  assumes "LENGTH('w) \<le> 8 * word_bytes TYPE('w word)"
  shows "be_words (length ws) (be_bytes ws) = (ws :: 'w::len word list)"
proof (induction ws)
  case (Cons w ws)
  then show ?case using assms by (simp add: be_words_Suc get_at_def)
qed (simp add: be_words_def)

text \<open>Swapping the words read from memory is reading them with the most significant byte first.\<close>

definition swaps :: "('w::len word \<Rightarrow> 'w word) \<Rightarrow> bool" where
  "swaps bswap \<longleftrightarrow> (\<forall>w. bswap w = be_to_word (word_to_le (word_bytes TYPE('w word)) w))"

definition whole_bytes :: "'w::len word itself \<Rightarrow> bool" where
  "whole_bytes _ \<longleftrightarrow> LENGTH('w) = 8 * word_bytes TYPE('w word)"

lemma swap_to_be:
  assumes "swaps bswap" "whole_bytes TYPE('w::len word)"
  shows "word_to_be (word_bytes TYPE('w word)) (bswap w) = word_to_le (word_bytes TYPE('w word)) (w :: 'w word)"
  using assms by (simp add: swaps_def whole_bytes_def)

lemma be_bytes_swap:
  assumes "swaps bswap" "whole_bytes TYPE('w::len word)"
  shows "be_bytes (map bswap ws) = mem_of (ws :: 'w word list)"
  by (simp add: be_bytes_def mem_of_def comp_def swap_to_be [OF assms])

lemma swap_of_mem:
  assumes "swaps bswap" "whole_bytes TYPE('w::len word)" "length b = word_bytes TYPE('w word) * n"
  shows "map bswap (of_mem n b) = (be_words n b :: 'w word list)"
proof -
  have "be_bytes (map bswap (of_mem n b :: 'w word list)) = b"
    unfolding be_bytes_swap [OF assms(1,2)] using assms by (intro mem_of_of_mem) (simp_all add: whole_bytes_def)
  then have "be_words (length (map bswap (of_mem n b :: 'w word list))) b = map bswap (of_mem n b :: 'w word list)"
    using be_words_be_bytes [of "map bswap (of_mem n b :: 'w word list)"] assms(2) by (simp add: whole_bytes_def)
  then show ?thesis by simp
qed

section \<open>The digest of the standard\<close>

text \<open>
  The padded message is the message, a byte \<open>0x80\<close>, zeros, and the length in bits as two words; the
  digest is the front of the hash value after its blocks, from the initial value \<open>iv\<close>.
\<close>

definition sha_blk :: "'w::len word sha_compile \<Rightarrow> 'w word list \<Rightarrow> bytes \<Rightarrow> 'w word list" where
  "sha_blk compile h b = fst (compile h (be_words 16 b))"

definition sha_pad :: "'w::len word itself \<Rightarrow> nat \<Rightarrow> nat \<Rightarrow> bytes" where
  "sha_pad t B n =
     (let W = word_bytes t
      in 0x80 # replicate ((2 * B - 2 * W - 1 - n mod B) mod B) 0 @
         word_to_be W (word_of_nat (8 * n div 2 ^ LENGTH('w)) :: 'w word) @
         word_to_be W (word_of_nat (8 * n) :: 'w word))"

definition sha_digest :: "nat \<Rightarrow> 'w::len word sha_compile \<Rightarrow> 'w word list \<Rightarrow> nat \<Rightarrow> bytes \<Rightarrow> bytes" where
  "sha_digest B compile iv hlen m =
     (let p = m @ sha_pad TYPE('w word) B (length m)
      in take hlen (be_bytes (md_blocks (sha_blk compile) B (length p div B) iv p)))"

text \<open>The same with the compression function \<open>std\<close> of the standard, which takes the words of the block.\<close>

definition sha_standard_digest ::
  "nat \<Rightarrow> ('w::len word list \<Rightarrow> 'w word list \<Rightarrow> 'w word list) \<Rightarrow> 'w word list \<Rightarrow> nat \<Rightarrow> bytes \<Rightarrow> bytes" where
  "sha_standard_digest B std iv hlen m =
     (let p = m @ sha_pad TYPE('w word) B (length m)
      in take hlen (be_bytes (md_blocks (\<lambda>h b. std h (be_words 16 b)) B (length p div B) iv p)))"

text \<open>The invariant: the context has absorbed the message \<open>m\<close>.\<close>

definition sha_absorbed :: "nat \<Rightarrow> 'w::len word sha_compile \<Rightarrow> 'w word list \<Rightarrow> bytes \<Rightarrow> 'w word sha_ctx \<Rightarrow> bool" where
  "sha_absorbed B compile iv m ctx \<longleftrightarrow>
     sha_state ctx = fst (absorb (sha_blk compile) B iv m) \<and> length (sha_wbuf ctx) = 16 \<and>
     holds B (mem_of (sha_wbuf ctx)) (snd (absorb (sha_blk compile) B iv m)) \<and>
     sha_count0 ctx = word_of_nat (length m) \<and> sha_count1 ctx = word_of_nat (length m div 2 ^ LENGTH('w))"

lemma sha_copy_simps [simp]:
  "sha_count0 (sha_copy p sp n ctx) = sha_count0 ctx" "sha_count1 (sha_copy p sp n ctx) = sha_count1 ctx"
  "sha_state (sha_copy p sp n ctx) = sha_state ctx" "length (sha_wbuf (sha_copy p sp n ctx)) = length (sha_wbuf ctx)"
  by (simp_all add: sha_copy_def)

lemma sha_run_simps [simp]:
  "sha_count0 (sha_run c ctx) = sha_count0 ctx" "sha_count1 (sha_run c ctx) = sha_count1 ctx"
  "sha_state (sha_run c ctx) = fst (c (sha_state ctx) (sha_wbuf ctx))"
  "sha_wbuf (sha_run c ctx) = snd (c (sha_state ctx) (sha_wbuf ctx))"
  by (simp_all add: sha_run_def split_beta)

text \<open>The two counters are the length, and the carry of the source is that of the sum.\<close>

lemma count_carry:
  fixes c0 :: "'w::len word"
  assumes "c0 = word_of_nat n" "c1 = (word_of_nat (n div 2 ^ LENGTH('w)) :: 'w word)" "unat d = k"
  shows "c0 + d = word_of_nat (n + k) \<and>
    (if c0 + d < d then c1 + 1 else c1) = word_of_nat ((n + k) div 2 ^ LENGTH('w))"
proof -
  let ?M = "2 ^ LENGTH('w) :: nat"
  have k: "k < ?M" using assms(3) unsigned_less [of d] by blast
  have u0: "unat c0 = n mod ?M" by (simp add: assms(1) unat_of_nat)
  have s: "c0 + d = word_of_nat (n + k)" using assms by (simp flip: assms(3))
  then have us: "unat (c0 + d) = (n mod ?M + k) mod ?M" by (simp add: unat_of_nat mod_add_left_eq del: of_nat_add)
  have m: "n mod ?M < ?M" by simp
  have d: "(n + k) div ?M = n div ?M + (n mod ?M + k) div ?M"
  proof -
    have "n + k = (n mod ?M + k) + n div ?M * ?M" using div_mult_mod_eq [of n ?M] by linarith
    then have "(n + k) div ?M = ((n mod ?M + k) + n div ?M * ?M) div ?M" by (rule arg_cong)
    then show ?thesis by (simp only: div_mult_self1 power_not_zero zero_neq_numeral not_False_eq_True)
  qed
  define r where "r = n mod ?M"
  have "r < ?M" by (simp add: r_def)
  have "(r + k) mod ?M < k \<longleftrightarrow> ?M \<le> r + k" "(r + k) div ?M = (if ?M \<le> r + k then 1 else 0)"
  proof -
    consider "r + k < ?M" | "?M \<le> r + k" "r + k - ?M < ?M" using k \<open>r < ?M\<close> by linarith
    then have "((r + k) mod ?M < k \<longleftrightarrow> ?M \<le> r + k) \<and> (r + k) div ?M = (if ?M \<le> r + k then 1 else 0)"
    proof cases
      case 1
      then show ?thesis using \<open>r < ?M\<close> by simp
    next
      case 2
      then have "(r + k) mod ?M = r + k - ?M" "(r + k) div ?M = 1"
        by (simp_all only: le_mod_geq le_div_geq mod_less div_less)
      then show ?thesis using 2 \<open>r < ?M\<close> by auto
    qed
    then show "(r + k) mod ?M < k \<longleftrightarrow> ?M \<le> r + k" "(r + k) div ?M = (if ?M \<le> r + k then 1 else 0)"
      by blast+
  qed
  then have c: "c0 + d < d \<longleftrightarrow> ?M \<le> n mod ?M + k"
    and q: "(n mod ?M + k) div ?M = (if ?M \<le> n mod ?M + k then 1 else 0)"
    by (simp_all only: word_less_nat_alt us assms(3) r_def)
  show ?thesis unfolding d q using s c assms(2) by simp
qed

lemma bit_length_words:
  "push_bit 3 (word_of_nat (n div 2 ^ LENGTH('w))) OR drop_bit (LENGTH('w) - 3) (word_of_nat n) =
     (word_of_nat (8 * n div 2 ^ LENGTH('w)) :: 'w::len word)" if "3 \<le> LENGTH('w)"
proof (rule bit_word_eqI)
  fix k assume k: "k < LENGTH('w)"
  have shift: "bit (a div 2 ^ j) i \<longleftrightarrow> bit a (i + j)" for a i j :: nat
    by (simp flip: drop_bit_eq_div add: bit_drop_bit_eq add.commute)
  have eight: "bit (8 * a) i \<longleftrightarrow> 3 \<le> i \<and> bit a (i - 3)" for a i :: nat
    using bit_push_bit_iff [of 3 a i] by (simp add: push_bit_eq_mult mult.commute)
  show "bit (push_bit 3 (word_of_nat (n div 2 ^ LENGTH('w))) OR drop_bit (LENGTH('w) - 3) (word_of_nat n) :: 'w word) k
      \<longleftrightarrow> bit (word_of_nat (8 * n div 2 ^ LENGTH('w)) :: 'w word) k"
  proof (cases "k < 3")
    case True
    then have "k + LENGTH('w) - 3 < LENGTH('w)" using that by linarith
    then show ?thesis using k that True
      by (simp add: bit_or_iff bit_push_bit_iff bit_drop_bit_eq bit_of_nat_iff shift eight add.commute)
  next
    case False
    then have "\<not> LENGTH('w) - 3 + k < LENGTH('w)" "k - 3 + LENGTH('w) = k + LENGTH('w) - 3" "k - 3 < LENGTH('w)"
      using that k by simp_all
    then show ?thesis using k that False
      by (simp add: bit_or_iff bit_push_bit_iff bit_drop_bit_eq bit_of_nat_iff shift eight)
  qed
qed

lemma sha_output_take:
  assumes "whole_bytes TYPE('w::len word)" "hlen \<le> word_bytes TYPE('w word) * length (h :: 'w word list)"
  shows "sha_output hlen h = take hlen (be_bytes h)"
proof -
  let ?W = "word_bytes TYPE('w word)"
  have W: "0 < ?W" using assms(1) len_gt_0 [where 'a = 'w] by (simp add: whole_bytes_def)
  have nth: "be_bytes ws ! i = ucast (drop_bit (8 * (?W - 1 - i mod ?W)) (ws ! (i div ?W)))"
    if "i < ?W * length ws" for i and ws :: "'w word list"
    using that
  proof (induction ws arbitrary: i)
    case (Cons w ws)
    show ?case
    proof (cases "i < ?W")
      case True
      then show ?thesis by (simp add: nth_append word_to_be_def rev_nth nth_word_to_le)
    next
      case False
      then have "i div ?W = Suc ((i - ?W) div ?W)" "i mod ?W = (i - ?W) mod ?W"
        using W by (simp_all add: le_div_geq le_mod_geq)
      then show ?thesis using False Cons by (simp add: nth_append)
    qed
  qed simp
  show ?thesis
    using assms(2) by (intro nth_equalityI) (simp_all add: sha_output_def Let_def nth)
qed

lemma fold_zero_nth:
  "m < length w \<Longrightarrow> fold (\<lambda>i w. w[i := 0]) [j..<j + d] w ! m = (if j \<le> m \<and> m < j + d then 0 else w ! m)"
proof (induction d)
  case (Suc d)
  then show ?case by (cases "m = j + d") (auto simp: length_fold_update_idx)
qed auto

lemma fill_zeros:
  assumes "length w = 16" "j \<le> 14"
  shows "(fold (\<lambda>i w. w[i := 0]) [j..<14] w)[14 := hi, 15 := lo] = take j w @ replicate (14 - j) 0 @ [hi, lo]"
proof (rule nth_equalityI)
  show len: "length ((fold (\<lambda>i w. w[i := 0]) [j..<14] w)[14 := hi, 15 := lo]) = length (take j w @ replicate (14 - j) 0 @ [hi, lo])"
    using assms by (simp add: length_fold_update_idx)
  fix m assume "m < length ((fold (\<lambda>i w. w[i := 0]) [j..<14] w)[14 := hi, 15 := lo])"
  then have m: "m < 16" using assms by (simp add: length_fold_update_idx)
  have f: "fold (\<lambda>i w. w[i := 0]) [j..<14] w ! m = (if j \<le> m \<and> m < 14 then 0 else w ! m)" if "m < 14"
    using fold_zero_nth [of m w j "14 - j"] assms that by simp
  consider "m < j" "m < 14" | "j \<le> m" "m < 14" "m - j < 14 - j" | "m = 14" | "m = 15" "15 - j = Suc (14 - j)"
    using m assms(2) by linarith
  then show "(fold (\<lambda>i w. w[i := 0]) [j..<14] w)[14 := hi, 15 := lo] ! m = (take j w @ replicate (14 - j) 0 @ [hi, lo]) ! m"
    by cases (use assms f in \<open>simp_all add: nth_append length_fold_update_idx\<close>)
qed

lemma mem_of_take:
  "mem_of (take k (ws :: 'w::len word list)) = take (word_bytes TYPE('w word) * k) (mem_of ws)"
proof (induction ws arbitrary: k)
  case (Cons w ws)
  then show ?case by (cases k) (simp_all add: mem_of_def)
qed (simp add: mem_of_def)

lemma mem_of_nth:
  "k < length ws \<Longrightarrow> word_to_le (word_bytes TYPE('w word)) (ws ! k) =
     take (word_bytes TYPE('w word)) (drop (word_bytes TYPE('w word) * k) (mem_of (ws :: 'w::len word list)))"
proof (induction ws arbitrary: k)
  case (Cons w ws)
  then show ?case by (cases k) (simp_all add: mem_of_def)
qed simp

lemma be_bytes_zeros: "be_bytes (replicate n (0 :: 'w::len word)) = replicate (word_bytes TYPE('w word) * n) 0"
proof (induction n)
  case (Suc n)
  have "word_to_be (word_bytes TYPE('w word)) (0 :: 'w word) = replicate (word_bytes TYPE('w word)) 0"
    by (simp add: word_to_be_def word_to_le_def map_replicate_const rev_replicate)
  then show ?case using Suc by (simp add: replicate_add)
qed simp

section \<open>What the operations need of a compression function, and what they give\<close>

locale sha_engine =
  fixes B W :: nat and bswap :: "'w::len word \<Rightarrow> 'w word" and keep :: "'w word" and compile :: "'w word sha_compile"
  assumes whole: "whole_bytes TYPE('w word)"
    and bytes: "word_bytes TYPE('w word) = W"
    and block: "B = 16 * W"
    and wide: "4 \<le> W"
    and pow: "\<exists>k < LENGTH('w). B = 2 ^ k"
    and swap: "swaps bswap"
    and keep: "keep OR 0x80 = push_bit 7 (- 1)"
    and ring: "length w = 16 \<Longrightarrow> length (snd (compile h w)) = 16"
begin

abbreviation "absorbs \<equiv> absorb (sha_blk compile) B"

lemma B_pos: "0 < B"
  using block wide by simp

lemma length_w: "LENGTH('w) = 8 * W"
  using whole by (simp add: whole_bytes_def bytes)

lemma pos_mod: "unat (word_of_nat n AND word_of_nat (B - 1) :: 'w word) = n mod B"
proof -
  obtain k where k: "k < LENGTH('w)" "B = 2 ^ k" using pow by blast
  have "(word_of_nat (B - 1) :: 'w word) = mask k"
    by (simp add: k(2) mask_eq_exp_minus_1 of_nat_diff)
  then have "word_of_nat n AND word_of_nat (B - 1) = (take_bit k (word_of_nat n) :: 'w word)"
    by (simp only: take_bit_eq_mask)
  then have "unat (word_of_nat n AND word_of_nat (B - 1) :: 'w word) = take_bit k (take_bit LENGTH('w) n)"
    by (simp only: unsigned_take_bit_eq unat_of_nat flip: take_bit_eq_mod)
  then show ?thesis using k by (simp add: min_absorb1 flip: take_bit_eq_mod)
qed

lemma mem_of_copy:
  fixes ctx :: "'w word sha_ctx"
  assumes "length (sha_wbuf ctx) = 16" "p + n \<le> B" "n \<le> length sp"
  shows "mem_of (sha_wbuf (sha_copy p sp n ctx)) = put_at p (take n sp) (mem_of (sha_wbuf ctx))"
proof -
  have "length (put_at p (take n sp) (mem_of (sha_wbuf ctx))) = W * 16"
    using assms by (subst length_put_at) (simp_all add: bytes block)
  then show ?thesis
    using mem_of_of_mem [where 'w = 'w, of "put_at p (take n sp) (mem_of (sha_wbuf ctx))" 16] assms(1)
    by (simp add: sha_copy_def bytes length_w)
qed

lemma loop_absorb:
  fixes ctx :: "'w word sha_ctx"
  assumes "len \<le> length sp" "length t < B" "holds B (mem_of (sha_wbuf ctx)) t" "length (sha_wbuf ctx) = 16"
    "sha_loop B bswap compile ctx (length t) (B - length t) sp len = (c, p, sp', l)"
  defines "r \<equiv> sha_copy p sp' l c" and "a \<equiv> absorbs (sha_state ctx) (t @ take len sp)"
  shows "sha_state r = fst a \<and> length (sha_wbuf r) = 16 \<and> holds B (mem_of (sha_wbuf r)) (snd a) \<and>
    sha_count0 r = sha_count0 ctx \<and> sha_count1 r = sha_count1 ctx"
  using assms(1-5) unfolding r_def a_def
proof (induction len arbitrary: ctx t sp rule: less_induct)
  case (less len)
  let ?n = "B - length t"
  show ?case
  proof (cases "?n \<le> len")
    case False
    then have "c = ctx" "p = length t" "sp' = sp" "l = len"
      using less.prems(5) by (simp_all add: sha_loop.simps [of B bswap compile ctx])
    moreover have "absorbs (sha_state ctx) (t @ take len sp) = (sha_state ctx, t @ take len sp)"
      using False less.prems by (intro absorb_short) simp
    moreover have "holds B (put_at (length t) (take len sp) (mem_of (sha_wbuf ctx))) (t @ take len sp)"
      using holds_put [OF less.prems(3), of "take len sp"] False less.prems by simp
    ultimately show ?thesis using False less.prems by (simp add: mem_of_copy)
  next
    case True
    let ?c1 = "sha_copy (length t) sp ?n ctx"
    let ?c2 = "?c1\<lparr>sha_wbuf := sha_bsw bswap (B div W) (sha_wbuf ?c1)\<rparr>"
    have n: "length (take ?n sp) = ?n" using True less.prems by simp
    have b: "length (t @ take ?n sp) = B" using n less.prems by simp
    have "mem_of (sha_wbuf ?c1) = t @ take ?n sp"
      using holds_full [OF holds_put [OF less.prems(3), of "take ?n sp"]] n b less.prems True by (simp add: mem_of_copy)
    then have "sha_wbuf ?c1 = of_mem 16 (t @ take ?n sp)"
      using less.prems(3,4) True holds_full [OF holds_put [OF less.prems(3), of "take ?n sp"]] n b
      by (simp add: sha_copy_def)
    then have "sha_bsw bswap (B div W) (sha_wbuf ?c1) = map bswap (of_mem 16 (t @ take ?n sp))"
      using wide by (simp add: sha_bsw_def block bytes)
    also have "\<dots> = be_words 16 (t @ take ?n sp)"
      using b by (intro swap_of_mem [OF swap whole]) (simp add: block bytes)
    finally have w: "sha_wbuf ?c2 = be_words 16 (t @ take ?n sp)" by simp
    define d where "d = sha_run compile ?c2"
    have state: "sha_state d = sha_blk compile (sha_state ctx) (t @ take ?n sp)"
      using w by (simp add: sha_blk_def d_def)
    have counts: "sha_count0 d = sha_count0 ctx" "sha_count1 d = sha_count1 ctx" by (simp_all add: d_def)
    have len16: "length (sha_wbuf d) = 16" using w ring by (simp add: d_def)
    have hold: "holds B (mem_of (sha_wbuf d)) []" using len16 by (simp add: holds_Nil block bytes)
    have step: "sha_loop B bswap compile d (length ([] :: bytes)) (B - length ([] :: bytes)) (drop ?n sp) (len - ?n) = (c, p, sp', l)"
      using less.prems(2,5) True by (simp add: bytes sha_loop.simps [of B bswap compile ctx] Let_def d_def)
    have less_len: "len - ?n < len" "len - ?n \<le> length (drop ?n sp)"
      using less.prems True B_pos by simp_all
    have "t @ take len sp = (t @ take ?n sp) @ take (len - ?n) (drop ?n sp)"
      using True by (simp flip: take_add)
    then have "absorbs (sha_state ctx) (t @ take len sp) =
        absorbs (sha_blk compile (sha_state ctx) (t @ take ?n sp)) (take (len - ?n) (drop ?n sp))"
      using absorb_block [OF B_pos b] by simp
    then show ?thesis
      using less.IH [OF less_len(1) less_len(2) _ hold len16 step] B_pos by (simp add: state counts)
  qed
qed

lemma update_absorbed:
  assumes "sha_absorbed B compile iv m ctx" "unat len \<le> length data" "32 \<le> LENGTH('w)"
  shows "sha_absorbed B compile iv (m @ take (unat len) data) (sha_update B bswap compile data len ctx)"
proof -
  obtain s t where st: "absorbs iv m = (s, t)" by force
  have t: "length t = length m mod B" using length_absorb_tail [of "sha_blk compile" B iv m] st by simp
  have ctx: "sha_state ctx = s" "length (sha_wbuf ctx) = 16" "holds B (mem_of (sha_wbuf ctx)) t"
    "sha_count0 ctx = word_of_nat (length m)" "sha_count1 ctx = word_of_nat (length m div 2 ^ LENGTH('w))"
    using assms(1) st by (simp_all add: sha_absorbed_def)
  have hv: "unat (sha_count0 ctx AND word_of_nat (B - 1)) = length t"
    by (simp only: ctx(4) pos_mod t)
  define c0 where "c0 = sha_count0 ctx + ucast len"
  define ctx1 where "ctx1 = (if c0 < ucast len
      then ctx\<lparr>sha_count0 := c0\<rparr>\<lparr>sha_count1 := sha_count1 (ctx\<lparr>sha_count0 := c0\<rparr>) + 1\<rparr>
      else ctx\<lparr>sha_count0 := c0\<rparr>)"
  have "unat (ucast len :: 'w word) = unat len"
  proof -
    have "unat len < 2 ^ LENGTH(32)" by (rule unsigned_less)
    then have "unat len < 2 ^ LENGTH('w)"
      using power_increasing [OF assms(3), of "2 :: nat"] by simp
    then show ?thesis by (simp add: unsigned_ucast_eq take_bit_nat_eq_self)
  qed
  from count_carry [OF ctx(4,5) this]
  have cnt: "sha_count0 ctx1 = word_of_nat (length (m @ take (unat len) data))"
    "sha_count1 ctx1 = word_of_nat (length (m @ take (unat len) data) div 2 ^ LENGTH('w))"
    using assms(2) by (auto simp: ctx1_def Let_def c0_def)
  have keeps: "sha_state ctx1 = s" "sha_wbuf ctx1 = sha_wbuf ctx" using ctx(1) by (simp_all add: ctx1_def Let_def)
  obtain c p sp' l where loop: "sha_loop B bswap compile ctx1 (length t) (B - length t) data (unat len) = (c, p, sp', l)"
    by (metis prod_cases4)
  have "sha_update B bswap compile data len ctx = sha_copy p sp' l c"
    unfolding sha_update_def Let_def hv c0_def [symmetric] ctx1_def [symmetric] loop by simp
  moreover have "absorbs iv (m @ take (unat len) data) = absorbs s (t @ take (unat len) data)"
    by (rule absorb_append [OF B_pos st])
  moreover have "length t < B" using B_pos by (simp add: t)
  ultimately show ?thesis
    using loop_absorb [OF assms(2) _ _ _ loop] ctx keeps cnt by (simp add: sha_absorbed_def)
qed

lemma pad_word_bytes:
  "word_to_be W (sha_pad_word keep i w) = take (i mod W) (word_to_be W w) @ 0x80 # replicate (W - 1 - i mod W) 0"
proof (rule nth_equalityI)
  let ?r = "i mod W"
  let ?s = "8 * (W - 1 - ?r)"
  have r: "?r < W" using wide by simp
  then show "length (word_to_be W (sha_pad_word keep i w)) = length (take ?r (word_to_be W w) @ 0x80 # replicate (W - 1 - ?r) 0)"
    by simp
  have "sha_pad_word keep i w = (w AND push_bit ?s (keep OR 0x80)) OR push_bit ?s 0x80"
    unfolding sha_pad_word_def Let_def bytes by (rule bit_word_eqI) (auto simp: bit_simps)
  then have pad: "sha_pad_word keep i w = (w AND push_bit ?s (push_bit 7 (- 1))) OR push_bit ?s 0x80"
    unfolding keep .
  fix m assume "m < length (word_to_be W (sha_pad_word keep i w))"
  then have m: "m < W" by simp
  have nth: "word_to_be W x ! m = ucast (drop_bit (8 * (W - 1 - m)) x)" for x :: "'w word"
    using m by (simp add: word_to_be_def rev_nth nth_word_to_le)
  have b80: "bit (0x80 :: 'w word) k \<longleftrightarrow> k = 7" for k
    using length_w wide bit_push_bit_iff [of 7 "1 :: 'w word" k] by (auto simp: bit_1_iff)
  have high: "bit (push_bit 7 (- 1) :: 'w word) k \<longleftrightarrow> 7 \<le> k \<and> k < LENGTH('w)" for k
    by (simp only: bit_push_bit_iff) (auto simp: bit_minus_1_iff)
  have bits: "bit (sha_pad_word keep i w) n \<longleftrightarrow> (n < LENGTH('w) \<and> ?s + 7 \<le> n \<and> bit w n) \<or> (n = ?s + 7 \<and> n < LENGTH('w))" for n
    unfolding pad bit_or_iff bit_and_iff bit_push_bit_iff [of ?s] high b80 by (auto dest: bit_imp_le_length)
  show "word_to_be W (sha_pad_word keep i w) ! m = (take ?r (word_to_be W w) @ 0x80 # replicate (W - 1 - ?r) 0) ! m"
  proof (rule bit_word_eqI)
    fix b assume "b < LENGTH(8)"
    then have b: "b < 8" by simp
    have n: "8 * (W - 1 - m) + b < LENGTH('w)" using m b length_w by simp
    have top: "bit (0x80 :: u8) b \<longleftrightarrow> b = 7"
      using b bit_push_bit_iff [of 7 "1 :: u8" b] by (auto simp: bit_1_iff)
    consider "m < ?r" | "m = ?r" | "?r < m" by linarith
    then show "bit (word_to_be W (sha_pad_word keep i w) ! m) b \<longleftrightarrow> bit ((take ?r (word_to_be W w) @ 0x80 # replicate (W - 1 - ?r) 0) ! m) b"
    proof cases
      case 1
      then have "?s + 7 < 8 * (W - 1 - m) + b" using m r by simp
      then show ?thesis using 1 m b n r
        by (simp add: nth_append nth bit_ucast_iff bit_drop_bit_eq bits)
    next
      case 2
      then have "8 * (W - 1 - m) + b = ?s + b" by simp
      then have "bit (word_to_be W (sha_pad_word keep i w) ! m) b \<longleftrightarrow> b = 7"
        using b n by (auto simp: nth bit_ucast_iff bit_drop_bit_eq bits)
      then show ?thesis using 2 r top by (simp add: nth_append)
    next
      case 3
      then have "8 * (W - 1 - m) + b < ?s + 7" using m b r by simp
      then show ?thesis using 3 m b n r
        by (simp add: nth_append nth nth_Cons' bit_ucast_iff bit_drop_bit_eq bits)
    qed
  qed
qed

text \<open>The buffer after the first padding byte: the waiting bytes, the byte, and zeros to the end of its word.\<close>

lemma pad_front:
  assumes "length t < B" "holds B (mem_of ws) t" "length ws = 16"
  defines "k \<equiv> length t div W"
  defines "p \<equiv> sha_pad_first bswap keep (length t) ws"
  shows "be_bytes (take (Suc k) p) = t @ 0x80 # replicate (W * Suc k - Suc (length t)) 0" "k < 16" "length p = 16"
proof -
  let ?r = "length t mod W"
  define w where "w = sha_bsw bswap ((length t + (W - 1)) div W) ws"
  have p: "p = w[k := sha_pad_word keep (length t) (w ! k)]"
    by (simp add: p_def w_def k_def sha_pad_first_def bytes Let_def)
  have W: "0 < W" using wide by simp
  show k: "k < 16" using assms(1) W by (simp add: k_def block less_mult_imp_div_less)
  have lw: "length w = 16" using assms(3) by (simp add: w_def sha_bsw_def)
  then show "length p = 16" by (simp add: p)
  have i: "length t = W * k + ?r" by (simp add: k_def)
  have r: "?r < W" using W by simp
  have n: "(length t + (W - 1)) div W = (if ?r = 0 then k else Suc k)"
  proof (cases "?r = 0")
    case True
    then have "length t + (W - 1) = (W - 1) + W * k" using i by linarith
    then have "(length t + (W - 1)) div W = ((W - 1) + W * k) div W" by (rule arg_cong)
    also have "\<dots> = k" using W by (simp only: div_mult_self2) simp
    finally show ?thesis using True by simp
  next
    case False
    then have "length t + (W - 1) = (?r - 1) + W * Suc k" using i W by simp
    then have "(length t + (W - 1)) div W = ((?r - 1) + W * Suc k) div W" by (rule arg_cong)
    also have "\<dots> = Suc k" using W r by (simp only: div_mult_self2) simp
    finally show ?thesis using False by simp
  qed
  have t: "take (length t) (mem_of ws) = t" using assms(2) by (simp add: holds_def)
  have wd: "w = (if ?r = 0 then map bswap (take k ws) @ drop k ws else map bswap (take (Suc k) ws) @ drop (Suc k) ws)"
    unfolding w_def sha_bsw_def n by simp
  then have "take k w = map bswap (take k ws)" using k assms(3) by (simp add: take_map)
  then have low: "be_bytes (take k w) = take (W * k) t"
    using be_bytes_swap [OF swap whole, of "take k ws"] mem_of_take [of k ws] t i
    by (simp add: bytes) (metis le_add1 min.absorb1 take_take)
  have wk: "w ! k = (if ?r = 0 then ws ! k else bswap (ws ! k))"
    using k by (simp add: wd assms(3) nth_append)
  have "take ?r (word_to_be W (w ! k)) = take ?r (word_to_le W (ws ! k))"
    using swap_to_be [OF swap whole, of "ws ! k"] by (cases "?r = 0") (simp_all add: wk bytes)
  also have "\<dots> = take ?r (drop (W * k) (mem_of ws))"
    using mem_of_nth [of k ws] k assms(3) r by (simp add: bytes min_absorb1)
  also have "\<dots> = drop (W * k) t"
    using t i by (metis add_diff_cancel_left' take_drop drop_take)
  finally have mid: "take ?r (word_to_be W (w ! k)) = drop (W * k) t" .
  have z: "W - 1 - ?r = W * Suc k - Suc (length t)" using i by simp
  have "take (Suc k) p = take k w @ [sha_pad_word keep (length t) (w ! k)]"
    using k lw by (simp add: p take_Suc_conv_app_nth)
  then show "be_bytes (take (Suc k) p) = t @ 0x80 # replicate (W * Suc k - Suc (length t)) 0"
    unfolding z [symmetric] by (simp add: low bytes pad_word_bytes mid)
qed

text \<open>A block of words is compressed as the block of its bytes.\<close>

lemma compile_bytes: "length w = 16 \<Longrightarrow> fst (compile h w) = sha_blk compile h (be_bytes w)"
  using be_words_be_bytes [of w] by (simp add: sha_blk_def bytes length_w)

lemma absorb_one: "length b = B \<Longrightarrow> absorbs s b = (sha_blk compile s b, [])"
  using absorb_block [OF B_pos, of b "sha_blk compile" s "[]"] by (simp add: absorb_def)

lemma absorb_two:
  assumes "length b1 = B" "length b2 = B"
  shows "absorbs s (b1 @ b2) = (sha_blk compile (sha_blk compile s b1) b2, [])"
  using absorb_block [OF B_pos assms(1), of "sha_blk compile" s b2] absorb_one [OF assms(2)]
  by simp

lemma finish_absorbed:
  assumes "sha_absorbed B compile iv m ctx"
  defines "p \<equiv> m @ sha_pad TYPE('w word) B (length m)"
  shows "sha_state (sha_finish B bswap keep compile ctx) = md_blocks (sha_blk compile) B (length p div B) iv p"
proof -
  obtain s t where st: "absorbs iv m = (s, t)" by force
  have t: "length t = length m mod B" using length_absorb_tail [of "sha_blk compile" B iv m] st by simp
  have tB: "length t < B" using B_pos by (simp add: t)
  have ctx: "sha_state ctx = s" "length (sha_wbuf ctx) = 16" "holds B (mem_of (sha_wbuf ctx)) t"
    "sha_count0 ctx = word_of_nat (length m)" "sha_count1 ctx = word_of_nat (length m div 2 ^ LENGTH('w))"
    using assms(1) st by (simp_all add: sha_absorbed_def)
  have hv: "unat (sha_count0 ctx AND word_of_nat (B - 1)) = length t" by (simp only: ctx(4) pos_mod t)
  define hi where "hi = push_bit 3 (sha_count1 ctx) OR drop_bit (LENGTH('w) - 3) (sha_count0 ctx)"
  define lo where "lo = push_bit 3 (sha_count0 ctx)"
  have hi: "hi = word_of_nat (8 * length m div 2 ^ LENGTH('w))"
    unfolding hi_def ctx(4,5) using length_w wide by (intro bit_length_words) simp
  have lo: "lo = word_of_nat (8 * length m)" by (simp add: lo_def ctx(4) push_bit_eq_mult mult.commute)
  define k where "k = length t div W"
  define w where "w = sha_pad_first bswap keep (length t) (sha_wbuf ctx)"
  define z where "z = (2 * B - 2 * W - 1 - length m mod B) mod B"
  have front: "be_bytes (take (Suc k) w) = t @ 0x80 # replicate (W * Suc k - Suc (length t)) 0"
    "k < 16" "length w = 16" "length (take (Suc k) w) = Suc k"
    using pad_front [OF tB ctx(3,2)] by (simp_all add: w_def k_def)
  have i: "W * k \<le> length t" "length t < W * Suc k"
    using wide by (simp_all add: k_def dividend_less_times_div)
  define tail where "tail = word_to_be W hi @ word_to_be W lo"
  have pad: "absorbs iv p = absorbs s (t @ 0x80 # replicate z 0 @ tail)"
    using absorb_append [OF B_pos st, of "sha_pad TYPE('w word) B (length m)"]
    by (simp add: p_def sha_pad_def Let_def bytes z_def tail_def hi lo)
  have "sha_state (sha_finish B bswap keep compile ctx) = fst (absorbs s (t @ 0x80 # replicate z 0 @ tail))"
  proof (cases "k \<le> 13")
    case True
    then have k14: "W * Suc k \<le> W * 14" by (intro mult_le_mono2) simp
    have i14: "length t < 14 * W" using i(2) k14 by linarith
    then have le: "length t \<le> B - (2 * W + 1)" by (simp add: block)
    let ?w = "take (Suc k) w @ replicate (14 - Suc k) 0 @ [hi, lo]"
    have "(fold (\<lambda>i w. w[i := 0]) [Suc k..<14] w)[14 := hi, 15 := lo] = ?w"
      using True front(3) by (intro fill_zeros) simp_all
    then have "sha_state (sha_finish B bswap keep compile ctx) = fst (compile s ?w)"
      using le unfolding sha_finish_def bytes hv w_def [symmetric] k_def [symmetric] Let_def
      by (simp add: w_def [symmetric] k_def [symmetric] hi_def [symmetric] lo_def [symmetric] ctx(1))
    also have "\<dots> = sha_blk compile s (be_bytes ?w)" using front(4) True by (intro compile_bytes) simp
    also have be: "be_bytes ?w = t @ 0x80 # replicate z 0 @ tail"
    proof -
      have "2 * B - 2 * W - 1 - length m mod B = (14 * W - Suc (length t)) + B"
        unfolding t [symmetric] using i14 unfolding block by linarith
      then have "z = 14 * W - Suc (length t)" unfolding z_def by (simp only: mod_add_self2) (use wide in \<open>simp add: block\<close>)
      moreover have "W * Suc k - Suc (length t) + W * (14 - Suc k) = 14 * W - Suc (length t)"
        using i True by (simp add: diff_mult_distrib2)
      ultimately have "replicate z (0 :: u8) = replicate (W * Suc k - Suc (length t)) 0 @ replicate (W * (14 - Suc k)) 0"
        by (simp only: replicate_add [symmetric])
      then show ?thesis by (simp add: front(1) be_bytes_zeros bytes tail_def)
    qed
    finally have "sha_state (sha_finish B bswap keep compile ctx) = sha_blk compile s (t @ 0x80 # replicate z 0 @ tail)" .
    moreover have "length ?w = 16" using front(4) True by simp
    then have "length (be_bytes ?w) = B" by (simp only: length_be_bytes bytes) (simp add: block)
    ultimately show ?thesis using absorb_one [of "be_bytes ?w" s] by (simp only: be fst_conv)
  next
    case False
    then have k: "14 \<le> k" by simp
    then have "W * 14 \<le> W * k" by (rule mult_le_mono2)
    then have i14: "14 * W \<le> length t" using i(1) by linarith
    then have le: "B - (2 * W + 1) < length t" using wide by (simp add: block)
    let ?w1 = "take (Suc k) w @ replicate (15 - k) 0" and ?w2 = "replicate 14 0 @ [hi, lo]"
    have w1: "(if length t < 15 * W then w[15 := 0] else w) = ?w1"
    proof (cases "k = 14")
      case True
      then have "length t < 15 * W" using i(2) by simp
      moreover have "w[15 := 0] = take 15 w @ [0]"
        using front(3) by (simp add: list_update_beyond upd_conv_take_nth_drop)
      ultimately show ?thesis using True by simp
    next
      case False
      then have "k = 15" using k front(2) by linarith
      then have "\<not> length t < 15 * W" using i(1) by simp
      then show ?thesis using \<open>k = 15\<close> front(3) by simp
    qed
    define h1 v1 where "h1 = fst (compile s ?w1)" and "v1 = snd (compile s ?w1)"
    have len1: "length ?w1 = 16" using front(2,4) by simp
    then have v1: "length v1 = 16" unfolding v1_def by (rule ring)
    have "(fold (\<lambda>i w. w[i := 0]) [0..<14] v1)[14 := hi, 15 := lo] = ?w2"
      using fill_zeros [OF v1, of 0 hi lo] by simp
    then have "sha_state (sha_finish B bswap keep compile ctx) = fst (compile h1 ?w2)"
      using le w1 unfolding sha_finish_def bytes hv w_def [symmetric] k_def [symmetric] Let_def
      by (auto simp: w_def [symmetric] hi_def [symmetric] lo_def [symmetric] ctx(1) h1_def v1_def)
    also have "\<dots> = sha_blk compile (sha_blk compile s (be_bytes ?w1)) (be_bytes ?w2)"
      using len1 by (simp add: h1_def compile_bytes)
    also have "\<dots> = fst (absorbs s (be_bytes ?w1 @ be_bytes ?w2))"
    proof -
      have "length (be_bytes ?w1) = B" "length (be_bytes ?w2) = B"
        using len1 by (simp_all only: length_be_bytes bytes) (simp_all add: block)
      then show ?thesis by (simp only: absorb_two fst_conv)
    qed
    also have "be_bytes ?w1 @ be_bytes ?w2 = t @ 0x80 # replicate z 0 @ tail"
    proof -
      have "W * Suc k - Suc (length t) + W * (15 - k) = 16 * W - Suc (length t)"
        using i front(2) by (simp add: diff_mult_distrib2)
      moreover have "z = 30 * W - Suc (length t)"
        using i14 tB wide unfolding z_def t [symmetric] by (simp add: block)
      then have "z = (16 * W - Suc (length t)) + 14 * W" using tB unfolding block by linarith
      ultimately have "replicate z (0 :: u8) = replicate (W * Suc k - Suc (length t)) 0 @ replicate (W * (15 - k)) 0 @ replicate (W * 14) 0"
        by (simp only: replicate_add [symmetric] add.assoc [symmetric] mult.commute [of 14])
      then show ?thesis by (simp add: front(1) be_bytes_zeros bytes tail_def)
    qed
    finally show ?thesis .
  qed
  then show ?thesis using pad by (simp add: absorb_def)
qed

lemma md_blocks_length:
  assumes "\<And>h w. length h = n \<Longrightarrow> length (fst (compile h w)) = n" "length h = n"
  shows "length (md_blocks (sha_blk compile) B k h m) = n"
  using assms(2) by (induction k arbitrary: h m) (simp_all add: sha_blk_def assms(1))

text \<open>The end of the computation writes the digest of the absorbed message.\<close>

lemma finish_digest:
  assumes "sha_absorbed B compile iv m ctx" "\<And>h w. length h = n \<Longrightarrow> length (fst (compile h w)) = n"
    "length iv = n" "hlen \<le> W * n"
  shows "sha_output hlen (sha_state (sha_finish B bswap keep compile ctx)) = sha_digest B compile iv hlen m"
  using finish_absorbed [OF assms(1)] md_blocks_length [OF assms(2,3)] assms(4) sha_output_take [OF whole]
  by (simp add: sha_digest_def Let_def bytes)

lemma digest_standard:
  assumes std: "\<And>h w. length h = n \<Longrightarrow> length w = 16 \<Longrightarrow> fst (compile h w) = std h w"
    and len: "\<And>h w. length h = n \<Longrightarrow> length (fst (compile h w)) = n" and "length iv = n"
  shows "sha_digest B compile iv hlen m = sha_standard_digest B std iv hlen m"
proof -
  have "md_blocks (sha_blk compile) B k h p = md_blocks (\<lambda>h b. std h (be_words 16 b)) B k h p" if "length h = n" for k h p
    using that
  proof (induction k arbitrary: h p)
    case (Suc k)
    have "length (sha_blk compile h b) = n" for b using Suc.prems by (simp add: sha_blk_def len)
    then show ?case using Suc by (simp add: sha_blk_def std)
  qed simp
  then show ?thesis using assms(3) by (simp add: sha_digest_def sha_standard_digest_def Let_def)
qed

lemma length_digest:
  assumes "\<And>h w. length h = n \<Longrightarrow> length (fst (compile h w)) = n" "length iv = n" "hlen \<le> W * n"
  shows "length (sha_digest B compile iv hlen m) = hlen"
  using md_blocks_length [OF assms(1,2)] assms(3) by (simp add: sha_digest_def Let_def bytes)

text \<open>One call of the update function on the whole message, between the beginning and the end.\<close>

lemma whole_digest:
  assumes "sha_absorbed B compile iv [] ctx" "\<And>h w. length h = n \<Longrightarrow> length (fst (compile h w)) = n"
    "length iv = n" "hlen \<le> W * n" "unat len = length m" "32 \<le> LENGTH('w)"
  shows "sha_output hlen (sha_state (sha_finish B bswap keep compile (sha_update B bswap compile m len ctx))) =
    sha_digest B compile iv hlen m"
  using update_absorbed [OF assms(1) _ assms(6), of len m] assms(5)
  by (intro finish_digest [OF _ assms(2-4)]) simp_all

lemma begin_absorbed:
  "sha_count0 ctx = 0 \<Longrightarrow> sha_count1 ctx = 0 \<Longrightarrow> sha_state ctx = iv \<Longrightarrow> length (sha_wbuf ctx) = 16 \<Longrightarrow>
   sha_absorbed B compile iv [] ctx"
  by (simp add: sha_absorbed_def absorb_def holds_Nil block bytes)

end

section \<open>The message schedule\<close>

text \<open>
  The schedule of the standard extends the 16 words of the block one by one: \<open>F\<close> computes the next word
  from the last 16, \<open>F d\<close> seeing word \<open>d\<close> of them. The code keeps only a ring of 16 words and overwrites
  the oldest.
\<close>

primrec schedule :: "((nat \<Rightarrow> 'a) \<Rightarrow> 'a) \<Rightarrow> nat \<Rightarrow> 'a list \<Rightarrow> 'a list" where
  "schedule F 0 m = m"
| "schedule F (Suc n) m = (let s = schedule F n m in s @ [F (\<lambda>d. s ! (length s - 16 + d))])"

definition ring_next :: "((nat \<Rightarrow> 'a) \<Rightarrow> 'a) \<Rightarrow> nat \<Rightarrow> 'a list \<Rightarrow> 'a list" where
  "ring_next F t p = p[t mod 16 := F (\<lambda>d. p ! ((t + d) mod 16))]"

definition sees16 :: "((nat \<Rightarrow> 'a) \<Rightarrow> 'a) \<Rightarrow> bool" where
  "sees16 F \<longleftrightarrow> (\<forall>f g. (\<forall>d < 16. f d = g d) \<longrightarrow> F f = F g)"

lemma length_schedule [simp]: "length (schedule F n m) = length m + n"
  by (induction n) (simp_all add: Let_def)

lemma nth_schedule_add: "i < length m + n \<Longrightarrow> schedule F (n + k) m ! i = schedule F n m ! i"
  by (induction k) (simp_all add: Let_def nth_append)

lemma ring_schedule:
  assumes "length m = 16" "sees16 F"
  shows "length (fold (ring_next F) [16..<16 + n] m) = 16 \<and>
    (\<forall>i. n \<le> i \<and> i < n + 16 \<longrightarrow> fold (ring_next F) [16..<16 + n] m ! (i mod 16) = schedule F n m ! i)"
proof (induction n)
  case 0
  then show ?case using assms(1) by simp
next
  case (Suc n)
  let ?p = "fold (ring_next F) [16..<16 + n] m" and ?s = "schedule F n m"
  have p: "length ?p = 16" and ps: "\<And>i. n \<le> i \<Longrightarrow> i < n + 16 \<Longrightarrow> ?p ! (i mod 16) = ?s ! i" using Suc by blast+
  have "?p ! ((16 + n + d) mod 16) = ?s ! (n + d)" if "d < 16" for d
    using ps [of "n + d"] that mod_add_self1 [of 16 "n + d"] by (simp add: add.assoc)
  then have F: "F (\<lambda>d. ?p ! ((16 + n + d) mod 16)) = F (\<lambda>d. ?s ! (length ?s - 16 + d))"
    using assms unfolding sees16_def by simp
  have step: "fold (ring_next F) [16..<16 + Suc n] m = ?p[n mod 16 := F (\<lambda>d. ?s ! (length ?s - 16 + d))]"
  proof -
    have u: "[16..<16 + Suc n] = [16..<16 + n] @ [16 + n]" by (simp only: add_Suc_right upt_Suc) simp
    show ?thesis using F unfolding u by (simp add: ring_next_def)
  qed
  have "?p[n mod 16 := F (\<lambda>d. ?s ! (length ?s - 16 + d))] ! (i mod 16) = schedule F (Suc n) m ! i"
    if i: "Suc n \<le> i" "i < Suc n + 16" for i
  proof (cases "i = n + 16")
    case True
    then show ?thesis using p assms(1) by (simp add: Let_def nth_append)
  next
    case False
    have "i mod 16 \<noteq> n mod 16"
    proof
      assume "i mod 16 = n mod 16"
      then have "16 dvd i - n" using i by (simp add: mod_eq_dvd_iff_nat)
      then have "16 \<le> i - n" using i by (intro dvd_imp_le) simp_all
      then show False using i False by simp
    qed
    then show ?thesis using ps [of i] False i assms(1) by (simp add: Let_def nth_append)
  qed
  then show ?case unfolding step using p by simp
qed

end
