(* ===== verification/Sha1.thy ===== *)
theory Sha1
  imports Sha_Core
begin

text \<open>
  Crypto/Sha1.c. \<open>sha1_compile\<close> runs the 80 cycles on five variables whose roles rotate, with the
  message schedule in the ring of 16 words; it is shown equal to the compression function of the
  standard, \<open>sha1_standard\<close>, on the expanded schedule. The updates and the end are those of
  \<open>Sha_Core\<close>.
\<close>

unbundle bit_operations_syntax

section \<open>The compression function\<close>

definition rotl32 :: "u32 \<Rightarrow> nat \<Rightarrow> u32" where
  "rotl32 x n = push_bit n x OR drop_bit (32 - n) x"

definition rotr32 :: "u32 \<Rightarrow> nat \<Rightarrow> u32" where
  "rotr32 x n = drop_bit n x OR push_bit (32 - n) x"

definition bswap_32 :: "u32 \<Rightarrow> u32" where
  "bswap_32 x = (rotr32 x 24 AND 0x00ff00ff) OR (rotr32 x 8 AND 0xff00ff00)"

definition sha_ch :: "'w::len word \<Rightarrow> 'w word \<Rightarrow> 'w word \<Rightarrow> 'w word" where
  "sha_ch x y z = z XOR (x AND (y XOR z))"

definition sha_parity :: "'w::len word \<Rightarrow> 'w word \<Rightarrow> 'w word \<Rightarrow> 'w word" where
  "sha_parity x y z = x XOR y XOR z"

definition sha_maj :: "'w::len word \<Rightarrow> 'w word \<Rightarrow> 'w word \<Rightarrow> 'w word" where
  "sha_maj x y z = (x AND y) OR (z AND (x XOR y))"

text \<open>\<open>one_cycle (v, a, b, c, d, e, f, k, h)\<close>, the variables being those numbered from \<open>a\<close> on.\<close>

definition sha1_one_cycle ::
  "nat \<Rightarrow> (u32 \<Rightarrow> u32 \<Rightarrow> u32 \<Rightarrow> u32) \<Rightarrow> u32 \<Rightarrow> u32 \<Rightarrow> u32 list \<Rightarrow> u32 list" where
  "sha1_one_cycle a f k h v =
     (let b = (a + 1) mod 5; c = (a + 2) mod 5; d = (a + 3) mod 5; e = (a + 4) mod 5;
          v = v[e := v ! e + (rotr32 (v ! a) 27 + f (v ! b) (v ! c) (v ! d) + k + h)]
      in v[b := rotr32 (v ! b) 2])"

text \<open>The word of cycle \<open>i\<close>: read from the buffer, and from cycle 16 on computed into it.\<close>

definition sha1_F :: "(nat \<Rightarrow> u32) \<Rightarrow> u32" where
  "sha1_F w = rotl32 (w 13 XOR w 8 XOR w 2 XOR w 0) 1"

definition sha1_hf :: "nat \<Rightarrow> u32 list \<Rightarrow> u32 list" where
  "sha1_hf i w = (if i < 16 then w else ring_next sha1_F i w)"

definition sha1_f :: "nat \<Rightarrow> u32 \<Rightarrow> u32 \<Rightarrow> u32 \<Rightarrow> u32" where
  "sha1_f i = (if i < 20 then sha_ch else if i < 40 then sha_parity else if i < 60 then sha_maj else sha_parity)"

definition sha1_k :: "nat \<Rightarrow> u32" where
  "sha1_k i = (if i < 20 then 0x5a827999 else if i < 40 then 0x6ed9eba1 else if i < 60 then 0x8f1bbcdc else 0xca62c1d6)"

text \<open>Cycle \<open>i\<close>; the variable in the role of \<open>a\<close> moves down by one in each.\<close>

definition sha1_cycle :: "nat \<Rightarrow> u32 list \<times> u32 list \<Rightarrow> u32 list \<times> u32 list" where
  "sha1_cycle i = (\<lambda>(v, w).
     (let w = sha1_hf i w in (sha1_one_cycle ((80 - i) mod 5) (sha1_f i) (sha1_k i) (w ! (i mod 16)) v, w)))"

definition sha1_compile :: "u32 sha_compile" where
  "sha1_compile hash wbuf =
     (let (v, w) = fold sha1_cycle [0..<80] (hash, wbuf) in (map2 (+) hash v, w))"

section \<open>The compression function of the standard\<close>

definition std_ch :: "'w::len word \<Rightarrow> 'w word \<Rightarrow> 'w word \<Rightarrow> 'w word" where
  "std_ch x y z = (x AND y) XOR (NOT x AND z)"

definition std_maj :: "'w::len word \<Rightarrow> 'w word \<Rightarrow> 'w word \<Rightarrow> 'w word" where
  "std_maj x y z = (x AND y) XOR (x AND z) XOR (y AND z)"

definition sha1_std_f :: "nat \<Rightarrow> u32 \<Rightarrow> u32 \<Rightarrow> u32 \<Rightarrow> u32" where
  "sha1_std_f i x y z =
     (if i < 20 then std_ch x y z else if i < 40 then x XOR y XOR z
      else if i < 60 then std_maj x y z else x XOR y XOR z)"

fun sha1_round :: "u32 list \<Rightarrow> nat \<Rightarrow> u32 \<times> u32 \<times> u32 \<times> u32 \<times> u32 \<Rightarrow> u32 \<times> u32 \<times> u32 \<times> u32 \<times> u32" where
  "sha1_round W i (a, b, c, d, e) =
     (word_rotl 5 a + sha1_std_f i b c d + e + sha1_k i + W ! i, a, word_rotl 30 b, c, d)"

definition sha1_std_F :: "(nat \<Rightarrow> u32) \<Rightarrow> u32" where
  "sha1_std_F w = word_rotl 1 (w 13 XOR w 8 XOR w 2 XOR w 0)"

definition sha1_standard :: "u32 list \<Rightarrow> u32 list \<Rightarrow> u32 list" where
  "sha1_standard hash m =
     (let (a, b, c, d, e) =
            fold (sha1_round (schedule sha1_std_F 64 m)) [0..<80] (hash ! 0, hash ! 1, hash ! 2, hash ! 3, hash ! 4)
      in [hash ! 0 + a, hash ! 1 + b, hash ! 2 + c, hash ! 3 + d, hash ! 4 + e])"

section \<open>They agree\<close>

lemma sha_ch_std: "sha_ch x y z = std_ch x y z"
  by (rule bit_word_eqI) (auto simp: sha_ch_def std_ch_def bit_simps)

lemma sha_maj_std: "sha_maj x y z = std_maj x y z"
  by (rule bit_word_eqI) (auto simp: sha_maj_def std_maj_def bit_simps)

lemma sha1_f_std: "sha1_f i = sha1_std_f i"
  by (intro ext) (simp add: sha1_f_def sha1_std_f_def sha_ch_std sha_maj_std sha_parity_def)

lemma rot32: "0 < n \<Longrightarrow> n < 32 \<Longrightarrow> rotl32 x n = word_rotl n x" "0 < n \<Longrightarrow> n < 32 \<Longrightarrow> rotr32 x n = word_rotr n x"
  by (simp_all add: rotl32_def rotr32_def word_rotl_shift word_rotr_shift)

lemma rotr_rotl32: "rotr32 x 27 = word_rotl 5 x" "rotr32 x 2 = word_rotl 30 x"
  by (simp_all add: rot32 word_rotl_eq_word_rotr)

lemma sha1_F_std: "sha1_F = sha1_std_F"
  by (intro ext) (simp add: sha1_F_def sha1_std_F_def rot32)

lemma sha1_F_sees: "sees16 sha1_F"
  by (simp add: sees16_def sha1_F_def)

text \<open>The variables by their roles at cycle \<open>i\<close>.\<close>

definition sha1_roles :: "nat \<Rightarrow> u32 list \<Rightarrow> u32 \<times> u32 \<times> u32 \<times> u32 \<times> u32" where
  "sha1_roles a v = (v ! a, v ! ((a + 1) mod 5), v ! ((a + 2) mod 5), v ! ((a + 3) mod 5), v ! ((a + 4) mod 5))"

lemma sha1_one_cycle_round:
  assumes "length v = 5" "i < 80"
  shows "sha1_roles ((80 - Suc i) mod 5) (sha1_one_cycle ((80 - i) mod 5) (sha1_f i) (sha1_k i) (W ! i) v) =
    sha1_round W i (sha1_roles ((80 - i) mod 5) v)"
proof -
  obtain a b c d e where v: "v = [a, b, c, d, e]"
    using assms(1) by (auto simp: length_Suc_conv numeral_eq_Suc)
  let ?a = "(80 - i) mod 5"
  have p: "(80 - Suc i) mod 5 = (?a + 4) mod 5"
  proof -
    have "80 - Suc i + 5 = (80 - i) + 4" using assms(2) by simp
    then show ?thesis by (metis mod_add_self2 mod_add_left_eq)
  qed
  have "?a < 5" by simp
  then consider "?a = 0" | "?a = 1" | "?a = 2" | "?a = 3" | "?a = 4" by linarith
  then show ?thesis unfolding p
    by cases (simp_all add: v sha1_roles_def sha1_one_cycle_def Let_def rotr_rotl32 sha1_f_std ac_simps)
qed

lemma length_sha1_one_cycle [simp]: "length (sha1_one_cycle a f k h v) = length v"
  by (simp add: sha1_one_cycle_def Let_def)

text \<open>The ring before cycle \<open>i\<close>, and the word that the cycle reads.\<close>

definition sha1_ring :: "nat \<Rightarrow> u32 list \<Rightarrow> u32 list" where
  "sha1_ring i m = fold (ring_next sha1_F) [16..<i] m"

lemma sha1_ring_next: "sha1_hf i (sha1_ring i m) = sha1_ring (Suc i) m"
  by (simp add: sha1_hf_def sha1_ring_def)

lemma ring_word:
  assumes "length m = 16" "sees16 F" "i < 16 + n" "p = fold (ring_next F) [16..<Suc i] m"
  shows "p ! (i mod 16) = schedule F n m ! i"
proof (cases "i < 16")
  case True
  then show ?thesis using assms nth_schedule_add [of i m 0 F n] by simp
next
  case False
  then have i: "Suc i = 16 + (i - 15)" "i = (i - 15) + 15" by simp_all
  have "p ! (i mod 16) = schedule F (i - 15) m ! i"
    using ring_schedule [OF assms(1,2), of "i - 15"] False unfolding assms(4) i(1) [symmetric] by simp
  also have "\<dots> = schedule F ((i - 15) + (n - (i - 15))) m ! i"
    using False assms(1,3) by (intro nth_schedule_add [symmetric]) simp
  finally show ?thesis using assms(3) False by simp
qed

lemma sha1_cycles:
  assumes "length hash = 5" "length m = 16" "i \<le> 80"
  defines "r \<equiv> fold sha1_cycle [0..<i] (hash, m)"
  shows "snd r = sha1_ring i m \<and> length (fst r) = 5 \<and>
    sha1_roles ((80 - i) mod 5) (fst r) = fold (sha1_round (schedule sha1_F 64 m)) [0..<i] (sha1_roles 0 hash)"
  using assms(3) unfolding r_def
proof (induction i)
  case (Suc i)
  obtain v w where vw: "fold sha1_cycle [0..<i] (hash, m) = (v, w)" by force
  have IH: "w = sha1_ring i m" "length v = 5"
    "sha1_roles ((80 - i) mod 5) v = fold (sha1_round (schedule sha1_F 64 m)) [0..<i] (sha1_roles 0 hash)"
    using Suc vw by simp_all
  have "sha1_ring (Suc i) m ! (i mod 16) = schedule sha1_F 64 m ! i"
    by (rule ring_word [OF assms(2) sha1_F_sees]) (use Suc.prems in \<open>simp_all add: sha1_ring_def del: upt_Suc\<close>)
  then have step: "fold sha1_cycle [0..<Suc i] (hash, m) =
      (sha1_one_cycle ((80 - i) mod 5) (sha1_f i) (sha1_k i) (schedule sha1_F 64 m ! i) v, sha1_ring (Suc i) m)"
    using vw IH(1) by (simp add: sha1_cycle_def Let_def sha1_ring_next)
  show ?case unfolding step
    using sha1_one_cycle_round [OF IH(2), of i "schedule sha1_F 64 m"] Suc.prems IH(2,3) by simp
qed (simp add: assms(1) sha1_ring_def)

theorem sha1_compile_standard:
  assumes "length hash = 5" "length m = 16"
  shows "fst (sha1_compile hash m) = sha1_standard hash m"
proof -
  obtain v w where vw: "fold sha1_cycle [0..<80] (hash, m) = (v, w)" by force
  have r: "length v = 5" "sha1_roles 0 v = fold (sha1_round (schedule sha1_std_F 64 m)) [0..<80] (sha1_roles 0 hash)"
    using sha1_cycles [OF assms, of 80] vw by (simp_all add: sha1_F_std del: upt_rec_numeral)
  obtain a b c d e where v: "v = [a, b, c, d, e]" using r(1) by (auto simp: length_Suc_conv numeral_eq_Suc)
  obtain h0 h1 h2 h3 h4 where h: "hash = [h0, h1, h2, h3, h4]" using assms(1) by (auto simp: length_Suc_conv numeral_eq_Suc)
  have "sha1_roles 0 v = (a, b, c, d, e)" "sha1_roles 0 hash = (hash ! 0, hash ! 1, hash ! 2, hash ! 3, hash ! 4)"
    by (simp_all add: v sha1_roles_def numeral_2_eq_2)
  then have "fold (sha1_round (schedule sha1_std_F 64 m)) [0..<80] (hash ! 0, hash ! 1, hash ! 2, hash ! 3, hash ! 4) = (a, b, c, d, e)"
    using r(2) by simp
  then have "sha1_standard hash m = [hash ! 0 + a, hash ! 1 + b, hash ! 2 + c, hash ! 3 + d, hash ! 4 + e]"
    unfolding sha1_standard_def Let_def by (simp only: prod.case)
  moreover have "fst (sha1_compile hash m) = map2 (+) hash v" by (simp add: sha1_compile_def vw del: upt_rec_numeral)
  ultimately show ?thesis by (simp add: v h)
qed

section \<open>The functions\<close>

definition sha1_iv :: "u32 list" where
  "sha1_iv = [0x67452301, 0xefcdab89, 0x98badcfe, 0x10325476, 0xc3d2e1f0]"

definition sha1_begin :: "u32 sha_ctx \<Rightarrow> u32 sha_ctx" where
  "sha1_begin ctx = ctx\<lparr>sha_count0 := 0, sha_count1 := 0, sha_state := sha1_iv\<rparr>"

definition sha1_hash :: "bytes \<Rightarrow> u32 \<Rightarrow> u32 sha_ctx \<Rightarrow> u32 sha_ctx" where
  "sha1_hash = sha_update 64 bswap_32 sha1_compile"

definition sha1_end :: "u32 sha_ctx \<Rightarrow> bytes \<times> u32 sha_ctx" where
  "sha1_end ctx = (let ctx = sha_finish 64 bswap_32 0xffffff80 sha1_compile ctx in (sha_output 20 (sha_state ctx), ctx))"

text \<open>\<open>cx\<close> is the uninitialised context on the stack.\<close>

definition sha1 :: "u32 sha_ctx \<Rightarrow> bytes \<Rightarrow> u32 \<Rightarrow> bytes" where
  "sha1 cx data len = fst (sha1_end (sha1_hash data len (sha1_begin cx)))"

lemma word_bytes_32 [simp]: "word_bytes TYPE(u32) = 4"
  by (simp add: word_bytes_def)

lemma word_to_le_4: "word_to_le 4 x = [ucast x, ucast (drop_bit 8 x), ucast (drop_bit 16 x), ucast (drop_bit 24 x)]"
  by (simp add: word_to_le_def upt_rec)

lemma bswap_32_be: "bswap_32 x = be_to_word (word_to_le 4 x)"
proof (rule bit_word_eqI)
  fix n assume "n < LENGTH(32)"
  then have "n \<in> set [0..<32]" by simp
  moreover have "[0..<32] = [0, 1, 2, 3, 4, 5, 6, 7, 8, 9, 10, 11, 12, 13, 14, 15, 16, 17, 18, 19, 20, 21, 22, 23, 24, 25, 26, 27, 28, 29, 30, 31]"
    by code_simp
  ultimately have "n \<in> set [0, 1, 2, 3, 4, 5, 6, 7, 8, 9, 10, 11, 12, 13, 14, 15, 16, 17, 18, 19, 20, 21, 22, 23, 24, 25, 26, 27, 28, 29, 30, 31]"
    by (simp only:)
  then show "bit (bswap_32 x) n \<longleftrightarrow> bit (be_to_word (word_to_le 4 x) :: u32) n"
    by (simp only: list.set insert_iff empty_iff)
       (elim disjE; auto simp: bswap_32_def rotr32_def be_to_word_def word_to_le_4 bit_simps bit_numeral_word_iff
         dest: bit_imp_le_length)
qed

lemma swaps_32: "swaps bswap_32"
  by (simp add: swaps_def bswap_32_be)

lemma sha1_compile_lengths:
  "length w = 16 \<Longrightarrow> length (snd (sha1_compile h w)) = 16" "length h = 5 \<Longrightarrow> length (fst (sha1_compile h w)) = 5"
proof -
  have "length (fst (fold sha1_cycle is (h, w))) = length h \<and> length (snd (fold sha1_cycle is (h, w))) = length w" for "is" h w
    by (induction "is" rule: rev_induct)
       (auto simp: sha1_cycle_def sha1_hf_def ring_next_def Let_def split_beta)
  then show "length w = 16 \<Longrightarrow> length (snd (sha1_compile h w)) = 16" "length h = 5 \<Longrightarrow> length (fst (sha1_compile h w)) = 5"
    by (simp_all add: sha1_compile_def split_beta del: upt_rec_numeral)
qed

interpretation sha1: sha_engine 64 4 bswap_32 "0xffffff80" sha1_compile
proof unfold_locales
  show "\<exists>k<LENGTH(32). (64 :: nat) = 2 ^ k" by (rule exI [of _ 6]) simp
  show "0xffffff80 OR 0x80 = (push_bit 7 (- 1) :: u32)" by code_simp
qed (simp_all add: whole_bytes_def swaps_32 sha1_compile_lengths)

definition sha1_absorbed :: "bytes \<Rightarrow> u32 sha_ctx \<Rightarrow> bool" where
  "sha1_absorbed = sha_absorbed 64 sha1_compile sha1_iv"

lemma sha1_digest_standard: "sha_digest 64 sha1_compile sha1_iv 20 m = sha_standard_digest 64 sha1_standard sha1_iv 20 m"
  by (rule sha1.digest_standard [where n = 5]) (simp_all add: sha1_compile_standard sha1_compile_lengths sha1_iv_def)

lemma sha1_begin_absorbed: "length (sha_wbuf ctx) = 16 \<Longrightarrow> sha1_absorbed [] (sha1_begin ctx)"
  unfolding sha1_absorbed_def by (rule sha1.begin_absorbed) (simp_all add: sha1_begin_def)

lemma sha1_hash_absorbed:
  "sha1_absorbed m ctx \<Longrightarrow> unat len \<le> length data \<Longrightarrow> sha1_absorbed (m @ take (unat len) data) (sha1_hash data len ctx)"
  unfolding sha1_absorbed_def sha1_hash_def by (rule sha1.update_absorbed) simp_all

lemma sha1_end_digest: "sha1_absorbed m ctx \<Longrightarrow> fst (sha1_end ctx) = sha_standard_digest 64 sha1_standard sha1_iv 20 m"
  using sha1.finish_digest [of sha1_iv m ctx 5 20]
  by (simp add: sha1_absorbed_def sha1_end_def Let_def sha1_digest_standard sha1_compile_lengths) (simp add: sha1_iv_def)

lemma length_sha1_digest: "length (sha_standard_digest 64 sha1_standard sha1_iv 20 m) = 20"
  unfolding sha1_digest_standard [symmetric]
  by (rule sha1.length_digest [where n = 5]) (simp_all add: sha1_compile_lengths sha1_iv_def)

end
