(* ===== verification/Sha2.thy ===== *)
theory Sha2
  imports Sha1
begin

text \<open>
  Crypto/Sha2.c: SHA-224, SHA-256, SHA-384 and SHA-512. The round of the source, the macro \<open>v_cycle\<close>, is
  one text for both word sizes, so it is one definition here with the functions \<open>s_0\<close>, \<open>s_1\<close>, \<open>g_0\<close>,
  \<open>g_1\<close> and the table of constants as parameters. The compression functions are shown equal to those
  of the standard. The generic entry points \<open>sha2_begin\<close>, \<open>sha2_hash\<close>, \<open>sha2_end\<close> and \<open>sha2\<close>, which
  the program does not call, are not modelled.
\<close>

unbundle bit_operations_syntax

section \<open>The round\<close>

text \<open>\<open>vf (n, i)\<close> is the variable number \<open>(n - i) & 7\<close>.\<close>

definition vf :: "nat \<Rightarrow> nat \<Rightarrow> nat" where
  "vf n i = (n + 8 - i mod 8) mod 8"

text \<open>\<open>hf\<close>: the next word of the schedule from those in the ring, word \<open>d\<close> being at \<open>p[(i + d) & 15]\<close>.\<close>

definition sha2_F :: "('w::len word \<Rightarrow> 'w word) \<Rightarrow> ('w word \<Rightarrow> 'w word) \<Rightarrow> (nat \<Rightarrow> 'w word) \<Rightarrow> 'w word" where
  "sha2_F g0 g1 w = w 0 + (g1 (w 14) + w 9 + g0 (w 1))"

definition v_cycle ::
  "('w::len word \<Rightarrow> 'w word) \<Rightarrow> ('w word \<Rightarrow> 'w word) \<Rightarrow> ((nat \<Rightarrow> 'w word) \<Rightarrow> 'w word) \<Rightarrow> 'w word list \<Rightarrow>
    nat \<Rightarrow> nat \<Rightarrow> 'w word list \<times> 'w word list \<Rightarrow> 'w word list \<times> 'w word list" where
  "v_cycle s0 s1 F k j i = (\<lambda>(v, p).
     (let p = (if j \<noteq> 0 then ring_next F i p else p);
          v = v[vf 7 i := v ! vf 7 i + (p ! i + k ! (i + j)
                + s1 (v ! vf 4 i) + sha_ch (v ! vf 4 i) (v ! vf 5 i) (v ! vf 6 i))];
          v = v[vf 3 i := v ! vf 3 i + v ! vf 7 i];
          v = v[vf 7 i := v ! vf 7 i + (s0 (v ! vf 0 i) + sha_maj (v ! vf 0 i) (v ! vf 1 i) (v ! vf 2 i))]
      in (v, p)))"

text \<open>The compression functions: \<open>rounds\<close> is 4 for SHA-256, whose \<open>j\<close> runs up to 64, and 5 for SHA-512.\<close>

definition sha2_compile ::
  "('w::len word \<Rightarrow> 'w word) \<Rightarrow> ('w word \<Rightarrow> 'w word) \<Rightarrow> ((nat \<Rightarrow> 'w word) \<Rightarrow> 'w word) \<Rightarrow> 'w word list \<Rightarrow> nat \<Rightarrow>
    'w word sha_compile" where
  "sha2_compile s0 s1 F k rounds hash wbuf =
     (let (v, p) = fold (\<lambda>j. fold (v_cycle s0 s1 F k j) [0..<16]) (map (\<lambda>r. 16 * r) [0..<rounds]) (hash, wbuf)
      in (map2 (+) hash v, p))"

section \<open>The compression function of the standard\<close>

definition sha2_round ::
  "('w::len word \<Rightarrow> 'w word) \<Rightarrow> ('w word \<Rightarrow> 'w word) \<Rightarrow> 'w word list \<Rightarrow> 'w word list \<Rightarrow> nat \<Rightarrow> 'w word list \<Rightarrow> 'w word list" where
  "sha2_round s0 s1 K W t s =
     (let T1 = s ! 7 + s1 (s ! 4) + std_ch (s ! 4) (s ! 5) (s ! 6) + K ! t + W ! t;
          T2 = s0 (s ! 0) + std_maj (s ! 0) (s ! 1) (s ! 2)
      in [T1 + T2, s ! 0, s ! 1, s ! 2, s ! 3 + T1, s ! 4, s ! 5, s ! 6])"

definition sha2_standard ::
  "('w::len word \<Rightarrow> 'w word) \<Rightarrow> ('w word \<Rightarrow> 'w word) \<Rightarrow> ((nat \<Rightarrow> 'w word) \<Rightarrow> 'w word) \<Rightarrow> 'w word list \<Rightarrow> nat \<Rightarrow>
    'w word list \<Rightarrow> 'w word list \<Rightarrow> 'w word list" where
  "sha2_standard s0 s1 F K rounds hash m =
     map2 (+) hash (fold (sha2_round s0 s1 K (schedule F (16 * rounds - 16) m)) [0..<16 * rounds] hash)"

section \<open>They agree\<close>

definition sha2_roles :: "nat \<Rightarrow> 'w::len word list \<Rightarrow> 'w word list" where
  "sha2_roles i v = map (\<lambda>n. v ! vf n i) [0..<8]"

lemma sha2_F_sees: "sees16 (sha2_F g0 g1)"
  by (simp add: sees16_def sha2_F_def)

lemma list_of_8:
  assumes "length v = 8"
  obtains v0 v1 v2 v3 v4 v5 v6 v7 where "v = [v0, v1, v2, v3, v4, v5, v6, v7]"
  using assms by (auto simp: length_Suc_conv numeral_eq_Suc)

text \<open>Cycle \<open>t\<close>, that is \<open>i = t & 15\<close> of the group \<open>j\<close>.\<close>

definition sha2_cycle ::
  "('w::len word \<Rightarrow> 'w word) \<Rightarrow> ('w word \<Rightarrow> 'w word) \<Rightarrow> ((nat \<Rightarrow> 'w word) \<Rightarrow> 'w word) \<Rightarrow> 'w word list \<Rightarrow>
    nat \<Rightarrow> 'w word list \<times> 'w word list \<Rightarrow> 'w word list \<times> 'w word list" where
  "sha2_cycle s0 s1 F k t = v_cycle s0 s1 F k (16 * (t div 16)) (t mod 16)"

lemma fold_cycles:
  "fold (\<lambda>j. fold (v_cycle s0 s1 F k j) [0..<16]) (map (\<lambda>r. 16 * r) [0..<rounds]) = fold (sha2_cycle s0 s1 F k) [0..<16 * rounds]"
proof (induction rounds)
  case (Suc n)
  have "[0..<16 * Suc n] = [0..<16 * n] @ map (\<lambda>i. i + 16 * n) [0..<16]"
    using upt_add_eq_append [of 0 "16 * n" 16] by (simp add: map_add_upt add.commute del: upt_rec_numeral)
  moreover have "fold (sha2_cycle s0 s1 F k) (map (\<lambda>i. i + 16 * n) [0..<16]) = fold (v_cycle s0 s1 F k (16 * n)) [0..<16]"
    by (auto simp: fold_map sha2_cycle_def simp del: upt_rec_numeral intro!: fold_cong)
  ultimately show ?case using Suc by (simp del: upt_rec_numeral)
qed simp

lemma vf_mod: "vf n (i mod 16) = vf n i"
  by (simp add: vf_def mod_mod_cancel)

lemma sha2_cycle_round:
  assumes "length v = 8" "(if 16 \<le> t then ring_next F t p else p) = p'" "p' ! (t mod 16) = W ! t" "sha2_cycle s0 s1 F K t (v, p) = (v', p'')"
  shows "sha2_roles (Suc t) v' = sha2_round s0 s1 K W t (sha2_roles t v) \<and> length v' = 8 \<and> p'' = p'"
proof -
  obtain v0 v1 v2 v3 v4 v5 v6 v7 where v: "v = [v0, v1, v2, v3, v4, v5, v6, v7]"
    using list_of_8 [OF assms(1)] .
  have ring: "(if 16 * (t div 16) \<noteq> 0 then ring_next F (t mod 16) p else p) = p'"
  proof -
    have "ring_next F (t mod 16) p = ring_next F t p" by (simp add: ring_next_def mod_add_left_eq)
    moreover have "16 * (t div 16) \<noteq> 0 \<longleftrightarrow> 16 \<le> t" by (auto simp: div_eq_0_iff)
    ultimately show ?thesis using assms(2) by (simp split: if_splits)
  qed
  have t: "t mod 16 + 16 * (t div 16) = t" by simp
  have step: "v' = (let v = v[vf 7 t := v ! vf 7 t + (W ! t + K ! t + s1 (v ! vf 4 t) + sha_ch (v ! vf 4 t) (v ! vf 5 t) (v ! vf 6 t))];
          v = v[vf 3 t := v ! vf 3 t + v ! vf 7 t]
      in v[vf 7 t := v ! vf 7 t + (s0 (v ! vf 0 t) + sha_maj (v ! vf 0 t) (v ! vf 1 t) (v ! vf 2 t))])" "p'' = p'"
    using assms(4) unfolding sha2_cycle_def v_cycle_def prod.case ring Let_def t vf_mod assms(3) by simp_all
  have "t mod 8 < 8" by simp
  then consider "t mod 8 = 0" | "t mod 8 = 1" | "t mod 8 = 2" | "t mod 8 = 3" | "t mod 8 = 4" | "t mod 8 = 5" | "t mod 8 = 6" | "t mod 8 = 7"
    by linarith
  then have "sha2_roles (Suc t) v' = sha2_round s0 s1 K W t (sha2_roles t v)"
    unfolding step(1)
    by cases (simp_all add: v sha2_roles_def sha2_round_def vf_def mod_Suc Let_def upt_rec sha_ch_std sha_maj_std ac_simps)
  moreover have "length v' = 8" using assms(1) unfolding step(1) Let_def by simp
  ultimately show ?thesis using step(2) by simp
qed

lemma sha2_roles_id: "length v = 8 \<Longrightarrow> i mod 8 = 0 \<Longrightarrow> sha2_roles i v = v"
  by (erule list_of_8) (simp add: sha2_roles_def vf_def upt_rec)

lemma sha2_cycles:
  fixes s0 s1 :: "'w::len word \<Rightarrow> 'w word" and k :: "'w word list"
  assumes "length hash = 8" "length m = 16" "sees16 F" "t \<le> 16 + n"
  defines "r \<equiv> fold (sha2_cycle s0 s1 F k) [0..<t] (hash, m)"
  shows "snd r = fold (ring_next F) [16..<t] m \<and> length (fst r) = 8 \<and>
    sha2_roles t (fst r) = fold (sha2_round s0 s1 k (schedule F n m)) [0..<t] hash"
  using assms(4) unfolding r_def
proof (induction t)
  case (Suc t)
  obtain v p where vp: "fold (sha2_cycle s0 s1 F k) [0..<t] (hash, m) = (v, p)" by force
  have IH: "p = fold (ring_next F) [16..<t] m" "length v = 8"
    "sha2_roles t v = fold (sha2_round s0 s1 k (schedule F n m)) [0..<t] hash"
    using Suc vp by simp_all
  let ?p = "fold (ring_next F) [16..<Suc t] m"
  obtain v' p' where step: "sha2_cycle s0 s1 F k t (v, p) = (v', p')" by force
  have next_p: "(if 16 \<le> t then ring_next F t p else p) = ?p" using IH(1) by simp
  have word: "?p ! (t mod 16) = schedule F n m ! t"
    by (rule ring_word [OF assms(2,3)]) (use Suc.prems in \<open>simp_all del: upt_Suc\<close>)
  have all: "fold (sha2_cycle s0 s1 F k) [0..<Suc t] (hash, m) = (v', p')" using vp step by simp
  show ?case unfolding all
    using sha2_cycle_round [where p' = ?p, OF IH(2) next_p word step] IH(3) by simp
qed (simp add: assms(1) sha2_roles_id)

lemma sha2_compile_standard:
  assumes "length hash = 8" "length m = 16" "sees16 F" "1 \<le> rounds"
  shows "fst (sha2_compile s0 s1 F k rounds hash m) = sha2_standard s0 s1 F k rounds hash m"
proof -
  obtain v p where vp: "fold (sha2_cycle s0 s1 F k) [0..<16 * rounds] (hash, m) = (v, p)" by force
  have "16 * rounds \<le> 16 + (16 * rounds - 16)" by simp
  from sha2_cycles [OF assms(1,2,3) this, of s0 s1 k]
  have "length v = 8" "sha2_roles (16 * rounds) v = fold (sha2_round s0 s1 k (schedule F (16 * rounds - 16) m)) [0..<16 * rounds] hash"
    using vp by simp_all
  moreover have "16 * rounds mod 8 = 0" using mod_mult_self1_is_0 [of 8 "2 * rounds"] by simp
  ultimately show ?thesis
    using sha2_roles_id [of v "16 * rounds"] vp by (simp add: sha2_compile_def sha2_standard_def fold_cycles)
qed

lemma length_v_cycle:
  "length (fst (v_cycle s0 s1 F k j i r)) = length (fst r) \<and> length (snd (v_cycle s0 s1 F k j i r)) = length (snd r)"
  by (cases r) (simp add: v_cycle_def ring_next_def Let_def)

lemma sha2_compile_lengths:
  "length w = 16 \<Longrightarrow> length (snd (sha2_compile s0 s1 F k rounds h w)) = 16"
  "length h = 8 \<Longrightarrow> length (fst (sha2_compile s0 s1 F k rounds h w)) = 8"
proof -
  have "length (fst (fold (sha2_cycle s0 s1 F k) ts (h, w))) = length h \<and> length (snd (fold (sha2_cycle s0 s1 F k) ts (h, w))) = length w" for ts h w
    by (induction ts rule: rev_induct) (simp_all add: sha2_cycle_def length_v_cycle)
  then show "length w = 16 \<Longrightarrow> length (snd (sha2_compile s0 s1 F k rounds h w)) = 16"
    "length h = 8 \<Longrightarrow> length (fst (sha2_compile s0 s1 F k rounds h w)) = 8"
    by (simp_all add: sha2_compile_def fold_cycles split_beta)
qed

section \<open>SHA-256 and SHA-224\<close>

definition s_0_256 :: "u32 \<Rightarrow> u32" where
  "s_0_256 x = rotr32 x 2 XOR rotr32 x 13 XOR rotr32 x 22"

definition s_1_256 :: "u32 \<Rightarrow> u32" where
  "s_1_256 x = rotr32 x 6 XOR rotr32 x 11 XOR rotr32 x 25"

definition g_0_256 :: "u32 \<Rightarrow> u32" where
  "g_0_256 x = rotr32 x 7 XOR rotr32 x 18 XOR drop_bit 3 x"

definition g_1_256 :: "u32 \<Rightarrow> u32" where
  "g_1_256 x = rotr32 x 17 XOR rotr32 x 19 XOR drop_bit 10 x"

definition k256 :: "u32 list" where
  "k256 =
   [0x428A2F98, 0x71374491, 0xB5C0FBCF, 0xE9B5DBA5, 0x3956C25B, 0x59F111F1,
    0x923F82A4, 0xAB1C5ED5, 0xD807AA98, 0x12835B01, 0x243185BE, 0x550C7DC3,
    0x72BE5D74, 0x80DEB1FE, 0x9BDC06A7, 0xC19BF174, 0xE49B69C1, 0xEFBE4786,
    0x0FC19DC6, 0x240CA1CC, 0x2DE92C6F, 0x4A7484AA, 0x5CB0A9DC, 0x76F988DA,
    0x983E5152, 0xA831C66D, 0xB00327C8, 0xBF597FC7, 0xC6E00BF3, 0xD5A79147,
    0x06CA6351, 0x14292967, 0x27B70A85, 0x2E1B2138, 0x4D2C6DFC, 0x53380D13,
    0x650A7354, 0x766A0ABB, 0x81C2C92E, 0x92722C85, 0xA2BFE8A1, 0xA81A664B,
    0xC24B8B70, 0xC76C51A3, 0xD192E819, 0xD6990624, 0xF40E3585, 0x106AA070,
    0x19A4C116, 0x1E376C08, 0x2748774C, 0x34B0BCB5, 0x391C0CB3, 0x4ED8AA4A,
    0x5B9CCA4F, 0x682E6FF3, 0x748F82EE, 0x78A5636F, 0x84C87814, 0x8CC70208,
    0x90BEFFFA, 0xA4506CEB, 0xBEF9A3F7, 0xC67178F2]"

definition i224 :: "u32 list" where
  "i224 =
   [0xc1059ed8, 0x367cd507, 0x3070dd17, 0xf70e5939,
    0xffc00b31, 0x68581511, 0x64f98fa7, 0xbefa4fa4]"

definition i256 :: "u32 list" where
  "i256 =
   [0x6a09e667, 0xbb67ae85, 0x3c6ef372, 0xa54ff53a,
    0x510e527f, 0x9b05688c, 0x1f83d9ab, 0x5be0cd19]"

definition sha256_compile :: "u32 sha_compile" where
  "sha256_compile = sha2_compile s_0_256 s_1_256 (sha2_F g_0_256 g_1_256) k256 4"

definition sha224_begin :: "u32 sha_ctx \<Rightarrow> u32 sha_ctx" where
  "sha224_begin ctx = ctx\<lparr>sha_count0 := 0, sha_count1 := 0, sha_state := i224\<rparr>"

definition sha256_begin :: "u32 sha_ctx \<Rightarrow> u32 sha_ctx" where
  "sha256_begin ctx = ctx\<lparr>sha_count0 := 0, sha_count1 := 0, sha_state := i256\<rparr>"

definition sha256_hash :: "bytes \<Rightarrow> u32 \<Rightarrow> u32 sha_ctx \<Rightarrow> u32 sha_ctx" where
  "sha256_hash = sha_update 64 bswap_32 sha256_compile"

definition sha_end1 :: "u32 sha_ctx \<Rightarrow> nat \<Rightarrow> bytes \<times> u32 sha_ctx" where
  "sha_end1 ctx hlen = (let ctx = sha_finish 64 bswap_32 0xffffff80 sha256_compile ctx in (sha_output hlen (sha_state ctx), ctx))"

definition sha224_end :: "u32 sha_ctx \<Rightarrow> bytes \<times> u32 sha_ctx" where
  "sha224_end ctx = sha_end1 ctx 28"

definition sha256_end :: "u32 sha_ctx \<Rightarrow> bytes \<times> u32 sha_ctx" where
  "sha256_end ctx = sha_end1 ctx 32"

definition sha224 :: "u32 sha_ctx \<Rightarrow> bytes \<Rightarrow> u32 \<Rightarrow> bytes" where
  "sha224 cx data len = fst (sha_end1 (sha256_hash data len (sha224_begin cx)) 28)"

definition sha256 :: "u32 sha_ctx \<Rightarrow> bytes \<Rightarrow> u32 \<Rightarrow> bytes" where
  "sha256 cx data len = fst (sha_end1 (sha256_hash data len (sha256_begin cx)) 32)"

interpretation sha256: sha_engine 64 4 bswap_32 "0xffffff80" sha256_compile
proof unfold_locales
  show "length (snd (sha256_compile h w)) = 16" if "length w = 16" for h w
    using that by (simp add: sha256_compile_def sha2_compile_lengths)
qed (rule sha1.whole sha1.bytes sha1.block sha1.wide sha1.pow sha1.swap sha1.keep)+

section \<open>SHA-512 and SHA-384\<close>

definition rotr64 :: "u64 \<Rightarrow> nat \<Rightarrow> u64" where
  "rotr64 x n = drop_bit n x OR push_bit (64 - n) x"

definition bswap_64 :: "u64 \<Rightarrow> u64" where
  "bswap_64 x = push_bit 32 (ucast (bswap_32 (ucast x))) OR ucast (bswap_32 (ucast (drop_bit 32 x)))"

definition s_0_512 :: "u64 \<Rightarrow> u64" where
  "s_0_512 x = rotr64 x 28 XOR rotr64 x 34 XOR rotr64 x 39"

definition s_1_512 :: "u64 \<Rightarrow> u64" where
  "s_1_512 x = rotr64 x 14 XOR rotr64 x 18 XOR rotr64 x 41"

definition g_0_512 :: "u64 \<Rightarrow> u64" where
  "g_0_512 x = rotr64 x 1 XOR rotr64 x 8 XOR drop_bit 7 x"

definition g_1_512 :: "u64 \<Rightarrow> u64" where
  "g_1_512 x = rotr64 x 19 XOR rotr64 x 61 XOR drop_bit 6 x"

definition k512 :: "u64 list" where
  "k512 =
   [0x428A2F98D728AE22, 0x7137449123EF65CD, 0xB5C0FBCFEC4D3B2F,
    0xE9B5DBA58189DBBC, 0x3956C25BF348B538, 0x59F111F1B605D019,
    0x923F82A4AF194F9B, 0xAB1C5ED5DA6D8118, 0xD807AA98A3030242,
    0x12835B0145706FBE, 0x243185BE4EE4B28C, 0x550C7DC3D5FFB4E2,
    0x72BE5D74F27B896F, 0x80DEB1FE3B1696B1, 0x9BDC06A725C71235,
    0xC19BF174CF692694, 0xE49B69C19EF14AD2, 0xEFBE4786384F25E3,
    0x0FC19DC68B8CD5B5, 0x240CA1CC77AC9C65, 0x2DE92C6F592B0275,
    0x4A7484AA6EA6E483, 0x5CB0A9DCBD41FBD4, 0x76F988DA831153B5,
    0x983E5152EE66DFAB, 0xA831C66D2DB43210, 0xB00327C898FB213F,
    0xBF597FC7BEEF0EE4, 0xC6E00BF33DA88FC2, 0xD5A79147930AA725,
    0x06CA6351E003826F, 0x142929670A0E6E70, 0x27B70A8546D22FFC,
    0x2E1B21385C26C926, 0x4D2C6DFC5AC42AED, 0x53380D139D95B3DF,
    0x650A73548BAF63DE, 0x766A0ABB3C77B2A8, 0x81C2C92E47EDAEE6,
    0x92722C851482353B, 0xA2BFE8A14CF10364, 0xA81A664BBC423001,
    0xC24B8B70D0F89791, 0xC76C51A30654BE30, 0xD192E819D6EF5218,
    0xD69906245565A910, 0xF40E35855771202A, 0x106AA07032BBD1B8,
    0x19A4C116B8D2D0C8, 0x1E376C085141AB53, 0x2748774CDF8EEB99,
    0x34B0BCB5E19B48A8, 0x391C0CB3C5C95A63, 0x4ED8AA4AE3418ACB,
    0x5B9CCA4F7763E373, 0x682E6FF3D6B2B8A3, 0x748F82EE5DEFB2FC,
    0x78A5636F43172F60, 0x84C87814A1F0AB72, 0x8CC702081A6439EC,
    0x90BEFFFA23631E28, 0xA4506CEBDE82BDE9, 0xBEF9A3F7B2C67915,
    0xC67178F2E372532B, 0xCA273ECEEA26619C, 0xD186B8C721C0C207,
    0xEADA7DD6CDE0EB1E, 0xF57D4F7FEE6ED178, 0x06F067AA72176FBA,
    0x0A637DC5A2C898A6, 0x113F9804BEF90DAE, 0x1B710B35131C471B,
    0x28DB77F523047D84, 0x32CAAB7B40C72493, 0x3C9EBE0A15C9BEBC,
    0x431D67C49C100D4C, 0x4CC5D4BECB3E42B6, 0x597F299CFC657E2A,
    0x5FCB6FAB3AD6FAEC, 0x6C44198C4A475817]"

definition i384 :: "u64 list" where
  "i384 =
   [0xcbbb9d5dc1059ed8, 0x629a292a367cd507, 0x9159015a3070dd17, 0x152fecd8f70e5939,
    0x67332667ffc00b31, 0x8eb44a8768581511, 0xdb0c2e0d64f98fa7, 0x47b5481dbefa4fa4]"

definition i512 :: "u64 list" where
  "i512 =
   [0x6a09e667f3bcc908, 0xbb67ae8584caa73b, 0x3c6ef372fe94f82b, 0xa54ff53a5f1d36f1,
    0x510e527fade682d1, 0x9b05688c2b3e6c1f, 0x1f83d9abfb41bd6b, 0x5be0cd19137e2179]"

definition sha512_compile :: "u64 sha_compile" where
  "sha512_compile = sha2_compile s_0_512 s_1_512 (sha2_F g_0_512 g_1_512) k512 5"

definition sha384_begin :: "u64 sha_ctx \<Rightarrow> u64 sha_ctx" where
  "sha384_begin ctx = ctx\<lparr>sha_count0 := 0, sha_count1 := 0, sha_state := i384\<rparr>"

definition sha512_begin :: "u64 sha_ctx \<Rightarrow> u64 sha_ctx" where
  "sha512_begin ctx = ctx\<lparr>sha_count0 := 0, sha_count1 := 0, sha_state := i512\<rparr>"

definition sha512_hash :: "bytes \<Rightarrow> u32 \<Rightarrow> u64 sha_ctx \<Rightarrow> u64 sha_ctx" where
  "sha512_hash = sha_update 128 bswap_64 sha512_compile"

definition sha_end2 :: "u64 sha_ctx \<Rightarrow> nat \<Rightarrow> bytes \<times> u64 sha_ctx" where
  "sha_end2 ctx hlen =
     (let ctx = sha_finish 128 bswap_64 0xffffffffffffff00 sha512_compile ctx in (sha_output hlen (sha_state ctx), ctx))"

definition sha384_end :: "u64 sha_ctx \<Rightarrow> bytes \<times> u64 sha_ctx" where
  "sha384_end ctx = sha_end2 ctx 48"

definition sha512_end :: "u64 sha_ctx \<Rightarrow> bytes \<times> u64 sha_ctx" where
  "sha512_end ctx = sha_end2 ctx 64"

definition sha384 :: "u64 sha_ctx \<Rightarrow> bytes \<Rightarrow> u32 \<Rightarrow> bytes" where
  "sha384 cx data len = fst (sha_end2 (sha512_hash data len (sha384_begin cx)) 48)"

definition sha512 :: "u64 sha_ctx \<Rightarrow> bytes \<Rightarrow> u32 \<Rightarrow> bytes" where
  "sha512 cx data len = fst (sha_end2 (sha512_hash data len (sha512_begin cx)) 64)"

lemma word_bytes_64 [simp]: "word_bytes TYPE(u64) = 8"
  by (simp add: word_bytes_def)

lemma ucast_le_to_word: "length bs = 4 \<Longrightarrow> ucast (le_to_word bs :: u32) = (le_to_word bs :: u64)"
  by (rule bit_word_eqI) (auto simp: bit_ucast_iff bit_le_to_word)

lemma word_to_le_8_halves: "word_to_le 8 (x :: u64) = word_to_le 4 (ucast x :: u32) @ word_to_le 4 (ucast (drop_bit 32 x) :: u32)"
proof (rule nth_equalityI)
  fix i assume "i < length (word_to_le 8 x)"
  then have i: "i < 8" by simp
  show "word_to_le 8 x ! i = (word_to_le 4 (ucast x :: u32) @ word_to_le 4 (ucast (drop_bit 32 x) :: u32)) ! i"
  proof (cases "i < 4")
    case True
    then show ?thesis by (intro bit_word_eqI) (simp add: nth_append nth_word_to_le bit_ucast_iff bit_drop_bit_eq)
  next
    case False
    then have "32 + 8 * (i - 4) = 8 * i" by simp
    then show ?thesis using False i
      by (intro bit_word_eqI) (simp add: nth_append nth_word_to_le bit_ucast_iff bit_drop_bit_eq flip: add.assoc)
  qed
qed simp

lemma bswap_64_be: "bswap_64 x = be_to_word (word_to_le 8 x)"
  unfolding bswap_64_def bswap_32_be word_to_le_8_halves be_to_word_def rev_append le_to_word_append
  by (simp add: ucast_le_to_word or.commute)

interpretation sha512: sha_engine 128 8 bswap_64 "0xffffffffffffff00" sha512_compile
proof unfold_locales
  show "\<exists>k<LENGTH(64). (128 :: nat) = 2 ^ k" by (rule exI [of _ 7]) simp
  show "0xffffffffffffff00 OR 0x80 = (push_bit 7 (- 1) :: u64)" by code_simp
  show "length (snd (sha512_compile h w)) = 16" if "length w = 16" for h w
    using that by (simp add: sha512_compile_def sha2_compile_lengths)
qed (simp_all add: whole_bytes_def swaps_def bswap_64_be)

section \<open>The digests\<close>

lemmas sha256_lengths = sha2_compile_lengths [where ?s0.0 = s_0_256 and ?s1.0 = s_1_256 and F = "sha2_F g_0_256 g_1_256" and k = k256 and rounds = 4, folded sha256_compile_def]
lemmas sha512_lengths = sha2_compile_lengths [where ?s0.0 = s_0_512 and ?s1.0 = s_1_512 and F = "sha2_F g_0_512 g_1_512" and k = k512 and rounds = 5, folded sha512_compile_def]

definition sha256_standard :: "u32 list \<Rightarrow> u32 list \<Rightarrow> u32 list" where
  "sha256_standard =
     sha2_standard (\<lambda>x. word_rotr 2 x XOR word_rotr 13 x XOR word_rotr 22 x)
       (\<lambda>x. word_rotr 6 x XOR word_rotr 11 x XOR word_rotr 25 x)
       (\<lambda>w. (word_rotr 17 (w 14) XOR word_rotr 19 (w 14) XOR drop_bit 10 (w 14)) + w 9 +
            (word_rotr 7 (w 1) XOR word_rotr 18 (w 1) XOR drop_bit 3 (w 1)) + w 0) k256 4"

definition sha512_standard :: "u64 list \<Rightarrow> u64 list \<Rightarrow> u64 list" where
  "sha512_standard =
     sha2_standard (\<lambda>x. word_rotr 28 x XOR word_rotr 34 x XOR word_rotr 39 x)
       (\<lambda>x. word_rotr 14 x XOR word_rotr 18 x XOR word_rotr 41 x)
       (\<lambda>w. (word_rotr 19 (w 14) XOR word_rotr 61 (w 14) XOR drop_bit 6 (w 14)) + w 9 +
            (word_rotr 1 (w 1) XOR word_rotr 8 (w 1) XOR drop_bit 7 (w 1)) + w 0) k512 5"

lemma rot64: "0 < n \<Longrightarrow> n < 64 \<Longrightarrow> rotr64 x n = word_rotr n x"
  by (simp add: rotr64_def word_rotr_shift)

lemma sha256_compile_standard:
  assumes "length h = 8" "length w = 16"
  shows "fst (sha256_compile h w) = sha256_standard h w"
proof -
  have "s_0_256 = (\<lambda>x. word_rotr 2 x XOR word_rotr 13 x XOR word_rotr 22 x)"
    "s_1_256 = (\<lambda>x. word_rotr 6 x XOR word_rotr 11 x XOR word_rotr 25 x)"
    by (intro ext, simp add: s_0_256_def s_1_256_def rot32)+
  moreover have "sha2_F g_0_256 g_1_256 = (\<lambda>w. (word_rotr 17 (w 14) XOR word_rotr 19 (w 14) XOR drop_bit 10 (w 14)) + w 9 +
            (word_rotr 7 (w 1) XOR word_rotr 18 (w 1) XOR drop_bit 3 (w 1)) + w 0)"
    by (intro ext) (simp add: sha2_F_def g_0_256_def g_1_256_def rot32 add.commute)
  ultimately show ?thesis
    using sha2_compile_standard [OF assms sha2_F_sees, of 4 s_0_256 s_1_256 g_0_256 g_1_256 k256]
    by (simp add: sha256_compile_def sha256_standard_def)
qed

lemma sha512_compile_standard:
  assumes "length h = 8" "length w = 16"
  shows "fst (sha512_compile h w) = sha512_standard h w"
proof -
  have "s_0_512 = (\<lambda>x. word_rotr 28 x XOR word_rotr 34 x XOR word_rotr 39 x)"
    "s_1_512 = (\<lambda>x. word_rotr 14 x XOR word_rotr 18 x XOR word_rotr 41 x)"
    by (intro ext, simp add: s_0_512_def s_1_512_def rot64)+
  moreover have "sha2_F g_0_512 g_1_512 = (\<lambda>w. (word_rotr 19 (w 14) XOR word_rotr 61 (w 14) XOR drop_bit 6 (w 14)) + w 9 +
            (word_rotr 1 (w 1) XOR word_rotr 8 (w 1) XOR drop_bit 7 (w 1)) + w 0)"
    by (intro ext) (simp add: sha2_F_def g_0_512_def g_1_512_def rot64 add.commute)
  ultimately show ?thesis
    using sha2_compile_standard [OF assms sha2_F_sees, of 5 s_0_512 s_1_512 g_0_512 g_1_512 k512]
    by (simp add: sha512_compile_def sha512_standard_def)
qed

lemmas sha2_ivs = i224_def i256_def i384_def i512_def

lemma sha256_digest_standard:
  "length iv = 8 \<Longrightarrow> sha_digest 64 sha256_compile iv hlen m = sha_standard_digest 64 sha256_standard iv hlen m"
  by (rule sha256.digest_standard [where n = 8]) (simp_all add: sha256_compile_standard sha256_lengths)

lemma sha512_digest_standard:
  "length iv = 8 \<Longrightarrow> sha_digest 128 sha512_compile iv hlen m = sha_standard_digest 128 sha512_standard iv hlen m"
  by (rule sha512.digest_standard [where n = 8]) (simp_all add: sha512_compile_standard sha512_lengths)

lemma sha256_whole:
  assumes "length (sha_wbuf cx) = 16" "unat len = length m"
  shows "sha256 cx m len = sha_standard_digest 64 sha256_standard i256 32 m"
    "sha224 cx m len = sha_standard_digest 64 sha256_standard i224 28 m"
proof -
  have "sha_absorbed 64 sha256_compile i256 [] (sha256_begin cx)" "sha_absorbed 64 sha256_compile i224 [] (sha224_begin cx)"
    using assms(1) by (simp_all add: sha256.begin_absorbed sha256_begin_def sha224_begin_def)
  note d = this [THEN sha256.whole_digest [where n = 8 and m = m and len = len]]
  show "sha256 cx m len = sha_standard_digest 64 sha256_standard i256 32 m"
    "sha224 cx m len = sha_standard_digest 64 sha256_standard i224 28 m"
    using d(1) [of 32] d(2) [of 28] assms(2)
    by (simp_all add: sha256_def sha224_def sha_end1_def sha256_hash_def Let_def sha256_lengths sha256_digest_standard sha2_ivs)
qed

lemma sha512_whole:
  assumes "length (sha_wbuf cx) = 16" "unat len = length m"
  shows "sha512 cx m len = sha_standard_digest 128 sha512_standard i512 64 m"
    "sha384 cx m len = sha_standard_digest 128 sha512_standard i384 48 m"
proof -
  have "sha_absorbed 128 sha512_compile i512 [] (sha512_begin cx)" "sha_absorbed 128 sha512_compile i384 [] (sha384_begin cx)"
    using assms(1) by (simp_all add: sha512.begin_absorbed sha512_begin_def sha384_begin_def)
  note d = this [THEN sha512.whole_digest [where n = 8 and m = m and len = len]]
  show "sha512 cx m len = sha_standard_digest 128 sha512_standard i512 64 m"
    "sha384 cx m len = sha_standard_digest 128 sha512_standard i384 48 m"
    using d(1) [of 64] d(2) [of 48] assms(2)
    by (simp_all add: sha512_def sha384_def sha_end2_def sha512_hash_def Let_def sha512_lengths sha512_digest_standard sha2_ivs)
qed

definition sha512_absorbed :: "bytes \<Rightarrow> u64 sha_ctx \<Rightarrow> bool" where
  "sha512_absorbed = sha_absorbed 128 sha512_compile i512"

lemma sha512_begin_absorbed: "length (sha_wbuf ctx) = 16 \<Longrightarrow> sha512_absorbed [] (sha512_begin ctx)"
  unfolding sha512_absorbed_def by (rule sha512.begin_absorbed) (simp_all add: sha512_begin_def)

lemma sha512_hash_absorbed:
  "sha512_absorbed m ctx \<Longrightarrow> unat len \<le> length data \<Longrightarrow> sha512_absorbed (m @ take (unat len) data) (sha512_hash data len ctx)"
  unfolding sha512_absorbed_def sha512_hash_def by (rule sha512.update_absorbed) simp_all

lemma sha512_end_digest: "sha512_absorbed m ctx \<Longrightarrow> fst (sha512_end ctx) = sha_standard_digest 128 sha512_standard i512 64 m"
  using sha512.finish_digest [of i512 m ctx 8 64]
  by (simp add: sha512_absorbed_def sha512_end_def sha_end2_def Let_def sha512_lengths sha512_digest_standard sha2_ivs)

lemma length_sha512_digest: "length (sha_standard_digest 128 sha512_standard i512 64 m) = 64"
proof -
  have "length (sha_digest 128 sha512_compile i512 64 m) = 64"
    by (rule sha512.length_digest [where n = 8]) (simp_all add: sha512_lengths i512_def)
  then show ?thesis by (simp add: sha512_digest_standard i512_def)
qed

end
