(* ===== verification/Whirlpool.thy ===== *)
theory Whirlpool
  imports Whirlpool_Tables
begin

text \<open>
  Crypto/Whirlpool.c. \<open>processBuffer\<close> is the compression function with the lookup tables; it is shown
  equal to the Miyaguchi-Preneel compression with the round function of the standard: substitution,
  shift of the columns, mixing of the rows, key addition. \<open>WHIRLPOOL_add\<close> takes its input in bits; for
  whole bytes, the only use in the program, it absorbs them, and \<open>WHIRLPOOL_finalize\<close> computes the
  digest of the padded message.
\<close>

unbundle bit_operations_syntax

section \<open>Compression\<close>

record WHIRLPOOL_CTX =
  wp_bitLength :: bytes
  wp_buffer :: bytes
  wp_bufferBits :: nat
  wp_bufferPos :: nat
  wp_hash :: "u64 list"

text \<open>Word \<open>i\<close> of the block: eight bytes of the buffer, the first one highest.\<close>

definition wp_load :: "bytes \<Rightarrow> nat \<Rightarrow> u64" where
  "wp_load buffer i =
     push_bit 56 (ucast (buffer ! (8 * i))) XOR push_bit 48 (ucast (buffer ! (8 * i + 1))) XOR
     push_bit 40 (ucast (buffer ! (8 * i + 2))) XOR push_bit 32 (ucast (buffer ! (8 * i + 3))) XOR
     push_bit 24 (ucast (buffer ! (8 * i + 4))) XOR push_bit 16 (ucast (buffer ! (8 * i + 5))) XOR
     push_bit 8 (ucast (buffer ! (8 * i + 6))) XOR ucast (buffer ! (8 * i + 7))"

text \<open>The eight lookups of \<open>L[i]\<close>, in the round key or in the state.\<close>

definition wp_line :: "u64 list \<Rightarrow> nat \<Rightarrow> u64" where
  "wp_line K i =
     C0 ! unat (drop_bit 56 (K ! i)) XOR
     C1 ! unat (drop_bit 48 (K ! ((i + 7) mod 8)) AND 0xff) XOR
     C2 ! unat (drop_bit 40 (K ! ((i + 6) mod 8)) AND 0xff) XOR
     C3 ! unat (drop_bit 32 (K ! ((i + 5) mod 8)) AND 0xff) XOR
     C4 ! unat (drop_bit 24 (K ! ((i + 4) mod 8)) AND 0xff) XOR
     C5 ! unat (drop_bit 16 (K ! ((i + 3) mod 8)) AND 0xff) XOR
     C6 ! unat (drop_bit 8 (K ! ((i + 2) mod 8)) AND 0xff) XOR
     C7 ! unat (K ! ((i + 1) mod 8) AND 0xff)"

definition wp_round :: "nat \<Rightarrow> u64 list \<times> u64 list \<Rightarrow> u64 list \<times> u64 list" where
  "wp_round r = (\<lambda>(K, state).
     (let L = map (wp_line K) [0..<8];
          K = L[0 := L ! 0 XOR wp_rc ! r]
      in (K, map (\<lambda>i. wp_line state i XOR K ! i) [0..<8])))"

definition wp_compress :: "u64 list \<Rightarrow> bytes \<Rightarrow> u64 list" where
  "wp_compress hash buffer =
     (let block = map (wp_load buffer) [0..<8];
          (K, state) = fold wp_round [1..<11] (hash, map (\<lambda>i. block ! i XOR hash ! i) [0..<8])
      in map (\<lambda>i. hash ! i XOR (state ! i XOR block ! i)) [0..<8])"

definition processBuffer :: "WHIRLPOOL_CTX \<Rightarrow> WHIRLPOOL_CTX" where
  "processBuffer ctx = ctx\<lparr>wp_hash := wp_compress (wp_hash ctx) (wp_buffer ctx)\<rparr>"

section \<open>The compression of the standard\<close>

text \<open>
  The state is a list of eight rows, each a word. In the round, the byte at row \<open>i\<close> and column \<open>j\<close> comes
  from row \<open>i - j\<close>, is substituted, and contributes to row \<open>i\<close> its product with row \<open>j\<close> of the circulant
  matrix, which is the first row of the matrix moved by \<open>j\<close> bytes.
\<close>

definition wp_byte :: "u64 \<Rightarrow> nat \<Rightarrow> u8" where
  "wp_byte w j = ucast (drop_bit (56 - 8 * j) w)"

definition wp_std_row :: "u64 list \<Rightarrow> nat \<Rightarrow> u64" where
  "wp_std_row s i =
     fold (XOR) (map (\<lambda>j. word_rotr (8 * j) (wp_diffuse (wp_S ! unat (wp_byte (s ! ((i + 8 - j) mod 8)) j)))) [0..<8]) 0"

definition wp_std_constant :: "nat \<Rightarrow> u64" where
  "wp_std_constant r = wp_constant (take 8 (drop (8 * (r - 1)) wp_S))"

text \<open>\<open>\<rho>[k]\<close>, with the key added to the rows.\<close>

definition wp_std_rho :: "u64 list \<Rightarrow> u64 list \<Rightarrow> u64 list" where
  "wp_std_rho k s = map (\<lambda>i. wp_std_row s i XOR k ! i) [0..<8]"

definition wp_std_key :: "nat \<Rightarrow> u64 list" where
  "wp_std_key r = wp_std_constant r # replicate 7 0"

text \<open>The block cipher of ten rounds: the key schedule runs the round function on the constants.\<close>

primrec wp_std_keys :: "u64 list \<Rightarrow> nat \<Rightarrow> u64 list" where
  "wp_std_keys h 0 = h"
| "wp_std_keys h (Suc r) = wp_std_rho (wp_std_key (Suc r)) (wp_std_keys h r)"

definition wp_std_cipher :: "u64 list \<Rightarrow> u64 list \<Rightarrow> u64 list" where
  "wp_std_cipher h m = fold (\<lambda>r. wp_std_rho (wp_std_keys h r)) [1..<11] (map2 (XOR) m h)"

definition wp_standard :: "u64 list \<Rightarrow> bytes \<Rightarrow> u64 list" where
  "wp_standard h b =
     (let m = map (\<lambda>i. be_to_word (get_at (8 * i) 8 b)) [0..<8]
      in map2 (XOR) h (map2 (XOR) (wp_std_cipher h m) m))"

lemma wp_length_C: "length C0 = 256" "length wp_S = 256"
  by (simp_all add: wp_C0) (simp_all add: wp_S_def)

lemma wp_lookup:
  "C0 ! unat (b :: u8) = wp_diffuse (wp_S ! unat b)"
  "C1 ! unat b = word_rotr 8 (wp_diffuse (wp_S ! unat b))" "C2 ! unat b = word_rotr 16 (wp_diffuse (wp_S ! unat b))"
  "C3 ! unat b = word_rotr 24 (wp_diffuse (wp_S ! unat b))" "C4 ! unat b = word_rotr 32 (wp_diffuse (wp_S ! unat b))"
  "C5 ! unat b = word_rotr 40 (wp_diffuse (wp_S ! unat b))" "C6 ! unat b = word_rotr 48 (wp_diffuse (wp_S ! unat b))"
  "C7 ! unat b = word_rotr 56 (wp_diffuse (wp_S ! unat b))"
  unfolding wp_C1 wp_C2 wp_C3 wp_C4 wp_C5 wp_C6 wp_C7 wp_C0 by (simp_all add: wp_length_C)

lemma wp_low_byte: "unat (v AND 0xff) = unat (ucast v :: u8)" for v :: u64
proof -
  have "v AND 0xff = take_bit 8 v" by (simp add: take_bit_eq_mask mask_eq_exp_minus_1)
  then show ?thesis by (simp add: unsigned_take_bit_eq unsigned_ucast_eq)
qed

lemma wp_high_byte: "unat (drop_bit 56 v) = unat (ucast (drop_bit 56 v) :: u8)" for v :: u64
proof -
  have "take_bit 8 (drop_bit 56 v) = drop_bit 56 v"
    by (intro bit_word_eqI) (auto simp: bit_simps dest: bit_imp_le_length)
  then have "unat (take_bit 8 (drop_bit 56 v)) = unat (drop_bit 56 v)" by (rule arg_cong)
  then show ?thesis by (simp add: unsigned_take_bit_eq unsigned_ucast_eq)
qed

lemma word_rotr_0: "word_rotr 0 (w :: u64) = w"
  by (intro bit_word_eqI) (simp add: bit_word_rotr_iff)

lemma upt_8: "[0..<8] = [0, 1, 2, 3, 4, 5, 6, 7]"
  by code_simp

lemma wp_line_std:
  assumes "i < 8"
  shows "wp_line s i = wp_std_row s i"
proof -
  consider "i = 0" | "i = 1" | "i = 2" | "i = 3" | "i = 4" | "i = 5" | "i = 6" | "i = 7"
    using assms by linarith
  then show ?thesis
    by cases (simp_all add: wp_line_def wp_std_row_def wp_low_byte wp_high_byte wp_lookup wp_byte_def upt_8 word_xor_simps
        word_rotr_0 numeral_2_eq_2 [symmetric])
qed

lemma le_to_word_Cons_xor: "le_to_word (b # bs) = (ucast b XOR push_bit 8 (le_to_word bs) :: u64)"
proof -
  have "ucast b AND push_bit 8 (le_to_word bs) = (0 :: u64)"
    by (intro bit_word_eqI) (auto simp: bit_simps dest: bit_imp_le_length)
  then show ?thesis by (simp add: disjunctive_xor_eq_or)
qed

lemma wp_load_be:
  assumes "8 * i + 8 \<le> length b"
  shows "wp_load b i = be_to_word (get_at (8 * i) 8 b)"
proof -
  have "get_at (8 * i) 8 b = map (\<lambda>j. b ! (8 * i + j)) [0..<8]"
    using assms by (intro nth_equalityI) (simp_all add: nth_get_at)
  then show ?thesis
    by (simp add: be_to_word_def upt_8 wp_load_def le_to_word_Cons_xor push_bit_xor word_xor_simps del: le_to_word.simps(2))
qed

lemma wp_rc_std: "1 \<le> r \<Longrightarrow> r \<le> 10 \<Longrightarrow> wp_rc ! r = wp_std_constant r"
proof -
  assume r: "1 \<le> r" "r \<le> 10"
  then have "map (\<lambda>r. wp_constant (take 8 (drop (8 * (r - 1)) wp_S))) [1..<11] ! (r - 1) = tl wp_rc ! (r - 1)"
    by (simp only: wp_rc_constants)
  moreover have "length wp_rc = 11" by (simp add: wp_rc_def)
  ultimately show ?thesis using r by (simp add: wp_std_constant_def nth_tl del: upt_rec_numeral)
qed

lemma wp_round_std:
  assumes "1 \<le> r" "r \<le> 10"
  shows "wp_round r (K, s) = (wp_std_rho (wp_std_key r) K, wp_std_rho (wp_std_rho (wp_std_key r) K) s)"
proof -
  have "(map (wp_line K) [0..<8])[0 := map (wp_line K) [0..<8] ! 0 XOR wp_rc ! r] = wp_std_rho (wp_std_key r) K"
    using wp_rc_std [OF assms]
    by (intro nth_equalityI) (auto simp: wp_std_rho_def wp_std_key_def wp_line_std nth_list_update nth_Cons' simp del: upt_rec_numeral)
  moreover have "map (\<lambda>i. wp_line s i XOR k ! i) [0..<8] = wp_std_rho k s" for k
    by (simp add: wp_std_rho_def wp_line_std del: upt_rec_numeral)
  ultimately show ?thesis by (simp add: wp_round_def Let_def del: upt_rec_numeral)
qed

lemma wp_rounds_std:
  "r \<le> 10 \<Longrightarrow> fold wp_round [1..<Suc r] (h, s) = (wp_std_keys h r, fold (\<lambda>r. wp_std_rho (wp_std_keys h r)) [1..<Suc r] s)"
  by (induction r) (simp_all add: wp_round_std)

lemma length_wp_std_rho [simp]: "length (wp_std_rho k s) = 8"
  by (simp add: wp_std_rho_def)

lemma wp_compress_standard:
  assumes "length h = 8" "length b = 64"
  shows "wp_compress h b = wp_standard h b"
proof -
  let ?m = "map (\<lambda>i. be_to_word (get_at (8 * i) 8 b)) [0..<8] :: u64 list"
  have m: "map (wp_load b) [0..<8] = ?m" using assms by (simp add: wp_load_be)
  have start: "map (\<lambda>i. ?m ! i XOR h ! i) [0..<8] = map2 (XOR) ?m h"
    using assms by (intro nth_equalityI) (simp_all del: upt_rec_numeral)
  have run: "fold wp_round [1..<11] (h, map2 (XOR) ?m h) = (wp_std_keys h 10, wp_std_cipher h ?m)"
    using wp_rounds_std [of 10 h] by (simp add: wp_std_cipher_def del: upt_rec_numeral)
  have "length (fold (\<lambda>r. wp_std_rho (wp_std_keys h r)) rs s) = 8" if "length s = 8" for rs s
    using that by (induction rs arbitrary: s) simp_all
  then have "length (wp_std_cipher h ?m) = 8" using assms by (simp add: wp_std_cipher_def del: upt_rec_numeral)
  then show ?thesis
    unfolding wp_compress_def m Let_def start run wp_standard_def prod.case
    using assms by (intro nth_equalityI) (simp_all del: upt_rec_numeral)
qed

section \<open>Adding data\<close>

text \<open>The length in bits is a counter of 32 bytes, the last one lowest: \<open>wp_tally\<close> runs from byte \<open>i - 1\<close> down.\<close>

fun wp_tally :: "nat \<Rightarrow> u32 \<Rightarrow> u64 \<Rightarrow> bytes \<Rightarrow> bytes" where
  "wp_tally 0 carry value bitLength = bitLength"
| "wp_tally (Suc i) carry value bitLength =
     (if carry \<noteq> 0 \<or> value \<noteq> 0 then
        (let carry = carry + (ucast (bitLength ! i) + (ucast value AND 0xff))
         in wp_tally i (drop_bit 8 carry) (drop_bit 8 value) (bitLength[i := ucast carry]))
      else bitLength)"

text \<open>Writes to the byte at \<open>bufferPos\<close>, and the flush of a full buffer, which resets the positions.\<close>

definition wp_or :: "nat \<Rightarrow> u8 \<Rightarrow> WHIRLPOOL_CTX \<Rightarrow> WHIRLPOOL_CTX" where
  "wp_or p x ctx = ctx\<lparr>wp_buffer := (wp_buffer ctx)[p := wp_buffer ctx ! p OR x]\<rparr>"

definition wp_set :: "nat \<Rightarrow> u8 \<Rightarrow> WHIRLPOOL_CTX \<Rightarrow> WHIRLPOOL_CTX" where
  "wp_set p x ctx = ctx\<lparr>wp_buffer := (wp_buffer ctx)[p := x]\<rparr>"

definition wp_flush :: "WHIRLPOOL_CTX \<Rightarrow> nat \<Rightarrow> nat \<Rightarrow> WHIRLPOOL_CTX \<times> nat \<times> nat" where
  "wp_flush ctx bufferBits bufferPos =
     (if bufferBits = 512 then (processBuffer ctx, 0, 0) else (ctx, bufferBits, bufferPos))"

text \<open>
  The loop that takes 8 bits at a time: \<open>gap\<close> is \<open>sourceGap\<close>, \<open>rem\<close> is \<open>bufferRem\<close>, \<open>n\<close> is
  \<open>sourceBits\<close>.
\<close>

fun wp_loop ::
  "bytes \<Rightarrow> nat \<Rightarrow> nat \<Rightarrow> WHIRLPOOL_CTX \<Rightarrow> nat \<Rightarrow> nat \<Rightarrow> nat \<Rightarrow> nat \<Rightarrow> WHIRLPOOL_CTX \<times> nat \<times> nat \<times> nat \<times> nat" where
  "wp_loop source gap rem ctx bufferBits bufferPos sourcePos n =
     (if 8 < n then
        (let b = (push_bit gap (ucast (source ! sourcePos)) AND 0xff) OR
                 drop_bit (8 - gap) (ucast (source ! (sourcePos + 1)) AND 0xff) :: u32;
             ctx = wp_or bufferPos (ucast (drop_bit rem b)) ctx;
             (ctx, bufferBits, bufferPos) = wp_flush ctx (bufferBits + (8 - rem)) (bufferPos + 1);
             ctx = wp_set bufferPos (ucast (push_bit (8 - rem) b)) ctx
         in wp_loop source gap rem ctx (bufferBits + rem) bufferPos (sourcePos + 1) (n - 8))
      else (ctx, bufferBits, bufferPos, sourcePos, n))"

declare wp_loop.simps [simp del]

definition WHIRLPOOL_init :: "WHIRLPOOL_CTX \<Rightarrow> WHIRLPOOL_CTX" where
  "WHIRLPOOL_init ctx =
     ctx\<lparr>wp_bitLength := replicate 32 0, wp_bufferBits := 0, wp_bufferPos := 0,
         wp_buffer := (wp_buffer ctx)[0 := 0], wp_hash := replicate 8 0\<rparr>"

definition WHIRLPOOL_add :: "bytes \<Rightarrow> u32 \<Rightarrow> WHIRLPOOL_CTX \<Rightarrow> WHIRLPOOL_CTX" where
  "WHIRLPOOL_add source sourceBits ctx =
     (let gap = (8 - unat (sourceBits AND 7)) mod 8;
          rem = wp_bufferBits ctx mod 8;
          ctx = ctx\<lparr>wp_bitLength := wp_tally 32 0 (ucast sourceBits) (wp_bitLength ctx)\<rparr>;
          (ctx, bufferBits, bufferPos, sourcePos, n) =
            wp_loop source gap rem ctx (wp_bufferBits ctx) (wp_bufferPos ctx) 0 (unat sourceBits);
          b = (if 0 < n then push_bit gap (ucast (source ! sourcePos)) AND 0xff else 0 :: u32);
          ctx = (if 0 < n then wp_or bufferPos (ucast (drop_bit rem b)) ctx else ctx);
          (ctx, bufferBits, bufferPos) =
            (if rem + n < 8 then (ctx, bufferBits + n, bufferPos)
             else
               let (ctx, bufferBits, bufferPos) = wp_flush ctx (bufferBits + (8 - rem)) (bufferPos + 1);
                   ctx = wp_set bufferPos (ucast (push_bit (8 - rem) b)) ctx
               in (ctx, bufferBits + (n - (8 - rem)), bufferPos))
      in ctx\<lparr>wp_bufferBits := bufferBits, wp_bufferPos := bufferPos\<rparr>)"

definition wp_clear :: "nat \<Rightarrow> nat \<Rightarrow> WHIRLPOOL_CTX \<Rightarrow> WHIRLPOOL_CTX" where
  "wp_clear p n ctx = ctx\<lparr>wp_buffer := put_at p (replicate n 0) (wp_buffer ctx)\<rparr>"

definition WHIRLPOOL_finalize :: "WHIRLPOOL_CTX \<Rightarrow> bytes \<times> WHIRLPOOL_CTX" where
  "WHIRLPOOL_finalize ctx =
     (let bufferBits = wp_bufferBits ctx;
          bufferPos = wp_bufferPos ctx;
          ctx = wp_or bufferPos (drop_bit (bufferBits mod 8) 0x80) ctx;
          bufferPos = bufferPos + 1;
          (ctx, bufferPos) =
            (if 32 < bufferPos
             then (processBuffer (if bufferPos < 64 then wp_clear bufferPos (64 - bufferPos) ctx else ctx), 0)
             else (ctx, bufferPos));
          ctx = (if bufferPos < 32 then wp_clear bufferPos (32 - bufferPos) ctx else ctx);
          ctx = ctx\<lparr>wp_buffer := put_at 32 (take 32 (wp_bitLength ctx)) (wp_buffer ctx)\<rparr>;
          ctx = processBuffer ctx
      in (concat (map (\<lambda>i. map (\<lambda>s. ucast (drop_bit s (wp_hash ctx ! i))) [56, 48, 40, 32, 24, 16, 8, 0]) [0..<8]),
          ctx\<lparr>wp_bufferBits := bufferBits, wp_bufferPos := 32\<rparr>))"

section \<open>Whole bytes are absorbed\<close>

primrec nat_to_be :: "nat \<Rightarrow> nat \<Rightarrow> bytes" where
  "nat_to_be 0 k = []"
| "nat_to_be (Suc n) k = nat_to_be n (k div 256) @ [word_of_nat k]"

lemma length_nat_to_be [simp]: "length (nat_to_be n k) = n"
  by (induction n arbitrary: k) simp_all

lemma nat_to_be_zero: "nat_to_be n 0 = replicate n 0"
  by (induction n) (simp_all add: replicate_append_same)

lemma wp_tally_step:
  fixes carry :: u32 and v :: u64 and x :: u8
  assumes "unat carry \<le> 1" "x = word_of_nat N"
  defines "c \<equiv> carry + (ucast x + (ucast v AND 0xff))"
  shows "unat (drop_bit 8 c) \<le> 1 \<and> ucast c = (word_of_nat (N + unat carry + unat v) :: u8) \<and>
    N div 256 + unat (drop_bit 8 c) + unat (drop_bit 8 v) = (N + unat carry + unat v) div 256"
proof -
  have x: "unat (ucast x :: u32) = N mod 256" using assms(2)
    by (simp add: unsigned_ucast_eq take_bit_eq_mod unat_of_nat)
  have vb: "unat (ucast v AND 0xff :: u32) = unat v mod 256"
  proof -
    have "(ucast v AND 0xff :: u32) = take_bit 8 (ucast v)" by (simp add: take_bit_eq_mask mask_eq_exp_minus_1)
    then show ?thesis by (simp add: unsigned_take_bit_eq unsigned_ucast_eq) (simp add: take_bit_eq_mod)
  qed
  have b: "N mod 256 < 256" "unat v mod 256 < 256" by simp_all
  have "unat (ucast x + (ucast v AND 0xff) :: u32) = N mod 256 + unat v mod 256"
    unfolding unat_word_ariths x vb using b by (intro mod_less) simp
  then have c: "unat c = unat carry + (N mod 256 + unat v mod 256)"
    unfolding c_def unat_word_ariths using b assms(1) by simp
  have d: "unat (drop_bit 8 w) = unat w div 256" for w :: "'b::len word"
    by (simp only: unat_drop_bit_eq) (simp add: drop_bit_eq_div)
  define r where "r = N div 256 + unat v div 256"
  have e: "N + unat carry + unat v = unat c + r * 256"
  proof -
    have "N' + k + V = k + (rn + rv) + (qn + qv) * 256" if "qn * 256 + rn = N'" "qv * 256 + rv = V" for N' k V rn rv qn qv :: nat
      using that by simp
    from this [OF div_mult_mod_eq div_mult_mod_eq] show ?thesis unfolding c r_def .
  qed
  have "(N + unat carry + unat v) mod 256 = unat c mod 256" unfolding e by simp
  moreover have "a mod 256 = b mod 256 \<Longrightarrow> (word_of_nat a :: u8) = word_of_nat b" for a b :: nat
    by (simp add: word_of_nat_eq_iff take_bit_eq_mod)
  ultimately have "word_of_nat (N + unat carry + unat v) = (word_of_nat (unat c) :: u8)" by blast
  then have u: "ucast c = (word_of_nat (N + unat carry + unat v) :: u8)" by simp
  have "(N + unat carry + unat v) div 256 = r + unat c div 256" unfolding e by simp
  then have "(N + unat carry + unat v) div 256 = N div 256 + unat v div 256 + unat c div 256"
    by (simp only: r_def)
  moreover have "unat c div 256 \<le> 1" using c b assms(1) by linarith
  ultimately show ?thesis using u by (simp add: d)
qed

lemma wp_tally_be:
  assumes "take i bl = nat_to_be i N" "i \<le> length bl" "unat carry \<le> 1"
  shows "take i (wp_tally i carry v bl) = nat_to_be i (N + unat carry + unat v) \<and>
    drop i (wp_tally i carry v bl) = drop i bl \<and> length (wp_tally i carry v bl) = length bl"
  using assms
proof (induction i arbitrary: carry v bl N)
  case (Suc i)
  have bl: "take i bl = nat_to_be i (N div 256)" "bl ! i = word_of_nat N"
    using Suc.prems(1,2) by (simp_all add: take_Suc_conv_app_nth)
  show ?case
  proof (cases "carry \<noteq> 0 \<or> v \<noteq> 0")
    case False
    then show ?thesis using Suc.prems by simp
  next
    case True
    define c where "c = carry + (ucast (bl ! i) + (ucast v AND 0xff))"
    note st = wp_tally_step [OF Suc.prems(3) bl(2), of v, folded c_def]
    define r where "r = wp_tally i (drop_bit 8 c) (drop_bit 8 v) (bl[i := ucast c])"
    have IH: "take i r = nat_to_be i (N div 256 + unat (drop_bit 8 c) + unat (drop_bit 8 v))"
      "drop i r = drop i (bl[i := ucast c])" "length r = length bl"
      unfolding r_def using Suc.IH [of "bl[i := ucast c]" "N div 256" "drop_bit 8 c" "drop_bit 8 v"] bl(1) Suc.prems(2) st by simp_all
    have "r ! i # drop (Suc i) r = ucast c # drop (Suc i) bl"
      using IH(2,3) Suc.prems(2) Cons_nth_drop_Suc [of i r] Cons_nth_drop_Suc [of i "bl[i := ucast c]"] by simp
    then have "r ! i = ucast c" "drop (Suc i) r = drop (Suc i) bl" by simp_all
    moreover have "take (Suc i) r = take i r @ [r ! i]" using IH(3) Suc.prems(2) by (simp add: take_Suc_conv_app_nth)
    moreover have "wp_tally (Suc i) carry v bl = r" using True by (simp add: r_def c_def Let_def)
    ultimately show ?thesis using IH st by simp
  qed
qed simp

text \<open>The local state of the update: chaining value, waiting bytes, a zero byte after them.\<close>

definition wp_state :: "u64 list \<Rightarrow> bytes \<Rightarrow> WHIRLPOOL_CTX \<Rightarrow> nat \<Rightarrow> nat \<Rightarrow> bool" where
  "wp_state s t ctx bits pos \<longleftrightarrow>
     wp_hash ctx = s \<and> holds 64 (wp_buffer ctx) t \<and> length t < 64 \<and> wp_buffer ctx ! length t = 0 \<and>
     pos = length t \<and> bits = 8 * length t"

lemma holds_snoc: "holds B buf t \<Longrightarrow> length t < B \<Longrightarrow> holds B (buf[length t := x]) (t @ [x])"
  by (auto simp: holds_def take_Suc_conv_app_nth)

lemma wp_byte_step:
  assumes "wp_state s t ctx bits pos" "wp_flush (wp_or pos x ctx) (bits + 8) (pos + 1) = (ctx1, bits1, pos1)"
    "absorb wp_compress 64 s (t @ [x]) = (s', t')"
  shows "wp_state s' t' (wp_set pos1 0 ctx1) bits1 pos1 \<and> wp_bitLength (wp_set pos1 0 ctx1) = wp_bitLength ctx"
proof -
  have st: "wp_hash ctx = s" "holds 64 (wp_buffer ctx) t" "length t < 64" "wp_buffer ctx ! length t = 0" "pos = length t" "bits = 8 * length t"
    using assms(1) by (simp_all add: wp_state_def)
  have buf: "holds 64 (wp_buffer (wp_or pos x ctx)) (t @ [x])"
    using holds_snoc [OF st(2,3), of x] st(4,5) by (simp add: wp_or_def)
  show ?thesis
  proof (cases "length t = 63")
    case True
    have b: "length (t @ [x]) = 64" using True by simp
    have "wp_buffer (wp_or pos x ctx) = t @ [x]" using holds_full [OF buf b] .
    moreover have "ctx1 = processBuffer (wp_or pos x ctx)" "bits1 = 0" "pos1 = 0"
      using assms(2) True st(6) by (simp_all add: wp_flush_def)
    moreover have "s' = wp_compress s (t @ [x])" "t' = []"
      using assms(3) absorb_block [of 64 "t @ [x]" wp_compress s "[]"] b by (simp_all add: absorb_def)
    ultimately show ?thesis
      using st(1) b by (simp add: wp_state_def processBuffer_def wp_set_def wp_or_def holds_Nil)
  next
    case False
    then have n: "length (t @ [x]) < 64" using st(3) by simp
    then have "s' = s" "t' = t @ [x]" using assms(3) absorb_short [OF n, of wp_compress s] by simp_all
    moreover have "ctx1 = wp_or pos x ctx" "bits1 = 8 * length (t @ [x])" "pos1 = length (t @ [x])"
      using assms(2) n st(5,6) by (auto simp: wp_flush_def)
    moreover have "holds 64 ((wp_buffer (wp_or pos x ctx))[length (t @ [x]) := 0]) (t @ [x])"
      using buf by (simp add: holds_def)
    ultimately show ?thesis
      using st(1) n buf by (simp add: wp_state_def wp_set_def wp_or_def holds_def)
  qed
qed

text \<open>With whole bytes the byte taken from the source is the source byte and nothing is left of it.\<close>

lemma wp_whole_byte:
  "drop_bit 8 (ucast (y :: u8) :: u32) = 0" "ucast (ucast x :: u32) = (x :: u8)"
  "ucast (push_bit 8 (w :: u32)) = (0 :: u8)" "ucast (x :: u8) AND 0xff = (ucast x :: u32)"
proof -
  have m: "w AND 0xff = take_bit 8 w" for w :: u32 by (simp add: take_bit_eq_mask mask_eq_exp_minus_1)
  show "ucast (x :: u8) AND 0xff = (ucast x :: u32)"
    unfolding m by (intro bit_word_eqI) (auto simp: bit_simps dest: bit_imp_le_length)
  show "drop_bit 8 (ucast (y :: u8) :: u32) = 0" "ucast (ucast x :: u32) = (x :: u8)"
    by (intro bit_word_eqI; auto simp: bit_simps dest: bit_imp_le_length)+
  show "ucast (push_bit 8 (w :: u32)) = (0 :: u8)" by (intro bit_word_eqI) (simp add: bit_simps)
qed

lemma wp_loop_bytes:
  assumes "wp_state s t ctx bits pos" "sp + k < length source"
  shows "\<exists>ctx' bits' pos'. wp_loop source 0 0 ctx bits pos sp (8 * Suc k) = (ctx', bits', pos', sp + k, 8) \<and>
    (case absorb wp_compress 64 s (t @ take k (drop sp source)) of (s', t') \<Rightarrow> wp_state s' t' ctx' bits' pos') \<and>
    wp_bitLength ctx' = wp_bitLength ctx"
  using assms
proof (induction k arbitrary: s t ctx bits pos sp)
  case 0
  then have "length t < 64" by (simp add: wp_state_def)
  then show ?case using 0 by (subst wp_loop.simps) (simp add: absorb_short)
next
  case (Suc k)
  let ?x = "source ! sp"
  obtain s1 t1 where a1: "absorb wp_compress 64 s (t @ [?x]) = (s1, t1)" by force
  obtain c1 b1 p1 where f: "wp_flush (wp_or pos ?x ctx) (bits + 8) (pos + 1) = (c1, b1, p1)" by (metis prod_cases3)
  note st = wp_byte_step [OF Suc.prems(1) f a1]
  have step: "wp_loop source 0 0 ctx bits pos sp (8 * Suc (Suc k)) = wp_loop source 0 0 (wp_set p1 0 c1) b1 p1 (Suc sp) (8 * Suc k)"
    using f by (subst wp_loop.simps) (simp add: Let_def wp_whole_byte)
  have "drop sp source = ?x # drop (Suc sp) source" using Suc.prems(2) by (simp add: Cons_nth_drop_Suc)
  then have split: "t @ take (Suc k) (drop sp source) = (t @ [?x]) @ take k (drop (Suc sp) source)" by simp
  have "absorb wp_compress 64 s (t @ take (Suc k) (drop sp source)) = absorb wp_compress 64 s1 (t1 @ take k (drop (Suc sp) source))"
    unfolding split by (rule absorb_append [OF _ a1]) simp
  then show ?case
    using Suc.IH [OF conjunct1 [OF st], of "Suc sp"] Suc.prems(2) st unfolding step by auto
qed

definition wp_absorbed :: "bytes \<Rightarrow> WHIRLPOOL_CTX \<Rightarrow> bool" where
  "wp_absorbed m ctx \<longleftrightarrow>
     (case absorb wp_compress 64 (replicate 8 0) m of (s, t) \<Rightarrow> wp_state s t ctx (wp_bufferBits ctx) (wp_bufferPos ctx)) \<and>
     wp_bitLength ctx = nat_to_be 32 (8 * length m)"

lemma WHIRLPOOL_init_absorbed: "length (wp_buffer ctx) = 64 \<Longrightarrow> wp_absorbed [] (WHIRLPOOL_init ctx)"
  by (simp add: wp_absorbed_def absorb_def wp_state_def WHIRLPOOL_init_def holds_Nil nat_to_be_zero)

lemma wp_tally_length:
  "bl = nat_to_be 32 n \<Longrightarrow> wp_tally 32 0 v bl = nat_to_be 32 (n + unat v)"
proof -
  assume bl: "bl = nat_to_be 32 n"
  have r: "take 32 (wp_tally 32 0 v bl) = nat_to_be 32 (n + unat v)" "length (wp_tally 32 0 v bl) = 32"
    using wp_tally_be [of 32 bl n 0 v] bl by simp_all
  then show ?thesis by simp
qed

lemma WHIRLPOOL_add_absorbed:
  assumes inv: "wp_absorbed m ctx" and n: "n \<le> length source" "8 * n < 2 ^ 32"
  shows "wp_absorbed (m @ take n source) (WHIRLPOOL_add source (word_of_nat (8 * n)) ctx)"
proof -
  let ?w = "word_of_nat (8 * n) :: u32"
  obtain s t where a: "absorb wp_compress 64 (replicate 8 0) m = (s, t)" by force
  have u: "unat ?w = 8 * n" using n(2) by (simp only: unat_of_nat) simp
  then have u64: "unat (ucast ?w :: u64) = 8 * n" using n(2) by (simp add: unsigned_ucast_eq take_bit_nat_eq_self)
  define ctx0 where "ctx0 = ctx\<lparr>wp_bitLength := wp_tally 32 0 (ucast ?w) (wp_bitLength ctx)\<rparr>"
  have st: "wp_state s t ctx0 (wp_bufferBits ctx) (wp_bufferPos ctx)"
    using inv a by (simp add: wp_absorbed_def wp_state_def ctx0_def)
  have len0: "wp_bitLength ctx0 = nat_to_be 32 (8 * length (m @ take n source))"
    using inv n(1) wp_tally_length [of "wp_bitLength ctx" "8 * length m" "ucast ?w"]
    by (simp add: ctx0_def wp_absorbed_def u64 add_mult_distrib2 min_absorb2 del: of_nat_mult)
  have keeps: "wp_bufferBits ctx0 = wp_bufferBits ctx" "wp_bufferPos ctx0 = wp_bufferPos ctx" by (simp_all add: ctx0_def)
  have rem: "wp_bufferBits ctx mod 8 = 0" using st by (simp add: wp_state_def)
  have gap: "(8 - unat (?w AND 7)) mod 8 = 0"
  proof -
    have "?w AND 7 = take_bit 3 ?w" by (simp add: take_bit_eq_mask mask_eq_exp_minus_1)
    then have "unat (?w AND 7) = 8 * n mod 8" by (simp only: unsigned_take_bit_eq u) (simp add: take_bit_eq_mod)
    then show ?thesis by simp
  qed
  have new: "absorb wp_compress 64 (replicate 8 0) (m @ take n source) = absorb wp_compress 64 s (t @ take n source)"
    by (rule absorb_append [OF _ a]) simp
  show ?thesis
  proof (cases n)
    case 0
    then have "WHIRLPOOL_add source ?w ctx = ctx0"
      by (simp add: WHIRLPOOL_add_def wp_loop.simps ctx0_def rem Let_def)
    then show ?thesis using inv st a len0 0 by (simp add: wp_absorbed_def ctx0_def)
  next
    case (Suc k)
    have "0 + k < length source" using n(1) Suc by simp
    note bytes = wp_loop_bytes [OF st this]
    obtain s1 t1 where a1: "absorb wp_compress 64 s (t @ take k source) = (s1, t1)" by force
    from bytes obtain c b p where
      loop: "wp_loop source 0 0 ctx0 (wp_bufferBits ctx) (wp_bufferPos ctx) 0 (8 * n) = (c, b, p, k, 8)" and
      st1: "wp_state s1 t1 c b p" "wp_bitLength c = wp_bitLength ctx0"
      unfolding Suc by (auto simp: a1)
    let ?x = "source ! k"
    obtain s2 t2 where a2: "absorb wp_compress 64 s1 (t1 @ [?x]) = (s2, t2)" by force
    obtain c1 b1 p1 where f: "wp_flush (wp_or p ?x c) (b + 8) (p + 1) = (c1, b1, p1)" by (metis prod_cases3)
    note st2 = wp_byte_step [OF st1(1) f a2]
    have "WHIRLPOOL_add source ?w ctx = (wp_set p1 0 c1)\<lparr>wp_bufferBits := b1, wp_bufferPos := p1\<rparr>"
      using f unfolding WHIRLPOOL_add_def gap rem u Let_def ctx0_def [symmetric] keeps loop prod.case
      by (simp add: wp_whole_byte)
    moreover have "absorb wp_compress 64 s (t @ take n source) = (s2, t2)"
    proof -
      have "t @ take n source = (t @ take k source) @ [?x]" using n(1) Suc by (simp add: take_Suc_conv_app_nth)
      then show ?thesis using absorb_append [OF _ a1, of "[?x]"] a2 by simp
    qed
    ultimately show ?thesis
      unfolding wp_absorbed_def new using st2 len0 st1(2) by (auto simp: wp_state_def)
  qed
qed

section \<open>The digest\<close>

text \<open>
  Whirlpool of a message: the message, a byte \<open>0x80\<close>, zeros up to 32 modulo 64 bytes and its length in
  bits in 32 bytes, through the compression of the standard from the zero state.
\<close>

definition wp_pad :: "nat \<Rightarrow> bytes" where
  "wp_pad n = 0x80 # replicate ((95 - n mod 64) mod 64) 0 @ nat_to_be 32 (8 * n)"

definition whirlpool_digest :: "bytes \<Rightarrow> bytes" where
  "whirlpool_digest m =
     (let p = m @ wp_pad (length m)
      in concat (map (word_to_be 8) (md_blocks wp_standard 64 (length p div 64) (replicate 8 0) p)))"

lemma wp_md_standard:
  "length h = 8 \<Longrightarrow> 64 * n \<le> length p \<Longrightarrow> md_blocks wp_compress 64 n h p = md_blocks wp_standard 64 n h p \<and>
    length (md_blocks wp_standard 64 n h p) = 8"
proof (induction n arbitrary: h p)
  case (Suc n)
  have "wp_compress h (take 64 p) = wp_standard h (take 64 p)" using Suc.prems by (intro wp_compress_standard) simp_all
  moreover have "length (wp_compress h b) = 8" for b by (simp add: wp_compress_def Let_def split_beta)
  ultimately have "length (wp_standard h (take 64 p)) = 8" by metis
  moreover have "64 * n \<le> length (drop 64 p)" using Suc.prems(2) by simp
  ultimately show ?case using Suc.IH [of "wp_standard h (take 64 p)" "drop 64 p"] Suc.prems \<open>wp_compress h (take 64 p) = _\<close> by simp
qed simp

lemma wp_pad_zeros:
  fixes h :: nat
  assumes "h < 64"
  shows "(95 - h) mod 64 = (if h < 32 then 31 - h else 95 - h)"
proof (cases "h < 32")
  case True
  then have "95 - h = (31 - h) + 64" by linarith
  then have "(95 - h) mod 64 = (31 - h) mod 64" by (simp only: mod_add_self2)
  then show ?thesis using True by simp
qed (use assms in simp)

lemma wp_output: "map (\<lambda>s. ucast (drop_bit s w)) [56, 48, 40, 32, 24, 16, 8, 0] = (word_to_be 8 w :: bytes)" for w :: u64
  by (simp add: word_to_be_def word_to_le_def upt_8 numeral_eq_Suc)

lemma wp_clear_fill:
  "p \<le> n \<Longrightarrow> n \<le> length (wp_buffer ctx) \<Longrightarrow> (if p < n then wp_clear p (n - p) ctx else ctx) =
    ctx\<lparr>wp_buffer := take p (wp_buffer ctx) @ replicate (n - p) 0 @ drop n (wp_buffer ctx)\<rparr>"
  by (cases "p = n") (simp_all add: wp_clear_def put_at_def)

lemma WHIRLPOOL_finalize_digest:
  assumes "wp_absorbed m ctx"
  shows "fst (WHIRLPOOL_finalize ctx) = whirlpool_digest m"
proof -
  obtain s t where a: "absorb wp_compress 64 (replicate 8 0) m = (s, t)" by force
  have st: "wp_hash ctx = s" "holds 64 (wp_buffer ctx) t" "length t < 64" "wp_buffer ctx ! length t = 0"
    "wp_bufferPos ctx = length t" "wp_bufferBits ctx = 8 * length t" and bl: "wp_bitLength ctx = nat_to_be 32 (8 * length m)"
    using assms a by (simp_all add: wp_absorbed_def wp_state_def)
  have t: "length t = length m mod 64" using length_absorb_tail [of wp_compress 64 "replicate 8 0" m] a by simp
  define L where "L = nat_to_be 32 (8 * length m)"
  have L: "length L = 32" by (simp add: L_def)
  let ?p = "m @ wp_pad (length m)"
  define z where "z = (95 - length m mod 64) mod 64"
  have pad: "wp_pad (length m) = 0x80 # replicate z 0 @ L" by (simp add: wp_pad_def z_def L_def)
  have new: "absorb wp_compress 64 (replicate 8 0) ?p = absorb wp_compress 64 s (t @ 0x80 # replicate z 0 @ L)"
    using absorb_append [OF _ a, of "wp_pad (length m)"] by (simp add: pad)
  let ?b = "(wp_buffer ctx)[length t := 0x80]"
  have b1: "take (Suc (length t)) ?b = t @ [0x80]" "length ?b = 64"
    using holds_snoc [OF st(2,3), of "0x80"] by (simp_all add: holds_def)
  have first: "wp_or (wp_bufferPos ctx) (drop_bit (wp_bufferBits ctx mod 8) 0x80) ctx = ctx\<lparr>wp_buffer := ?b\<rparr>"
    using st by (simp add: wp_or_def)
  have "wp_hash (snd (WHIRLPOOL_finalize ctx)) = fst (absorb wp_compress 64 s (t @ 0x80 # replicate z 0 @ L))"
  proof (cases "length t < 32")
    case True
    then have z: "z = 31 - length t" using wp_pad_zeros [OF st(3)] by (simp add: z_def t)
    have len: "length (t @ 0x80 # replicate z 0 @ L) = 64" using True z L by simp
    have "wp_hash (snd (WHIRLPOOL_finalize ctx)) = wp_compress s (t @ 0x80 # replicate z 0 @ L)"
    proof -
      have "take 32 (take (Suc (length t)) ?b @ replicate (32 - Suc (length t)) 0 @ drop 32 ?b) @ L = t @ 0x80 # replicate z 0 @ L"
      proof -
        have "32 - length t = Suc (31 - length t)" using True by simp
        then show ?thesis by (simp add: b1(1) z)
      qed
      then show ?thesis
        unfolding WHIRLPOOL_finalize_def Let_def first
        using True st b1 L bl wp_clear_fill [of "Suc (length t)" 32 "ctx\<lparr>wp_buffer := ?b\<rparr>"]
        by (simp add: processBuffer_def put_at_def L_def [symmetric])
    qed
    then show ?thesis using absorb_block [OF _ len, of wp_compress s "[]"] by (simp add: absorb_def)
  next
    case False
    then have z: "z = (63 - length t) + 32" using wp_pad_zeros [OF st(3)] st(3) by (simp add: z_def t)
    let ?b1 = "t @ 0x80 # replicate (63 - length t) 0" and ?b2 = "replicate 32 0 @ L"
    have len: "length ?b1 = 64" "length ?b2 = 64" using st(3) L by simp_all
    have split: "t @ 0x80 # replicate z 0 @ L = ?b1 @ ?b2" by (simp add: z replicate_add)
    have "wp_hash (snd (WHIRLPOOL_finalize ctx)) = wp_compress (wp_compress s ?b1) ?b2"
    proof -
      have "take (Suc (length t)) ?b @ replicate (64 - Suc (length t)) 0 @ drop 64 ?b = ?b1"
        using b1 by simp
      moreover have "?b = t @ [0x80]" if "\<not> length t < 63"
      proof -
        have "length ?b \<le> Suc (length t)" using that b1(2) by simp
        then show ?thesis using b1(1) by simp
      qed
      ultimately show ?thesis
        unfolding WHIRLPOOL_finalize_def Let_def first
        using False st b1 L bl wp_clear_fill [of "Suc (length t)" 64 "ctx\<lparr>wp_buffer := ?b\<rparr>"]
        by (simp add: processBuffer_def wp_clear_def put_at_def L_def [symmetric])
    qed
    then show ?thesis unfolding split
      using absorb_block [OF _ len(1), of wp_compress s ?b2] absorb_block [OF _ len(2), of wp_compress _ "[]"] by (simp add: absorb_def)
  qed
  then have hash: "wp_hash (snd (WHIRLPOOL_finalize ctx)) = md_blocks wp_compress 64 (length ?p div 64) (replicate 8 0) ?p"
    using new by (simp add: absorb_def)
  also have "\<dots> = md_blocks wp_standard 64 (length ?p div 64) (replicate 8 0) ?p"
    using wp_md_standard [of "replicate 8 0" "length ?p div 64" ?p] by simp
  finally have h: "wp_hash (snd (WHIRLPOOL_finalize ctx)) = md_blocks wp_standard 64 (length ?p div 64) (replicate 8 0) ?p" .
  moreover have "length (md_blocks wp_standard 64 (length ?p div 64) (replicate 8 0) ?p) = 8"
    using wp_md_standard [of "replicate 8 0" "length ?p div 64" ?p] by simp
  moreover have "fst (WHIRLPOOL_finalize ctx) = concat (map (\<lambda>i. word_to_be 8 (wp_hash (snd (WHIRLPOOL_finalize ctx)) ! i)) [0..<8])"
    unfolding WHIRLPOOL_finalize_def Let_def split_beta wp_output by simp
  moreover have "map (\<lambda>i. word_to_be 8 (ws ! i)) [0..<8] = map (word_to_be 8) ws" if "length ws = 8" for ws :: "u64 list"
    using that by (intro nth_equalityI) (simp_all del: upt_rec_numeral)
  ultimately show ?thesis by (simp add: whirlpool_digest_def Let_def del: upt_rec_numeral)
qed

end
