(* ===== verification/Pkcs5.thy ===== *)
theory Pkcs5
  imports Sha2 Ripemd160 Whirlpool Cipher_Config
begin

text \<open>
  Common/Pkcs5.c: the four HMACs, the PBKDF2 block function and the key derivation of each, the names
  and the iteration counts. The code repeats one text per hash; \<open>hmac_with\<close>, \<open>derive_u_with\<close> and
  \<open>derive_key_with\<close> are that text with the functions of the hash as parameters. The locale
  \<open>hash_function\<close> is what the text needs of a hash, interpreted on the four hashes of the program; under
  it the code computes the HMAC of RFC 2104 and the PBKDF2 of RFC 2898. Contexts on the stack are
  uninitialised: \<open>cx\<close> is their content.
\<close>

unbundle bit_operations_syntax

section \<open>The functions\<close>

text \<open>\<open>hmac_truncate (d1, d2, len)\<close> writes to \<open>d2\<close>.\<close>

definition hmac_truncate :: "bytes \<Rightarrow> nat \<Rightarrow> bytes" where
  "hmac_truncate d1 len = map (\<lambda>i. d1 ! i) [0..<len]"

text \<open>\<open>buf\<close>: the key exclusive-ored with the pad byte, and the pad byte up to the block size.\<close>

definition hmac_buf :: "nat \<Rightarrow> u8 \<Rightarrow> bytes \<Rightarrow> nat \<Rightarrow> bytes" where
  "hmac_buf B p k lk = map (\<lambda>i. k ! i XOR p) [0..<lk] @ map (\<lambda>i. p) [lk..<B]"

definition hmac_with ::
  "('c \<Rightarrow> 'c) \<Rightarrow> (bytes \<Rightarrow> nat \<Rightarrow> 'c \<Rightarrow> 'c) \<Rightarrow> ('c \<Rightarrow> bytes \<times> 'c) \<Rightarrow> nat \<Rightarrow> nat \<Rightarrow> 'c \<Rightarrow>
    bytes \<Rightarrow> nat \<Rightarrow> bytes \<Rightarrow> nat \<Rightarrow> nat \<Rightarrow> bytes" where
  "hmac_with init upd fin B D cx k lk d ld t =
     (let (k, lk) = (if B < lk then (fst (fin (upd k lk (init cx))), D) else (k, lk));
          isha = fst (fin (upd d ld (upd (hmac_buf B 0x36 k lk) B (init cx))));
          osha = fst (fin (upd isha D (upd (hmac_buf B 0x5C k lk) B (init cx))));
          t = (if t > D then D else t)
      in hmac_truncate osha t)"

definition hmac_sha512 :: "u64 sha_ctx \<Rightarrow> bytes \<Rightarrow> nat \<Rightarrow> bytes \<Rightarrow> nat \<Rightarrow> nat \<Rightarrow> bytes" where
  "hmac_sha512 = hmac_with sha512_begin (\<lambda>data len. sha512_hash data (word_of_nat len)) sha512_end 128 64"

definition hmac_sha1 :: "u32 sha_ctx \<Rightarrow> bytes \<Rightarrow> nat \<Rightarrow> bytes \<Rightarrow> nat \<Rightarrow> nat \<Rightarrow> bytes" where
  "hmac_sha1 = hmac_with sha1_begin (\<lambda>data len. sha1_hash data (word_of_nat len)) sha1_end 64 20"

definition hmac_whirlpool :: "WHIRLPOOL_CTX \<Rightarrow> bytes \<Rightarrow> nat \<Rightarrow> bytes \<Rightarrow> nat \<Rightarrow> nat \<Rightarrow> bytes" where
  "hmac_whirlpool =
     hmac_with WHIRLPOOL_init (\<lambda>data len. WHIRLPOOL_add data (word_of_nat (8 * len))) WHIRLPOOL_finalize 64 64"

text \<open>The RIPEMD-160 variant has its pads in two arrays of 65 bytes and always writes the whole digest.\<close>

definition rmd_pads :: "u8 \<Rightarrow> bytes \<Rightarrow> nat \<Rightarrow> bytes" where
  "rmd_pads p key keylen = fold (\<lambda>i b. b[i := b ! i XOR key ! i]) [0..<keylen] (replicate 65 p)"

definition hmac_ripemd160 :: "RMD160_CTX \<Rightarrow> bytes \<Rightarrow> nat \<Rightarrow> bytes \<Rightarrow> nat \<Rightarrow> bytes" where
  "hmac_ripemd160 cx key keylen input len =
     (let (key, keylen) =
            (if 64 < keylen then (fst (RMD160Final (RMD160Update (RMD160Init cx) key (word_of_nat keylen))), 20)
             else (key, keylen));
          k_ipad = rmd_pads 0x36 key keylen;
          k_opad = rmd_pads 0x5c key keylen;
          (digest, context) =
            RMD160Final (RMD160Update (RMD160Update (RMD160Init cx) k_ipad 64) input (word_of_nat len))
      in fst (RMD160Final (RMD160Update (RMD160Update (RMD160Init context) k_opad 64) digest 20)))"

text \<open>One block of the derived key: \<open>iterations\<close> applications of the HMAC, exclusive-ored together.\<close>

definition derive_step :: "(bytes \<Rightarrow> bytes) \<Rightarrow> bytes \<times> bytes \<Rightarrow> bytes \<times> bytes" where
  "derive_step mac = (\<lambda>(u, j). let k = mac j in (xor_bytes u k, k))"

definition derive_u_with ::
  "(bytes \<Rightarrow> nat \<Rightarrow> bytes \<Rightarrow> nat \<Rightarrow> bytes) \<Rightarrow> nat \<Rightarrow> bytes \<Rightarrow> nat \<Rightarrow> bytes \<Rightarrow> nat \<Rightarrow> nat \<Rightarrow> nat \<Rightarrow> bytes" where
  "derive_u_with hmac D pwd pwd_len salt salt_len iterations b =
     (let counter = [0, 0, 0, word_of_nat b];
          init = take salt_len salt @ counter;
          j = hmac pwd pwd_len init (salt_len + 4)
      in fst ((derive_step (\<lambda>j. hmac pwd pwd_len j D) ^^ (iterations - 1)) (j, j)))"

definition derive_u_sha512 :: "u64 sha_ctx \<Rightarrow> bytes \<Rightarrow> nat \<Rightarrow> bytes \<Rightarrow> nat \<Rightarrow> nat \<Rightarrow> nat \<Rightarrow> bytes" where
  "derive_u_sha512 cx = derive_u_with (\<lambda>k lk d ld. hmac_sha512 cx k lk d ld 64) 64"

definition derive_u_sha1 :: "u32 sha_ctx \<Rightarrow> bytes \<Rightarrow> nat \<Rightarrow> bytes \<Rightarrow> nat \<Rightarrow> nat \<Rightarrow> nat \<Rightarrow> bytes" where
  "derive_u_sha1 cx = derive_u_with (\<lambda>k lk d ld. hmac_sha1 cx k lk d ld 20) 20"

definition derive_u_ripemd160 :: "RMD160_CTX \<Rightarrow> bytes \<Rightarrow> nat \<Rightarrow> bytes \<Rightarrow> nat \<Rightarrow> nat \<Rightarrow> nat \<Rightarrow> bytes" where
  "derive_u_ripemd160 cx = derive_u_with (hmac_ripemd160 cx) 20"

definition derive_u_whirlpool :: "WHIRLPOOL_CTX \<Rightarrow> bytes \<Rightarrow> nat \<Rightarrow> bytes \<Rightarrow> nat \<Rightarrow> nat \<Rightarrow> nat \<Rightarrow> bytes" where
  "derive_u_whirlpool cx = derive_u_with (\<lambda>k lk d ld. hmac_whirlpool cx k lk d ld 64) 64"

text \<open>
  The derived key: \<open>l - 1\<close> whole blocks and \<open>r\<close> bytes of the last one; the loop leaves \<open>b\<close> at \<open>l\<close>, or
  at 1 when there is no block. The numbers are \<open>int\<close>s of the source, so \<open>r\<close> is computed in \<open>int\<close>.
\<close>

definition derive_key_with :: "(nat \<Rightarrow> bytes) \<Rightarrow> nat \<Rightarrow> nat \<Rightarrow> bytes" where
  "derive_key_with u D dklen =
     (let l = (if dklen mod D \<noteq> 0 then 1 + dklen div D else dklen div D);
          r = nat (int dklen - (int l - 1) * int D)
      in concat (map u [1..<l]) @ take r (u (max 1 l)))"

definition derive_key_sha512 :: "u64 sha_ctx \<Rightarrow> bytes \<Rightarrow> nat \<Rightarrow> bytes \<Rightarrow> nat \<Rightarrow> nat \<Rightarrow> nat \<Rightarrow> bytes" where
  "derive_key_sha512 cx pwd pwd_len salt salt_len iterations =
     derive_key_with (derive_u_sha512 cx pwd pwd_len salt salt_len iterations) 64"

definition derive_key_sha1 :: "u32 sha_ctx \<Rightarrow> bytes \<Rightarrow> nat \<Rightarrow> bytes \<Rightarrow> nat \<Rightarrow> nat \<Rightarrow> nat \<Rightarrow> bytes" where
  "derive_key_sha1 cx pwd pwd_len salt salt_len iterations =
     derive_key_with (derive_u_sha1 cx pwd pwd_len salt salt_len iterations) 20"

definition derive_key_ripemd160 :: "RMD160_CTX \<Rightarrow> bytes \<Rightarrow> nat \<Rightarrow> bytes \<Rightarrow> nat \<Rightarrow> nat \<Rightarrow> nat \<Rightarrow> bytes" where
  "derive_key_ripemd160 cx pwd pwd_len salt salt_len iterations =
     derive_key_with (derive_u_ripemd160 cx pwd pwd_len salt salt_len iterations) 20"

definition derive_key_whirlpool :: "WHIRLPOOL_CTX \<Rightarrow> bytes \<Rightarrow> nat \<Rightarrow> bytes \<Rightarrow> nat \<Rightarrow> nat \<Rightarrow> nat \<Rightarrow> bytes" where
  "derive_key_whirlpool cx pwd pwd_len salt salt_len iterations =
     derive_key_with (derive_u_whirlpool cx pwd pwd_len salt salt_len iterations) 64"

definition get_pkcs5_prf_name :: "nat \<Rightarrow> string" where
  "get_pkcs5_prf_name pkcs5_prf_id =
     (if pkcs5_prf_id = SHA512 then ''HMAC-SHA-512''
      else if pkcs5_prf_id = SHA1 then ''HMAC-SHA-1''
      else if pkcs5_prf_id = RIPEMD160 then ''HMAC-RIPEMD-160''
      else if pkcs5_prf_id = WHIRLPOOL then ''HMAC-Whirlpool''
      else ''(Unknown)'')"

text \<open>\<open>None\<close> is the fatal exception.\<close>

definition get_pkcs5_iteration_count :: "nat \<Rightarrow> bool \<Rightarrow> nat option" where
  "get_pkcs5_iteration_count pkcs5_prf_id bBoot =
     (if pkcs5_prf_id = RIPEMD160 then Some (if bBoot then 1000 else 2000)
      else if pkcs5_prf_id = SHA512 then Some 1000
      else if pkcs5_prf_id = SHA1 then Some 2000
      else if pkcs5_prf_id = WHIRLPOOL then Some 1000
      else None)"

section \<open>The standards\<close>

text \<open>RFC 2104, over a hash function \<open>H\<close> with blocks of \<open>B\<close> bytes.\<close>

definition HMAC :: "(bytes \<Rightarrow> bytes) \<Rightarrow> nat \<Rightarrow> bytes \<Rightarrow> bytes \<Rightarrow> bytes" where
  "HMAC H B K m =
     (let K = (if B < length K then H K else K);
          K0 = K @ replicate (B - length K) 0
      in H (xor_bytes K0 (replicate B 0x5C) @ H (xor_bytes K0 (replicate B 0x36) @ m)))"

text \<open>RFC 2898: \<open>F (P, S, c, i)\<close> and the derived key, over a pseudorandom function.\<close>

primrec pbkdf2_U :: "(bytes \<Rightarrow> bytes) \<Rightarrow> bytes \<Rightarrow> nat \<Rightarrow> bytes" where
  "pbkdf2_U prf s 0 = prf s"
| "pbkdf2_U prf s (Suc n) = prf (pbkdf2_U prf s n)"

definition pbkdf2_F :: "(bytes \<Rightarrow> bytes) \<Rightarrow> bytes \<Rightarrow> nat \<Rightarrow> nat \<Rightarrow> bytes" where
  "pbkdf2_F prf S c i =
     (let s = S @ word_to_be 4 (word_of_nat i :: u32)
      in foldl xor_bytes (pbkdf2_U prf s 0) (map (pbkdf2_U prf s) [1..<c]))"

definition PBKDF2 :: "(bytes \<Rightarrow> bytes) \<Rightarrow> nat \<Rightarrow> bytes \<Rightarrow> nat \<Rightarrow> nat \<Rightarrow> bytes" where
  "PBKDF2 prf hLen S c dkLen =
     take dkLen (concat (map (pbkdf2_F prf S c) [1..<Suc ((dkLen + hLen - 1) div hLen)]))"

section \<open>The loops compute the standards\<close>

lemma length_hmac_buf: "lk \<le> B \<Longrightarrow> length (hmac_buf B p k lk) = B"
  by (simp add: hmac_buf_def)

lemma hmac_buf_pad: "lk \<le> B \<Longrightarrow> lk \<le> length k \<Longrightarrow> hmac_buf B p k lk = xor_bytes (take lk k @ replicate (B - lk) 0) (replicate B p)"
  by (intro nth_equalityI) (auto simp: hmac_buf_def nth_append nth_xor_bytes)

lemma length_fold_xor: "length (fold (\<lambda>i b. b[i := b ! i XOR key ! i]) xs b) = length b" for b :: bytes
  by (induction xs arbitrary: b) simp_all

lemma length_rmd_pads [simp]: "length (rmd_pads p key keylen) = 65"
  by (simp add: rmd_pads_def length_fold_xor)

lemma rmd_pads_buf:
  assumes "keylen \<le> 64"
  shows "take 64 (rmd_pads p key keylen) = hmac_buf 64 p key keylen"
proof -
  have nth: "fold (\<lambda>i b. b[i := b ! i XOR key ! i]) [0..<n] b ! j = (if j < n then b ! j XOR key ! j else b ! j)"
    if "n \<le> length b" for n j and b :: bytes
    using that
  proof (induction n arbitrary: j)
    case (Suc n)
    then show ?case by (cases "j = n") (auto simp: length_fold_xor)
  qed simp
  show ?thesis
    using assms by (intro nth_equalityI) (auto simp: rmd_pads_def hmac_buf_def nth nth_append xor.commute length_fold_xor)
qed

lemma derive_steps:
  "(derive_step prf ^^ n) (j, j) = (foldl xor_bytes j (map (\<lambda>i. (prf ^^ i) j) [1..<Suc n]), (prf ^^ n) j)"
  by (induction n) (simp_all add: derive_step_def Let_def)

lemma pbkdf2_U_funpow: "pbkdf2_U prf s n = (prf ^^ n) (prf s)"
  by (induction n) simp_all

lemma counter_be:
  assumes "b < 256"
  shows "word_to_be 4 (word_of_nat b :: u32) = [0, 0, 0, word_of_nat b]"
proof -
  have "drop_bit k (word_of_nat b :: u32) = 0" if "8 \<le> k" for k
  proof (rule bit_word_eqI)
    fix i assume "i < LENGTH(32)"
    have "take_bit 8 b = b" using assms by (simp add: take_bit_nat_eq_self)
    then have "\<not> bit b (k + i)" using that bit_take_bit_iff [of 8 b "k + i"] by simp
    then show "bit (drop_bit k (word_of_nat b :: u32)) i = bit (0 :: u32) i" by (simp add: bit_drop_bit_eq bit_of_nat_iff)
  qed
  moreover have "ucast (word_of_nat b :: u32) = (word_of_nat b :: u8)"
    by (intro bit_word_eqI) (simp add: bit_ucast_iff bit_of_nat_iff)
  ultimately show ?thesis by (simp add: word_to_be_def word_to_le_def upt_rec)
qed

lemma foldl_xor_length: "(\<And>x. x \<in> set xs \<Longrightarrow> length x = n) \<Longrightarrow> length a = n \<Longrightarrow> length (foldl xor_bytes a xs) = n"
  by (induction xs arbitrary: a) simp_all

lemma length_pbkdf2_F:
  assumes "\<And>m. length (prf m) = D"
  shows "length (pbkdf2_F prf S c i) = D"
proof -
  have "length (pbkdf2_U prf s n) = D" for s n by (cases n) (simp_all add: assms)
  then show ?thesis by (auto simp: pbkdf2_F_def Let_def simp del: pbkdf2_U.simps intro!: foldl_xor_length)
qed

lemma derive_u_pbkdf2:
  assumes mac: "\<And>d ld. ld \<le> length d \<Longrightarrow> ld < 2 ^ 29 \<Longrightarrow> hmac pwd pwd_len d ld = prf (take ld d)"
    and len: "\<And>m. length (prf m) = D" and D: "D < 2 ^ 29" and salt: "salt_len \<le> length salt" "salt_len + 4 \<le> 128"
    and b: "b < 256"
  shows "derive_u_with hmac D pwd pwd_len salt salt_len c b = pbkdf2_F prf (take salt_len salt) c b"
proof -
  let ?s = "take salt_len salt @ [0, 0, 0, word_of_nat b]"
  have j: "hmac pwd pwd_len ?s (salt_len + 4) = prf ?s" using mac [of "salt_len + 4" ?s] salt by simp
  have step: "hmac pwd pwd_len d D = prf d" if "length d = D" for d using mac [of D d] D that by simp
  have pow: "(derive_step (\<lambda>j. hmac pwd pwd_len j D) ^^ n) (u, j) = (derive_step prf ^^ n) (u, j)" if "length j = D" for n u j
  proof (induction n)
    case (Suc n)
    define p where "p = (derive_step prf ^^ n) (u, j)"
    have "length (snd p) = D"
      using that by (cases n) (simp_all add: p_def derive_step_def Let_def split_beta len)
    then have "derive_step (\<lambda>j. hmac pwd pwd_len j D) p = derive_step prf p"
      by (simp add: derive_step_def split_beta step)
    then show ?case using Suc by (simp add: p_def)
  qed simp
  have "derive_u_with hmac D pwd pwd_len salt salt_len c b = fst ((derive_step prf ^^ (c - 1)) (prf ?s, prf ?s))"
    unfolding derive_u_with_def Let_def j using pow [OF len, of "c - 1" "prf ?s" "?s"] by simp
  also have "\<dots> = foldl xor_bytes (prf ?s) (map (\<lambda>i. (prf ^^ i) (prf ?s)) [1..<Suc (c - 1)])"
    by (simp only: derive_steps fst_conv)
  also have "[1..<Suc (c - 1)] = [1..<c]" by (cases c) simp_all
  finally show ?thesis by (simp add: pbkdf2_F_def Let_def counter_be [OF b] pbkdf2_U_funpow [abs_def])
qed

lemma derive_key_pbkdf2:
  assumes u: "\<And>i. i < 256 \<Longrightarrow> u i = pbkdf2_F prf S c i" and len: "\<And>m. length (prf m) = D"
    and D: "0 < D" and dk: "0 < dklen" "dklen \<le> 255 * D"
  shows "derive_key_with u D dklen = PBKDF2 prf D S c dklen"
proof -
  define l where "l = (dklen + D - 1) div D"
  have l: "(if dklen mod D \<noteq> 0 then 1 + dklen div D else dklen div D) = l"
  proof (cases "dklen mod D = 0")
    case True
    then have "dklen + D - 1 = (D - 1) + dklen div D * D" using D dk(1) by (simp add: mult.commute) (use mult_div_mod_eq [of D dklen] in linarith)
    then have "l = ((D - 1) + dklen div D * D) div D" unfolding l_def by (rule arg_cong)
    also have "\<dots> = dklen div D" using D by (simp only: div_mult_self1) simp
    finally show ?thesis using True by simp
  next
    case False
    then have "dklen + D - 1 = (dklen mod D - 1) + (1 + dklen div D) * D" using D mult_div_mod_eq [of D dklen] by (simp add: mult.commute)
    then have "l = ((dklen mod D - 1) + (1 + dklen div D) * D) div D" unfolding l_def by (rule arg_cong)
    also have "\<dots> = (1 + dklen div D) + (dklen mod D - 1) div D" using D by (simp only: div_mult_self1)
    also have "(dklen mod D - 1) div D = 0"
      using mod_less_divisor [OF D, of dklen] by (intro div_less) linarith
    finally have "l = 1 + dklen div D" by simp
    then show ?thesis using False by simp
  qed
  have l1: "1 \<le> l" using l D dk(1) by (metis One_nat_def Suc_leI div_greater_zero_iff gr_zeroI le_add1 mod_less not_le)
  have bounds: "(l - 1) * D \<le> dklen \<and> dklen \<le> l * D \<and> l \<le> 255"
  proof (cases "dklen mod D = 0")
    case True
    then have e: "l = dklen div D" "dklen = l * D" using l by auto
    then have "l * D \<le> 255 * D" using dk(2) by linarith
    then have "l \<le> 255" using D by simp
    then show ?thesis using e(2) by (simp add: diff_mult_distrib)
  next
    case False
    then have e: "l = 1 + dklen div D" using l by simp
    have m: "dklen = dklen div D * D + dklen mod D" "dklen mod D < D" using D by simp_all
    then have "dklen div D * D < 255 * D" using dk(2) False by linarith
    then have "dklen div D < 255" using D by simp
    moreover have "dklen \<le> dklen div D * D + D" using m by linarith
    ultimately show ?thesis using e by (simp add: add_mult_distrib)
  qed
  then have l255: "l \<le> 255" by blast
  have r: "nat (int dklen - (int l - 1) * int D) = dklen - (l - 1) * D"
  proof -
    have "(int l - 1) * int D = int ((l - 1) * D)" using l1 by (simp add: of_nat_diff)
    then show ?thesis by (simp only: nat_diff_distrib' of_nat_0_le_iff nat_int)
  qed
  have uF: "map u [1..<l] = map (pbkdf2_F prf S c) [1..<l]" "u l = pbkdf2_F prf S c l"
    using l255 by (simp_all add: u)
  have cl: "length (concat (map (pbkdf2_F prf S c) is)) = D * length is" for "is"
    by (induction "is") (simp_all add: length_pbkdf2_F [OF len])
  have "PBKDF2 prf D S c dklen = take dklen (concat (map (pbkdf2_F prf S c) [1..<l]) @ pbkdf2_F prf S c l)"
    using l1 unfolding PBKDF2_def l_def [symmetric] by simp
  also have "\<dots> = concat (map (pbkdf2_F prf S c) [1..<l]) @ take (dklen - (l - 1) * D) (pbkdf2_F prf S c l)"
    using bounds by (simp add: cl mult.commute)
  finally show ?thesis
    unfolding derive_key_with_def l Let_def r uF using l1 by (simp add: max_def uF(2))
qed

section \<open>What the code needs of a hash\<close>

locale hash_function =
  fixes init :: "'c \<Rightarrow> 'c" and upd :: "bytes \<Rightarrow> nat \<Rightarrow> 'c \<Rightarrow> 'c" and fin :: "'c \<Rightarrow> bytes \<times> 'c"
    and fresh :: "'c \<Rightarrow> bool" and absorbed :: "bytes \<Rightarrow> 'c \<Rightarrow> bool" and H :: "bytes \<Rightarrow> bytes" and B D :: nat
  assumes init_absorbed: "fresh c \<Longrightarrow> absorbed [] (init c)"
    and upd_absorbed: "absorbed m c \<Longrightarrow> n \<le> length data \<Longrightarrow> n < 2 ^ 29 \<Longrightarrow> absorbed (m @ take n data) (upd data n c)"
    and fin_digest: "absorbed m c \<Longrightarrow> fst (fin c) = H m"
    and length_H: "length (H m) = D"
    and sizes: "0 < D" "D \<le> B" "B < 2 ^ 29"
begin

lemma one_update:
  assumes "fresh cx" "n \<le> length x" "n < 2 ^ 29"
  shows "fst (fin (upd x n (init cx))) = H (take n x)"
  using upd_absorbed [OF init_absorbed [OF assms(1)] assms(2,3)] by (simp add: fin_digest)

lemma two_updates:
  assumes "fresh cx" "length x = B" "n \<le> length y" "n < 2 ^ 29"
  shows "fst (fin (upd y n (upd x B (init cx)))) = H (x @ take n y)"
proof -
  have "absorbed ([] @ take B x) (upd x B (init cx))"
    using assms(2) sizes by (intro upd_absorbed init_absorbed assms(1)) simp_all
  from upd_absorbed [OF this assms(3,4)] show ?thesis using assms(2) by (simp add: fin_digest)
qed

text \<open>Any number of updates, as the code that hashes a message piece by piece makes them.\<close>

lemma updates_absorbed:
  "\<forall>x \<in> set xs. length x < 2 ^ 29 \<Longrightarrow> absorbed m c \<Longrightarrow> absorbed (m @ concat xs) (fold (\<lambda>x. upd x (length x)) xs c)"
proof (induction xs arbitrary: m c)
  case (Cons x xs)
  have "absorbed (m @ take (length x) x) (upd x (length x) c)"
    using Cons.prems by (intro upd_absorbed) simp_all
  then show ?case using Cons.IH [of "m @ x"] Cons.prems(1) by simp
qed simp

lemma updates_digest:
  assumes "fresh cx" "\<forall>x \<in> set xs. length x < 2 ^ 29"
  shows "fst (fin (fold (\<lambda>x. upd x (length x)) xs (init cx))) = H (concat xs)"
  using updates_absorbed [OF assms(2) init_absorbed [OF assms(1)]] by (simp add: fin_digest)

lemma hmac_with_rfc:
  assumes "fresh cx" "lk \<le> length k" "lk < 2 ^ 29" "ld \<le> length d" "ld < 2 ^ 29"
  shows "hmac_with init upd fin B D cx k lk d ld t = take t (HMAC H B (take lk k) (take ld d))"
proof -
  obtain k' lk' where kk: "(if B < lk then (fst (fin (upd k lk (init cx))), D) else (k, lk)) = (k', lk')" by force
  let ?K = "if B < lk then H (take lk k) else take lk k"
  have K: "take lk' k' = ?K" "lk' \<le> length k'" "lk' \<le> B" "length ?K = lk'"
    using kk one_update [OF assms(1-3)] length_H [of "take lk k"] sizes(2) assms(2) by (auto split: if_splits)
  have buf: "hmac_buf B p k' lk' = xor_bytes (?K @ replicate (B - length ?K) 0) (replicate B p)" for p
    using hmac_buf_pad [OF K(3,2), of p] K(1,4) by simp
  have lb: "length (hmac_buf B p k' lk') = B" for p by (rule length_hmac_buf [OF K(3)])
  have inner: "fst (fin (upd d ld (upd (hmac_buf B p k' lk') B (init cx)))) = H (hmac_buf B p k' lk' @ take ld d)" for p
    by (rule two_updates [OF assms(1) lb assms(4,5)])
  have outer: "fst (fin (upd (H m) D (upd (hmac_buf B p k' lk') B (init cx)))) = H (hmac_buf B p k' lk' @ H m)" for p m
    using two_updates [OF assms(1) lb, of D "H m" p] sizes length_H [of m] by simp
  have trunc: "hmac_truncate (H m) (if t > D then D else t) = take t (H m)" for m
    using length_H [of m] by (intro nth_equalityI) (auto simp: hmac_truncate_def split: if_splits)
  have "hmac_with init upd fin B D cx k lk d ld t =
      take t (H (hmac_buf B 0x5C k' lk' @ H (hmac_buf B 0x36 k' lk' @ take ld d)))"
    unfolding hmac_with_def kk prod.case Let_def inner outer trunc ..
  also have "\<dots> = take t (HMAC H B (take lk k) (take ld d))"
    unfolding HMAC_def Let_def buf using assms(2) by (simp add: min_absorb2)
  finally show ?thesis .
qed

end

section \<open>The four hashes\<close>

lemma small_len: "n < 2 ^ 29 \<Longrightarrow> unat (word_of_nat n :: u32) = n"
  by (simp only: unat_of_nat) simp

lemma length_rmd_hash: "length (rmd_hash m) = 20"
proof -
  have "length (md_blocks rmd_block 64 k rmd_iv p) = 5" for k p
    by (rule length_md_blocks) (simp_all add: rmd_block_def RMD160Transform_def rmd_combine_def rmd_iv_def)
  moreover have "length (concat (map (word_to_le 4) ws)) = 4 * length ws" for ws :: "u32 list"
    by (induction ws) simp_all
  ultimately show ?thesis by (simp add: rmd_hash_def Let_def)
qed

lemma length_whirlpool_digest: "length (whirlpool_digest m) = 64"
proof -
  let ?p = "m @ wp_pad (length m)"
  have "length (md_blocks wp_standard 64 (length ?p div 64) (replicate 8 0) ?p) = 8"
    using wp_md_standard [of "replicate 8 0" "length ?p div 64" ?p] by simp
  moreover have "length (concat (map (word_to_be 8) ws)) = 8 * length ws" for ws :: "u64 list"
    by (induction ws) simp_all
  ultimately show ?thesis by (simp add: whirlpool_digest_def Let_def)
qed

interpretation sha512_hash: hash_function sha512_begin "\<lambda>data len. sha512_hash data (word_of_nat len)" sha512_end
  "\<lambda>c. length (sha_wbuf c) = 16" sha512_absorbed "sha_standard_digest 128 sha512_standard i512 64" 128 64
proof unfold_locales
  show "sha512_absorbed (m @ take n data) (sha512_hash data (word_of_nat n) c)"
    if "sha512_absorbed m c" "n \<le> length data" "n < 2 ^ 29" for m c n data
    using sha512_hash_absorbed [OF that(1), of "word_of_nat n" data] that by (simp add: small_len)
qed (simp_all add: sha512_begin_absorbed sha512_end_digest length_sha512_digest)

interpretation sha1_hash: hash_function sha1_begin "\<lambda>data len. sha1_hash data (word_of_nat len)" sha1_end
  "\<lambda>c. length (sha_wbuf c) = 16" sha1_absorbed "sha_standard_digest 64 sha1_standard sha1_iv 20" 64 20
proof unfold_locales
  show "sha1_absorbed (m @ take n data) (sha1_hash data (word_of_nat n) c)"
    if "sha1_absorbed m c" "n \<le> length data" "n < 2 ^ 29" for m c n data
    using sha1_hash_absorbed [OF that(1), of "word_of_nat n" data] that by (simp add: small_len)
qed (simp_all add: sha1_begin_absorbed sha1_end_digest length_sha1_digest)

interpretation whirlpool_hash: hash_function WHIRLPOOL_init
  "\<lambda>data len. WHIRLPOOL_add data (word_of_nat (8 * len))" WHIRLPOOL_finalize
  "\<lambda>c. length (wp_buffer c) = 64" wp_absorbed whirlpool_digest 64 64
proof unfold_locales
  show "wp_absorbed (m @ take n data) (WHIRLPOOL_add data (word_of_nat (8 * n)) c)"
    if "wp_absorbed m c" "n \<le> length data" "n < 2 ^ 29" for m c n data
    using that by (intro WHIRLPOOL_add_absorbed) simp_all
qed (simp_all add: WHIRLPOOL_init_absorbed WHIRLPOOL_finalize_digest length_whirlpool_digest)

interpretation rmd_hash: hash_function RMD160Init "\<lambda>data len ctx. RMD160Update ctx data (word_of_nat len)" RMD160Final
  "\<lambda>c. length (rmd_buffer c) = 64" rmd_absorbed rmd_hash 64 20
proof unfold_locales
  show "rmd_absorbed (m @ take n data) (RMD160Update c data (word_of_nat n))"
    if "rmd_absorbed m c" "n \<le> length data" "n < 2 ^ 29" for m c n data
    using RMD160Update_absorbed [OF that(1), of "word_of_nat n" data] that by (simp add: small_len)
qed (simp_all add: RMD160Init_absorbed RMD160Final_hash length_rmd_hash)

section \<open>The HMACs\<close>

text \<open>The RIPEMD-160 variant is the shared text with the pads in longer arrays.\<close>

lemma hmac_ripemd160_rfc:
  assumes "length (rmd_buffer cx) = 64" "lk \<le> length k" "lk < 2 ^ 29" "ld \<le> length d" "ld < 2 ^ 29"
  shows "hmac_ripemd160 cx k lk d ld = HMAC rmd_hash 64 (take lk k) (take ld d)"
proof -
  obtain k' lk' where kk: "(if 64 < lk then (fst (RMD160Final (RMD160Update (RMD160Init cx) k (word_of_nat lk))), 20) else (k, lk)) = (k', lk')"
    by force
  let ?K = "if 64 < lk then rmd_hash (take lk k) else take lk k"
  have K: "take lk' k' = ?K" "lk' \<le> length k'" "lk' \<le> 64" "length ?K = lk'"
    using kk rmd_hash.one_update [OF assms(1-3)] length_rmd_hash [of "take lk k"] assms(2) by (auto split: if_splits)
  have pad: "take 64 (rmd_pads p k' lk') = xor_bytes (?K @ replicate (64 - length ?K) 0) (replicate 64 p)" for p
    using rmd_pads_buf [OF K(3), of p k'] hmac_buf_pad [OF K(3,2), of p] K(1,4) by simp
  have upd: "rmd_absorbed (take 64 (rmd_pads p k' lk')) (RMD160Update (RMD160Init c) (rmd_pads p k' lk') 64)"
    if "length (rmd_buffer c) = 64" for c p
    using rmd_hash.upd_absorbed [OF rmd_hash.init_absorbed [OF that], of 64 "rmd_pads p k' lk'"] by simp
  have fin: "fst (RMD160Final (RMD160Update (RMD160Update (RMD160Init c) (rmd_pads p k' lk') 64) x (word_of_nat n))) =
      rmd_hash (take 64 (rmd_pads p k' lk') @ take n x)"
    if "length (rmd_buffer c) = 64" "n \<le> length x" "n < 2 ^ 29" for c p x n
    using rmd_hash.upd_absorbed [OF upd [OF that(1)] that(2,3)] by (simp add: rmd_hash.fin_digest)
  have clean: "length (rmd_buffer (snd (RMD160Final c))) = 64" for c by (simp add: RMD160Final_def)
  have "fst (RMD160Final (RMD160Update (RMD160Update (RMD160Init c) (rmd_pads 0x5c k' lk') 64) (rmd_hash m) 20)) =
      rmd_hash (take 64 (rmd_pads 0x5c k' lk') @ rmd_hash m)" if "length (rmd_buffer c) = 64" for c m
    using fin [OF that, of 20 "rmd_hash m" "0x5c"] by (simp add: length_rmd_hash)
  then have "hmac_ripemd160 cx k lk d ld =
      rmd_hash (take 64 (rmd_pads 0x5c k' lk') @ rmd_hash (take 64 (rmd_pads 0x36 k' lk') @ take ld d))"
    unfolding hmac_ripemd160_def kk prod.case Let_def using fin [OF assms(1,4,5)] clean by (simp add: split_beta)
  also have "\<dots> = HMAC rmd_hash 64 (take lk k) (take ld d)"
    unfolding HMAC_def Let_def pad using assms(2) by (simp add: min_absorb2)
  finally show ?thesis .
qed

lemma length_HMAC: "(\<And>x. length (H x) = D) \<Longrightarrow> length (HMAC H B k m) = D"
  by (simp add: HMAC_def Let_def)

text \<open>The key derivation for a HMAC that computes that of the RFC.\<close>

lemma derive_key_rfc:
  assumes mac: "\<And>d ld. ld \<le> length d \<Longrightarrow> ld < 2 ^ 29 \<Longrightarrow> hmac pwd pwd_len d ld = HMAC H B (take pwd_len pwd) (take ld d)"
    and len: "\<And>m. length (H m) = D" and D: "0 < D" "D < 2 ^ 29" and salt: "salt_len \<le> length salt" "salt_len + 4 \<le> 128"
    and dk: "0 < dklen" "dklen \<le> 255 * D"
  shows "derive_key_with (derive_u_with hmac D pwd pwd_len salt salt_len c) D dklen =
    PBKDF2 (HMAC H B (take pwd_len pwd)) D (take salt_len salt) c dklen"
proof (rule derive_key_pbkdf2 [OF _ _ D(1) dk])
  show l: "length (HMAC H B (take pwd_len pwd) m) = D" for m by (rule length_HMAC) (rule len)
  show "derive_u_with hmac D pwd pwd_len salt salt_len c i = pbkdf2_F (HMAC H B (take pwd_len pwd)) (take salt_len salt) c i"
    if "i < 256" for i
    using mac l D salt that by (intro derive_u_pbkdf2)
qed

lemma derive_key_sha512_rfc:
  assumes "length (sha_wbuf cx) = 16" "pwd_len \<le> length pwd" "pwd_len < 2 ^ 29" "salt_len \<le> length salt" "salt_len + 4 \<le> 128"
    "0 < dklen" "dklen \<le> 255 * 64"
  shows "derive_key_sha512 cx pwd pwd_len salt salt_len c dklen =
    PBKDF2 (HMAC (sha_standard_digest 128 sha512_standard i512 64) 128 (take pwd_len pwd)) 64 (take salt_len salt) c dklen"
  unfolding derive_key_sha512_def derive_u_sha512_def
proof (rule derive_key_rfc)
  show "hmac_sha512 cx pwd pwd_len d ld 64 = HMAC (sha_standard_digest 128 sha512_standard i512 64) 128 (take pwd_len pwd) (take ld d)"
    if "ld \<le> length d" "ld < 2 ^ 29" for d ld
    using sha512_hash.hmac_with_rfc [OF assms(1-3) that, of 64] by (simp add: hmac_sha512_def length_HMAC length_sha512_digest)
qed (use assms in \<open>simp_all add: length_sha512_digest\<close>)

lemma derive_key_sha1_rfc:
  assumes "length (sha_wbuf cx) = 16" "pwd_len \<le> length pwd" "pwd_len < 2 ^ 29" "salt_len \<le> length salt" "salt_len + 4 \<le> 128"
    "0 < dklen" "dklen \<le> 255 * 20"
  shows "derive_key_sha1 cx pwd pwd_len salt salt_len c dklen =
    PBKDF2 (HMAC (sha_standard_digest 64 sha1_standard sha1_iv 20) 64 (take pwd_len pwd)) 20 (take salt_len salt) c dklen"
  unfolding derive_key_sha1_def derive_u_sha1_def
proof (rule derive_key_rfc)
  show "hmac_sha1 cx pwd pwd_len d ld 20 = HMAC (sha_standard_digest 64 sha1_standard sha1_iv 20) 64 (take pwd_len pwd) (take ld d)"
    if "ld \<le> length d" "ld < 2 ^ 29" for d ld
    using sha1_hash.hmac_with_rfc [OF assms(1-3) that, of 20] by (simp add: hmac_sha1_def length_HMAC length_sha1_digest)
qed (use assms in \<open>simp_all add: length_sha1_digest\<close>)

lemma derive_key_whirlpool_rfc:
  assumes "length (wp_buffer cx) = 64" "pwd_len \<le> length pwd" "pwd_len < 2 ^ 29" "salt_len \<le> length salt" "salt_len + 4 \<le> 128"
    "0 < dklen" "dklen \<le> 255 * 64"
  shows "derive_key_whirlpool cx pwd pwd_len salt salt_len c dklen =
    PBKDF2 (HMAC whirlpool_digest 64 (take pwd_len pwd)) 64 (take salt_len salt) c dklen"
  unfolding derive_key_whirlpool_def derive_u_whirlpool_def
proof (rule derive_key_rfc)
  show "hmac_whirlpool cx pwd pwd_len d ld 64 = HMAC whirlpool_digest 64 (take pwd_len pwd) (take ld d)"
    if "ld \<le> length d" "ld < 2 ^ 29" for d ld
    using whirlpool_hash.hmac_with_rfc [OF assms(1-3) that, of 64] by (simp add: hmac_whirlpool_def length_HMAC length_whirlpool_digest)
qed (use assms in \<open>simp_all add: length_whirlpool_digest\<close>)

lemma derive_key_ripemd160_rfc:
  assumes "length (rmd_buffer cx) = 64" "pwd_len \<le> length pwd" "pwd_len < 2 ^ 29" "salt_len \<le> length salt" "salt_len + 4 \<le> 128"
    "0 < dklen" "dklen \<le> 255 * 20"
  shows "derive_key_ripemd160 cx pwd pwd_len salt salt_len c dklen =
    PBKDF2 (HMAC rmd_hash 64 (take pwd_len pwd)) 20 (take salt_len salt) c dklen"
  unfolding derive_key_ripemd160_def derive_u_ripemd160_def
  by (rule derive_key_rfc) (use assms in \<open>simp_all add: length_rmd_hash hmac_ripemd160_rfc\<close>)

end
