(* ===== verification/Key_Schedules.thy ===== *)
theory Key_Schedules
  imports Data_Units
begin

text \<open>
  What a key schedule depends on: \<open>CipherInit\<close> writes every byte of it from the bytes of the key, so two
  buffers initialised with the same key hold the same schedule, whatever they held before, and the
  block functions read nothing past it. Hence two volumes whose keys were set the same way encrypt
  and decrypt alike: \<open>same_volume\<close> is that relation, and \<open>EncryptBuffer_same\<close>,
  \<open>EncryptDataUnits_same\<close> and their companions are the congruences.
\<close>

unbundle bit_operations_syntax

section \<open>The schedule is a function of the key\<close>

lemma get_at_take_eq: "take n a = take n b \<Longrightarrow> i + k \<le> n \<Longrightarrow> get_at i k a = get_at i k b"
  by (metis get_at_take)

lemma words_at_take_eq: "take n a = take n b \<Longrightarrow> i + 4 * k \<le> n \<Longrightarrow> words_at i k a = words_at i k b"
  by (auto simp: words_at_def intro!: arg_cong [where f = le_to_word] get_at_take_eq)

lemma take_put_at_0: "length src = n \<Longrightarrow> take n (put_at 0 src m) = src"
  by (simp add: put_at_def)

lemma aes_encrypt_key256_same:
  assumes "take 32 key = take 32 key'" "length (aes_ks cx) = 60" "length (aes_ks cx') = 60"
  shows "aes_encrypt_key256 key cx = aes_encrypt_key256 key' cx'"
proof -
  have w: "map (word_in key) [0..<8] = map (word_in key') [0..<8]"
    using get_at_take_eq [OF assms(1)] by (auto simp: word_in_def)
  have "aes_ks (aes_encrypt_key256 key cx) = aes_ks (aes_encrypt_key256 key cx')"
    using assms(2,3) by (intro nth_equalityI) (simp_all add: aes_encrypt_key256_words)
  moreover have "aes_inf (aes_encrypt_key256 key cx) = aes_inf (aes_encrypt_key256 key cx')"
    by (simp add: aes_encrypt_key256_def Let_def case_prod_unfold)
  ultimately have "aes_encrypt_key256 key cx = aes_encrypt_key256 key cx'" by simp
  then show ?thesis unfolding aes_encrypt_key256_def w .
qed

lemma vpos_onto:
  assumes "i < 60"
  shows "\<exists>p<60. vpos p = i"
proof -
  define q r where "q = i div 4" and "r = i mod 4"
  have i: "i = 4 * q + r" "r < 4" "q < 15" using assms by (simp_all add: q_def r_def)
  have "vpos (4 * (14 - q) + r) = i"
    using i by (simp add: vpos_def)
  moreover have "4 * (14 - q) + r < 60" using i by linarith
  ultimately show ?thesis by blast
qed

lemma aes_decrypt_key256_same:
  assumes "take 32 key = take 32 key'" "length (aes_ks cx) = 60" "length (aes_ks cx') = 60"
  shows "aes_decrypt_key256 key cx = aes_decrypt_key256 key' cx'"
proof -
  have w: "map (word_in key) [0..<8] = map (word_in key') [0..<8]"
    using get_at_take_eq [OF assms(1)] by (auto simp: word_in_def)
  have "aes_ks (aes_decrypt_key256 key cx) ! i = aes_ks (aes_decrypt_key256 key cx') ! i" if i: "i < 60" for i
  proof -
    obtain p where "p < 60" "vpos p = i" using vpos_onto [OF i] by blast
    then show ?thesis using aes_decrypt_key256_words assms(2,3) by metis
  qed
  then have "aes_ks (aes_decrypt_key256 key cx) = aes_ks (aes_decrypt_key256 key cx')"
    using assms(2,3) by (intro nth_equalityI) simp_all
  moreover have "aes_inf (aes_decrypt_key256 key cx) = aes_inf (aes_decrypt_key256 key cx')"
    by (simp add: aes_decrypt_key256_def Let_def case_prod_unfold)
  ultimately have "aes_decrypt_key256 key cx = aes_decrypt_key256 key cx'" by simp
  then show ?thesis unfolding aes_decrypt_key256_def Let_def w .
qed

lemma twofish_set_key_same:
  assumes "length (s_key a) = 4" "length (s_key b) = 4"
  shows "twofish_set_key a key 256 = twofish_set_key b key 256"
proof -
  obtain s0 s1 s2 s3 t0 t1 t2 t3 where st: "s_key a = [s0, s1, s2, s3]" "s_key b = [t0, t1, t2, t3]"
    using assms by (auto simp: list_4)
  have sk: "fold (\<lambda>i s. s[4 - i - 1 := f i]) [0..<4] (s_key a) = fold (\<lambda>i s. s[4 - i - 1 := f i]) [0..<4] (s_key b)"
    for f :: "nat \<Rightarrow> u32"
    by (simp add: st upt_rec numeral_eq_Suc)
  have "unat ((256 :: u32) div 64) = 4" by simp
  then show ?thesis
    unfolding twofish_set_key_def Let_def by (simp only: sk) (simp add: gen_mk_tab_def)
qed

text \<open>All but the reversed boxes of a Blowfish key.\<close>

definition bf_alike :: "BF_KEY \<Rightarrow> BF_KEY \<Rightarrow> bool" where
  "bf_alike a b \<longleftrightarrow> pbox a = pbox b \<and> sbox a = sbox b"

lemma bf_alike_steps:
  assumes "bf_alike a b"
  shows "crypt_block a w = crypt_block b w" "bf_alike (set_pbox_pair i w a) (set_pbox_pair i w b)"
    "bf_alike (set_sbox_pair i w a) (set_sbox_pair i w b)"
    "bf_alike (fold pbox_step xs a) (fold pbox_step xs b)" "bf_alike (fold sbox_step xs a) (fold sbox_step xs b)"
proof -
  show "bf_alike (fold pbox_step xs a) (fold pbox_step xs b)" "bf_alike (fold sbox_step xs a) (fold sbox_step xs b)"
    using assms
    by (induction xs arbitrary: a b)
      (simp_all add: bf_alike_def pbox_step_def sbox_step_def set_pbox_pair_def set_sbox_pair_def crypt_block_def)
qed (use assms in \<open>simp_all add: bf_alike_def crypt_block_def set_pbox_pair_def set_sbox_pair_def\<close>)

lemma BlowfishSetKey_same:
  assumes "length (pbox_dec a) = 18" "length (pbox_dec b) = 18" "take n key = take n key'" "0 < n"
  shows "BlowfishSetKey a n key = BlowfishSetKey b n key'"
proof -
  have "key ! i = key' ! i" if "i < n" for i using assms(3) that by (metis nth_take)
  then have kd: "key_data key n i = key_data key' n i" for i
    using assms(4) by (simp add: key_data_def upt_rec)
  have dec: "bf_alike (set_pbox_dec x) (set_pbox_dec y)" if "bf_alike x y" for x y
    using that by (simp add: bf_alike_def set_pbox_dec_def)
  have s: "bf_alike (set_sbox_pair 0 (crypt_block x (pbox x ! 16, pbox x ! 17)) x) (set_sbox_pair 0 (crypt_block y (pbox y ! 16, pbox y ! 17)) y)"
    and p: "bf_alike (set_pbox_pair 0 (crypt_block x (0, 0)) x) (set_pbox_pair 0 (crypt_block y (0, 0)) y)"
    if "bf_alike x y" for x y
    using bf_alike_steps [OF that] that by (simp_all add: bf_alike_def)
  have "bf_alike (BlowfishSetKey a n key) (BlowfishSetKey b n key')"
    unfolding BlowfishSetKey_def Let_def kd
    by (intro dec bf_alike_steps(4,5) s p) (simp add: bf_alike_def)
  moreover have "bf_scheduled (BlowfishSetKey a n key)" "bf_scheduled (BlowfishSetKey b n key')"
    using assms(1,2) by (simp_all add: BlowfishSetKey_scheduled)
  ultimately show ?thesis by (simp add: bf_alike_def bf_scheduled_def)
qed

text \<open>Lists that agree on a set of positions; the key setup of CAST5 writes all of them.\<close>

definition agree_below :: "nat \<Rightarrow> 'a list \<Rightarrow> 'a list \<Rightarrow> bool" where
  "agree_below n xs ys \<longleftrightarrow> length xs = length ys \<and> (\<forall>i<n. xs ! i = ys ! i)"

lemma agree_below_update: "agree_below n xs ys \<Longrightarrow> n < length xs \<Longrightarrow> agree_below (Suc n) (xs[n := v]) (ys[n := v])"
  by (auto simp: agree_below_def less_Suc_eq)

lemma agree_below_four:
  "agree_below n xs ys \<Longrightarrow> n + 4 \<le> length xs \<Longrightarrow>
   agree_below (n + 4) (xs[n := a, n + 1 := b, n + 2 := c, n + 3 := d]) (ys[n := a, n + 1 := b, n + 2 := c, n + 3 := d])"
  using agree_below_update [of n xs ys a] agree_below_update [of "n + 1" "xs[n := a]" "ys[n := a]" b]
    agree_below_update [of "n + 2" "xs[n := a, n + 1 := b]" "ys[n := a, n + 1 := b]" c]
    agree_below_update [of "n + 3" "xs[n := a, n + 1 := b, n + 2 := c]" "ys[n := a, n + 1 := b, n + 2 := c]" d]
  by (simp add: numeral_eq_Suc)

lemma cast_K_agree:
  assumes "agree_below n K K'" "n + 4 \<le> length K"
  shows "i = n \<Longrightarrow> agree_below (n + 4) (cast_K0 i x K) (cast_K0 i x K')"
    "i + 4 = n \<Longrightarrow> agree_below (n + 4) (cast_K1 i x K) (cast_K1 i x K')"
    "i + 8 = n \<Longrightarrow> agree_below (n + 4) (cast_K2 i x K) (cast_K2 i x K')"
    "i + 12 = n \<Longrightarrow> agree_below (n + 4) (cast_K3 i x K) (cast_K3 i x K')"
  using agree_below_four [OF assms]
  by (auto simp: cast_K0_def cast_K1_def cast_K2_def cast_K3_def Let_def numeral_eq_Suc)

lemma cast_key_half_agree:
  assumes "agree_below i K K'" "i + 16 \<le> length K"
  shows "\<exists>X' Z' L L'. cast_key_half i (X, Z, K) = (X', Z', L) \<and> cast_key_half i (X, Z, K') = (X', Z', L') \<and>
    agree_below (i + 16) L L' \<and> length L = length K"
proof -
  let ?Z = "cast_Z X Z"
  let ?X = "cast_X X ?Z"
  let ?Z2 = "cast_Z ?X ?Z"
  let ?X2 = "cast_X ?X ?Z2"
  have a: "agree_below (i + 4) (cast_K0 i ?Z K) (cast_K0 i ?Z K')"
    using assms(2) by (intro cast_K_agree(1) [OF assms(1)]) simp_all
  have b: "agree_below (i + 8) (cast_K1 i ?X (cast_K0 i ?Z K)) (cast_K1 i ?X (cast_K0 i ?Z K'))"
    using cast_K_agree(2) [OF a, of i ?X] assms(2) by (simp add: add.commute [of _ i])
  have c: "agree_below (i + 12) (cast_K2 i ?Z2 (cast_K1 i ?X (cast_K0 i ?Z K))) (cast_K2 i ?Z2 (cast_K1 i ?X (cast_K0 i ?Z K')))"
    using cast_K_agree(3) [OF b, of i ?Z2] assms(2) by (simp add: add.commute [of _ i])
  have "agree_below (i + 16) (cast_K3 i ?X2 (cast_K2 i ?Z2 (cast_K1 i ?X (cast_K0 i ?Z K))))
      (cast_K3 i ?X2 (cast_K2 i ?Z2 (cast_K1 i ?X (cast_K0 i ?Z K'))))"
    using cast_K_agree(4) [OF c, of i ?X2] assms(2) by (simp add: add.commute [of _ i])
  then show ?thesis by (simp add: cast_key_half_def Let_def)
qed

lemma Cast5SetKey_same:
  assumes "length K = 32" "length K' = 32" "take 16 key = take 16 key'"
  shows "Cast5SetKey K key = Cast5SetKey K' key'"
proof -
  define X :: "u32 list" where "X = map (\<lambda>i. be_to_word (get_at (4 * i) 4 key')) [0..<4]"
  have X: "map (\<lambda>i. be_to_word (get_at (4 * i) 4 key)) [0..<4] = X"
    using get_at_take_eq [OF assms(3)] by (simp add: X_def)
  have "agree_below 0 K K'" using assms by (simp add: agree_below_def)
  from cast_key_half_agree [OF this, of X "[0, 0, 0, 0]"] assms(1)
  obtain X1 Z1 L L' where one: "cast_key_half 0 (X, [0, 0, 0, 0], K) = (X1, Z1, L)"
    "cast_key_half 0 (X, [0, 0, 0, 0], K') = (X1, Z1, L')" "agree_below 16 L L'" "length L = 32"
    by auto
  from cast_key_half_agree [OF one(3), of X1 Z1] one(4)
  obtain X2 Z2 M M' where two: "cast_key_half 16 (X1, Z1, L) = (X2, Z2, M)" "cast_key_half 16 (X1, Z1, L') = (X2, Z2, M')"
    "agree_below 32 M M'" "length M = 32" by auto
  then have "M = M'" by (auto simp: agree_below_def intro: nth_equalityI)
  then show ?thesis by (simp add: Cast5SetKey_def Let_def X X_def [symmetric] one two)
qed

lemma RawSetKey_same:
  assumes "take 8 a = take 8 b"
  shows "RawSetKey e a = RawSetKey e b"
proof -
  have nth: "a ! i = b ! i" if "i < 8" for i using assms that by (metis nth_take)
  have "\<forall>j\<in>set [0..<56]. (pc1 ! j - 1) div 8 < 8" by (simp add: upt_rec pc1_def)
  then have "des_pc1m a = des_pc1m b"
    using nth by (auto simp: des_pc1m_def Let_def simp del: upt_rec_numeral)
  then show ?thesis by (simp add: RawSetKey_def des_round_keys_def [abs_def])
qed

lemma TripleDesSetKey_same:
  assumes "take 24 key = take 24 key'"
  shows "TripleDesSetKey key = TripleDesSetKey key'"
proof -
  have "take 8 (drop i key) = take 8 (drop i key')" if "i + 8 \<le> 24" for i
    using get_at_take_eq [OF assms that] by (simp add: get_at_def)
  from this [of 0] this [of 8] this [of 16] show ?thesis
    by (simp add: TripleDesSetKey_def RawSetKey_same [of key key'] RawSetKey_same [of "drop 8 key" "drop 8 key'"]
        RawSetKey_same [of "drop 16 key" "drop 16 key'"])
qed

lemma CipherInit_same:
  assumes "valid_cipher c" "take (CipherGetKeySize c) key = take (CipherGetKeySize c) key'"
    "CipherGetKeyScheduleSize c \<le> length ks" "CipherGetKeyScheduleSize c \<le> length ks'"
  shows "fst (CipherInit c key ks) = fst (CipherInit c key' ks') \<and>
    take (CipherGetKeyScheduleSize c) (snd (CipherInit c key ks)) = take (CipherGetKeyScheduleSize c) (snd (CipherInit c key' ks'))"
  using assms(1)
proof (cases rule: valid_cipherE)
  case 1
  define e where "e = aes_encrypt_key256 key (aes_ctx_at 0 ks)"
  define m where "m = put_at 0 (aes_ctx_bytes e) ks"
  define m' where "m' = put_at 0 (aes_ctx_bytes e) ks'"
  define d where "d = aes_decrypt_key256 key (aes_ctx_at 244 m)"
  have len: "length (aes_ks e) = 60" "length (aes_ks d) = 60" by (simp_all add: e_def d_def aes_ctx_at_def)
  have k: "take 32 key = take 32 key'" using assms(2) 1 by (simp add: tc_cfg)
  have e': "aes_encrypt_key256 key' (aes_ctx_at 0 ks') = e"
    unfolding e_def by (rule aes_encrypt_key256_same [OF k, symmetric]) (simp_all add: aes_ctx_at_def)
  have d': "aes_decrypt_key256 key' (aes_ctx_at 244 m') = d"
    unfolding d_def by (rule aes_decrypt_key256_same [OF k, symmetric]) (simp_all add: aes_ctx_at_def)
  have front: "take 488 (put_at 244 (aes_ctx_bytes d) (put_at 0 (aes_ctx_bytes e) x)) = aes_ctx_bytes e @ aes_ctx_bytes d"
    for x using len by (simp add: put_at_def)
  show ?thesis
    using 1 by (simp add: CipherInit_def Let_def tc_cfg e' e_def [symmetric] m_def [symmetric] m'_def [symmetric] d' d_def [symmetric])
      (simp add: m_def m'_def front)
next
  case 2
  have "serpent_set_key key 256 (words_at 0 140 ks) = serpent_set_key key' 256 (words_at 0 140 ks')"
    using assms(2) 2 by (intro serpent_set_key_first_32) (simp_all add: tc_cfg)
  then show ?thesis using 2 by (simp add: CipherInit_def tc_cfg take_put_at_0)
next
  case 3
  have "words_at 0 8 key = words_at 0 8 key'"
    using assms(2) 3 by (intro words_at_take_eq [of 32]) (simp_all add: tc_cfg)
  moreover have "twofish_set_key (twofish_at ks) k 256 = twofish_set_key (twofish_at ks') k 256" for k
    by (rule twofish_set_key_same) (simp_all add: twofish_at_def)
  moreover have "length (twofish_bytes (twofish_set_key (twofish_at ks) k 256)) = 4276" for ks k
    by (rule length_twofish_set_key) (simp add: twofish_at_def)
  ultimately show ?thesis using 3 by (simp add: CipherInit_def tc_cfg take_put_at_0)
next
  case 4
  have same: "BlowfishSetKey (bf_at ks) 56 key = BlowfishSetKey (bf_at ks') 56 key'"
    using assms(2) 4 by (intro BlowfishSetKey_same) (simp_all add: bf_at_def tc_cfg)
  have "bf_scheduled (BlowfishSetKey (bf_at ks') 56 key')" "length (sbox (BlowfishSetKey (bf_at ks') 56 key')) = 1024"
    by (simp_all add: BlowfishSetKey_scheduled length_BlowfishSetKey bf_at_def)
  then have "length (bf_bytes (BlowfishSetKey (bf_at ks') 56 key')) = 4240" by (simp add: bf_scheduled_def)
  then show ?thesis using 4 by (simp add: CipherInit_def tc_cfg same take_put_at_0)
next
  case 5
  have "Cast5SetKey (words_at 0 32 ks) key = Cast5SetKey (words_at 0 32 ks') key'"
    using assms(2) 5 by (intro Cast5SetKey_same) (simp_all add: tc_cfg)
  then show ?thesis using 5 by (simp add: CipherInit_def tc_cfg take_put_at_0)
next
  case 6
  have k: "take 24 key = take 24 key'" using assms(2) 6 by (simp add: tc_cfg)
  have "des_keys_equal key i j = des_keys_equal key' i j" if "i \<le> 2" "j \<le> 2" for i j
    using get_at_take_eq [OF k, of "8 * i" 8] get_at_take_eq [OF k, of "8 * j" 8] that by (simp add: des_keys_equal_def)
  moreover have "length (tdes_bytes (TripleDesSetKey key')) = 768" by (simp add: TripleDesSetKey_def)
  ultimately show ?thesis using 6 TripleDesSetKey_same [OF k] by (simp add: CipherInit_def tc_cfg take_put_at_0)
qed

abbreviation key_total :: "nat list \<Rightarrow> nat" where
  "key_total cs \<equiv> sum_list (map CipherGetKeySize cs)"

lemma EAInit_loop_same:
  assumes "\<forall>c\<in>set cs. valid_cipher c" "take (key_total cs) key = take (key_total cs) key'"
    "ks_total cs \<le> length ks" "ks_total cs \<le> length ks'"
  shows "fst (EAInit_loop cs key ks r) = fst (EAInit_loop cs key' ks' r) \<and>
    take (ks_total cs) (snd (EAInit_loop cs key ks r)) = take (ks_total cs) (snd (EAInit_loop cs key' ks' r))"
  using assms
proof (induction cs arbitrary: key key' ks ks' r)
  case (Cons c cs)
  let ?n = "CipherGetKeyScheduleSize c" and ?k = "CipherGetKeySize c"
  obtain rc k1 k1' where one: "CipherInit c key ks = (rc, k1)" "CipherInit c key' ks' = (rc, k1')" "take ?n k1 = take ?n k1'"
  proof -
    have "take ?k key = take ?k key'" using Cons.prems(2) by (metis (no_types, lifting) list.simps(9) sum_list.Cons take_add append_eq_append_conv length_take min.absorb2 le_add1 take_take min.absorb1)
    then show ?thesis
      using that [of "fst (CipherInit c key ks)" "snd (CipherInit c key ks)" "snd (CipherInit c key' ks')"]
        CipherInit_same [of c key key' ks ks'] Cons.prems by (metis (no_types, lifting) add_leD1 list.set_intros(1) list.simps(9) prod.collapse sum_list.Cons)
  qed
  note len = CipherInit_scheduled [OF _ _ one(1)] CipherInit_scheduled [OF _ _ one(2)]
  have l: "length k1 = length ks" "length k1' = length ks'" "rc \<noteq> ERR_CIPHER_INIT_FAILURE" "?n \<le> length ks" "?n \<le> length ks'"
    using len Cons.prems by simp_all
  have "take (key_total cs) (drop ?k key) = take (key_total cs) (drop ?k key')"
    using arg_cong [OF Cons.prems(2), of "drop ?k"] by (simp add: drop_take)
  from Cons.IH [OF _ this, of "drop ?n k1" "drop ?n k1'" "if rc = ERR_CIPHER_INIT_WEAK_KEY then ERR_CIPHER_INIT_WEAK_KEY else r"]
  show ?case
    using Cons.prems l one by (simp add: Let_def split_beta)
qed simp

lemma EAInit_same:
  assumes ea: "valid_ea ea" and key: "take (key_total (ciphers_of ea)) key = take (key_total (ciphers_of ea)) key'"
    and len: "ks_total (ciphers_of ea) \<le> length ks" "ks_total (ciphers_of ea) \<le> length ks'"
    and init: "EAInit ea key ks = Some (r, k)" "EAInit ea key' ks' = Some (r', k')"
  shows "r = r' \<and> take (ks_total (ciphers_of ea)) k = take (ks_total (ciphers_of ea)) k'"
  using EAInit_loop_same [OF ciphers_of_valid [OF ea] key len, of ERR_SUCCESS] init ea
  by (auto simp: EAInit_def ea_ciphers_forward_table valid_ea_def)

section \<open>The block functions read nothing else\<close>

text \<open>A key schedule that is the same in the buffers \<open>ks\<close> and \<open>ks'\<close>, and scheduled.\<close>

definition same_schedule :: "nat \<Rightarrow> bytes \<Rightarrow> bytes \<Rightarrow> bool" where
  "same_schedule c ks ks' \<longleftrightarrow> scheduled c ks \<and> scheduled c ks' \<and>
     take (CipherGetKeyScheduleSize c) ks = take (CipherGetKeyScheduleSize c) ks'"

lemma serpent_loops_same:
  assumes "\<And>i. i < 140 \<Longrightarrow> k i = k' i"
  shows "p + 36 + 32 * n \<le> 140 \<Longrightarrow> serpent_enc_loop k n p q = serpent_enc_loop k' n p q"
    "p + 36 \<le> 140 \<Longrightarrow> serpent_dec_loop k n p q = serpent_dec_loop k' n p q"
proof -
  have kx: "KX k p r q = KX k' p r q" if "p + 4 * r + 4 \<le> 140" for p r q
    using that by (cases q) (simp add: KX_def assms)
  have rounds: "serpent_enc_rounds k p q = serpent_enc_rounds k' p q" "serpent_dec_rounds k p q = serpent_dec_rounds k' p q"
    if "p + 32 \<le> 140" for p q
    using that by (simp_all add: serpent_enc_rounds_def serpent_dec_rounds_def Let_def kx)
  show "p + 36 + 32 * n \<le> 140 \<Longrightarrow> serpent_enc_loop k n p q = serpent_enc_loop k' n p q"
    by (induction n arbitrary: p q) (simp_all add: kx rounds)
  show "p + 36 \<le> 140 \<Longrightarrow> serpent_dec_loop k n p q = serpent_dec_loop k' n p q"
    by (induction n arbitrary: p q) (simp_all add: rounds)
qed

lemma serpent_reads_560:
  assumes "take 560 ks = take 560 ks'"
  shows "serpent_encrypt b ks = serpent_encrypt b ks' \<and> serpent_decrypt b ks = serpent_decrypt b ks'"
proof -
  have k: "ks_word ks i = ks_word ks' i" if "i < 140" for i
    using get_at_take_eq [OF assms, of "4 * i" 4] that by (simp add: ks_word_def)
  have "KX (ks_word ks) 104 8 q = KX (ks_word ks') 104 8 q" for q by (cases q) (simp add: KX_def k)
  then show ?thesis
    by (simp add: serpent_encrypt_def serpent_decrypt_def Let_def serpent_loops_same [of "ks_word ks" "ks_word ks'", OF k])
qed

lemma cipher_same:
  assumes hw: "hw_ok u" and c: "valid_cipher c" and same: "same_schedule c ks ks'"
  shows "EncipherBlock u c b ks = EncipherBlock u c b ks'" "DecipherBlock u c b ks = DecipherBlock u c b ks'"
proof -
  have t: "take (CipherGetKeyScheduleSize c) ks = take (CipherGetKeyScheduleSize c) ks'"
    using same by (simp add: same_schedule_def)
  have "EncipherBlock u c b ks = EncipherBlock u c b ks' \<and> DecipherBlock u c b ks = DecipherBlock u c b ks'"
    using c
  proof (cases rule: valid_cipherE)
    case 1
    then have t: "take 488 ks = take 488 ks'" using t by (simp add: tc_cfg)
    have e: "aes_ctx_at 0 ks = aes_ctx_at 0 ks'" and d: "aes_ctx_at 244 ks = aes_ctx_at 244 ks'"
      using words_at_take_eq [OF t] get_at_take_eq [OF t] by (simp_all add: aes_ctx_at_def)
    have inf: "aes_inf (aes_ctx_at 0 ks) = 14 * 16" "aes_inf (aes_ctx_at 244 ks) = 14 * 16"
      using same 1 by (simp_all add: same_schedule_def scheduled_def aes_pair_def AES_CTX_SIZE_def)
    have "aes_hw_cpu_encrypt u ks b = aes_hw_cpu_encrypt u ks' b"
      using hw inf(1) e unfolding hw_ok_def by (metis option.inject)
    moreover have "aes_hw_cpu_decrypt u (drop 244 ks) b = aes_hw_cpu_decrypt u (drop 244 ks') b"
      using hw inf(2) d unfolding hw_ok_def by (metis aes_ctx_at_drop option.inject)
    ultimately show ?thesis using 1 e d by (simp add: EncipherBlock_def DecipherBlock_def AES_CTX_SIZE_def)
  next
    case 2
    then show ?thesis using t serpent_reads_560 [of ks ks' b] by (simp add: EncipherBlock_def DecipherBlock_def tc_cfg)
  next
    case 3
    then have "twofish_at ks = twofish_at ks'"
      using words_at_take_eq [OF t] get_at_take_eq [OF t] by (simp add: twofish_at_def tc_cfg)
    then show ?thesis using 3 by (simp add: EncipherBlock_def DecipherBlock_def)
  next
    case 4
    then have "bf_at ks = bf_at ks'" using words_at_take_eq [OF t] by (simp add: bf_at_def tc_cfg)
    then show ?thesis using 4 by (simp add: EncipherBlock_def DecipherBlock_def)
  next
    case 5
    then have "words_at 0 32 ks = words_at 0 32 ks'" using words_at_take_eq [OF t] by (simp add: tc_cfg)
    then show ?thesis using 5 by (simp add: EncipherBlock_def DecipherBlock_def)
  next
    case 6
    then have "tdes_at ks = tdes_at ks'" using words_at_take_eq [OF t] by (simp add: tdes_at_def tc_cfg)
    then show ?thesis using 6 by (simp add: EncipherBlock_def DecipherBlock_def)
  qed
  then show "EncipherBlock u c b ks = EncipherBlock u c b ks'" "DecipherBlock u c b ks = DecipherBlock u c b ks'" by simp_all
qed

lemma cipher_same_fun:
  assumes "hw_ok u" "valid_cipher c" "same_schedule c ks ks'"
  shows "(\<lambda>b. EncipherBlock u c b ks) = (\<lambda>b. EncipherBlock u c b ks')" "(\<lambda>b. DecipherBlock u c b ks) = (\<lambda>b. DecipherBlock u c b ks')"
    "EncipherBlocks u c d ks n = EncipherBlocks u c d ks' n" "DecipherBlocks u c d ks n = DecipherBlocks u c d ks' n"
proof -
  note same = cipher_same [OF assms]
  show "(\<lambda>b. EncipherBlock u c b ks) = (\<lambda>b. EncipherBlock u c b ks')" "(\<lambda>b. DecipherBlock u c b ks) = (\<lambda>b. DecipherBlock u c b ks')"
    by (simp_all add: same)
  have "aes_hw_cpu_encrypt u ks = aes_hw_cpu_encrypt u ks'" if "c = AES" "IsAesHwCpuSupported u"
    using same(1) that by (auto simp: EncipherBlock_def)
  moreover have "aes_hw_cpu_decrypt u (drop AES_CTX_SIZE ks) = aes_hw_cpu_decrypt u (drop AES_CTX_SIZE ks')" if "c = AES" "IsAesHwCpuSupported u"
    using same(2) that by (auto simp: DecipherBlock_def)
  moreover have "\<forall>ks d. aes_hw_cpu_encrypt_32_blocks u ks d = block_map (aes_hw_cpu_encrypt u ks) 16 32 d \<and>
      aes_hw_cpu_decrypt_32_blocks u ks d = block_map (aes_hw_cpu_decrypt u ks) 16 32 d"
    using assms(1) by (simp add: hw_ok_def)
  ultimately show "EncipherBlocks u c d ks n = EncipherBlocks u c d ks' n" "DecipherBlocks u c d ks n = DecipherBlocks u c d ks' n"
    by (auto simp: EncipherBlocks_def DecipherBlocks_def same)
qed

lemma XTS_same:
  assumes "hw_ok u" "valid_cipher c" "same_schedule c ks ks'" "same_schedule c ks2 ks2'"
  shows "EncryptBufferXTS u b len no blk ks ks2 c = EncryptBufferXTS u b len no blk ks' ks2' c"
    "DecryptBufferXTS u b len no blk ks ks2 c = DecryptBufferXTS u b len no blk ks' ks2' c"
  by (simp_all add: EncryptBufferXTS_def DecryptBufferXTS_def EncryptBufferXTSParallel_def DecryptBufferXTSParallel_def
      EncryptBufferXTSNonParallel_def DecryptBufferXTSNonParallel_def cipher_same_fun [OF assms(1-3)] cipher_same_fun [OF assms(1,2,4)])

section \<open>Cascades\<close>

definition same_ks :: "nat list \<Rightarrow> bytes \<Rightarrow> bytes \<Rightarrow> bool" where
  "same_ks cs ks ks' \<longleftrightarrow> all_scheduled cs ks \<and> all_scheduled cs ks' \<and> take (ks_total cs) ks = take (ks_total cs) ks'"

lemma same_ks_offsets:
  "same_ks cs (drop off ks) (drop off ks') \<Longrightarrow> (c, k) \<in> set (offsets off cs) \<Longrightarrow> same_schedule c (drop k ks) (drop k ks')"
proof (induction cs arbitrary: off)
  case (Cons d cs)
  let ?n = "CipherGetKeyScheduleSize d"
  have t: "take (?n + ks_total cs) (drop off ks) = take (?n + ks_total cs) (drop off ks')"
    using Cons.prems(1) by (simp add: same_ks_def)
  have d: "drop ?n (drop off x) = drop (off + ?n) x" for x :: bytes by (simp add: add.commute)
  have "take (ks_total cs) (drop (off + ?n) ks) = take (ks_total cs) (drop (off + ?n) ks')"
    using arg_cong [OF t, of "drop ?n"] by (simp only: drop_take d add_diff_cancel_left')
  then have "same_ks cs (drop (off + ?n) ks) (drop (off + ?n) ks')"
    using Cons.prems(1) by (simp add: same_ks_def add.commute)
  moreover have "take ?n (drop off ks) = take ?n (drop off ks')"
    using arg_cong [OF t, of "take ?n"] by (simp only: take_take min.absorb1 le_add1)
  then have "same_schedule d (drop off ks) (drop off ks')"
    using Cons.prems(1) by (simp add: same_ks_def same_schedule_def)
  ultimately show ?case using Cons.IH [of "off + ?n"] Cons.prems(2) by auto
qed simp

lemma same_ks_cipher:
  assumes "valid_ea ea" "same_ks (ciphers_of ea) ks ks'" "(c, k) \<in> set (offsets 0 (ciphers_of ea))"
  shows "valid_cipher c" "same_schedule c (drop k ks) (drop k ks')"
proof -
  have "(c, k) \<in> set (offsets off cs) \<Longrightarrow> c \<in> set cs" for off cs
    by (induction cs arbitrary: off) auto
  then show "valid_cipher c" using assms(3) ciphers_of_valid [OF assms(1)] by blast
  show "same_schedule c (drop k ks) (drop k ks')"
    using same_ks_offsets [of "ciphers_of ea" 0 ks ks' c k] assms(2,3) by simp
qed

lemma cascade_fwd_cong:
  "(\<And>c k b. (c, k) \<in> set (offsets off cs) \<Longrightarrow> f c k b = g c k b) \<Longrightarrow> cascade_fwd f off cs p = cascade_fwd g off cs p"
  by (induction cs arbitrary: off p) (simp_all split: option.splits)

lemma cascade_bwd_cong:
  "(\<And>c k b. (c, k) \<in> set (offsets off cs) \<Longrightarrow> f c k b = g c k b) \<Longrightarrow>
   cascade_bwd f (off + ks_total cs) (rev cs) p = cascade_bwd g (off + ks_total cs) (rev cs) p"
proof (induction cs arbitrary: off p)
  case (Cons c cs)
  let ?n = "CipherGetKeyScheduleSize c"
  have "cascade_bwd f (off + ?n + ks_total cs) (rev cs) p = cascade_bwd g (off + ?n + ks_total cs) (rev cs) p" for p
    using Cons.prems by (intro Cons.IH) simp
  moreover have last: "cascade_bwd h (off + ?n) [c] = h c off" for h
    by (rule ext) (simp split: option.splits)
  moreover have "f c off = g c off" using Cons.prems by (intro ext) simp
  ultimately show ?case
    by (simp add: cascade_bwd_append add.assoc [symmetric] rev_map [symmetric] sum_list_rev del: cascade_bwd.simps)
qed simp

lemma for_ciphers_cong:
  assumes ea: "valid_ea ea" and eq: "\<And>c k b. (c, k) \<in> set (offsets 0 (ciphers_of ea)) \<Longrightarrow> f c k b = g c k b"
  shows "for_ciphers ea f = for_ciphers ea g" "for_ciphers_back ea f = for_ciphers_back ea g"
proof -
  show "for_ciphers ea f = for_ciphers ea g"
    using cascade_fwd_cong [OF eq] by (auto simp: for_ciphers_def ea_ciphers_forward_table [OF ea])
  show "for_ciphers_back ea f = for_ciphers_back ea g"
    using cascade_bwd_cong [where off = 0 and cs = "ciphers_of ea" and f = f and g = g, OF eq]
    by (auto simp: for_ciphers_back_def ea_ciphers_backward_table [OF ea] EAGetKeyScheduleSize_eq [OF ea])
qed

section \<open>Volumes with the same keys\<close>

lemma CBC_same:
  assumes "(\<lambda>b. EncipherBlock u c b ks) = (\<lambda>b. EncipherBlock u c b ks')" "(\<lambda>b. DecipherBlock u c b ks) = (\<lambda>b. DecipherBlock u c b ks')"
  shows "EncryptBufferCBC u b len ks iv w 0 c = EncryptBufferCBC u b len ks' iv w 0 c"
    "DecryptBufferCBC u b len ks iv w 0 c = DecryptBufferCBC u b len ks' iv w 0 c"
  using assms by (simp_all add: EncryptBufferCBC_def DecryptBufferCBC_def Let_def)

lemma encipher_cascade_same:
  assumes "hw_ok u" "valid_ea ea" "same_ks (ciphers_of ea) ks ks'"
  shows "encipher_cascade u ea ks = encipher_cascade u ea ks'" "decipher_cascade u ea ks = decipher_cascade u ea ks'"
  unfolding encipher_cascade_def decipher_cascade_def
  using cipher_same [OF assms(1) same_ks_cipher [OF assms(2,3)]]
  by (auto intro!: for_ciphers_cong [OF assms(2)])

text \<open>What the mode reads besides the key schedule.\<close>

definition same_mode :: "CRYPTO_INFO \<Rightarrow> CRYPTO_INFO \<Rightarrow> bool" where
  "same_mode a b \<longleftrightarrow>
     (if ci_mode a = XTS then same_ks (ciphers_of (ci_ea a)) (ci_ks2 a) (ci_ks2 b)
      else if ci_mode a = LRW then
        (if CipherGetBlockSize (EAGetFirstCipher (ci_ea a)) = 8
         then (\<forall>i. Gf64MulTab i (gf_ctx a) = Gf64MulTab i (gf_ctx b))
         else (\<forall>i. Gf128MulBy64Tab i (gf_ctx a) = Gf128MulBy64Tab i (gf_ctx b)))
      else take 32 (ci_k2 a) = take 32 (ci_k2 b))"

definition same_volume :: "CRYPTO_INFO \<Rightarrow> CRYPTO_INFO \<Rightarrow> bool" where
  "same_volume a b \<longleftrightarrow> ci_ea a = ci_ea b \<and> ci_mode a = ci_mode b \<and> valid_ea (ci_ea a) \<and>
     same_ks (ciphers_of (ci_ea a)) (ci_ks a) (ci_ks b) \<and> same_mode a b"

lemma same_volume_first:
  assumes "hw_ok u" "same_volume a b"
  shows "EncipherBlock u (EAGetFirstCipher (ci_ea a)) p (ci_ks a) = EncipherBlock u (EAGetFirstCipher (ci_ea a)) p (ci_ks b)"
    "DecipherBlock u (EAGetFirstCipher (ci_ea a)) p (ci_ks a) = DecipherBlock u (EAGetFirstCipher (ci_ea a)) p (ci_ks b)"
proof -
  have ea: "valid_ea (ci_ea a)" and ks: "same_ks (ciphers_of (ci_ea a)) (ci_ks a) (ci_ks b)"
    using assms(2) unfolding same_volume_def by blast+
  have c: "EAGetFirstCipher (ci_ea a) = hd (ciphers_of (ci_ea a))" "hd (ciphers_of (ci_ea a)) \<in> set (ciphers_of (ci_ea a))"
    using ciphers_of_ends [OF ea] by simp_all
  then obtain cs where cs: "ciphers_of (ci_ea a) = EAGetFirstCipher (ci_ea a) # cs" by (cases "ciphers_of (ci_ea a)") auto
  have "same_schedule (EAGetFirstCipher (ci_ea a)) (drop 0 (ci_ks a)) (drop 0 (ci_ks b))"
    using ks by (intro same_ks_offsets [of "ciphers_of (ci_ea a)" 0]) (simp_all add: cs)
  then have s: "same_schedule (EAGetFirstCipher (ci_ea a)) (ci_ks a) (ci_ks b)" by simp
  have "valid_cipher (EAGetFirstCipher (ci_ea a))" using ciphers_of_valid [OF ea] c by simp
  from cipher_same [OF assms(1) this s]
  show "EncipherBlock u (EAGetFirstCipher (ci_ea a)) p (ci_ks a) = EncipherBlock u (EAGetFirstCipher (ci_ea a)) p (ci_ks b)"
    "DecipherBlock u (EAGetFirstCipher (ci_ea a)) p (ci_ks a) = DecipherBlock u (EAGetFirstCipher (ci_ea a)) p (ci_ks b)" by simp_all
qed

lemma LRW_same:
  assumes "hw_ok u" "same_volume a b" "ci_mode a = LRW"
  shows "CipherGetBlockSize (EAGetFirstCipher (ci_ea a)) = 8 \<Longrightarrow> EncryptBufferLRW64 u buf len i a = EncryptBufferLRW64 u buf len i b"
    "CipherGetBlockSize (EAGetFirstCipher (ci_ea a)) = 8 \<Longrightarrow> DecryptBufferLRW64 u buf len i a = DecryptBufferLRW64 u buf len i b"
    "CipherGetBlockSize (EAGetFirstCipher (ci_ea a)) = 16 \<Longrightarrow> EncryptBufferLRW128 u buf len i a = EncryptBufferLRW128 u buf len i b"
    "CipherGetBlockSize (EAGetFirstCipher (ci_ea a)) = 16 \<Longrightarrow> DecryptBufferLRW128 u buf len i a = DecryptBufferLRW128 u buf len i b"
proof -
  have ea: "ci_ea b = ci_ea a" "valid_ea (ci_ea a)" and ks: "same_ks (ciphers_of (ci_ea a)) (ci_ks a) (ci_ks b)" and m: "same_mode a b"
    using assms(2) unfolding same_volume_def by metis+
  note c = encipher_cascade_same [OF assms(1) ea(2) ks] and f = same_volume_first [OF assms(1,2)]
  show "CipherGetBlockSize (EAGetFirstCipher (ci_ea a)) = 8 \<Longrightarrow> EncryptBufferLRW64 u buf len i a = EncryptBufferLRW64 u buf len i b"
    "CipherGetBlockSize (EAGetFirstCipher (ci_ea a)) = 8 \<Longrightarrow> DecryptBufferLRW64 u buf len i a = DecryptBufferLRW64 u buf len i b"
    using m assms(3) by (simp_all add: same_mode_def EncryptBufferLRW64_def DecryptBufferLRW64_def ea f)
  show "CipherGetBlockSize (EAGetFirstCipher (ci_ea a)) = 16 \<Longrightarrow> EncryptBufferLRW128 u buf len i a = EncryptBufferLRW128 u buf len i b"
    "CipherGetBlockSize (EAGetFirstCipher (ci_ea a)) = 16 \<Longrightarrow> DecryptBufferLRW128 u buf len i a = DecryptBufferLRW128 u buf len i b"
    using m assms(3) by (simp_all add: same_mode_def EncryptBufferLRW128_def DecryptBufferLRW128_def ea f c)
qed

lemma first_block_size: "valid_ea ea \<Longrightarrow> CipherGetBlockSize (EAGetFirstCipher ea) = 8 \<or> CipherGetBlockSize (EAGetFirstCipher ea) = 16"
  using block_sizes ciphers_of_valid ciphers_of_ends by fastforce

lemma take_drop_eq: "take n a = take n b \<Longrightarrow> k + m \<le> n \<Longrightarrow> take m (drop k a) = take m (drop k b)"
  using get_at_take_eq [of n a b k m] by (simp add: get_at_def)

lemma CBC_key_same:
  assumes "take 32 a = take 32 b" "CipherGetBlockSize (if ea \<noteq> 0 then EAGetFirstCipher ea else c) \<in> {8, 16}"
  shows "EncryptBufferCBC u buf len ks a (drop 8 a) ea c = EncryptBufferCBC u buf len ks b (drop 8 b) ea c"
    "DecryptBufferCBC u buf len ks a (drop 8 a) ea c = DecryptBufferCBC u buf len ks b (drop 8 b) ea c"
proof -
  have "take 8 a = take 8 b" "take 16 a = take 16 b" "take 8 (drop 8 a) = take 8 (drop 8 b)"
    using take_drop_eq [OF assms(1), of 0 8] take_drop_eq [OF assms(1), of 0 16] take_drop_eq [OF assms(1), of 8 8] by simp_all
  then show "EncryptBufferCBC u buf len ks a (drop 8 a) ea c = EncryptBufferCBC u buf len ks b (drop 8 b) ea c"
    "DecryptBufferCBC u buf len ks a (drop 8 a) ea c = DecryptBufferCBC u buf len ks b (drop 8 b) ea c"
    using assms(2) unfolding EncryptBufferCBC_def DecryptBufferCBC_def Let_def cbc_whitening_def by auto
qed

text \<open>The loops over the ciphers, in the modes that read a schedule at a time.\<close>

lemma for_ciphers_XTS_same:
  assumes "hw_ok u" "valid_ea ea" "same_ks (ciphers_of ea) ks ks'" "same_ks (ciphers_of ea) ks2 ks2'"
  shows "for_ciphers ea (\<lambda>c off b. EncryptBufferXTS u b len no blk (drop off ks) (drop off ks2) c) =
      for_ciphers ea (\<lambda>c off b. EncryptBufferXTS u b len no blk (drop off ks') (drop off ks2') c)"
    "for_ciphers_back ea (\<lambda>c off b. DecryptBufferXTS u b len no blk (drop off ks) (drop off ks2) c) =
      for_ciphers_back ea (\<lambda>c off b. DecryptBufferXTS u b len no blk (drop off ks') (drop off ks2') c)"
  using XTS_same [OF assms(1) same_ks_cipher [OF assms(2,3)] same_ks_cipher(2) [OF assms(2,4)]]
  by (auto intro!: for_ciphers_cong [OF assms(2)])

lemma for_ciphers_CBC_same:
  assumes "hw_ok u" "valid_ea ea" "same_ks (ciphers_of ea) ks ks'" "take 32 key2 = take 32 key2'"
  shows "for_ciphers ea (\<lambda>c off b. EncryptBufferCBC u b len (drop off ks) key2 (drop 8 key2) 0 c) =
      for_ciphers ea (\<lambda>c off b. EncryptBufferCBC u b len (drop off ks') key2' (drop 8 key2') 0 c)"
    "for_ciphers_back ea (\<lambda>c off b. DecryptBufferCBC u b len (drop off ks) key2 (drop 8 key2) 0 c) =
      for_ciphers_back ea (\<lambda>c off b. DecryptBufferCBC u b len (drop off ks') key2' (drop 8 key2') 0 c)"
proof -
  have "EncryptBufferCBC u b len (drop off ks) key2 (drop 8 key2) 0 c = EncryptBufferCBC u b len (drop off ks') key2' (drop 8 key2') 0 c \<and>
      DecryptBufferCBC u b len (drop off ks) key2 (drop 8 key2) 0 c = DecryptBufferCBC u b len (drop off ks') key2' (drop 8 key2') 0 c"
    if "(c, off) \<in> set (offsets 0 (ciphers_of ea))" for b off c
  proof -
    note s = same_ks_cipher [OF assms(2,3) that]
    have "CipherGetBlockSize (if (0::nat) \<noteq> 0 then EAGetFirstCipher 0 else c) \<in> {8, 16}" using block_sizes [OF s(1)] by auto
    from CBC_key_same [OF assms(4) this] CBC_same [OF cipher_same_fun(1,2) [OF assms(1) s]] show ?thesis by simp
  qed
  then show "for_ciphers ea (\<lambda>c off b. EncryptBufferCBC u b len (drop off ks) key2 (drop 8 key2) 0 c) =
      for_ciphers ea (\<lambda>c off b. EncryptBufferCBC u b len (drop off ks') key2' (drop 8 key2') 0 c)"
    "for_ciphers_back ea (\<lambda>c off b. DecryptBufferCBC u b len (drop off ks) key2 (drop 8 key2) 0 c) =
      for_ciphers_back ea (\<lambda>c off b. DecryptBufferCBC u b len (drop off ks') key2' (drop 8 key2') 0 c)"
    by (auto intro!: for_ciphers_cong [OF assms(2)])
qed

lemma OUTER_CBC_same:
  assumes "hw_ok u" "valid_ea ea" "same_ks (ciphers_of ea) ks ks'" "take 32 key2 = take 32 key2'"
  shows "EncryptBufferCBC u b len ks key2 (drop 8 key2) ea 0 = EncryptBufferCBC u b len ks' key2' (drop 8 key2') ea 0"
    "DecryptBufferCBC u b len ks key2 (drop 8 key2) ea 0 = DecryptBufferCBC u b len ks' key2' (drop 8 key2') ea 0"
proof -
  have nz: "ea \<noteq> 0" using assms(2) by (simp add: valid_ea_def)
  have "CipherGetBlockSize (if ea \<noteq> 0 then EAGetFirstCipher ea else 0) \<in> {8, 16}"
    using first_block_size [OF assms(2)] nz by simp
  note k = CBC_key_same [OF assms(4) this] and c = encipher_cascade_same [OF assms(1-3)]
  have "EncryptBufferCBC u b len ks iv w ea 0 = EncryptBufferCBC u b len ks' iv w ea 0"
    "DecryptBufferCBC u b len ks iv w ea 0 = DecryptBufferCBC u b len ks' iv w ea 0" for iv w
    using nz by (simp_all add: EncryptBufferCBC_def DecryptBufferCBC_def Let_def c)
  with k show "EncryptBufferCBC u b len ks key2 (drop 8 key2) ea 0 = EncryptBufferCBC u b len ks' key2' (drop 8 key2') ea 0"
    "DecryptBufferCBC u b len ks key2 (drop 8 key2) ea 0 = DecryptBufferCBC u b len ks' key2' (drop 8 key2') ea 0" by simp_all
qed

theorem EncryptBuffer_same:
  assumes hw: "hw_ok u" and same: "same_volume a b"
  shows "EncryptBuffer u buf len a = EncryptBuffer u buf len b" "DecryptBuffer u buf len a = DecryptBuffer u buf len b"
proof -
  have ea: "ci_ea b = ci_ea a" "valid_ea (ci_ea a)" "ci_mode b = ci_mode a" and ks: "same_ks (ciphers_of (ci_ea a)) (ci_ks a) (ci_ks b)"
    and m: "same_mode a b" using same unfolding same_volume_def by metis+
  note L = LRW_same [OF hw same] and C = for_ciphers_CBC_same [OF hw ea(2) ks, of "ci_k2 a" "ci_k2 b"]
    and O = OUTER_CBC_same [OF hw ea(2) ks, of "ci_k2 a" "ci_k2 b"]
    and X = for_ciphers_XTS_same [OF hw ea(2) ks, of "ci_ks2 a" "ci_ks2 b"]
  have k: "ci_mode a = XTS \<Longrightarrow> same_ks (ciphers_of (ci_ea a)) (ci_ks2 a) (ci_ks2 b)"
    "ci_mode a \<noteq> XTS \<Longrightarrow> ci_mode a \<noteq> LRW \<Longrightarrow> take 32 (ci_k2 a) = take 32 (ci_k2 b)"
    using m by (simp_all add: same_mode_def)
  show "EncryptBuffer u buf len a = EncryptBuffer u buf len b" "DecryptBuffer u buf len a = DecryptBuffer u buf len b"
    unfolding EncryptBuffer_def DecryptBuffer_def Let_def ea(1,3)
    using L C O X k by (auto simp del: take_append)
qed

section \<open>Tables of the LRW mode\<close>

text \<open>Tables that agree on a set of entries, whatever the others hold.\<close>

definition agree_on :: "(nat \<times> nat) set \<Rightarrow> gf_table \<Rightarrow> gf_table \<Rightarrow> bool" where
  "agree_on S t t' \<longleftrightarrow> (\<forall>(i, j)\<in>S. t i j = t' i j)"

lemma agree_on_mono: "S \<subseteq> T \<Longrightarrow> agree_on T t t' \<Longrightarrow> agree_on S t t'"
  by (auto simp: agree_on_def)

lemma agree_on_row:
  "agree_on S t t' \<Longrightarrow>
   agree_on (S \<union> (\<lambda>j. (r, m j)) ` set js) (fold (\<lambda>j. set_entry r (m j) (v j)) js t) (fold (\<lambda>j. set_entry r (m j) (v j)) js t')"
proof (induction js arbitrary: S t t')
  case (Cons j js)
  have "agree_on (insert (r, m j) S) (set_entry r (m j) (v j) t) (set_entry r (m j) (v j) t')"
    using Cons.prems by (auto simp: agree_on_def set_entry_def)
  from Cons.IH [OF this] show ?case by simp
qed simp

lemma agree_on_rows:
  "agree_on S t t' \<Longrightarrow>
   agree_on (S \<union> (\<Union>i\<in>set is. (\<lambda>j. (r i, m j)) ` set js))
     (fold (\<lambda>i. fold (\<lambda>j. set_entry (r i) (m j) (v i j)) js) is t) (fold (\<lambda>i. fold (\<lambda>j. set_entry (r i) (m j) (v i j)) js) is t')"
proof (induction "is" arbitrary: S t t')
  case (Cons i "is")
  from Cons.IH [OF agree_on_row [OF Cons.prems, of "r i" m js "v i"]] show ?case by (simp add: Un_assoc)
qed simp

lemma mirror_nibble_onto: "j < 16 \<Longrightarrow> mirror_nibble j < 16 \<and> mirror_nibble (mirror_nibble j) = j"
proof -
  have "\<forall>j\<in>set [0..<16]. mirror_nibble j < 16 \<and> mirror_nibble (mirror_nibble j) = j"
    by (simp add: upt_rec mirror_nibble_def)
  then show "j < 16 \<Longrightarrow> mirror_nibble j < 16 \<and> mirror_nibble (mirror_nibble j) = j" by simp
qed

definition full :: "(nat \<times> nat) set" where
  "full = {0..<16} \<times> {0..<16}"

lemma agree_on_full:
  assumes "{0..<16} \<subseteq> r ` set is"
  shows "agree_on full (fold (\<lambda>i. fold (\<lambda>j. set_entry (r i) (mirror_nibble j) (v i j)) [0..<16]) is t)
    (fold (\<lambda>i. fold (\<lambda>j. set_entry (r i) (mirror_nibble j) (v i j)) [0..<16]) is t')"
proof -
  have "full \<subseteq> (\<Union>i\<in>set is. (\<lambda>j. (r i, mirror_nibble j)) ` set [0..<16])"
  proof
    fix x assume "x \<in> full"
    then obtain k l where x: "x = (k, l)" "k < 16" "l < 16" by (auto simp: full_def)
    then have "k \<in> r ` set is" using assms by (auto simp: subset_iff)
    then obtain i where "i \<in> set is" "r i = k" by blast
    moreover have "mirror_nibble l \<in> set [0..<16]" "mirror_nibble (mirror_nibble l) = l"
      using mirror_nibble_onto [OF x(3)] by simp_all
    ultimately show "x \<in> (\<Union>i\<in>set is. (\<lambda>j. (r i, mirror_nibble j)) ` set [0..<16])"
      using x(1) by (force simp del: upt_Suc upt_rec_numeral set_upt)
  qed
  then have sub: "full \<subseteq> {} \<union> (\<Union>i\<in>set is. (\<lambda>j. (r i, mirror_nibble j)) ` set [0..<16])" by simp
  show ?thesis
    by (rule agree_on_mono [OF sub], rule agree_on_rows) (simp add: agree_on_def)
qed

lemma nibble_less: "unat (x AND 15 :: u8) < 16" "unat (drop_bit 4 x :: u8) < 16"
proof -
  show "unat (x AND 15 :: u8) < 16"
    using word_and_le1 [of x 15] by (simp add: word_le_nat_alt)
  show "unat (drop_bit 4 x :: u8) < 16"
  proof -
    have "unat x < 2 ^ LENGTH(8)" by (rule unsigned_less)
    then have "unat x div 16 < 16" by (intro less_mult_imp_div_less) simp
    then show ?thesis by (simp add: unat_drop_bit drop_bit_eq_div unat_div)
  qed
qed

lemma mul_by_table_agree:
  assumes "agree_on full t t'"
  shows "mul_by_table t a = mul_by_table t' a"
proof -
  have e: "t i j = t' i j" if "i < 16" "j < 16" for i j using assms that by (auto simp: agree_on_def full_def)
  have r: "xor_row t a i x = xor_row t' a i x" if "i < 8" for i x
    using that by (simp add: xor_row_def e nibble_less)
  show ?thesis by (simp add: mul_by_table_def Let_def e r nibble_less)
qed

lemma Gf_init_same:
  assumes "take 32 k = take 32 k'"
  shows "Gf128MulBy64Tab x (snd (Gf128Tab64Init True k ctx)) = Gf128MulBy64Tab x (snd (Gf128Tab64Init True k' ctx'))"
    "Gf64MulTab x (snd (Gf64TabInit True k ctx)) = Gf64MulTab x (snd (Gf64TabInit True k' ctx'))"
proof -
  have k: "take 16 k = take 16 k'" "take 8 k = take 8 k'"
    using take_drop_eq [OF assms, of 0 16] take_drop_eq [OF assms, of 0 8] by simp_all
  have "{0..<16} \<subseteq> (\<lambda>i. i - 16) ` set [16..<32]"
  proof
    fix i :: nat assume "i \<in> {0..<16}"
    then have "i = (i + 16) - 16" "i + 16 \<in> set [16..<32]" by (simp_all del: upt_Suc upt_rec_numeral)
    then show "i \<in> (\<lambda>i. i - 16) ` set [16..<32]" by (rule image_eqI)
  qed
  note sub = this
  show "Gf128MulBy64Tab x (snd (Gf128Tab64Init True k ctx)) = Gf128MulBy64Tab x (snd (Gf128Tab64Init True k' ctx'))"
    by (simp add: Gf128MulBy64Tab_def Gf128Tab64Init_def Let_def k del: upt_Suc upt_rec_numeral)
      (intro arg_cong [where f = bytes_of_words] mul_by_table_agree agree_on_full sub)
  have sub: "{0..<16} \<subseteq> (\<lambda>i. i) ` set [0..<16]" by auto
  show "Gf64MulTab x (snd (Gf64TabInit True k ctx)) = Gf64MulTab x (snd (Gf64TabInit True k' ctx'))"
    by (simp add: Gf64MulTab_def Gf64TabInit_def Let_def k del: upt_Suc upt_rec_numeral)
      (intro arg_cong [where f = bytes_of_words] mul_by_table_agree agree_on_full sub)
qed

section \<open>Keys set the same way\<close>

text \<open>The bytes of \<open>k2\<close> that the mode reads.\<close>

definition k2_size :: "nat \<Rightarrow> nat \<Rightarrow> nat" where
  "k2_size ea mode = (if mode = XTS then key_total (ciphers_of ea) else 32)"

lemma EAInit_same_ks:
  assumes "valid_ea ea" "take (key_total (ciphers_of ea)) key = take (key_total (ciphers_of ea)) key'"
    "ks_total (ciphers_of ea) \<le> length ks" "ks_total (ciphers_of ea) \<le> length ks'"
    "EAInit ea key ks = Some (r, k)" "EAInit ea key' ks' = Some (r', k')"
  shows "r = r'" "same_ks (ciphers_of ea) k k'"
  using EAInit_same [OF assms] EAInit_all_scheduled [OF assms(1,3), of key] EAInit_all_scheduled [OF assms(1,4), of key'] assms(5,6)
  by (simp_all add: same_ks_def)

lemma EAInitMode_same:
  assumes ea: "valid_ea (ci_ea a)" "ci_ea b = ci_ea a" "ci_mode b = ci_mode a"
    and ks: "same_ks (ciphers_of (ci_ea a)) (ci_ks a) (ci_ks b)"
    and k2: "take (k2_size (ci_ea a) (ci_mode a)) (ci_k2 a) = take (k2_size (ci_ea a) (ci_mode a)) (ci_k2 b)"
    and len: "ks_total (ciphers_of (ci_ea a)) \<le> length (ci_ks2 a)" "ks_total (ciphers_of (ci_ea a)) \<le> length (ci_ks2 b)"
    and init: "EAInitMode al a = Some (True, a')" "EAInitMode al' b = Some (r, b')"
  shows "(r \<longleftrightarrow> ci_mode a = LRW \<longrightarrow> al') \<and> (r \<longrightarrow> same_volume a' b')"
proof (cases "ci_mode a = XTS")
  case True
  then have nl: "ci_mode a \<noteq> LRW" by (simp add: tc_cfg)
  from True obtain x y z where i: "EAInit (ci_ea a) (ci_k2 a) (ci_ks2 a) = Some (ERR_SUCCESS, x)" "a' = a\<lparr>ci_ks2 := x\<rparr>"
    "EAInit (ci_ea a) (ci_k2 b) (ci_ks2 b) = Some (y, z)" "b' = b\<lparr>ci_ks2 := z\<rparr>" "r \<longleftrightarrow> y = ERR_SUCCESS"
    using init ea by (auto simp: EAInitMode_def)
  from EAInit_same_ks [OF ea(1) _ len i(1,3)] have "ERR_SUCCESS = y" "same_ks (ciphers_of (ci_ea a)) x z"
    using k2 True by (simp_all add: k2_size_def)
  then show ?thesis using ea ks True nl by (simp add: i same_volume_def same_mode_def)
next
  case False
  then have k: "take 32 (ci_k2 a) = take 32 (ci_k2 b)" using k2 by (simp add: k2_size_def)
  show ?thesis
  proof (cases "ci_mode a = LRW")
    case True
    note b = first_block_size [OF ea(1)]
    show ?thesis
    proof (cases al')
      case alloc: True
      from True False b init ea obtain ctx ctx' where i: "r" "a' = a\<lparr>gf_ctx := ctx\<rparr>" "b' = b\<lparr>gf_ctx := ctx'\<rparr>"
        "CipherGetBlockSize (EAGetFirstCipher (ci_ea a)) = 8 \<Longrightarrow> ctx = snd (Gf64TabInit True (ci_k2 a) (gf_ctx a))"
        "CipherGetBlockSize (EAGetFirstCipher (ci_ea a)) \<noteq> 8 \<Longrightarrow> ctx = snd (Gf128Tab64Init True (ci_k2 a) (gf_ctx a))"
        "CipherGetBlockSize (EAGetFirstCipher (ci_ea a)) = 8 \<Longrightarrow> ctx' = snd (Gf64TabInit True (ci_k2 b) (gf_ctx b))"
        "CipherGetBlockSize (EAGetFirstCipher (ci_ea a)) \<noteq> 8 \<Longrightarrow> ctx' = snd (Gf128Tab64Init True (ci_k2 b) (gf_ctx b))"
        by (cases al) (auto simp: EAInitMode_def Let_def split_beta Gf64TabInit_def Gf128Tab64Init_def alloc)
      show ?thesis
        using ea ks True False alloc by (auto simp: i same_volume_def same_mode_def Gf_init_same [OF k])
    next
      case alloc: False
      then have "\<not> r" using True False b init ea
        by (auto simp: EAInitMode_def Let_def split_beta Gf64TabInit_def Gf128Tab64Init_def split: if_splits)
      then show ?thesis using True alloc by simp
    qed
  next
    case 2: False
    then have "a' = a" "b' = b" "r" using init ea False by (auto simp: EAInitMode_def split: if_splits)
    then show ?thesis using ea ks False 2 k by (simp add: same_volume_def same_mode_def)
  qed
qed

section \<open>Data units\<close>

lemma InitSectorIVAndWhitening_same:
  assumes "take 32 k = take 32 k'"
  shows "InitSectorIVAndWhitening no bs k = InitSectorIVAndWhitening no bs k'"
proof -
  have "get_at (8 * j) 8 k = get_at (8 * j) 8 k'" if "j < 4" for j
    using get_at_take_eq [OF assms, of "8 * j" 8] that by simp
  then have "map (\<lambda>j. word_to_le 8 (le_to_word (get_at (8 * j) 8 k) XOR no)) [0..<if bs = 16 then 4 else 3] =
      map (\<lambda>j. word_to_le 8 (le_to_word (get_at (8 * j) 8 k') XOR no)) [0..<if bs = 16 then 4 else 3]"
    by (auto split: if_splits)
  then show ?thesis unfolding InitSectorIVAndWhitening_def Let_def by (simp only:)
qed

lemma for_ciphers_iv_same:
  assumes "hw_ok u" "valid_ea ea" "same_ks (ciphers_of ea) ks ks'"
  shows "for_ciphers ea (\<lambda>c off b. Option.bind (f c) (\<lambda>(iv, w). EncryptBufferCBC u b len (drop off ks) iv w 0 c)) =
      for_ciphers ea (\<lambda>c off b. Option.bind (f c) (\<lambda>(iv, w). EncryptBufferCBC u b len (drop off ks') iv w 0 c))"
    "for_ciphers_back ea (\<lambda>c off b. Option.bind (f c) (\<lambda>(iv, w). DecryptBufferCBC u b len (drop off ks) iv w 0 c)) =
      for_ciphers_back ea (\<lambda>c off b. Option.bind (f c) (\<lambda>(iv, w). DecryptBufferCBC u b len (drop off ks') iv w 0 c))"
  using CBC_same [OF cipher_same_fun(1,2) [OF assms(1) same_ks_cipher [OF assms(2,3)]]]
  by (auto intro!: for_ciphers_cong [OF assms(2)])

text \<open>
  Volumes with the same keys encrypt the same data units alike; in LRW mode the index of a block also
  depends on where a hidden volume starts.
\<close>

theorem EncryptDataUnits_same:
  assumes hw: "hw_ok u" and same: "same_volume a b"
    and hidden: "ci_mode a = LRW \<Longrightarrow> hiddenVolume a = hiddenVolume b \<and> hiddenVolumeOffset a = hiddenVolumeOffset b"
  shows "EncryptDataUnitsCurrentThread u buf no n a = EncryptDataUnitsCurrentThread u buf no n b"
    "DecryptDataUnitsCurrentThread u buf no n a = DecryptDataUnitsCurrentThread u buf no n b"
proof -
  have ea: "ci_ea b = ci_ea a" "valid_ea (ci_ea a)" "ci_mode b = ci_mode a" and ks: "same_ks (ciphers_of (ci_ea a)) (ci_ks a) (ci_ks b)"
    and m: "same_mode a b" using same unfolding same_volume_def by metis+
  have nz: "ci_ea a \<noteq> 0" using ea(2) by (simp add: valid_ea_def)
  note L = LRW_same [OF hw same] and C = for_ciphers_iv_same [OF hw ea(2) ks]
    and X = for_ciphers_XTS_same [OF hw ea(2) ks, of "ci_ks2 a" "ci_ks2 b"]
  have O: "EncryptBufferCBC u x len (ci_ks a) iv w (ci_ea a) 0 = EncryptBufferCBC u x len (ci_ks b) iv w (ci_ea a) 0"
    "DecryptBufferCBC u x len (ci_ks a) iv w (ci_ea a) 0 = DecryptBufferCBC u x len (ci_ks b) iv w (ci_ea a) 0" for x len iv w
    using nz encipher_cascade_same [OF hw ea(2) ks] by (simp_all add: EncryptBufferCBC_def DecryptBufferCBC_def Let_def)
  have k: "ci_mode a = XTS \<Longrightarrow> same_ks (ciphers_of (ci_ea a)) (ci_ks2 a) (ci_ks2 b)"
    "ci_mode a \<noteq> XTS \<Longrightarrow> ci_mode a \<noteq> LRW \<Longrightarrow> take 32 (ci_k2 a) = take 32 (ci_k2 b)"
    using m by (simp_all add: same_mode_def)
  note I = InitSectorIVAndWhitening_same [OF k(2)]
  have i: "ci_mode a = LRW \<Longrightarrow> DataUnit2LRWIndex x y a = DataUnit2LRWIndex x y b" for x y
    using hidden by (simp add: DataUnit2LRWIndex_def)
  consider "ci_mode a = XTS" | "ci_mode a \<noteq> XTS" "ci_mode a = LRW" | "ci_mode a \<noteq> XTS" "ci_mode a \<noteq> LRW" by blast
  then show "EncryptDataUnitsCurrentThread u buf no n a = EncryptDataUnitsCurrentThread u buf no n b"
    "DecryptDataUnitsCurrentThread u buf no n a = DecryptDataUnitsCurrentThread u buf no n b"
    unfolding EncryptDataUnitsCurrentThread_def DecryptDataUnitsCurrentThread_def Let_def ea(1,3)
    by (cases; simp add: X k L i I C O)+
qed

end
