(* ===== verification/Volumes.thy ===== *)
theory Volumes
  imports Pkcs5 Key_Schedules
begin

text \<open>
  The volume headers of Common/Volumes.c: \<open>ReadVolumeHeader\<close>, which finds the key derivation function,
  the mode and the algorithm of an encrypted header by trying all of them, and
  \<open>CreateVolumeHeaderInMemory\<close>.

  What the outside decides is an argument: whether memory could be allocated, the random bytes, the
  contents of memory that is not initialised, and the order in which the thread pool completes key
  derivations. \<open>None\<close> is the fatal exception.
\<close>

unbundle bit_operations_syntax

section \<open>The layout of a header\<close>

named_theorems tc_vol

definition TC_VOLUME_HEADER_EFFECTIVE_SIZE :: nat where "TC_VOLUME_HEADER_EFFECTIVE_SIZE = 512"
definition HEADER_SALT_OFFSET :: nat where "HEADER_SALT_OFFSET = 0"
definition HEADER_ENCRYPTED_DATA_OFFSET :: nat where "HEADER_ENCRYPTED_DATA_OFFSET = PKCS5_SALT_SIZE"
definition HEADER_ENCRYPTED_DATA_SIZE :: nat where
  "HEADER_ENCRYPTED_DATA_SIZE = TC_VOLUME_HEADER_EFFECTIVE_SIZE - HEADER_ENCRYPTED_DATA_OFFSET"
definition HEADER_MASTER_KEYDATA_OFFSET :: nat where "HEADER_MASTER_KEYDATA_OFFSET = 256"
definition TC_HEADER_OFFSET_MAGIC :: nat where "TC_HEADER_OFFSET_MAGIC = 64"
definition TC_HEADER_OFFSET_VERSION :: nat where "TC_HEADER_OFFSET_VERSION = 68"
definition TC_HEADER_OFFSET_REQUIRED_VERSION :: nat where "TC_HEADER_OFFSET_REQUIRED_VERSION = 70"
definition TC_HEADER_OFFSET_KEY_AREA_CRC :: nat where "TC_HEADER_OFFSET_KEY_AREA_CRC = 72"
definition TC_HEADER_OFFSET_VOLUME_CREATION_TIME :: nat where "TC_HEADER_OFFSET_VOLUME_CREATION_TIME = 76"
definition TC_HEADER_OFFSET_MODIFICATION_TIME :: nat where "TC_HEADER_OFFSET_MODIFICATION_TIME = 84"
definition TC_HEADER_OFFSET_HIDDEN_VOLUME_SIZE :: nat where "TC_HEADER_OFFSET_HIDDEN_VOLUME_SIZE = 92"
definition TC_HEADER_OFFSET_VOLUME_SIZE :: nat where "TC_HEADER_OFFSET_VOLUME_SIZE = 100"
definition TC_HEADER_OFFSET_ENCRYPTED_AREA_START :: nat where "TC_HEADER_OFFSET_ENCRYPTED_AREA_START = 108"
definition TC_HEADER_OFFSET_ENCRYPTED_AREA_LENGTH :: nat where "TC_HEADER_OFFSET_ENCRYPTED_AREA_LENGTH = 116"
definition TC_HEADER_OFFSET_FLAGS :: nat where "TC_HEADER_OFFSET_FLAGS = 124"
definition TC_HEADER_OFFSET_SECTOR_SIZE :: nat where "TC_HEADER_OFFSET_SECTOR_SIZE = 128"
definition TC_HEADER_OFFSET_HEADER_CRC :: nat where "TC_HEADER_OFFSET_HEADER_CRC = 252"

lemmas header_layout [tc_vol] =
  TC_VOLUME_HEADER_EFFECTIVE_SIZE_def HEADER_SALT_OFFSET_def HEADER_ENCRYPTED_DATA_OFFSET_def HEADER_ENCRYPTED_DATA_SIZE_def
  HEADER_MASTER_KEYDATA_OFFSET_def TC_HEADER_OFFSET_MAGIC_def TC_HEADER_OFFSET_VERSION_def
  TC_HEADER_OFFSET_REQUIRED_VERSION_def TC_HEADER_OFFSET_KEY_AREA_CRC_def TC_HEADER_OFFSET_VOLUME_CREATION_TIME_def
  TC_HEADER_OFFSET_MODIFICATION_TIME_def TC_HEADER_OFFSET_HIDDEN_VOLUME_SIZE_def TC_HEADER_OFFSET_VOLUME_SIZE_def
  TC_HEADER_OFFSET_ENCRYPTED_AREA_START_def TC_HEADER_OFFSET_ENCRYPTED_AREA_LENGTH_def TC_HEADER_OFFSET_FLAGS_def
  TC_HEADER_OFFSET_SECTOR_SIZE_def TC_HEADER_OFFSET_HEADER_CRC_def

definition VOLUME_HEADER_VERSION :: u16 where "VOLUME_HEADER_VERSION = 5"
definition VERSION_NUM :: u16 where "VERSION_NUM = 0x071a"
definition TC_VOLUME_MIN_REQUIRED_PROGRAM_VERSION :: u16 where "TC_VOLUME_MIN_REQUIRED_PROGRAM_VERSION = 0x0700"
definition TC_MIN_VOLUME_SECTOR_SIZE :: u32 where "TC_MIN_VOLUME_SECTOR_SIZE = 512"
definition TC_MAX_VOLUME_SECTOR_SIZE :: u32 where "TC_MAX_VOLUME_SECTOR_SIZE = 4096"
definition TC_SECTOR_SIZE_LEGACY :: u32 where "TC_SECTOR_SIZE_LEGACY = 512"
definition MAX_PASSWORD :: nat where "MAX_PASSWORD = 64"

definition ERR_OUTOFMEMORY :: nat where "ERR_OUTOFMEMORY = 2"
definition ERR_PASSWORD_WRONG :: nat where "ERR_PASSWORD_WRONG = 3"
definition ERR_NEW_VERSION_REQUIRED :: nat where "ERR_NEW_VERSION_REQUIRED = 16"
definition ERR_MODE_INIT_FAILED :: nat where "ERR_MODE_INIT_FAILED = 27"
definition ERR_PARAMETER_INCORRECT :: nat where "ERR_PARAMETER_INCORRECT = 30"

lemmas header_values [tc_vol] =
  VOLUME_HEADER_VERSION_def VERSION_NUM_def TC_VOLUME_MIN_REQUIRED_PROGRAM_VERSION_def TC_MIN_VOLUME_SECTOR_SIZE_def
  TC_MAX_VOLUME_SECTOR_SIZE_def TC_SECTOR_SIZE_LEGACY_def MAX_PASSWORD_def ERR_OUTOFMEMORY_def ERR_PASSWORD_WRONG_def
  ERR_NEW_VERSION_REQUIRED_def ERR_MODE_INIT_FAILED_def ERR_PARAMETER_INCORRECT_def

definition GetHeaderField16 :: "bytes \<Rightarrow> nat \<Rightarrow> u16" where
  "GetHeaderField16 header offset = BE16 (le_to_word (get_at offset 2 header))"

definition GetHeaderField32 :: "bytes \<Rightarrow> nat \<Rightarrow> u32" where
  "GetHeaderField32 header offset = BE32 (le_to_word (get_at offset 4 header))"

definition GetHeaderField64 :: "bytes \<Rightarrow> nat \<Rightarrow> u64" where
  "GetHeaderField64 header offset = BE64 (le_to_word (get_at offset 8 header))"

section \<open>Passwords and keys\<close>

record Password =
  pw_Length :: nat
  pw_Text :: bytes

record KEY_INFO =
  ki_noIterations :: nat
  ki_keyLength :: nat
  ki_userKey :: bytes
  ki_salt :: bytes
  ki_master_keydata :: bytes

text \<open>\<open>crypto_open\<close> returns a record of zeroes, and no algorithm's number in it: the \<open>-1\<close> of an \<open>int\<close>.\<close>

definition crypto_open :: "bool \<Rightarrow> CRYPTO_INFO option" where
  "crypto_open alloc =
     (if \<not> alloc then None
      else Some \<lparr>ci_ea = 2 ^ 32 - 1, ci_mode = 0, ci_ks = replicate MAX_EXPANDED_KEY 0, ci_ks2 = replicate MAX_EXPANDED_KEY 0,
        hiddenVolume = False, HeaderVersion = 0, gf_ctx = \<lparr>gf_t128 = \<lambda>i j. replicate 4 0, gf_t64 = \<lambda>i j. replicate 2 0\<rparr>,
        ci_master_keydata = replicate MASTER_KEYDATA_SIZE 0, ci_k2 = replicate MASTER_KEYDATA_SIZE 0,
        ci_salt = replicate PKCS5_SALT_SIZE 0, ci_noIterations = 0, ci_pkcs5 = 0, volume_creation_time = 0,
        header_creation_time = 0, bProtectHiddenVolume = False, bHiddenVolProtectionAction = False, volDataAreaOffset = 0,
        hiddenVolumeSize = 0, hiddenVolumeOffset = 0, hiddenVolumeProtectedSize = 0,
        bPartitionInInactiveSysEncScope = False, FirstDataUnitNo = 0, RequiredProgramVersion = 0, LegacyVolume = False,
        SectorSize = 0, VolumeSize = 0, EncryptedAreaStart = 0, EncryptedAreaLength = 0, HeaderFlags = 0\<rparr>)"

definition crypto_loadkey :: "KEY_INFO \<Rightarrow> bytes \<Rightarrow> nat \<Rightarrow> KEY_INFO" where
  "crypto_loadkey ki userKey n =
     ki\<lparr>ki_keyLength := n, ki_userKey := put_at 0 (take n userKey) (replicate MAX_PASSWORD 0)\<rparr>"

text \<open>The contents of the hash contexts on the stack before the hash functions initialise them.\<close>

record kdf_mem =
  km_sha512 :: "u64 sha_ctx"
  km_sha1 :: "u32 sha_ctx"
  km_rmd160 :: RMD160_CTX
  km_whirlpool :: WHIRLPOOL_CTX

text \<open>The switch over the hash algorithms, which writes the derived key to the front of \<open>dk\<close>.\<close>

definition derive_header_key :: "kdf_mem \<Rightarrow> nat \<Rightarrow> KEY_INFO \<Rightarrow> bytes \<Rightarrow> bytes option" where
  "derive_header_key mem pkcs5_prf ki dk =
     Option.bind GetMaxPkcs5OutSize (\<lambda>n. map_option (\<lambda>key. put_at 0 key dk)
       (if pkcs5_prf = RIPEMD160 then
          Some (derive_key_ripemd160 (km_rmd160 mem) (ki_userKey ki) (ki_keyLength ki) (ki_salt ki) PKCS5_SALT_SIZE (ki_noIterations ki) n)
        else if pkcs5_prf = SHA512 then
          Some (derive_key_sha512 (km_sha512 mem) (ki_userKey ki) (ki_keyLength ki) (ki_salt ki) PKCS5_SALT_SIZE (ki_noIterations ki) n)
        else if pkcs5_prf = SHA1 then
          Some (derive_key_sha1 (km_sha1 mem) (ki_userKey ki) (ki_keyLength ki) (ki_salt ki) PKCS5_SALT_SIZE (ki_noIterations ki) n)
        else if pkcs5_prf = WHIRLPOOL then
          Some (derive_key_whirlpool (km_whirlpool mem) (ki_userKey ki) (ki_keyLength ki) (ki_salt ki) PKCS5_SALT_SIZE (ki_noIterations ki) n)
        else None))"

text \<open>The switches over the mode: where the primary key starts, and what is copied to \<open>k2\<close>.\<close>

definition legacy_mode :: "nat \<Rightarrow> bool" where
  "legacy_mode mode \<longleftrightarrow> mode = LRW \<or> mode = CBC \<or> mode = INNER_CBC \<or> mode = OUTER_CBC"

definition primaryKeyOffset :: "nat \<Rightarrow> nat" where
  "primaryKeyOffset mode = (if legacy_mode mode then LEGACY_VOL_IV_SIZE else 0)"

definition set_k2 :: "bytes \<Rightarrow> CRYPTO_INFO \<Rightarrow> CRYPTO_INFO option" where
  "set_k2 key ci =
     (if legacy_mode (ci_mode ci) then Some (ci\<lparr>ci_k2 := put_at 0 (take LEGACY_VOL_IV_SIZE key) (ci_k2 ci)\<rparr>)
      else map_option (\<lambda>n. ci\<lparr>ci_k2 := put_at 0 (get_at n n key) (ci_k2 ci)\<rparr>) (EAGetKeySize (ci_ea ci)))"

section \<open>One trial\<close>

text \<open>
  The search threads the \<open>CRYPTO_INFO\<close> and the flags \<open>lrw64InitDone\<close>, \<open>lrw128InitDone\<close>. A trial
  continues the search, jumps to \<open>err\<close> with a status, or has found the header.
\<close>

type_synonym search_state = "CRYPTO_INFO \<times> bool \<times> bool"

record found =
  f_status :: nat
  f_prf :: nat
  f_iterations :: nat
  f_header :: bytes

datatype attempt = NotThis search_state | Failed nat CRYPTO_INFO | Decrypted found CRYPTO_INFO

text \<open>The part of \<open>ReadVolumeHeader\<close> from the magic number to the sector size.\<close>

definition bad_sector_size :: "u32 \<Rightarrow> bool" where
  "bad_sector_size n \<longleftrightarrow> n < TC_MIN_VOLUME_SECTOR_SIZE \<or> n > TC_MAX_VOLUME_SECTOR_SIZE \<or>
     n mod word_of_nat ENCRYPTION_DATA_UNIT_SIZE \<noteq> 0"

definition read_fields :: "bytes \<Rightarrow> CRYPTO_INFO \<Rightarrow> CRYPTO_INFO" where
  "read_fields header ci =
     (let headerVersion = GetHeaderField16 header TC_HEADER_OFFSET_VERSION;
          hidden = GetHeaderField64 header TC_HEADER_OFFSET_HIDDEN_VOLUME_SIZE
      in ci\<lparr>HeaderVersion := headerVersion,
            volume_creation_time := GetHeaderField64 header TC_HEADER_OFFSET_VOLUME_CREATION_TIME,
            header_creation_time := GetHeaderField64 header TC_HEADER_OFFSET_MODIFICATION_TIME,
            hiddenVolumeSize := hidden,
            hiddenVolume := hidden \<noteq> 0,
            VolumeSize := GetHeaderField64 header TC_HEADER_OFFSET_VOLUME_SIZE,
            EncryptedAreaStart := GetHeaderField64 header TC_HEADER_OFFSET_ENCRYPTED_AREA_START,
            EncryptedAreaLength := GetHeaderField64 header TC_HEADER_OFFSET_ENCRYPTED_AREA_LENGTH,
            HeaderFlags := GetHeaderField32 header TC_HEADER_OFFSET_FLAGS,
            SectorSize := (if headerVersion \<ge> 5 then GetHeaderField32 header TC_HEADER_OFFSET_SECTOR_SIZE
                           else TC_SECTOR_SIZE_LEGACY)\<rparr>)"

definition check_header :: "bool \<Rightarrow> found \<Rightarrow> search_state \<Rightarrow> attempt" where
  "check_header recovery f = (\<lambda>(ci, lrw64, lrw128).
     let header = f_header f;
         headerVersion = GetHeaderField16 header TC_HEADER_OFFSET_VERSION in
     if GetHeaderField32 header TC_HEADER_OFFSET_MAGIC \<noteq> 0x54525545 then NotThis (ci, lrw64, lrw128)
     else if headerVersion > VOLUME_HEADER_VERSION then Failed ERR_NEW_VERSION_REQUIRED ci
     else if \<not> recovery \<and> headerVersion \<ge> 4 \<and>
       GetHeaderField32 header TC_HEADER_OFFSET_HEADER_CRC \<noteq>
         GetCrc32 (get_at TC_HEADER_OFFSET_MAGIC (TC_HEADER_OFFSET_HEADER_CRC - TC_HEADER_OFFSET_MAGIC) header)
     then NotThis (ci, lrw64, lrw128)
     else
       let required = GetHeaderField16 header TC_HEADER_OFFSET_REQUIRED_VERSION;
           ci = ci\<lparr>RequiredProgramVersion := required, LegacyVolume := required < 0x600\<rparr> in
       if \<not> recovery \<and> GetHeaderField32 header TC_HEADER_OFFSET_KEY_AREA_CRC \<noteq>
            GetCrc32 (get_at HEADER_MASTER_KEYDATA_OFFSET MASTER_KEYDATA_SIZE header)
       then NotThis (ci, lrw64, lrw128)
       else if required > VERSION_NUM then Failed ERR_NEW_VERSION_REQUIRED ci
       else
         let ci = read_fields header ci in
         if bad_sector_size (SectorSize ci) then Failed ERR_PARAMETER_INCORRECT ci
         else Decrypted f ci)"

text \<open>
  What the search uses: the processor, the uninitialised memory behind the derived key and the hash
  contexts, whether memory can be allocated (for the record, for the tables of the LRW mode, for the
  work items and events of the thread pool), the number of threads and the order in which the keys are
  tested, and the recovery mode.
\<close>

record read_env =
  re_cpu :: cpu
  re_mem :: "nat \<Rightarrow> kdf_mem"
  re_dk :: "nat \<Rightarrow> bytes"
  re_keyInfo :: KEY_INFO
  re_open :: bool
  re_tables :: "nat \<Rightarrow> nat \<Rightarrow> bool"
  re_master_tables :: bool
  re_threads :: nat
  re_pool :: bool
  re_order :: "nat list"
  ReadVolumeHeaderRecoveryMode :: bool

definition init_header_mode :: "read_env \<Rightarrow> nat \<Rightarrow> bytes \<Rightarrow> search_state \<Rightarrow> (bool \<times> search_state) option" where
  "init_header_mode env pkcs5_prf dk = (\<lambda>(ci, lrw64, lrw128).
     let blockSize = CipherGetBlockSize (EAGetFirstCipher (ci_ea ci));
         alloc = re_tables env pkcs5_prf (ci_ea ci) in
     if ci_mode ci = XTS then
       Option.bind (set_k2 dk ci) (\<lambda>ci. map_option (\<lambda>(ok, ci). (ok, ci, lrw64, lrw128)) (EAInitMode alloc ci))
     else if ci_mode ci = LRW \<and> (blockSize = 8 \<and> \<not> lrw64 \<or> blockSize = 16 \<and> \<not> lrw128) then
       map_option (\<lambda>(ok, ci). (ok, ci, lrw64 \<or> ok \<and> blockSize = 8, lrw128 \<or> ok \<and> blockSize = 16)) (EAInitMode alloc ci)
     else Some (True, ci, lrw64, lrw128))"

definition try_ea :: "read_env \<Rightarrow> nat \<Rightarrow> nat \<Rightarrow> bytes \<Rightarrow> bytes \<Rightarrow> nat \<Rightarrow> search_state \<Rightarrow> attempt option" where
  "try_ea env pkcs5_prf iterations dk encryptedHeader ea = (\<lambda>(ci, lrw64, lrw128).
     let ci = ci\<lparr>ci_ea := ea\<rparr> in
     Option.bind (EAIsModeSupported ea (ci_mode ci)) (\<lambda>supported.
       if \<not> supported then Some (NotThis (ci, lrw64, lrw128))
       else Option.bind (EAInit ea (drop (primaryKeyOffset (ci_mode ci)) dk) (ci_ks ci)) (\<lambda>(status, ks).
         let ci = ci\<lparr>ci_ks := ks\<rparr> in
         if status = ERR_CIPHER_INIT_FAILURE then Some (Failed status ci)
         else Option.bind (init_header_mode env pkcs5_prf dk (ci, lrw64, lrw128)) (\<lambda>(ok, st).
           if \<not> ok then Some (Failed ERR_MODE_INIT_FAILED (fst st))
           else
             let header = take TC_VOLUME_HEADER_EFFECTIVE_SIZE encryptedHeader in
             map_option (\<lambda>plain. check_header (ReadVolumeHeaderRecoveryMode env)
                 \<lparr>f_status = status, f_prf = pkcs5_prf, f_iterations = iterations,
                  f_header = take HEADER_ENCRYPTED_DATA_OFFSET header @ plain\<rparr> st)
               (DecryptBuffer (re_cpu env) (drop HEADER_ENCRYPTED_DATA_OFFSET header) (word_of_nat HEADER_ENCRYPTED_DATA_SIZE)
                 (fst st))))))"

section \<open>The search\<close>

text \<open>A loop of trials; \<open>final\<close> is what the end of the loop leaves in the loop variable.\<close>

fun first_hit :: "('x \<Rightarrow> search_state \<Rightarrow> attempt option) \<Rightarrow> 'x list \<Rightarrow> search_state \<Rightarrow> attempt option" where
  "first_hit f [] st = Some (NotThis st)"
| "first_hit f (x # xs) st =
     (case f x st of
        None \<Rightarrow> None
      | Some (NotThis st') \<Rightarrow> first_hit f xs st'
      | Some r \<Rightarrow> Some r)"

primrec after_loop :: "(CRYPTO_INFO \<Rightarrow> CRYPTO_INFO) \<Rightarrow> attempt \<Rightarrow> attempt" where
  "after_loop final (NotThis st) = NotThis (final (fst st), snd st)"
| "after_loop final (Failed status ci) = Failed status ci"
| "after_loop final (Decrypted f ci) = Decrypted f ci"

definition try_mode ::
  "read_env \<Rightarrow> nat \<Rightarrow> nat \<Rightarrow> bytes \<Rightarrow> bytes \<Rightarrow> nat list \<Rightarrow> nat \<Rightarrow> search_state \<Rightarrow> attempt option" where
  "try_mode env pkcs5_prf iterations dk encryptedHeader eas mode = (\<lambda>(ci, lrw).
     let ci = ci\<lparr>ci_mode := mode\<rparr>;
         ci = (if legacy_mode mode then ci\<lparr>ci_k2 := put_at 0 (take LEGACY_VOL_IV_SIZE dk) (ci_k2 ci)\<rparr> else ci) in
     map_option (after_loop (ci_ea_update (\<lambda>_. 0)))
       (first_hit (try_ea env pkcs5_prf iterations dk encryptedHeader) eas (ci, lrw)))"

definition try_prf :: "read_env \<Rightarrow> bool \<Rightarrow> KEY_INFO \<Rightarrow> bytes \<Rightarrow> nat list \<Rightarrow> nat \<Rightarrow> search_state \<Rightarrow> attempt option" where
  "try_prf env bBoot keyInfo encryptedHeader eas pkcs5_prf = (\<lambda>(ci, lrw).
     Option.bind (get_pkcs5_iteration_count pkcs5_prf bBoot) (\<lambda>n.
       Option.bind (derive_header_key (re_mem env pkcs5_prf) pkcs5_prf (keyInfo\<lparr>ki_noIterations := n\<rparr>) (re_dk env pkcs5_prf)) (\<lambda>dk.
         map_option (after_loop (ci_mode_update (\<lambda>_. INNER_CBC + 1)))
           (first_hit (try_mode env pkcs5_prf n dk encryptedHeader eas) [XTS..<INNER_CBC + 1] (ci, False, False)))))"

definition header_search :: "read_env \<Rightarrow> bool \<Rightarrow> KEY_INFO \<Rightarrow> bytes \<Rightarrow> CRYPTO_INFO \<Rightarrow> attempt option" where
  "header_search env bBoot keyInfo encryptedHeader ci =
     Option.bind EAs (\<lambda>eas. first_hit (try_prf env bBoot keyInfo encryptedHeader eas) (re_order env) (ci, False, False))"

section \<open>Reading a header\<close>

text \<open>
  The two pointers the caller passes: the new record goes to \<open>*retInfo\<close>, the scheduled header keys stay
  in \<open>*retHeaderCryptoInfo\<close>, or both.
\<close>

datatype target = ToInfo | ToHeaderInfo CRYPTO_INFO | ToBoth CRYPTO_INFO

text \<open>What happens to \<open>*retInfo\<close>.\<close>

datatype ret_info = Untouched | Cleared | Opened CRYPTO_INFO

text \<open>The keys of the volume from the decrypted header: the end of the loop body.\<close>

definition use_master_key :: "bool \<Rightarrow> KEY_INFO \<Rightarrow> found \<Rightarrow> CRYPTO_INFO \<Rightarrow> (nat \<times> CRYPTO_INFO) option" where
  "use_master_key alloc keyInfo f ci =
     (let key = get_at HEADER_MASTER_KEYDATA_OFFSET MASTER_KEYDATA_SIZE (f_header f);
          ci = ci\<lparr>ci_master_keydata := key, ci_salt := ki_salt keyInfo, ci_pkcs5 := f_prf f, ci_noIterations := f_iterations f\<rparr> in
      Option.bind (EAInit (ci_ea ci) (drop (primaryKeyOffset (ci_mode ci)) key) (ci_ks ci)) (\<lambda>(status, ks).
        let ci = ci\<lparr>ci_ks := ks\<rparr> in
        if status = ERR_CIPHER_INIT_FAILURE then Some (status, ci)
        else Option.bind (set_k2 key ci) (\<lambda>ci.
          map_option (\<lambda>(ok, ci). (if ok then ERR_SUCCESS else ERR_MODE_INIT_FAILED, ci)) (EAInitMode alloc ci))))"

definition read_result :: "nat \<times> CRYPTO_INFO \<Rightarrow> CRYPTO_INFO option \<Rightarrow> nat \<times> ret_info \<times> CRYPTO_INFO option" where
  "read_result r h = (if fst r = ERR_SUCCESS then (ERR_SUCCESS, Opened (snd r), h) else (fst r, Cleared, h))"

definition read_failed :: "target \<Rightarrow> nat \<Rightarrow> CRYPTO_INFO \<Rightarrow> nat \<times> ret_info \<times> CRYPTO_INFO option" where
  "read_failed t status ci = (case t of ToInfo \<Rightarrow> (status, Cleared, None) | _ \<Rightarrow> (status, Untouched, Some ci))"

definition read_found ::
  "read_env \<Rightarrow> KEY_INFO \<Rightarrow> target \<Rightarrow> found \<Rightarrow> CRYPTO_INFO \<Rightarrow> (nat \<times> ret_info \<times> CRYPTO_INFO option) option" where
  "read_found env keyInfo t f ci =
     (case t of
        ToHeaderInfo _ \<Rightarrow> Some (f_status f, Untouched, Some (ci\<lparr>ci_pkcs5 := f_prf f, ci_noIterations := f_iterations f\<rparr>))
      | ToInfo \<Rightarrow> map_option (\<lambda>r. read_result r None) (use_master_key (re_master_tables env) keyInfo f ci)
      | ToBoth _ \<Rightarrow>
          (case crypto_open (re_open env) of
             None \<Rightarrow> Some (ERR_OUTOFMEMORY, Cleared, Some ci)
           | Some _ \<Rightarrow> map_option (\<lambda>r. read_result r (Some ci)) (use_master_key (re_master_tables env) keyInfo f ci)))"

definition ReadVolumeHeader ::
  "read_env \<Rightarrow> bool \<Rightarrow> bytes \<Rightarrow> Password \<Rightarrow> target \<Rightarrow> (nat \<times> ret_info \<times> CRYPTO_INFO option) option" where
  "ReadVolumeHeader env bBoot encryptedHeader password t =
     (case (case t of ToInfo \<Rightarrow> crypto_open (re_open env) | ToHeaderInfo h \<Rightarrow> Some h | ToBoth h \<Rightarrow> Some h) of
        None \<Rightarrow> Some (ERR_OUTOFMEMORY, Cleared, None)
      | Some ci \<Rightarrow>
          if re_threads env > 1 \<and> \<not> re_pool env then
            Some (ERR_OUTOFMEMORY, (case t of ToInfo \<Rightarrow> Opened ci | _ \<Rightarrow> Untouched), (case t of ToInfo \<Rightarrow> None | _ \<Rightarrow> Some ci))
          else
            let keyInfo = (crypto_loadkey (re_keyInfo env) (pw_Text password) (pw_Length password))
                            \<lparr>ki_salt := get_at HEADER_SALT_OFFSET PKCS5_SALT_SIZE encryptedHeader\<rparr> in
            Option.bind (header_search env bBoot keyInfo encryptedHeader ci) (\<lambda>r.
              case r of
                NotThis st \<Rightarrow> Some (read_failed t ERR_PASSWORD_WRONG (fst st))
              | Failed status ci \<Rightarrow> Some (read_failed t status ci)
              | Decrypted f ci \<Rightarrow> read_found env keyInfo t f ci))"

section \<open>Creating a header\<close>

record header_request =
  rq_ea :: nat
  rq_mode :: nat
  rq_prf :: nat
  rq_masterKeydata :: "bytes option"
  rq_volumeSize :: u64
  rq_hiddenVolumeSize :: u64
  rq_encryptedAreaStart :: u64
  rq_encryptedAreaLength :: u64
  rq_requiredProgramVersion :: u16
  rq_headerFlags :: u32
  rq_sectorSize :: u32

text \<open>The two random byte strings are \<open>None\<close> when \<open>RandgetBytes\<close> fails; the others are as in \<open>read_env\<close>.\<close>

record create_env =
  ce_cpu :: cpu
  ce_mem :: kdf_mem
  ce_keyInfo :: KEY_INFO
  ce_dk :: bytes
  ce_open :: bool
  ce_tables :: bool
  ce_master_tables :: bool
  ce_random_key :: "nat \<Rightarrow> bytes option"
  ce_random_salt :: "bytes option"

definition required_version :: "header_request \<Rightarrow> u16" where
  "required_version rq =
     (if rq_mode rq = LRW then 0x0410
      else if rq_mode rq = OUTER_CBC \<or> rq_mode rq = INNER_CBC then 0x0300
      else if rq_mode rq = CBC then (if rq_hiddenVolumeSize rq > 0 then 0x0300 else 0x0100)
      else if rq_requiredProgramVersion rq \<noteq> 0 then rq_requiredProgramVersion rq
      else TC_VOLUME_MIN_REQUIRED_PROGRAM_VERSION)"

text \<open>
  The plain header: the fields up to the first checksum at the front, the others after the 16
  reserved bytes, then the checksum of the fields and the master keys.
\<close>

definition plain_header :: "header_request \<Rightarrow> KEY_INFO \<Rightarrow> bytes" where
  "plain_header rq keyInfo =
     (let header = replicate TC_VOLUME_HEADER_EFFECTIVE_SIZE 0;
          header = put_at 0 (take PKCS5_SALT_SIZE (ki_salt keyInfo) @ mputLong 0x54525545 @ mputWord VOLUME_HEADER_VERSION @
            mputWord (required_version rq) @ mputLong (GetCrc32 (take MASTER_KEYDATA_SIZE (ki_master_keydata keyInfo)))) header;
          p = PKCS5_SALT_SIZE + 4 + 2 + 2 + 4 + 2 * 8;
          header = put_at p (mputInt64 (rq_hiddenVolumeSize rq) @ mputInt64 (rq_volumeSize rq) @
            mputInt64 (rq_encryptedAreaStart rq) @ mputInt64 (rq_encryptedAreaLength rq) @ mputLong (rq_headerFlags rq) @
            mputLong (rq_sectorSize rq)) header;
          x = GetCrc32 (get_at TC_HEADER_OFFSET_MAGIC (TC_HEADER_OFFSET_HEADER_CRC - TC_HEADER_OFFSET_MAGIC) header);
          header = put_at TC_HEADER_OFFSET_HEADER_CRC (mputLong x) header
      in put_at HEADER_MASTER_KEYDATA_OFFSET (take MASTER_KEYDATA_SIZE (ki_master_keydata keyInfo)) header)"

text \<open>
  The keys of the header, and then those of the volume, are scheduled the same way; the copy to \<open>k2\<close>
  and the schedule in \<open>ks\<close> do not depend on each other.
\<close>

definition schedule_keys :: "bool \<Rightarrow> bytes \<Rightarrow> CRYPTO_INFO \<Rightarrow> (nat \<times> CRYPTO_INFO) option" where
  "schedule_keys alloc key ci =
     Option.bind (set_k2 key ci) (\<lambda>ci.
       Option.bind (EAInit (ci_ea ci) (drop (primaryKeyOffset (ci_mode ci)) key) (ci_ks ci)) (\<lambda>(retVal, ks).
         let ci = ci\<lparr>ci_ks := ks\<rparr> in
         if retVal \<noteq> ERR_SUCCESS then Some (retVal, ci)
         else map_option (\<lambda>(ok, ci). (if ok then ERR_SUCCESS else ERR_OUTOFMEMORY, ci)) (EAInitMode alloc ci)))"

text \<open>Without master keys the header is of a new volume, which never has a legacy mode.\<close>

definition master_keydata_for :: "create_env \<Rightarrow> header_request \<Rightarrow> bytes option option" where
  "master_keydata_for env rq =
     (case rq_masterKeydata rq of
        Some key \<Rightarrow> Some (Some (put_at 0 (take MASTER_KEYDATA_SIZE key) (ki_master_keydata (ce_keyInfo env))))
      | None \<Rightarrow>
          if legacy_mode (rq_mode rq) then None
          else map_option (\<lambda>n. map_option (\<lambda>r. put_at 0 r (ki_master_keydata (ce_keyInfo env))) (ce_random_key env (n * 2)))
                 (EAGetKeySize (rq_ea rq)))"

text \<open>From the key derivation to the end, with the keys, the password and the salt in \<open>keyInfo\<close>.\<close>

definition write_header ::
  "create_env \<Rightarrow> header_request \<Rightarrow> KEY_INFO \<Rightarrow> CRYPTO_INFO \<Rightarrow> (nat \<times> bytes \<times> CRYPTO_INFO option) option" where
  "write_header env rq keyInfo ci =
     Option.bind (derive_header_key (ce_mem env) (rq_prf rq) keyInfo (ce_dk env)) (\<lambda>dk.
       if bad_sector_size (rq_sectorSize rq) then None
       else
         let plain = plain_header rq keyInfo;
             ci = ci\<lparr>ci_ea := rq_ea rq, ci_mode := rq_mode rq, HeaderVersion := VOLUME_HEADER_VERSION,
                     hiddenVolumeSize := rq_hiddenVolumeSize rq, hiddenVolume := rq_hiddenVolumeSize rq \<noteq> 0,
                     VolumeSize := rq_volumeSize rq, EncryptedAreaStart := rq_encryptedAreaStart rq,
                     EncryptedAreaLength := rq_encryptedAreaLength rq, HeaderFlags := rq_headerFlags rq,
                     SectorSize := rq_sectorSize rq\<rparr> in
         Option.bind (schedule_keys (ce_tables env) dk ci) (\<lambda>(retVal, ci).
           if retVal \<noteq> ERR_SUCCESS then Some (retVal, plain, None)
           else Option.bind (EncryptBuffer (ce_cpu env) (drop HEADER_ENCRYPTED_DATA_OFFSET plain)
                               (word_of_nat HEADER_ENCRYPTED_DATA_SIZE) ci) (\<lambda>enc.
             let header = take HEADER_ENCRYPTED_DATA_OFFSET plain @ enc;
                 key = take MASTER_KEYDATA_SIZE (ki_master_keydata keyInfo) in
             map_option (\<lambda>(retVal, ci).
                 if retVal \<noteq> ERR_SUCCESS then (retVal, header, None) else (0, header, Some (ci\<lparr>ci_master_keydata := key\<rparr>)))
               (schedule_keys (ce_master_tables env) (ki_master_keydata keyInfo) ci))))"

definition CreateVolumeHeaderInMemory ::
  "create_env \<Rightarrow> bool \<Rightarrow> header_request \<Rightarrow> Password \<Rightarrow> bytes \<Rightarrow> (nat \<times> bytes \<times> CRYPTO_INFO option) option" where
  "CreateVolumeHeaderInMemory env bBoot rq password header =
     (let zero = put_at 0 (replicate TC_VOLUME_HEADER_EFFECTIVE_SIZE 0) header in
      case crypto_open (ce_open env) of
        None \<Rightarrow> Some (ERR_OUTOFMEMORY, header, None)
      | Some ci \<Rightarrow>
          Option.bind (master_keydata_for env rq) (\<lambda>keydata.
            case keydata of
              None \<Rightarrow> Some (ERR_CIPHER_INIT_WEAK_KEY, zero, None)
            | Some key \<Rightarrow>
                Option.bind (get_pkcs5_iteration_count (rq_prf rq) bBoot) (\<lambda>n.
                  case ce_random_salt env of
                    None \<Rightarrow> Some (ERR_CIPHER_INIT_WEAK_KEY, zero, None)
                  | Some salt \<Rightarrow>
                      write_header env rq
                        ((ce_keyInfo env)
                          \<lparr>ki_master_keydata := key,
                           ki_userKey := put_at 0 (take (pw_Length password) (pw_Text password)) (ki_userKey (ce_keyInfo env)),
                           ki_keyLength := pw_Length password, ki_noIterations := n, ki_salt := put_at 0 salt (ki_salt (ce_keyInfo env))\<rparr>)
                        ci)))"

end
