(* ===== verification/Volume_Headers.thy ===== *)
theory Volume_Headers
  imports Volumes
begin

text \<open>
  What the search of \<open>ReadVolumeHeader\<close> finds. \<open>keys_of\<close> is a record whose keys come from a key string
  and nothing else; every trial decrypts the header as that record does (\<open>try_ea_outcome\<close>), whatever
  the earlier trials left behind, so the search is the first success in a list of candidates
  (\<open>header_search_outcome\<close>). A created header is decrypted by the record that encrypted it.
\<close>

unbundle bit_operations_syntax

section \<open>Sizes\<close>

lemma key_sizes:
  assumes "valid_ea ea"
  shows "key_total (ciphers_of ea) \<le> 120" "ks_total (ciphers_of ea) \<le> MAX_EXPANDED_KEY"
    "EAGetKeySize ea = Some (key_total (ciphers_of ea))"
    "EAIsModeSupported ea XTS = Some True \<Longrightarrow> key_total (ciphers_of ea) \<le> 96"
proof -
  show "key_total (ciphers_of ea) \<le> 120" "ks_total (ciphers_of ea) \<le> MAX_EXPANDED_KEY"
    using assms by (auto elim!: valid_eaE simp: tc_cfg)
  show "EAGetKeySize ea = Some (key_total (ciphers_of ea))"
    using assms by (simp add: EAGetKeySize_def ea_ciphers_forward_table)
  show "EAIsModeSupported ea XTS = Some True \<Longrightarrow> key_total (ciphers_of ea) \<le> 96"
    using assms by (auto elim!: valid_eaE simp: EAIsModeSupported_def ea_modes_def tc_cfg)
qed

lemma mode_supported_table:
  "valid_ea ea \<Longrightarrow> EAIsModeSupported ea mode = Some (mode \<in> set (the (ea_modes ea)))"
  by (auto elim!: valid_eaE simp: EAIsModeSupported_def ea_modes_def tc_cfg)

lemma max_out_size: "GetMaxPkcs5OutSize = Some 192"
  by (simp add: GetMaxPkcs5OutSize_def EAGetLargestKeyForMode_def EAIsModeSupported_def ea_modes_def EAGetKeySize_def
      ea_ciphers_forward_table valid_ea_def tc_cfg)

text \<open>The arrays of a record have their declared sizes; so have those of the memory of the hash functions.\<close>

definition sized :: "CRYPTO_INFO \<Rightarrow> bool" where
  "sized ci \<longleftrightarrow> length (ci_ks ci) = MAX_EXPANDED_KEY \<and> length (ci_ks2 ci) = MAX_EXPANDED_KEY \<and>
     length (ci_k2 ci) = MASTER_KEYDATA_SIZE \<and> gf_wf (gf_ctx ci)"

definition mem_sized :: "kdf_mem \<Rightarrow> bool" where
  "mem_sized m \<longleftrightarrow> length (sha_wbuf (km_sha512 m)) = 16 \<and> length (sha_wbuf (km_sha1 m)) = 16 \<and>
     length (rmd_buffer (km_rmd160 m)) = 64 \<and> length (wp_buffer (km_whirlpool m)) = 64"

lemma sized_open: "crypto_open a = Some ci \<Longrightarrow> sized ci"
  by (auto simp: crypto_open_def sized_def gf_wf_def rows_ok_def split: if_splits)

section \<open>The derived key\<close>

text \<open>The 192 bytes of the header key, from RFC 2898 over the HMAC of the chosen hash function.\<close>

definition header_key :: "nat \<Rightarrow> bytes \<Rightarrow> bytes \<Rightarrow> nat \<Rightarrow> bytes" where
  "header_key prf password salt n =
     (if prf = RIPEMD160 then PBKDF2 (HMAC rmd_hash 64 password) 20 salt n 192
      else if prf = SHA512 then PBKDF2 (HMAC (sha_standard_digest 128 sha512_standard i512 64) 128 password) 64 salt n 192
      else if prf = SHA1 then PBKDF2 (HMAC (sha_standard_digest 64 sha1_standard sha1_iv 20) 64 password) 20 salt n 192
      else PBKDF2 (HMAC whirlpool_digest 64 password) 64 salt n 192)"

lemma length_PBKDF2:
  assumes "\<And>m. length (prf m) = D" "0 < D"
  shows "length (PBKDF2 prf D S c n) = n"
proof -
  have "length (concat (map (pbkdf2_F prf S c) is)) = length is * D" for "is"
    by (induction "is") (simp_all add: length_pbkdf2_F [OF assms(1)])
  moreover have "n \<le> ((n + D - 1) div D) * D"
  proof -
    have "(n + D - 1) div D * D + (n + D - 1) mod D = n + D - 1" by simp
    moreover have "(n + D - 1) mod D < D" using assms(2) by simp
    ultimately show ?thesis by linarith
  qed
  ultimately show ?thesis by (simp add: PBKDF2_def del: upt_Suc)
qed

lemma length_header_key: "length (header_key prf p s n) = 192"
  by (simp add: header_key_def length_PBKDF2 length_HMAC length_rmd_hash length_sha512_digest length_sha1_digest length_whirlpool_digest)

lemma derive_header_key_eq:
  assumes "mem_sized m" "prf \<in> {1, 2, 3, 4}" "ki_keyLength ki \<le> length (ki_userKey ki)" "ki_keyLength ki \<le> MAX_PASSWORD"
    "length (ki_salt ki) = PKCS5_SALT_SIZE"
  shows "derive_header_key m prf ki dk =
    Some (put_at 0 (header_key prf (take (ki_keyLength ki) (ki_userKey ki)) (ki_salt ki) (ki_noIterations ki)) dk)"
  using assms
  by (auto simp: derive_header_key_def max_out_size header_key_def mem_sized_def tc_cfg tc_vol
      derive_key_ripemd160_rfc derive_key_sha512_rfc derive_key_sha1_rfc derive_key_whirlpool_rfc)

section \<open>A record with the keys of a key string\<close>

definition zero_info :: CRYPTO_INFO where
  "zero_info = the (crypto_open True)"

definition keys_of :: "nat \<Rightarrow> nat \<Rightarrow> bytes \<Rightarrow> CRYPTO_INFO" where
  "keys_of ea mode key =
     (let ci = the (set_k2 key (zero_info\<lparr>ci_ea := ea, ci_mode := mode\<rparr>));
          ks = snd (the (EAInit ea (drop (primaryKeyOffset mode) key) (ci_ks ci)))
      in snd (the (EAInitMode True (ci\<lparr>ci_ks := ks\<rparr>))))"

text \<open>The part of a key string that is read: all of \<open>key_span\<close>.\<close>

definition key_span :: "nat \<Rightarrow> nat \<Rightarrow> nat" where
  "key_span ea mode = (if legacy_mode mode then 32 + key_total (ciphers_of ea) else 2 * key_total (ciphers_of ea))"

definition ea_mode :: "nat \<Rightarrow> nat \<Rightarrow> bool" where
  "ea_mode ea mode \<longleftrightarrow> valid_ea ea \<and> EAIsModeSupported ea mode = Some True"

lemma ea_mode_cases:
  assumes "ea_mode ea mode"
  shows "valid_ea ea" "EAIsModeSupported ea mode = Some True" "mode = XTS \<or> legacy_mode mode"
    "legacy_mode mode \<longleftrightarrow> mode \<noteq> XTS" "key_span ea mode \<le> 192" "1 \<le> mode" "mode \<le> 5"
  using assms supported_modes(1) [of ea mode] key_sizes(1,4) [of ea]
  by (auto simp: ea_mode_def legacy_mode_def key_span_def)

text \<open>What \<open>set_k2\<close> leaves in \<open>k2\<close>.\<close>

definition k2_of :: "nat \<Rightarrow> nat \<Rightarrow> bytes \<Rightarrow> bytes" where
  "k2_of ea mode key = (if legacy_mode mode then take 32 key else get_at (key_total (ciphers_of ea)) (key_total (ciphers_of ea)) key)"

lemma set_k2_eq:
  assumes "ea_mode (ci_ea ci) (ci_mode ci)"
  shows "set_k2 key ci = Some (ci\<lparr>ci_k2 := put_at 0 (k2_of (ci_ea ci) (ci_mode ci) key) (ci_k2 ci)\<rparr>)"
  using ea_mode_cases [OF assms] by (simp add: set_k2_def k2_of_def key_sizes(3) tc_cfg)

lemma length_k2_of: "ea_mode ea mode \<Longrightarrow> key_span ea mode \<le> length key \<Longrightarrow> length (k2_of ea mode key) = k2_size ea mode"
  using ea_mode_cases [of ea mode] by (auto simp: k2_of_def k2_size_def key_span_def)

lemma k2_of_cong:
  assumes "ea_mode ea mode" "take (key_span ea mode) key = take (key_span ea mode) key'"
  shows "k2_of ea mode key = k2_of ea mode key'"
  using get_at_take_eq [OF assms(2), of "key_total (ciphers_of ea)" "key_total (ciphers_of ea)"]
    take_drop_eq [OF assms(2), of 0 32]
  by (auto simp: k2_of_def key_span_def)

lemma primary_cong:
  assumes "ea_mode ea mode" "take (key_span ea mode) key = take (key_span ea mode) key'"
  shows "take (key_total (ciphers_of ea)) (drop (primaryKeyOffset mode) key) = take (key_total (ciphers_of ea)) (drop (primaryKeyOffset mode) key')"
  using take_drop_eq [OF assms(2), of "primaryKeyOffset mode" "key_total (ciphers_of ea)"]
  by (simp add: key_span_def primaryKeyOffset_def tc_cfg)

text \<open>Key schedules and mode data from a key string, in any sized record.\<close>

lemma EAInit_ok:
  assumes "valid_ea ea" "length ks = MAX_EXPANDED_KEY"
  obtains r ks' where "EAInit ea key ks = Some (r, ks')" "r \<noteq> ERR_CIPHER_INIT_FAILURE" "length ks' = MAX_EXPANDED_KEY"
    "all_scheduled (ciphers_of ea) ks'"
  using EAInit_all_scheduled [OF assms(1), of ks key] key_sizes(2) [OF assms(1)] assms(2) by auto

lemma EAInitMode_frame:
  assumes "EAInitMode al ci = Some (ok, ci')" "sized ci" "valid_ea (ci_ea ci)"
  shows "sized ci'" "ci' = ci\<lparr>ci_ks2 := ci_ks2 ci', gf_ctx := gf_ctx ci'\<rparr>" "ci_mode ci \<noteq> LRW \<Longrightarrow> gf_ctx ci' = gf_ctx ci"
proof -
  have g: "gf_wf (snd (Gf128Tab64Init al a (gf_ctx ci)))" "gf_wf (snd (Gf64TabInit al a (gf_ctx ci)))" for a
    using gf_wf_init assms(2) by (simp_all add: sized_def)
  have k: "length ks2 = MAX_EXPANDED_KEY" if "EAInit (ci_ea ci) x (ci_ks2 ci) = Some (r, ks2)" for r x ks2
    using EAInit_ok [OF assms(3), of "ci_ks2 ci" x] assms(2) that by (auto simp: sized_def)
  show "sized ci'"
    using assms(1,2) g k by (auto simp: EAInitMode_def sized_def split_beta Let_def split: if_splits)
  show "ci' = ci\<lparr>ci_ks2 := ci_ks2 ci', gf_ctx := gf_ctx ci'\<rparr>" "ci_mode ci \<noteq> LRW \<Longrightarrow> gf_ctx ci' = gf_ctx ci"
    using assms(1) by (auto simp: EAInitMode_def split_beta Let_def split: if_splits)
qed

text \<open>The record \<open>keys_of\<close>, and any other record that got its keys from the same string.\<close>

definition keyed :: "nat \<Rightarrow> nat \<Rightarrow> bytes \<Rightarrow> CRYPTO_INFO \<Rightarrow> bool" where
  "keyed ea mode key ci \<longleftrightarrow> ci_ea ci = ea \<and> ci_mode ci = mode \<and> sized ci \<and>
     take (k2_size ea mode) (ci_k2 ci) = k2_of ea mode key \<and>
     (\<exists>r ks. length ks = MAX_EXPANDED_KEY \<and> EAInit ea (drop (primaryKeyOffset mode) key) ks = Some (r, ci_ks ci))"

lemma keyed_pair:
  assumes em: "ea_mode ea mode" and key: "take (key_span ea mode) key = take (key_span ea mode) key'"
    and a: "keyed ea mode key a" and b: "keyed ea mode key' b"
  shows "same_ks (ciphers_of ea) (ci_ks a) (ci_ks b)"
    "EAInitMode al a = Some (True, a') \<Longrightarrow> EAInitMode al' b = Some (r, b') \<Longrightarrow> (r \<longleftrightarrow> mode = LRW \<longrightarrow> al') \<and> (r \<longrightarrow> same_volume a' b')"
proof -
  note ea = ea_mode_cases(1) [OF em]
  obtain r1 k1 r2 k2 where k: "length k1 = MAX_EXPANDED_KEY" "EAInit ea (drop (primaryKeyOffset mode) key) k1 = Some (r1, ci_ks a)"
    "length k2 = MAX_EXPANDED_KEY" "EAInit ea (drop (primaryKeyOffset mode) key') k2 = Some (r2, ci_ks b)"
    using a b by (auto simp: keyed_def)
  show ks: "same_ks (ciphers_of ea) (ci_ks a) (ci_ks b)"
    using EAInit_same_ks(2) [OF ea primary_cong [OF em key] _ _ k(2,4)] k(1,3) key_sizes(2) [OF ea] by simp
  show "EAInitMode al a = Some (True, a') \<Longrightarrow> EAInitMode al' b = Some (r, b') \<Longrightarrow> (r \<longleftrightarrow> mode = LRW \<longrightarrow> al') \<and> (r \<longrightarrow> same_volume a' b')"
    using EAInitMode_same [of a b al a' al' r b'] a b ea ks k2_of_cong [OF em key] key_sizes(2) [OF ea]
    by (simp add: keyed_def sized_def)
qed

lemma keyed_intro:
  assumes em: "ea_mode ea mode" and ci: "sized ci" "ci_ea ci = ea" "ci_mode ci = mode"
    and k2: "take (k2_size ea mode) (ci_k2 ci) = k2_of ea mode key"
    and init: "EAInit ea (drop (primaryKeyOffset mode) key) (ci_ks ci) = Some (r, ks)"
  shows "keyed ea mode key (ci\<lparr>ci_ks := ks\<rparr>)"
  using EAInit_ok [OF ea_mode_cases(1) [OF em], of "ci_ks ci" "drop (primaryKeyOffset mode) key"] ci k2 init
  by (auto simp: keyed_def sized_def)

lemma keyed_ready:
  assumes em: "ea_mode ea mode" and a: "keyed ea mode key a" and u: "hw_ok u"
  obtains a' where "EAInitMode True a = Some (True, a')" "volume_ready u a'"
proof -
  obtain r ks where k: "length ks = MAX_EXPANDED_KEY" "EAInit ea (drop (primaryKeyOffset mode) key) ks = Some (r, ci_ks a)"
    using a by (auto simp: keyed_def)
  have e: "a\<lparr>ci_ks := ks, ci_ks := ci_ks a\<rparr> = a" by simp
  show ?thesis
    using EAInitMode_ready [of "a\<lparr>ci_ks := ks\<rparr>" "drop (primaryKeyOffset mode) key" r "ci_ks a" u] a k u em key_sizes(2) [of ea] that
    by (auto simp: keyed_def sized_def ea_mode_def e tc_cfg)
qed

text \<open>The record \<open>keys_of\<close> has its keys from the key string.\<close>

lemma sized_zero: "sized (zero_info\<lparr>ci_ea := ea, ci_mode := mode\<rparr>)"
  by (simp add: zero_info_def crypto_open_def sized_def gf_wf_def rows_ok_def)

lemma take_put_at: "length src = n \<Longrightarrow> n \<le> length m \<Longrightarrow> take n (put_at 0 src m) = src"
  by (simp add: put_at_def)

lemma sized_k2: "sized ci \<Longrightarrow> length x \<le> MASTER_KEYDATA_SIZE \<Longrightarrow> sized (ci\<lparr>ci_k2 := put_at 0 x (ci_k2 ci)\<rparr>)"
  by (simp add: sized_def)

lemma k2_size_bound: "ea_mode ea mode \<Longrightarrow> k2_size ea mode \<le> MASTER_KEYDATA_SIZE"
  using key_sizes(1) [of ea] by (auto simp: k2_size_def ea_mode_def tc_cfg)

lemma set_k2_keyed:
  assumes em: "ea_mode ea mode" and ci: "sized ci" "ci_ea ci = ea" "ci_mode ci = mode" and key: "key_span ea mode \<le> length key"
  obtains ci1 where "set_k2 key ci = Some ci1" "sized ci1" "ci1 = ci\<lparr>ci_k2 := ci_k2 ci1\<rparr>"
    "take (k2_size ea mode) (ci_k2 ci1) = k2_of ea mode key"
proof
  let ?ci1 = "ci\<lparr>ci_k2 := put_at 0 (k2_of ea mode key) (ci_k2 ci)\<rparr>"
  note len = length_k2_of [OF em key] and bound = k2_size_bound [OF em]
  show "set_k2 key ci = Some ?ci1" using set_k2_eq [of ci key] em ci by simp
  show "sized ?ci1" using ci(1) len bound by (simp add: sized_k2)
  show "?ci1 = ci\<lparr>ci_k2 := ci_k2 ?ci1\<rparr>" by simp
  show "take (k2_size ea mode) (ci_k2 ?ci1) = k2_of ea mode key"
    using ci(1) len bound by (simp add: take_put_at sized_def)
qed

lemma keys_of:
  assumes em: "ea_mode ea mode" and key: "key_span ea mode \<le> length key" and u: "hw_ok u"
  obtains a where "keyed ea mode key a" "EAInitMode True a = Some (True, keys_of ea mode key)" "volume_ready u (keys_of ea mode key)"
proof -
  obtain ci where ci: "set_k2 key (zero_info\<lparr>ci_ea := ea, ci_mode := mode\<rparr>) = Some ci" "sized ci"
    "ci = zero_info\<lparr>ci_ea := ea, ci_mode := mode, ci_k2 := ci_k2 ci\<rparr>" "take (k2_size ea mode) (ci_k2 ci) = k2_of ea mode key"
    using set_k2_keyed [OF em sized_zero _ _ key] by auto
  have c: "ci_ea ci = ea" "ci_mode ci = mode" using arg_cong [OF ci(3), of ci_ea] arg_cong [OF ci(3), of ci_mode] by simp_all
  obtain r ks where ks: "EAInit ea (drop (primaryKeyOffset mode) key) (ci_ks ci) = Some (r, ks)"
    using ci(2) ea_mode_cases(1) [OF em] by (metis EAInit_ok sized_def)
  have k: "keyed ea mode key (ci\<lparr>ci_ks := ks\<rparr>)" by (rule keyed_intro [OF em ci(2) c ci(4) ks])
  obtain a' where a': "EAInitMode True (ci\<lparr>ci_ks := ks\<rparr>) = Some (True, a')" "volume_ready u a'"
    by (rule keyed_ready [OF em k u])
  have "keys_of ea mode key = a'" using ci(1) ks a'(1) by (simp add: keys_of_def Let_def)
  then show ?thesis using that k a' by simp
qed

text \<open>So every record keyed from the same string ends up with the keys of \<open>keys_of\<close>.\<close>

lemma keyed_keys_of:
  assumes em: "ea_mode ea mode" and len: "key_span ea mode \<le> length key" and u: "hw_ok u"
    and key: "take (key_span ea mode) key = take (key_span ea mode) key'" and b: "keyed ea mode key' b"
  obtains ok b' where "EAInitMode al b = Some (ok, b')" "ok \<longleftrightarrow> mode = LRW \<longrightarrow> al" "ok \<Longrightarrow> same_volume (keys_of ea mode key) b'"
    "sized b'" "b' = b\<lparr>ci_ks2 := ci_ks2 b', gf_ctx := gf_ctx b'\<rparr>" "ci_mode b \<noteq> LRW \<Longrightarrow> gf_ctx b' = gf_ctx b"
proof -
  obtain a where a: "keyed ea mode key a" "EAInitMode True a = Some (True, keys_of ea mode key)" by (rule keys_of [OF em len u])
  have bm: "ci_ea b = ea" "ci_mode b = mode" "sized b" using b by (simp_all add: keyed_def)
  obtain b0 where "EAInitMode True b = Some (True, b0)" by (rule keyed_ready [OF em b u])
  then obtain ok b' where i: "EAInitMode al b = Some (ok, b')"
    by (auto simp: EAInitMode_def Let_def split_beta split: if_splits)
  from keyed_pair(2) [OF em key a(1) b a(2) i]
  show ?thesis
    using that [OF i] EAInitMode_frame [OF i bm(3)] bm ea_mode_cases(1) [OF em] by simp
qed

section \<open>What a decrypted header says\<close>

text \<open>It has the magic number and, unless in recovery mode, its checksums are right (or it is too new to be checked).\<close>

definition header_crc_ok :: "bytes \<Rightarrow> bool" where
  "header_crc_ok h \<longleftrightarrow> GetHeaderField32 h 252 = GetCrc32 (get_at 64 188 h)"

definition key_crc_ok :: "bytes \<Rightarrow> bool" where
  "key_crc_ok h \<longleftrightarrow> GetHeaderField32 h 72 = GetCrc32 (get_at 256 256 h)"

definition looks_right :: "bool \<Rightarrow> bytes \<Rightarrow> bool" where
  "looks_right recovery h \<longleftrightarrow> GetHeaderField32 h 64 = 0x54525545 \<and>
     (GetHeaderField16 h 68 \<le> 5 \<longrightarrow> \<not> recovery \<longrightarrow> (GetHeaderField16 h 68 \<ge> 4 \<longrightarrow> header_crc_ok h) \<and> key_crc_ok h)"

definition header_sector_size :: "bytes \<Rightarrow> u32" where
  "header_sector_size h = (if GetHeaderField16 h 68 \<ge> 5 then GetHeaderField32 h 128 else 512)"

definition refusal :: "bytes \<Rightarrow> nat option" where
  "refusal h =
     (if GetHeaderField16 h 68 > 5 \<or> GetHeaderField16 h 70 > 0x071a then Some ERR_NEW_VERSION_REQUIRED
      else if bad_sector_size (header_sector_size h) then Some ERR_PARAMETER_INCORRECT
      else None)"

text \<open>The record whose fields are those of the header.\<close>

definition fields_of :: "bytes \<Rightarrow> CRYPTO_INFO \<Rightarrow> CRYPTO_INFO" where
  "fields_of h ci = read_fields h (ci\<lparr>RequiredProgramVersion := GetHeaderField16 h 70, LegacyVolume := GetHeaderField16 h 70 < 0x600\<rparr>)"

lemma check_header_cases:
  "\<not> looks_right rec (f_header f) \<Longrightarrow>
     \<exists>v l. check_header rec f (ci, a, b) = NotThis (ci\<lparr>RequiredProgramVersion := v, LegacyVolume := l\<rparr>, a, b)"
  "looks_right rec (f_header f) \<Longrightarrow> refusal (f_header f) = Some st \<Longrightarrow> \<exists>ci'. check_header rec f (ci, a, b) = Failed st ci'"
  "looks_right rec (f_header f) \<Longrightarrow> refusal (f_header f) = None \<Longrightarrow>
     check_header rec f (ci, a, b) = Decrypted f (fields_of (f_header f) ci)"
proof -
  have e: "ci = ci\<lparr>RequiredProgramVersion := RequiredProgramVersion ci, LegacyVolume := LegacyVolume ci\<rparr>" by simp
  show "\<not> looks_right rec (f_header f) \<Longrightarrow>
     \<exists>v l. check_header rec f (ci, a, b) = NotThis (ci\<lparr>RequiredProgramVersion := v, LegacyVolume := l\<rparr>, a, b)"
    by (auto simp: looks_right_def check_header_def header_crc_ok_def key_crc_ok_def tc_vol tc_cfg Let_def not_le split: if_splits intro: e)
  show "looks_right rec (f_header f) \<Longrightarrow> refusal (f_header f) = Some st \<Longrightarrow> \<exists>ci'. check_header rec f (ci, a, b) = Failed st ci'"
    by (auto simp: looks_right_def check_header_def header_crc_ok_def key_crc_ok_def refusal_def header_sector_size_def
        read_fields_def bad_sector_size_def tc_vol tc_cfg Let_def not_le split: if_splits)
  show "looks_right rec (f_header f) \<Longrightarrow> refusal (f_header f) = None \<Longrightarrow>
     check_header rec f (ci, a, b) = Decrypted f (fields_of (f_header f) ci)"
    by (auto simp: looks_right_def check_header_def header_crc_ok_def key_crc_ok_def refusal_def header_sector_size_def
        fields_of_def read_fields_def bad_sector_size_def tc_vol tc_cfg Let_def not_le split: if_splits)
qed

section \<open>The search as a list of candidates\<close>

text \<open>The result of a loop of trials, when \<open>P\<close> says which candidate succeeds, and \<open>F\<close> with what.\<close>

definition outcome :: "('c \<Rightarrow> bool) \<Rightarrow> ('c \<Rightarrow> attempt \<Rightarrow> bool) \<Rightarrow> (search_state \<Rightarrow> bool) \<Rightarrow> 'c list \<Rightarrow> attempt \<Rightarrow> bool" where
  "outcome P F I cs r \<longleftrightarrow>
     (case find P cs of
        None \<Rightarrow> (case r of NotThis st \<Rightarrow> I st | _ \<Rightarrow> False)
      | Some c \<Rightarrow> (case r of NotThis _ \<Rightarrow> False | _ \<Rightarrow> F c r))"

lemma find_append: "find P (xs @ ys) = (case find P xs of None \<Rightarrow> find P ys | Some x \<Rightarrow> Some x)"
  by (induction xs) simp_all

lemma first_hit_outcome:
  assumes step: "\<And>x st. x \<in> set xs \<Longrightarrow> I st \<Longrightarrow> \<exists>r. f x st = Some r \<and> outcome P F I (g x) r"
  shows "I st \<Longrightarrow> \<exists>r. first_hit f xs st = Some r \<and> outcome P F I (concat (map g xs)) r"
  using assms
proof (induction xs arbitrary: st)
  case (Cons x xs)
  obtain r where r: "f x st = Some r" "outcome P F I (g x) r" using Cons.prems(2) [of x st] Cons.prems(1) by auto
  show ?case
  proof (cases r)
    case (NotThis st')
    then have "find P (g x) = None" "I st'" using r(2) by (auto simp: outcome_def split: option.splits)
    then show ?thesis using Cons.IH [of st'] Cons.prems NotThis r(1) by (simp add: outcome_def find_append)
  qed (use r in \<open>auto simp: outcome_def find_append split: option.splits\<close>)
qed (simp add: outcome_def)

lemma outcome_after_loop:
  assumes "outcome P F I cs r" "\<And>st. I st \<Longrightarrow> J (final (fst st), snd st)"
  shows "outcome P F J cs (after_loop final r)"
  using assms by (cases r) (auto simp: outcome_def split: option.splits)

section \<open>One trial\<close>

text \<open>
  What the trials with one header key keep: the secondary key of the legacy modes, and tables that
  belong to the header key as soon as a flag says that they are there.
\<close>

definition trial_ok :: "bytes \<Rightarrow> nat \<Rightarrow> u64 \<Rightarrow> search_state \<Rightarrow> bool" where
  "trial_ok key mode off = (\<lambda>(ci, lrw64, lrw128). sized ci \<and> hiddenVolumeOffset ci = off \<and> ci_mode ci = mode \<and>
     (legacy_mode mode \<longrightarrow> take 32 (ci_k2 ci) = take 32 key) \<and>
     (lrw64 \<longrightarrow> (\<forall>x. Gf64MulTab x (gf_ctx ci) = Gf64MulTab x (snd (Gf64TabInit True key (gf_ctx zero_info))))) \<and>
     (lrw128 \<longrightarrow> (\<forall>x. Gf128MulBy64Tab x (gf_ctx ci) = Gf128MulBy64Tab x (snd (Gf128Tab64Init True key (gf_ctx zero_info))))))"

lemma Gf_frames:
  "gf_t128 (snd (Gf64TabInit al k ctx)) = gf_t128 ctx" "gf_t64 (snd (Gf128Tab64Init al k ctx)) = gf_t64 ctx"
  by (simp_all add: Gf64TabInit_def Gf128Tab64Init_def Let_def)

lemma EAInitMode_LRW:
  assumes "EAInitMode True ci = Some (ok, ci')" "ci_mode ci = LRW"
  shows "CipherGetBlockSize (EAGetFirstCipher (ci_ea ci)) = 8 \<Longrightarrow> gf_ctx ci' = snd (Gf64TabInit True (ci_k2 ci) (gf_ctx ci))"
    "CipherGetBlockSize (EAGetFirstCipher (ci_ea ci)) = 16 \<Longrightarrow> gf_ctx ci' = snd (Gf128Tab64Init True (ci_k2 ci) (gf_ctx ci))"
  using assms by (auto simp: EAInitMode_def Let_def split_beta)

lemma same_volume_update:
  assumes "same_volume k b'" "b' = b\<lparr>ci_ks2 := ci_ks2 b', gf_ctx := gf_ctx b'\<rparr>" "same_mode b' b"
  shows "same_volume k b"
proof -
  have "ci_ea b' = ci_ea b" "ci_mode b' = ci_mode b" "ci_ks b' = ci_ks b"
    using arg_cong [OF assms(2), of ci_ea] arg_cong [OF assms(2), of ci_mode] arg_cong [OF assms(2), of ci_ks] by simp_all
  moreover have "same_mode k b" if "ci_ea k = ci_ea b'" "ci_mode k = ci_mode b'" "same_mode k b'"
    using assms(3) that unfolding same_mode_def by (auto simp: same_ks_def split: if_splits)
  ultimately show ?thesis
    using assms(1) unfolding same_volume_def by metis
qed

lemma init_header_mode_ok:
  assumes em: "ea_mode (ci_ea ci) mode" and key: "length key = 192" "take 192 dk = key" "length dk = MASTER_KEYDATA_SIZE"
    and u: "hw_ok u" and tables: "re_tables env prf (ci_ea ci)" and ok: "trial_ok key mode off (ci, l64, l128)"
    and init: "length ks = MAX_EXPANDED_KEY" "EAInit (ci_ea ci) (drop (primaryKeyOffset mode) dk) ks = Some (r, ci_ks ci)"
  shows "\<exists>st. init_header_mode env prf dk (ci, l64, l128) = Some (True, st) \<and>
    same_volume (keys_of (ci_ea ci) mode key) (fst st) \<and> trial_ok key mode off st"
proof -
  let ?ea = "ci_ea ci" let ?bs = "CipherGetBlockSize (EAGetFirstCipher ?ea)"
  note c = ea_mode_cases [OF em]
  have span: "key_span ?ea mode \<le> length key" "key_span ?ea mode \<le> length dk"
    using c(5) key by (simp_all add: tc_cfg)
  have eq: "take (key_span ?ea mode) key = take (key_span ?ea mode) dk"
    using c(5) key(2) by (metis take_take min.absorb1)
  have s: "sized ci" "ci_mode ci = mode" using ok by (simp_all add: trial_ok_def)
  show ?thesis
  proof (cases "mode = XTS")
    case True
    obtain ci1 where ci1: "set_k2 dk ci = Some ci1" "sized ci1" "ci1 = ci\<lparr>ci_k2 := ci_k2 ci1\<rparr>"
      "take (k2_size ?ea mode) (ci_k2 ci1) = k2_of ?ea mode dk"
      by (rule set_k2_keyed [OF em s(1) _ s(2) span(2)]) simp_all
    have f: "ci_ea ci1 = ?ea" "ci_mode ci1 = mode" "ci_ks ci1 = ci_ks ci" "gf_ctx ci1 = gf_ctx ci" "hiddenVolumeOffset ci1 = hiddenVolumeOffset ci"
      using s(2) by (subst ci1(3), simp)+
    have kd: "keyed ?ea mode dk ci1" using ci1 f init by (auto simp: keyed_def)
    obtain b' where b: "EAInitMode True ci1 = Some (True, b')" "same_volume (keys_of ?ea mode key) b'" "sized b'"
      "b' = ci1\<lparr>ci_ks2 := ci_ks2 b', gf_ctx := gf_ctx b'\<rparr>" "gf_ctx b' = gf_ctx ci1"
      by (rule keyed_keys_of [OF em span(1) u eq kd, of True]) (use True f in auto)
    have "ci_mode b' = mode" "hiddenVolumeOffset b' = hiddenVolumeOffset ci" using f by (subst b(4), simp)+
    then have "trial_ok key mode off (b', l64, l128)" using ok b(3,5) f(4) True by (simp add: trial_ok_def legacy_mode_def)
    then show ?thesis using True s(2) ci1(1) b(1,2) tables by (simp add: init_header_mode_def Let_def)
  next
    case False
    then have leg: "legacy_mode mode" using c(3) by simp
    then have k2: "take 32 (ci_k2 ci) = take 32 key" using ok by (simp add: trial_ok_def)
    then have "take 32 (ci_k2 ci) = take 32 dk" using take_drop_eq [of 192 dk key 0 32] key(1,2) by simp
    then have kd: "keyed ?ea mode dk ci"
      using init s leg False by (auto simp: keyed_def k2_size_def k2_of_def)
    obtain b' where b: "EAInitMode True ci = Some (True, b')" "same_volume (keys_of ?ea mode key) b'" "sized b'"
      "b' = ci\<lparr>ci_ks2 := ci_ks2 b', gf_ctx := gf_ctx b'\<rparr>" "ci_mode ci \<noteq> LRW \<Longrightarrow> gf_ctx b' = gf_ctx ci"
      by (rule keyed_keys_of [OF em span(1) u eq kd, of True]) auto
    have f: "ci_ea b' = ?ea" "ci_mode b' = mode" "ci_k2 b' = ci_k2 ci" "hiddenVolumeOffset b' = hiddenVolumeOffset ci"
      using s(2) by (subst b(4), simp)+
    show ?thesis
    proof (cases "mode = LRW \<and> (?bs = 8 \<and> \<not> l64 \<or> ?bs = 16 \<and> \<not> l128)")
      case True
      have "trial_ok key mode off (b', l64 \<or> ?bs = 8, l128 \<or> ?bs = 16)"
        using ok b(3) f k2 True EAInitMode_LRW [OF b(1)] s(2) Gf_init_same [OF k2]
        by (auto simp: trial_ok_def Gf64MulTab_def Gf128MulBy64Tab_def Gf_frames)
      then show ?thesis using True False s(2) b(1,2) tables by (simp add: init_header_mode_def Let_def)
    next
      case None: False
      have "same_mode b' ci"
      proof (cases "mode = LRW")
        case True
        then show ?thesis
          using None ok EAInitMode_LRW [OF b(1)] s(2) Gf_init_same [OF k2] first_block_size [OF c(1)] f False
          by (auto simp: same_mode_def trial_ok_def)
      qed (use False f in \<open>simp add: same_mode_def\<close>)
      from same_volume_update [OF b(2,4) this] show ?thesis
        using None False s(2) ok by (auto simp: init_header_mode_def Let_def)
    qed
  qed
qed

text \<open>The header as the algorithm, the mode and the header key decrypt it.\<close>

definition decrypted_header :: "cpu \<Rightarrow> nat \<Rightarrow> nat \<Rightarrow> bytes \<Rightarrow> bytes \<Rightarrow> bytes" where
  "decrypted_header u ea mode key enc = take 64 enc @ the (DecryptBuffer u (get_at 64 448 enc) 448 (keys_of ea mode key))"

lemma decrypt_header:
  assumes em: "ea_mode ea mode" and key: "length key = 192" and u: "hw_ok u" and same: "same_volume (keys_of ea mode key) ci"
    and enc: "512 \<le> length enc"
  shows "DecryptBuffer u (get_at 64 448 enc) 448 ci = Some (drop 64 (decrypted_header u ea mode key enc))"
    "length (decrypted_header u ea mode key enc) = 512" "take 64 (decrypted_header u ea mode key enc) = take 64 enc"
proof -
  have span: "key_span ea mode \<le> length key" using ea_mode_cases(5) [OF em] key by simp
  obtain a where "volume_ready u (keys_of ea mode key)" by (rule keys_of [OF em span u])
  from crypt_pairE2 [OF header_pair [OF this, of 448], of "get_at 64 448 enc"] enc
  obtain p where p: "DecryptBuffer u (get_at 64 448 enc) 448 (keys_of ea mode key) = Some p" "length p = 448" by auto
  then show "DecryptBuffer u (get_at 64 448 enc) 448 ci = Some (drop 64 (decrypted_header u ea mode key enc))"
    using EncryptBuffer_same(2) [OF u same] enc by (simp add: decrypted_header_def)
  show "length (decrypted_header u ea mode key enc) = 512" "take 64 (decrypted_header u ea mode key enc) = take 64 enc"
    using p enc by (simp_all add: decrypted_header_def)
qed

text \<open>What one candidate gives when its header looks right.\<close>

definition candidate_result :: "(nat \<Rightarrow> nat) \<Rightarrow> u64 \<Rightarrow> (nat \<times> nat \<times> nat \<Rightarrow> bytes) \<Rightarrow> (nat \<Rightarrow> bytes) \<Rightarrow> nat \<times> nat \<times> nat \<Rightarrow> attempt \<Rightarrow> bool" where
  "candidate_result its off hdr K = (\<lambda>(prf, mode, ea) r.
     let h = hdr (prf, mode, ea) in
     case refusal h of
       Some st \<Rightarrow> (case r of Failed st' ci \<Rightarrow> st' = st | _ \<Rightarrow> False)
     | None \<Rightarrow> (case r of
         Decrypted f ci \<Rightarrow> f_prf f = prf \<and> f_iterations f = its prf \<and> f_header f = h \<and> ci = fields_of h ci \<and> sized ci \<and>
           hiddenVolumeOffset ci = off \<and> same_volume (keys_of ea mode (K prf)) ci
       | _ \<Rightarrow> False))"

definition supported :: "nat \<Rightarrow> nat \<Rightarrow> nat \<Rightarrow> (nat \<times> nat \<times> nat) list" where
  "supported prf mode ea = (if EAIsModeSupported ea mode = Some True then [(prf, mode, ea)] else [])"

lemma fields_of_frame:
  "fields_of h (fields_of h ci) = fields_of h ci" "sized (fields_of h ci) = sized ci"
  "hiddenVolumeOffset (fields_of h ci) = hiddenVolumeOffset ci" "same_volume k (fields_of h ci) = same_volume k ci"
  by (simp_all add: fields_of_def read_fields_def Let_def sized_def same_volume_def same_mode_def)

lemma trial_ok_frame:
  "trial_ok key mode off (ci\<lparr>RequiredProgramVersion := v, LegacyVolume := l\<rparr>, s) = trial_ok key mode off (ci, s)"
  "trial_ok key mode off (ci\<lparr>ci_ea := ea\<rparr>, s) = trial_ok key mode off (ci, s)"
  by (simp_all add: trial_ok_def sized_def split_beta)

lemma try_ea_outcome:
  assumes ea: "valid_ea ea" and key: "length (K prf) = 192" "take 192 dk = K prf" "length dk = MASTER_KEYDATA_SIZE" and u: "hw_ok (re_cpu env)"
    and tables: "\<And>p e. re_tables env p e" and enc: "512 \<le> length enc" and n: "its prf = n"
    and ok: "trial_ok (K prf) mode off st"
  defines "hdr \<equiv> \<lambda>(prf, mode, ea). decrypted_header (re_cpu env) ea mode (K prf) enc"
  shows "\<exists>r. try_ea env prf n dk enc ea st = Some r \<and>
    outcome (\<lambda>c. looks_right (ReadVolumeHeaderRecoveryMode env) (hdr c)) (candidate_result its off hdr K) (trial_ok (K prf) mode off)
      (supported prf mode ea) r"
proof -
  obtain ci l64 l128 where st: "st = (ci, l64, l128)" by (cases st) auto
  have ci: "sized ci" "ci_mode ci = mode" using ok by (simp_all add: st trial_ok_def)
  show ?thesis
  proof (cases "EAIsModeSupported ea mode = Some True")
    case False
    then have "EAIsModeSupported ea mode = Some False"
      using mode_supported_table [OF ea, of mode] by (cases "mode \<in> set (the (ea_modes ea))") simp_all
    then show ?thesis using ok ci by (simp add: st try_ea_def supported_def outcome_def trial_ok_frame)
  next
    case True
    then have em: "ea_mode ea mode" using ea by (simp add: ea_mode_def)
    obtain r ks where ks: "EAInit ea (drop (primaryKeyOffset mode) dk) (ci_ks ci) = Some (r, ks)" "r \<noteq> ERR_CIPHER_INIT_FAILURE"
      "length ks = MAX_EXPANDED_KEY"
      using EAInit_ok [OF ea] ci(1) unfolding sized_def by metis
    let ?ci = "ci\<lparr>ci_ea := ea, ci_ks := ks\<rparr>"
    have ok': "trial_ok (K prf) mode off (?ci, l64, l128)" using ok ks(3) by (simp add: st trial_ok_def sized_def)
    have "\<exists>s. init_header_mode env prf dk (?ci, l64, l128) = Some (True, s) \<and> same_volume (keys_of ea mode (K prf)) (fst s) \<and> trial_ok (K prf) mode off s"
      using init_header_mode_ok [of ?ci mode "K prf" dk "re_cpu env" env "prf" off l64 l128 "ci_ks ci" r] em key u tables ok' ci(1) ks(1) by (simp add: sized_def)
    then obtain s where s: "init_header_mode env prf dk (?ci, l64, l128) = Some (True, s)"
      "same_volume (keys_of ea mode (K prf)) (fst s)" "trial_ok (K prf) mode off s" by blast
    note d = decrypt_header [OF em key(1) u s(2) enc]
    let ?h = "hdr (prf, mode, ea)"
    let ?f = "\<lparr>f_status = r, f_prf = prf, f_iterations = n, f_header = ?h\<rparr>"
    have h: "take 64 enc @ drop 64 ?h = ?h" using d(3) by (metis append_take_drop_id hdr_def case_prod_conv)
    have t: "try_ea env prf n dk enc ea st = Some (check_header (ReadVolumeHeaderRecoveryMode env) ?f s)"
      using True ks s(1) d(1) ci(2) enc h
      by (simp add: st try_ea_def split_beta tc_vol tc_cfg hdr_def get_at_def drop_take)
    obtain ci' a b where s': "s = (ci', a, b)" by (cases s) auto
    show ?thesis
    proof (cases "looks_right (ReadVolumeHeaderRecoveryMode env) ?h")
      case False
      then show ?thesis using check_header_cases(1) [of "ReadVolumeHeaderRecoveryMode env" ?f ci' a b] s(3) True
        by (auto simp: t s' outcome_def supported_def trial_ok_frame)
    next
      case right: True
      show ?thesis
      proof (cases "refusal ?h")
        case None
        then show ?thesis using check_header_cases(3) [of "ReadVolumeHeaderRecoveryMode env" ?f ci' a b] right s(2,3) True n
          by (simp add: t s' outcome_def supported_def candidate_result_def fields_of_frame trial_ok_def)
      next
        case (Some e)
        then show ?thesis using check_header_cases(2) [of "ReadVolumeHeaderRecoveryMode env" ?f e ci' a b] right True
          by (auto simp: t s' outcome_def supported_def candidate_result_def)
      qed
    qed
  qed
qed

section \<open>The whole search\<close>

text \<open>The candidates in the order of the loops.\<close>

definition candidates :: "nat list \<Rightarrow> (nat \<times> nat \<times> nat) list" where
  "candidates order = concat (map (\<lambda>prf. concat (map (\<lambda>mode. concat (map (supported prf mode) [1..<14])) [1..<6])) order)"

lemma EAs_upt: "EAs = Some [1..<14]"
  by (simp add: EAs_table upt_rec)

definition search_ok :: "u64 \<Rightarrow> search_state \<Rightarrow> bool" where
  "search_ok off st \<longleftrightarrow> sized (fst st) \<and> hiddenVolumeOffset (fst st) = off"

lemma outcome_mono: "outcome P F I cs r \<Longrightarrow> (\<And>st. I st \<Longrightarrow> J st) \<Longrightarrow> outcome P F J cs r"
  by (auto simp: outcome_def split: option.splits attempt.splits)

text \<open>Between the modes, the flags still refer to tables of the header key.\<close>

definition tables_ok :: "bytes \<Rightarrow> u64 \<Rightarrow> search_state \<Rightarrow> bool" where
  "tables_ok key off st \<longleftrightarrow> trial_ok key XTS off (fst st\<lparr>ci_mode := XTS\<rparr>, snd st)"

lemma tables_ok_trial:
  "trial_ok key mode off st \<Longrightarrow> tables_ok key off (fst st\<lparr>ci_ea := ea\<rparr>, snd st)"
  "tables_ok key off (ci, s) \<Longrightarrow> \<not> legacy_mode mode \<Longrightarrow> trial_ok key mode off (ci\<lparr>ci_mode := mode\<rparr>, s)"
  "sized ci \<Longrightarrow> hiddenVolumeOffset ci = off \<Longrightarrow> tables_ok key off (ci, False, False)"
  by (auto simp: tables_ok_def trial_ok_def sized_def legacy_mode_def)

lemma tables_ok_legacy:
  assumes "tables_ok key off (ci, s)" "length dk = MASTER_KEYDATA_SIZE" "take 32 dk = take 32 key"
  shows "trial_ok key mode off (ci\<lparr>ci_mode := mode, ci_k2 := put_at 0 (take 32 dk) (ci_k2 ci)\<rparr>, s)"
proof -
  have "length (ci_k2 ci) = MASTER_KEYDATA_SIZE" using assms(1) by (auto simp: tables_ok_def trial_ok_def sized_def split_beta)
  moreover have "length (take 32 dk) = 32" using assms(2) by (simp add: tc_cfg)
  ultimately have "take 32 (put_at 0 (take 32 dk) (ci_k2 ci)) = take 32 dk" "length (put_at 0 (take 32 dk) (ci_k2 ci)) = MASTER_KEYDATA_SIZE"
    by (simp_all only: take_put_at length_put_at tc_cfg)
  then show ?thesis using assms(1,3) by (simp add: tables_ok_def trial_ok_def sized_def split_beta)
qed

lemma try_mode_outcome:
  assumes key: "length (K prf) = 192" "take 192 dk = K prf" "length dk = MASTER_KEYDATA_SIZE" and u: "hw_ok (re_cpu env)"
    and tables: "\<And>p e. re_tables env p e" and enc: "512 \<le> length enc" and n: "its prf = n"
    and ok: "tables_ok (K prf) off st"
  defines "hdr \<equiv> \<lambda>(prf, mode, ea). decrypted_header (re_cpu env) ea mode (K prf) enc"
  shows "\<exists>r. try_mode env prf n dk enc [1..<14] mode st = Some r \<and>
    outcome (\<lambda>c. looks_right (ReadVolumeHeaderRecoveryMode env) (hdr c)) (candidate_result its off hdr K) (tables_ok (K prf) off)
      (concat (map (supported prf mode) [1..<14])) r"
proof -
  obtain ci s where st: "st = (ci, s)" by (cases st)
  define ci' where "ci' = (if legacy_mode mode then ci\<lparr>ci_mode := mode, ci_k2 := put_at 0 (take 32 dk) (ci_k2 ci)\<rparr> else ci\<lparr>ci_mode := mode\<rparr>)"
  have "take 32 dk = take 32 (K prf)" using take_drop_eq [of 192 dk "K prf" 0 32] key(1,2) by simp
  then have "trial_ok (K prf) mode off (ci', s)"
    using tables_ok_trial(2) tables_ok_legacy ok key(3) by (simp add: ci'_def st)
  then have "\<exists>r. first_hit (try_ea env prf n dk enc) [1..<14] (ci', s) = Some r \<and>
    outcome (\<lambda>c. looks_right (ReadVolumeHeaderRecoveryMode env) (hdr c)) (candidate_result its off hdr K) (trial_ok (K prf) mode off)
      (concat (map (supported prf mode) [1..<14])) r"
    unfolding hdr_def
  proof (rule first_hit_outcome [rotated])
    fix ea st assume ea: "ea \<in> set [1..<14]" and ok: "trial_ok (K prf) mode off st"
    have "valid_ea ea" using ea by (auto simp: valid_ea_def)
    then show "\<exists>r. try_ea env prf n dk enc ea st = Some r \<and>
        outcome (\<lambda>c. looks_right (ReadVolumeHeaderRecoveryMode env) (case c of (prf, mode, ea) \<Rightarrow> decrypted_header (re_cpu env) ea mode (K prf) enc))
         (candidate_result its off (\<lambda>(prf, mode, ea). decrypted_header (re_cpu env) ea mode (K prf) enc) K) (trial_ok (K prf) mode off)
         (supported prf mode ea) r"
      using try_ea_outcome [where K = K and env = env and its = its, OF _ key u tables enc n ok] by simp
  qed
  then obtain r where r: "first_hit (try_ea env prf n dk enc) [1..<14] (ci', s) = Some r"
    "outcome (\<lambda>c. looks_right (ReadVolumeHeaderRecoveryMode env) (hdr c)) (candidate_result its off hdr K) (trial_ok (K prf) mode off)
      (concat (map (supported prf mode) [1..<14])) r" by blast
  have "try_mode env prf n dk enc [1..<14] mode st = Some (after_loop (ci_ea_update (\<lambda>_. 0)) r)"
    using r(1) by (simp add: try_mode_def st ci'_def tc_cfg Let_def split: if_splits)
  then show ?thesis
    using outcome_after_loop [OF r(2), of "tables_ok (K prf) off" "ci_ea_update (\<lambda>_. 0)"] tables_ok_trial(1) by auto
qed

text \<open>The key of the header for each key derivation function.\<close>

definition header_keys :: "bool \<Rightarrow> bytes \<Rightarrow> bytes \<Rightarrow> nat \<Rightarrow> bytes" where
  "header_keys bBoot password enc prf = header_key prf password (take 64 enc) (the (get_pkcs5_iteration_count prf bBoot))"

text \<open>The memory that the caller and the system provide has the sizes the declarations give it.\<close>

definition read_env_ok :: "read_env \<Rightarrow> bool" where
  "read_env_ok env \<longleftrightarrow> hw_ok (re_cpu env) \<and> (\<forall>p. mem_sized (re_mem env p) \<and> length (re_dk env p) = MASTER_KEYDATA_SIZE) \<and>
     re_open env \<and> (\<forall>p e. re_tables env p e) \<and> re_master_tables env \<and> (re_threads env > 1 \<longrightarrow> re_pool env) \<and>
     set (re_order env) \<subseteq> {1, 2, 3, 4}"

definition trial_header :: "read_env \<Rightarrow> bool \<Rightarrow> bytes \<Rightarrow> bytes \<Rightarrow> nat \<times> nat \<times> nat \<Rightarrow> bytes" where
  "trial_header env bBoot password enc = (\<lambda>(prf, mode, ea). decrypted_header (re_cpu env) ea mode (header_keys bBoot password enc prf) enc)"

lemma iteration_count: "prf \<in> {1, 2, 3, 4} \<Longrightarrow> \<exists>n. get_pkcs5_iteration_count prf b = Some n"
  by (auto simp: get_pkcs5_iteration_count_def)

lemma header_search_outcome:
  assumes env: "read_env_ok env" and enc: "512 \<le> length enc"
    and ki: "ki_keyLength ki \<le> length (ki_userKey ki)" "ki_keyLength ki \<le> MAX_PASSWORD" "ki_salt ki = take 64 enc"
    and ci: "sized ci"
  defines "pw \<equiv> take (ki_keyLength ki) (ki_userKey ki)"
  shows "\<exists>r. header_search env bBoot ki enc ci = Some r \<and>
    outcome (\<lambda>c. looks_right (ReadVolumeHeaderRecoveryMode env) (trial_header env bBoot pw enc c))
      (candidate_result (\<lambda>prf. the (get_pkcs5_iteration_count prf bBoot)) (hiddenVolumeOffset ci) (trial_header env bBoot pw enc)
        (header_keys bBoot pw enc))
      (search_ok (hiddenVolumeOffset ci)) (candidates (re_order env)) r"
proof -
  define P F where "P = (\<lambda>c. looks_right (ReadVolumeHeaderRecoveryMode env) (trial_header env bBoot pw enc c))"
    and "F = candidate_result (\<lambda>prf. the (get_pkcs5_iteration_count prf bBoot)) (hiddenVolumeOffset ci) (trial_header env bBoot pw enc)
      (header_keys bBoot pw enc)"
  let ?K = "header_keys bBoot pw enc" and ?off = "hiddenVolumeOffset ci"
  have "\<exists>r. try_prf env bBoot ki enc [1..<14] h st = Some r \<and>
      outcome P F (search_ok ?off) (concat (map (\<lambda>mode. concat (map (supported h mode) [1..<14])) [1..<6])) r"
    if h: "h \<in> set (re_order env)" and ok: "search_ok ?off st" for h st
  proof -
    obtain c l where st: "st = (c, l)" by (cases st)
    have h4: "h \<in> {1, 2, 3, 4}" using env h by (auto simp: read_env_ok_def)
    obtain n where n: "get_pkcs5_iteration_count h bBoot = Some n" using iteration_count [OF h4] by blast
    define dk where "dk = put_at 0 (?K h) (re_dk env h)"
    have K: "length (?K h) = 192" by (simp add: header_keys_def length_header_key)
    have e: "length (re_dk env h) = MASTER_KEYDATA_SIZE" "hw_ok (re_cpu env)" "\<And>p e. re_tables env p e" "mem_sized (re_mem env h)"
      using env by (simp_all add: read_env_ok_def)
    have dk: "take 192 dk = ?K h" "length dk = MASTER_KEYDATA_SIZE"
      using take_put_at [OF K, of "re_dk env h"] K e(1) by (simp_all add: dk_def tc_cfg)
    have derive: "derive_header_key (re_mem env h) h (ki\<lparr>ki_noIterations := n\<rparr>) (re_dk env h) = Some dk"
      using derive_header_key_eq [OF e(4) h4, of "ki\<lparr>ki_noIterations := n\<rparr>"] ki enc
      by (simp add: dk_def header_keys_def n pw_def tc_cfg)
    have T: "tables_ok (?K h) ?off (c, False, False)" using ok tables_ok_trial(3) by (simp add: search_ok_def st)
    have step: "\<exists>r. try_mode env h n dk enc [1..<14] mode st = Some r \<and>
        outcome P F (tables_ok (?K h) ?off) (concat (map (supported h mode) [1..<14])) r"
      if "tables_ok (?K h) ?off st" for mode st
      using try_mode_outcome [where K = ?K and env = env and its = "\<lambda>prf. the (get_pkcs5_iteration_count prf bBoot)",
          OF K dk e(2,3) enc _ that, of n] n
      by (simp add: P_def F_def trial_header_def)
    obtain r where r: "first_hit (try_mode env h n dk enc [1..<14]) [1..<6] (c, False, False) = Some r"
      "outcome P F (tables_ok (?K h) ?off) (concat (map (\<lambda>mode. concat (map (supported h mode) [1..<14])) [1..<6])) r"
      using first_hit_outcome [where f = "try_mode env h n dk enc [1..<14]" and g = "\<lambda>mode. concat (map (supported h mode) [1..<14])" and
          I = "tables_ok (?K h) ?off" and xs = "[1..<6]", OF step T] by blast
    have "try_prf env bBoot ki enc [1..<14] h st = Some (after_loop (ci_mode_update (\<lambda>_. INNER_CBC + 1)) r)"
      using r(1) derive by (simp add: try_prf_def st n del: upt_rec_numeral)
    moreover have "search_ok ?off (fst st\<lparr>ci_mode := INNER_CBC + 1\<rparr>, snd st)" if "tables_ok (?K h) ?off st" for st
      using that by (simp add: tables_ok_def trial_ok_def search_ok_def split_beta sized_def)
    ultimately show ?thesis using outcome_after_loop [OF r(2)] by blast
  qed
  note step = this
  have "search_ok ?off (ci, False, False)" using ci by (simp add: search_ok_def)
  from first_hit_outcome [where f = "try_prf env bBoot ki enc [1..<14]" and
      g = "\<lambda>h. concat (map (\<lambda>mode. concat (map (supported h mode) [1..<14])) [1..<6])" and
      I = "search_ok ?off" and xs = "re_order env", OF step this]
  show ?thesis unfolding P_def F_def by (simp add: header_search_def EAs_upt candidates_def del: upt_rec_numeral)
qed

end
