(* ===== verification/Volume_Roundtrip.thy ===== *)
theory Volume_Roundtrip
  imports Volume_Headers
begin

text \<open>
  \<open>ReadVolumeHeader\<close> as a function of the decrypted candidates, and what it reads in a header of
  \<open>CreateVolumeHeaderInMemory\<close>.
\<close>

unbundle bit_operations_syntax

section \<open>The master key\<close>

text \<open>What an opened volume has from the candidate and its decrypted header.\<close>

definition opened_as :: "nat \<times> nat \<times> nat \<Rightarrow> nat \<Rightarrow> bytes \<Rightarrow> CRYPTO_INFO \<Rightarrow> bool" where
  "opened_as = (\<lambda>(prf, mode, ea) n h ci.
     ci = fields_of h ci \<and> ci_master_keydata ci = get_at 256 256 h \<and> ci_salt ci = take 64 h \<and> ci_pkcs5 ci = prf \<and>
     ci_noIterations ci = n \<and> same_volume (keys_of ea mode (get_at 256 256 h)) ci)"

lemma same_volumeD: "same_volume k ci \<Longrightarrow> ci_ea k = ci_ea ci \<and> ci_mode k = ci_mode ci"
  by (simp add: same_volume_def)

lemma use_master_key_ok:
  assumes em: "ea_mode (ci_ea ci) (ci_mode ci)" and ci: "sized ci" "ci = fields_of (f_header f) ci" and u: "hw_ok u"
    and h: "length (f_header f) = 512" and salt: "ki_salt ki = take 64 (f_header f)"
  shows "\<exists>ci'. use_master_key True ki f ci = Some (ERR_SUCCESS, ci') \<and> hiddenVolumeOffset ci' = hiddenVolumeOffset ci \<and> sized ci' \<and>
    opened_as (f_prf f, ci_mode ci, ci_ea ci) (f_iterations f) (f_header f) ci'"
proof -
  define key where "key = get_at 256 256 (f_header f)"
  define ci1 where "ci1 = ci\<lparr>ci_master_keydata := key, ci_salt := ki_salt ki, ci_pkcs5 := f_prf f, ci_noIterations := f_iterations f\<rparr>"
  have key: "length key = 256" using h by (simp add: key_def)
  have span: "key_span (ci_ea ci) (ci_mode ci) \<le> length key" using ea_mode_cases(5) [OF em] key by simp
  have s1: "sized ci1" "ci_ea ci1 = ci_ea ci" "ci_mode ci1 = ci_mode ci" "ci_ks ci1 = ci_ks ci" using ci(1) by (simp_all add: ci1_def sized_def)
  obtain r ks where ks: "EAInit (ci_ea ci) (drop (primaryKeyOffset (ci_mode ci)) key) (ci_ks ci) = Some (r, ks)" "r \<noteq> ERR_CIPHER_INIT_FAILURE"
    "length ks = MAX_EXPANDED_KEY"
    using EAInit_ok [OF ea_mode_cases(1) [OF em]] ci(1) unfolding sized_def by metis
  have s2: "sized (ci1\<lparr>ci_ks := ks\<rparr>)" using s1(1) ks(3) by (simp add: sized_def)
  obtain ci2 where ci2: "set_k2 key (ci1\<lparr>ci_ks := ks\<rparr>) = Some ci2" "sized ci2" "ci2 = ci1\<lparr>ci_ks := ks, ci_k2 := ci_k2 ci2\<rparr>"
    "take (k2_size (ci_ea ci) (ci_mode ci)) (ci_k2 ci2) = k2_of (ci_ea ci) (ci_mode ci) key"
    using set_k2_keyed [OF em s2 _ _ span] s1 by auto
  have f: "ci_ea ci2 = ci_ea ci" "ci_mode ci2 = ci_mode ci" "ci_ks ci2 = ks" using s1 by (subst ci2(3), simp)+
  have kd: "keyed (ci_ea ci) (ci_mode ci) key ci2"
    using ci2 f ks(1) ci(1) by (auto simp: keyed_def sized_def)
  obtain b where b: "EAInitMode True ci2 = Some (True, b)" "same_volume (keys_of (ci_ea ci) (ci_mode ci) key) b" "sized b"
    "b = ci2\<lparr>ci_ks2 := ci_ks2 b, gf_ctx := gf_ctx b\<rparr>"
    by (rule keyed_keys_of [OF em span u refl kd, of True]) auto
  have eq: "b = ci\<lparr>ci_master_keydata := key, ci_salt := ki_salt ki, ci_pkcs5 := f_prf f, ci_noIterations := f_iterations f,
      ci_ks := ks, ci_k2 := ci_k2 ci2, ci_ks2 := ci_ks2 b, gf_ctx := gf_ctx b\<rparr>"
    by (subst b(4), subst ci2(3)) (simp add: ci1_def)
  have "fields_of (f_header f) (ci\<lparr>ci_master_keydata := w, ci_salt := x, ci_pkcs5 := y, ci_noIterations := z,
      ci_ks := ks, ci_k2 := k2, ci_ks2 := ks2, gf_ctx := ctx\<rparr>) = (fields_of (f_header f) ci)\<lparr>ci_master_keydata := w, ci_salt := x,
      ci_pkcs5 := y, ci_noIterations := z, ci_ks := ks, ci_k2 := k2, ci_ks2 := ks2, gf_ctx := ctx\<rparr>" for w x y z ks k2 ks2 ctx
    by (simp add: fields_of_def read_fields_def Let_def)
  then have fields: "b = fields_of (f_header f) b" using ci(2) eq by metis
  have parts: "ci_master_keydata b = key" "ci_salt b = ki_salt ki" "ci_pkcs5 b = f_prf f" "ci_noIterations b = f_iterations f"
    "hiddenVolumeOffset b = hiddenVolumeOffset ci"
    by (subst eq, simp)+
  have "use_master_key True ki f ci = Some (ERR_SUCCESS, b)"
    using ks ci2(1) b(1) s1 by (simp add: use_master_key_def Let_def tc_vol tc_cfg key_def [symmetric] ci1_def [symmetric])
  then show ?thesis using fields parts b(2,3) salt by (simp add: opened_as_def key_def)
qed

section \<open>Reading a header\<close>

definition password_ok :: "Password \<Rightarrow> bool" where
  "password_ok p \<longleftrightarrow> pw_Length p \<le> MAX_PASSWORD \<and> pw_Length p \<le> length (pw_Text p)"

definition password_bytes :: "Password \<Rightarrow> bytes" where
  "password_bytes p = take (pw_Length p) (pw_Text p)"

text \<open>The specification: the first candidate whose header looks right decides.\<close>

definition read_spec :: "read_env \<Rightarrow> bool \<Rightarrow> bytes \<Rightarrow> bytes \<Rightarrow> nat \<times> ret_info \<times> CRYPTO_INFO option \<Rightarrow> bool" where
  "read_spec env bBoot password enc res \<longleftrightarrow>
     (let hdr = trial_header env bBoot password enc in
      case find (\<lambda>c. looks_right (ReadVolumeHeaderRecoveryMode env) (hdr c)) (candidates (re_order env)) of
        None \<Rightarrow> res = (ERR_PASSWORD_WRONG, Cleared, None)
      | Some c \<Rightarrow>
          (case refusal (hdr c) of
             Some status \<Rightarrow> res = (status, Cleared, None)
           | None \<Rightarrow> (\<exists>ci. res = (ERR_SUCCESS, Opened ci, None) \<and> sized ci \<and> hiddenVolumeOffset ci = 0 \<and>
               opened_as c (the (get_pkcs5_iteration_count (fst c) bBoot)) (hdr c) ci)))"

lemma loaded_password:
  fixes k :: KEY_INFO
  assumes "password_ok p"
  defines "ki \<equiv> crypto_loadkey k (pw_Text p) (pw_Length p)"
  shows "ki_keyLength ki = pw_Length p" "ki_keyLength ki \<le> length (ki_userKey ki)" "take (ki_keyLength ki) (ki_userKey ki) = password_bytes p"
  using assms by (auto simp: crypto_loadkey_def password_ok_def password_bytes_def take_put_at tc_vol)

lemma candidates_mode:
  "c \<in> set (candidates order) \<longleftrightarrow> (\<exists>prf mode ea. c = (prf, mode, ea) \<and> prf \<in> set order \<and> ea_mode ea mode)"
proof -
  have "ea_mode ea mode \<longleftrightarrow> mode \<in> set [1..<6] \<and> ea \<in> set [1..<14] \<and> EAIsModeSupported ea mode = Some True" for ea mode
    using ea_mode_cases(6,7) [of ea mode] by (auto simp: ea_mode_def valid_ea_def)
  then show ?thesis by (auto simp: candidates_def supported_def split: if_splits)
qed

lemma ReadVolumeHeader_spec:
  assumes env: "read_env_ok env" and enc: "512 \<le> length enc" and pw: "password_ok password"
  shows "\<exists>res. ReadVolumeHeader env bBoot enc password ToInfo = Some res \<and> read_spec env bBoot (password_bytes password) enc res"
proof -
  obtain ci where ci: "crypto_open (re_open env) = Some ci" "hiddenVolumeOffset ci = 0"
    using env by (auto simp: crypto_open_def read_env_ok_def)
  define ki where "ki = (crypto_loadkey (re_keyInfo env) (pw_Text password) (pw_Length password))\<lparr>ki_salt := take 64 enc\<rparr>"
  have ki: "ki_keyLength ki \<le> length (ki_userKey ki)" "ki_keyLength ki \<le> MAX_PASSWORD" "ki_salt ki = take 64 enc"
    "take (ki_keyLength ki) (ki_userKey ki) = password_bytes password"
    using loaded_password [OF pw] pw by (simp_all add: ki_def password_ok_def)
  let ?hdr = "trial_header env bBoot (password_bytes password) enc"
  let ?P = "\<lambda>c. looks_right (ReadVolumeHeaderRecoveryMode env) (?hdr c)"
  obtain r where r: "header_search env bBoot ki enc ci = Some r"
    "outcome ?P (candidate_result (\<lambda>prf. the (get_pkcs5_iteration_count prf bBoot)) 0 ?hdr (header_keys bBoot (password_bytes password) enc))
      (search_ok 0) (candidates (re_order env)) r"
    using header_search_outcome [OF env enc ki(1-3) sized_open [OF ci(1)], of bBoot] ci(2) ki(4) by auto
  have "ReadVolumeHeader env bBoot enc password ToInfo = Option.bind (Some r) (\<lambda>r.
      case r of NotThis st \<Rightarrow> Some (read_failed ToInfo ERR_PASSWORD_WRONG (fst st)) | Failed status ci \<Rightarrow> Some (read_failed ToInfo status ci)
      | Decrypted f ci \<Rightarrow> read_found env ki ToInfo f ci)"
  proof -
    have k: "(crypto_loadkey (re_keyInfo env) (pw_Text password) (pw_Length password))\<lparr>ki_salt := get_at HEADER_SALT_OFFSET PKCS5_SALT_SIZE enc\<rparr> = ki"
      by (simp add: ki_def get_at_def tc_vol tc_cfg)
    have pool: "\<not> (re_threads env > 1 \<and> \<not> re_pool env)" using env by (simp add: read_env_ok_def)
    show ?thesis unfolding ReadVolumeHeader_def Let_def k using ci(1) r(1) pool by auto
  qed
  then have read: "ReadVolumeHeader env bBoot enc password ToInfo =
      (case r of NotThis st \<Rightarrow> Some (ERR_PASSWORD_WRONG, Cleared, None) | Failed status ci \<Rightarrow> Some (status, Cleared, None)
      | Decrypted f ci \<Rightarrow> map_option (\<lambda>r. read_result r None) (use_master_key True ki f ci))"
    using env by (simp add: read_failed_def read_found_def read_env_ok_def split: attempt.splits)
  show ?thesis
  proof (cases "find ?P (candidates (re_order env))")
    case None
    then show ?thesis using r(2) read by (auto simp: outcome_def read_spec_def split: attempt.splits)
  next
    case (Some c)
    obtain h mode ea where c: "c = (h, mode, ea)" by (cases c) auto
    have "c \<in> set (candidates (re_order env))" using Some by (metis find_Some_iff nth_mem)
    then have em: "ea_mode ea mode" by (auto simp: candidates_mode c)
    show ?thesis
    proof (cases "refusal (?hdr c)")
      case (Some e)
      then show ?thesis using \<open>find ?P (candidates (re_order env)) = Some c\<close> r(2) read
        by (auto simp: outcome_def read_spec_def candidate_result_def c split: attempt.splits)
    next
      case None
      have res: "candidate_result (\<lambda>prf. the (get_pkcs5_iteration_count prf bBoot)) 0 ?hdr (header_keys bBoot (password_bytes password) enc) c r"
        using r(2) Some by (simp add: outcome_def split: attempt.splits)
      then obtain f ci1 where rd: "r = Decrypted f ci1" using None by (cases r) (simp_all add: candidate_result_def c)
      have f: "r = Decrypted f ci1" "f_prf f = h" "f_iterations f = the (get_pkcs5_iteration_count h bBoot)" "f_header f = ?hdr c"
        "ci1 = fields_of (?hdr c) ci1" "sized ci1" "hiddenVolumeOffset ci1 = 0"
        "same_volume (keys_of ea mode (header_keys bBoot (password_bytes password) enc h)) ci1"
        using res None rd unfolding candidate_result_def c prod.case Let_def by (simp_all only: option.case attempt.case)
      have u: "hw_ok (re_cpu env)" using env by (simp add: read_env_ok_def)
      have K: "length (header_keys bBoot (password_bytes password) enc h) = 192" by (simp add: header_keys_def length_header_key)
      have span: "key_span ea mode \<le> length (header_keys bBoot (password_bytes password) enc h)" using ea_mode_cases(5) [OF em] K by simp
      obtain a where a: "keyed ea mode (header_keys bBoot (password_bytes password) enc h) a"
        "EAInitMode True a = Some (True, keys_of ea mode (header_keys bBoot (password_bytes password) enc h))"
        by (rule keys_of [OF em span u])
      have "ci_ea (keys_of ea mode (header_keys bBoot (password_bytes password) enc h)) = ea"
        "ci_mode (keys_of ea mode (header_keys bBoot (password_bytes password) enc h)) = mode"
        using EAInitMode_frame(2) [OF a(2)] a(1) ea_mode_cases(1) [OF em] by (auto simp: keyed_def dest: arg_cong [of _ _ ci_ea] arg_cong [of _ _ ci_mode])
      then have cm: "ci_ea ci1 = ea" "ci_mode ci1 = mode" using same_volumeD [OF f(8)] by simp_all
      have h: "length (f_header f) = 512" "ki_salt ki = take 64 (f_header f)"
        using decrypt_header(2,3) [OF em K u f(8) enc] by (simp_all add: f(4) c trial_header_def ki(3))
      obtain ci2 where "use_master_key True ki f ci1 = Some (ERR_SUCCESS, ci2)" "hiddenVolumeOffset ci2 = 0" "sized ci2"
        "opened_as (h, mode, ea) (f_iterations f) (f_header f) ci2"
        using use_master_key_ok [of ci1 f "re_cpu env" ki] em cm f u h by auto
      then show ?thesis using Some None read f by (auto simp: read_spec_def read_result_def c)
    qed
  qed
qed

section \<open>The fields of a created header\<close>

lemma put_at_zeros:
  assumes "p = length xs + k" "k + length b \<le> n"
  shows "put_at p b (xs @ replicate n 0) = xs @ replicate k 0 @ b @ replicate (n - k - length b) 0"
  using assms by (simp add: put_at_def add.assoc)

lemma length_mput [simp]: "length (mputInt64 x) = 8" "length (mputLong y) = 4" "length (mputWord z) = 2"
  by (simp_all add: mputInt64_def mputLong_def mputWord_def)

lemma get_field:
  "get_at off 2 h = mputWord w \<Longrightarrow> GetHeaderField16 h off = w"
  "get_at off 4 h = mputLong x \<Longrightarrow> GetHeaderField32 h off = x"
  "get_at off 8 h = mputInt64 y \<Longrightarrow> GetHeaderField64 h off = y"
  by (simp_all add: GetHeaderField16_def GetHeaderField32_def GetHeaderField64_def BE16_def BE32_def BE64_def mirror_be
      mputWord_be mputLong_be mputInt64_be word_to_be_def be_to_word_def)

definition header_front :: "header_request \<Rightarrow> KEY_INFO \<Rightarrow> bytes" where
  "header_front rq ki = ki_salt ki @ mputLong 0x54525545 @ mputWord 5 @ mputWord (required_version rq) @ mputLong (GetCrc32 (ki_master_keydata ki)) @
     replicate 16 0 @ mputInt64 (rq_hiddenVolumeSize rq) @ mputInt64 (rq_volumeSize rq) @ mputInt64 (rq_encryptedAreaStart rq) @
     mputInt64 (rq_encryptedAreaLength rq) @ mputLong (rq_headerFlags rq) @ mputLong (rq_sectorSize rq) @ replicate 120 0"

lemma plain_header_eq:
  assumes "length (ki_salt ki) = 64" "length (ki_master_keydata ki) = 256"
  shows "plain_header rq ki = header_front rq ki @ mputLong (GetCrc32 (drop 64 (header_front rq ki))) @ ki_master_keydata ki"
proof -
  let ?A = "ki_salt ki @ mputLong 0x54525545 @ mputWord 5 @ mputWord (required_version rq) @ mputLong (GetCrc32 (ki_master_keydata ki))"
  let ?B = "mputInt64 (rq_hiddenVolumeSize rq) @ mputInt64 (rq_volumeSize rq) @ mputInt64 (rq_encryptedAreaStart rq) @
     mputInt64 (rq_encryptedAreaLength rq) @ mputLong (rq_headerFlags rq) @ mputLong (rq_sectorSize rq)"
  let ?X = "?A @ replicate 16 0 @ ?B"
  let ?c = "mputLong (GetCrc32 (drop 64 (header_front rq ki)))"
  have x: "header_front rq ki = ?X @ replicate 120 0" by (simp add: header_front_def)
  have len: "length ?A = 76" "length ?B = 40" "length ?X = 132" using assms by simp_all
  have "put_at 0 ?A (replicate 512 0) = ?A @ replicate 436 0"
    using put_at_zeros [of 0 "[]" 0 ?A 512] len(1) by simp
  moreover have "put_at 92 ?B (?A @ replicate 436 0) = ?X @ replicate 380 0"
    using put_at_zeros [of 92 ?A 16 ?B 436] len(1,2) by simp
  moreover have "get_at 64 188 (?X @ replicate 380 0) = drop 64 (header_front rq ki)"
    unfolding x using assms by (simp add: get_at_def drop_append take_append)
  moreover have "put_at 252 ?c (?X @ replicate 380 0) = ?X @ replicate 120 0 @ ?c @ replicate 256 0"
    using put_at_zeros [of 252 ?X 120 ?c 380] len(3) by simp
  moreover have "put_at 256 (ki_master_keydata ki) ((?X @ replicate 120 0 @ ?c) @ replicate 256 0) = (?X @ replicate 120 0 @ ?c) @ ki_master_keydata ki"
    using put_at_zeros [of 256 "?X @ replicate 120 0 @ ?c" 0 "ki_master_keydata ki" 256] len(3) assms(2) by simp
  ultimately show ?thesis
    unfolding x using assms by (simp add: plain_header_def Let_def tc_vol tc_cfg)
qed

lemma plain_header_fields:
  fixes rq :: header_request and ki :: KEY_INFO
  assumes "length (ki_salt ki) = 64" "length (ki_master_keydata ki) = 256"
  defines "h \<equiv> plain_header rq ki"
  shows "length h = 512" "take 64 h = ki_salt ki" "get_at 256 256 h = ki_master_keydata ki"
    "GetHeaderField32 h 64 = 0x54525545" "GetHeaderField16 h 68 = 5" "GetHeaderField16 h 70 = required_version rq"
    "key_crc_ok h" "header_crc_ok h" "GetHeaderField64 h 76 = 0" "GetHeaderField64 h 84 = 0"
    "GetHeaderField64 h 92 = rq_hiddenVolumeSize rq" "GetHeaderField64 h 100 = rq_volumeSize rq"
    "GetHeaderField64 h 108 = rq_encryptedAreaStart rq" "GetHeaderField64 h 116 = rq_encryptedAreaLength rq"
    "GetHeaderField32 h 124 = rq_headerFlags rq" "GetHeaderField32 h 128 = rq_sectorSize rq"
proof -
  have len: "length (header_front rq ki) = 252" using assms by (simp add: header_front_def)
  show "length h = 512" using len assms by (simp add: h_def plain_header_eq)
  have front: "off + n \<le> 252 \<Longrightarrow> get_at off n h = get_at off n (header_front rq ki)" for off n
    using assms len by (simp add: h_def plain_header_eq get_at_append_left)
  show "take 64 h = ki_salt ki" using assms by (simp add: h_def plain_header_eq header_front_def)
  show key: "get_at 256 256 h = ki_master_keydata ki" using assms len by (simp add: h_def plain_header_eq get_at_def)
  show "GetHeaderField32 h 64 = 0x54525545" "GetHeaderField16 h 68 = 5" "GetHeaderField16 h 70 = required_version rq"
    "GetHeaderField64 h 92 = rq_hiddenVolumeSize rq" "GetHeaderField64 h 100 = rq_volumeSize rq"
    "GetHeaderField64 h 108 = rq_encryptedAreaStart rq" "GetHeaderField64 h 116 = rq_encryptedAreaLength rq"
    "GetHeaderField32 h 124 = rq_headerFlags rq" "GetHeaderField32 h 128 = rq_sectorSize rq"
    by (rule get_field, simp add: front, simp add: header_front_def get_at_def assms)+
  have z: "replicate 8 0 = mputInt64 0" by (simp add: mputInt64_def numeral_eq_Suc)
  have "get_at 76 8 h = replicate 8 0" "get_at 84 8 h = replicate 8 0"
    by (simp add: front, simp add: header_front_def get_at_def assms)+
  then show "GetHeaderField64 h 76 = 0" "GetHeaderField64 h 84 = 0" by (simp_all add: z get_field)
  have "GetHeaderField32 h 72 = GetCrc32 (ki_master_keydata ki)"
    by (rule get_field, simp add: front, simp add: header_front_def get_at_def assms)
  then show "key_crc_ok h" by (simp add: key_crc_ok_def key)
  have "get_at 64 188 h = drop 64 (header_front rq ki)" using len front [of 64 188] by (simp add: get_at_def)
  moreover have "GetHeaderField32 h 252 = GetCrc32 (drop 64 (header_front rq ki))"
    by (rule get_field) (use len assms in \<open>simp add: h_def plain_header_eq get_at_def\<close>)
  ultimately show "header_crc_ok h" by (simp add: header_crc_ok_def)
qed

section \<open>Creating a header\<close>

lemma same_volume_both:
  assumes "same_volume k a" "same_volume k b"
  shows "same_volume a b"
  using assms unfolding same_volume_def same_mode_def same_ks_def by (metis (no_types, lifting))

lemma same_volume_master: "same_volume k (ci\<lparr>ci_master_keydata := m\<rparr>) = same_volume k ci"
  by (simp add: same_volume_def same_mode_def)

text \<open>Scheduled from a key string that agrees with \<open>key\<close>, a record has the keys of \<open>key\<close>.\<close>

lemma schedule_keys_ok:
  assumes em: "ea_mode ea mode" and ci: "sized ci" "ci_ea ci = ea" "ci_mode ci = mode" and u: "hw_ok u"
    and key: "key_span ea mode \<le> length key" "take (key_span ea mode) key = take (key_span ea mode) dk" "key_span ea mode \<le> length dk"
    and run: "schedule_keys al dk ci = Some (ERR_SUCCESS, ci')"
  shows "same_volume (keys_of ea mode key) ci'" "sized ci'"
    "ci' = ci\<lparr>ci_k2 := ci_k2 ci', ci_ks := ci_ks ci', ci_ks2 := ci_ks2 ci', gf_ctx := gf_ctx ci'\<rparr>"
proof -
  obtain ci1 where ci1: "set_k2 dk ci = Some ci1" "sized ci1" "ci1 = ci\<lparr>ci_k2 := ci_k2 ci1\<rparr>"
    "take (k2_size ea mode) (ci_k2 ci1) = k2_of ea mode dk"
    by (rule set_k2_keyed [OF em ci key(3)])
  have f: "ci_ea ci1 = ea" "ci_mode ci1 = mode" using ci by (subst ci1(3), simp)+
  obtain r ks where ks: "EAInit ea (drop (primaryKeyOffset mode) dk) (ci_ks ci1) = Some (r, ks)" "length ks = MAX_EXPANDED_KEY"
    using EAInit_ok [OF ea_mode_cases(1) [OF em]] ci1(2) unfolding sized_def by metis
  have kd: "keyed ea mode dk (ci1\<lparr>ci_ks := ks\<rparr>)" by (rule keyed_intro [OF em ci1(2) f ci1(4) ks(1)])
  obtain ok b where b: "EAInitMode al (ci1\<lparr>ci_ks := ks\<rparr>) = Some (ok, b)" "ok \<Longrightarrow> same_volume (keys_of ea mode key) b" "sized b"
    "b = ci1\<lparr>ci_ks := ks, ci_ks2 := ci_ks2 b, gf_ctx := gf_ctx b\<rparr>"
    by (rule keyed_keys_of [OF em key(1) u key(2) kd, of al]) auto
  have "ok \<and> ci' = b" using run ci1(1) f ks b(1) by (auto simp: schedule_keys_def Let_def tc_cfg tc_vol split: if_splits)
  then show "same_volume (keys_of ea mode key) ci'" "sized ci'" using b by simp_all
  have "b = ci\<lparr>ci_k2 := ci_k2 ci1, ci_ks := ks, ci_ks2 := ci_ks2 b, gf_ctx := gf_ctx b\<rparr>"
    by (subst b(4), subst ci1(3)) simp
  moreover from this have "ci_k2 b = ci_k2 ci1" "ci_ks b = ks" by (metis CRYPTO_INFO.select_convs(3,9) CRYPTO_INFO.surjective CRYPTO_INFO.update_convs(3,4,7,9))+
  ultimately show "ci' = ci\<lparr>ci_k2 := ci_k2 ci', ci_ks := ci_ks ci', ci_ks2 := ci_ks2 ci', gf_ctx := gf_ctx ci'\<rparr>"
    using \<open>ok \<and> ci' = b\<close> by simp
qed

definition create_env_ok :: "create_env \<Rightarrow> bool" where
  "create_env_ok env \<longleftrightarrow> hw_ok (ce_cpu env) \<and> mem_sized (ce_mem env) \<and> length (ce_dk env) = MASTER_KEYDATA_SIZE \<and>
     length (ki_userKey (ce_keyInfo env)) = MAX_PASSWORD \<and> length (ki_salt (ce_keyInfo env)) = PKCS5_SALT_SIZE \<and>
     length (ki_master_keydata (ce_keyInfo env)) = MASTER_KEYDATA_SIZE \<and>
     (\<forall>s. ce_random_salt env = Some s \<longrightarrow> length s = PKCS5_SALT_SIZE) \<and> (\<forall>n r. ce_random_key env n = Some r \<longrightarrow> length r = n)"

definition request_ok :: "header_request \<Rightarrow> bool" where
  "request_ok rq \<longleftrightarrow> ea_mode (rq_ea rq) (rq_mode rq) \<and> rq_prf rq \<in> {1, 2, 3, 4} \<and>
     (\<forall>k. rq_masterKeydata rq = Some k \<longrightarrow> length k = MASTER_KEYDATA_SIZE)"

text \<open>The fields of the record and of the header are those of the request.\<close>

definition request_fields :: "header_request \<Rightarrow> CRYPTO_INFO \<Rightarrow> bool" where
  "request_fields rq ci \<longleftrightarrow> ci_ea ci = rq_ea rq \<and> ci_mode ci = rq_mode rq \<and> HeaderVersion ci = VOLUME_HEADER_VERSION \<and>
     hiddenVolumeSize ci = rq_hiddenVolumeSize rq \<and> hiddenVolume ci = (rq_hiddenVolumeSize rq \<noteq> 0) \<and>
     VolumeSize ci = rq_volumeSize rq \<and> EncryptedAreaStart ci = rq_encryptedAreaStart rq \<and>
     EncryptedAreaLength ci = rq_encryptedAreaLength rq \<and> HeaderFlags ci = rq_headerFlags rq \<and> SectorSize ci = rq_sectorSize rq"

lemma write_header_ok:
  assumes env: "create_env_ok env" and rq: "request_ok rq" and ci: "crypto_open True = Some ci"
    and ki: "ki_keyLength ki \<le> length (ki_userKey ki)" "ki_keyLength ki \<le> MAX_PASSWORD" "length (ki_salt ki) = 64"
      "length (ki_master_keydata ki) = 256"
    and run: "write_header env rq ki ci = Some (0, header, Some ci')"
  defines "key \<equiv> header_key (rq_prf rq) (take (ki_keyLength ki) (ki_userKey ki)) (ki_salt ki) (ki_noIterations ki)"
  shows "decrypted_header (ce_cpu env) (rq_ea rq) (rq_mode rq) key header = plain_header rq ki" "take 64 header = ki_salt ki"
    "length header = 512" "request_fields rq ci'" "ci_master_keydata ci' = ki_master_keydata ki" "hiddenVolumeOffset ci' = 0"
    "same_volume (keys_of (rq_ea rq) (rq_mode rq) (ki_master_keydata ki)) ci'" "\<not> bad_sector_size (rq_sectorSize rq)"
proof -
  let ?u = "ce_cpu env" and ?ea = "rq_ea rq" and ?mode = "rq_mode rq"
  have em: "ea_mode ?ea ?mode" using rq by (simp add: request_ok_def)
  have e: "hw_ok ?u" "mem_sized (ce_mem env)" "length (ce_dk env) = 256" using env by (simp_all add: create_env_ok_def tc_cfg)
  have K: "length key = 192" by (simp add: key_def length_header_key)
  define dk where "dk = put_at 0 key (ce_dk env)"
  have derive: "derive_header_key (ce_mem env) (rq_prf rq) ki (ce_dk env) = Some dk"
    unfolding dk_def key_def by (rule derive_header_key_eq [OF e(2)]) (use rq ki in \<open>simp_all add: request_ok_def tc_cfg\<close>)
  have dk: "take 192 dk = key" "length dk = 256" using take_put_at [OF K, of "ce_dk env"] K e(3) by (simp_all add: dk_def)
  note span = ea_mode_cases(5) [OF em]
  have eq: "take (key_span ?ea ?mode) key = take (key_span ?ea ?mode) dk"
    using take_drop_eq [of 192 key dk 0 "key_span ?ea ?mode"] span dk K by simp
  define ci0 where "ci0 = ci\<lparr>ci_ea := ?ea, ci_mode := ?mode, HeaderVersion := VOLUME_HEADER_VERSION,
      hiddenVolumeSize := rq_hiddenVolumeSize rq, hiddenVolume := rq_hiddenVolumeSize rq \<noteq> 0, VolumeSize := rq_volumeSize rq,
      EncryptedAreaStart := rq_encryptedAreaStart rq, EncryptedAreaLength := rq_encryptedAreaLength rq,
      HeaderFlags := rq_headerFlags rq, SectorSize := rq_sectorSize rq\<rparr>"
  have s0: "sized ci0" "ci_ea ci0 = ?ea" "ci_mode ci0 = ?mode" using sized_open [OF ci] by (simp_all add: ci0_def sized_def)
  show sector: "\<not> bad_sector_size (rq_sectorSize rq)"
    using run derive by (auto simp: write_header_def split: if_splits)
  let ?plain = "plain_header rq ki"
  note plain = plain_header_fields [OF ki(3,4), of rq]
  obtain ci1 enc ci2 where c: "schedule_keys (ce_tables env) dk ci0 = Some (ERR_SUCCESS, ci1)"
    "EncryptBuffer ?u (drop 64 ?plain) 448 ci1 = Some enc" "header = take 64 ?plain @ enc"
    "schedule_keys (ce_master_tables env) (ki_master_keydata ki) ci1 = Some (ERR_SUCCESS, ci2)"
    "ci' = ci2\<lparr>ci_master_keydata := ki_master_keydata ki\<rparr>"
    using run [unfolded write_header_def Let_def, folded ci0_def] derive sector ki(4)
    by (auto simp: tc_vol tc_cfg bind_eq_Some_conv split: if_splits)
  note k1 = schedule_keys_ok [OF em s0 e(1) _ eq _ c(1)]
  have k1: "same_volume (keys_of ?ea ?mode key) ci1" "sized ci1"
    "ci1 = ci0\<lparr>ci_k2 := ci_k2 ci1, ci_ks := ci_ks ci1, ci_ks2 := ci_ks2 ci1, gf_ctx := gf_ctx ci1\<rparr>"
    using k1 span K dk(2) by simp_all
  have s1: "ci_ea ci1 = ?ea" "ci_mode ci1 = ?mode" using s0 by (subst k1(3), simp)+
  have k2: "same_volume (keys_of ?ea ?mode (ki_master_keydata ki)) ci2" "sized ci2"
    "ci2 = ci1\<lparr>ci_k2 := ci_k2 ci2, ci_ks := ci_ks ci2, ci_ks2 := ci_ks2 ci2, gf_ctx := gf_ctx ci2\<rparr>"
    using schedule_keys_ok [OF em k1(2) s1 e(1) _ refl _ c(4)] span ki(4) by simp_all
  have "ci' = ci0\<lparr>ci_k2 := ci_k2 ci2, ci_ks := ci_ks ci2, ci_ks2 := ci_ks2 ci2, gf_ctx := gf_ctx ci2, ci_master_keydata := ki_master_keydata ki\<rparr>"
    unfolding c(5) by (subst k2(3), subst k1(3)) simp
  then show "request_fields rq ci'" "ci_master_keydata ci' = ki_master_keydata ki" "hiddenVolumeOffset ci' = 0"
    using ci by (simp_all add: request_fields_def ci0_def crypto_open_def, auto)
  show "same_volume (keys_of ?ea ?mode (ki_master_keydata ki)) ci'"
    using k2(1) unfolding c(5) same_volume_master .
  obtain a where "volume_ready ?u (keys_of ?ea ?mode key)" by (rule keys_of [OF em _ e(1), of key]) (use span K in simp_all)
  from header_pair [OF this, of 448] have pair: "crypt_pair 448 (\<lambda>b. EncryptBuffer ?u b 448 (keys_of ?ea ?mode key)) (\<lambda>b. DecryptBuffer ?u b 448 (keys_of ?ea ?mode key))"
    by simp
  have "length (drop 64 ?plain) = 448" using plain(1) by simp
  from crypt_pairE [OF pair this] obtain q where q: "EncryptBuffer ?u (drop 64 ?plain) 448 (keys_of ?ea ?mode key) = Some q" "length q = 448"
    "DecryptBuffer ?u q 448 (keys_of ?ea ?mode key) = Some (drop 64 ?plain)" by blast
  then have "enc = q" using EncryptBuffer_same(1) [OF e(1) k1(1)] c(2) by simp
  then show "length header = 512" "take 64 header = ki_salt ki" "decrypted_header ?u ?ea ?mode key header = ?plain"
    using q plain(1,2) ki(3) append_take_drop_id [of 64 ?plain] by (simp_all add: c(3) decrypted_header_def get_at_def)
qed

section \<open>The round trip\<close>

lemma find_first:
  "P x \<Longrightarrow> x \<in> set xs \<Longrightarrow> \<forall>y\<in>set (takeWhile (\<lambda>y. y \<noteq> x) xs). \<not> P y \<Longrightarrow> find P xs = Some x"
proof (induction xs)
  case (Cons a xs)
  then show ?case by (cases "a = x") simp_all
qed simp

text \<open>What \<open>CreateVolumeHeaderInMemory\<close> hands to the part that writes the header.\<close>

lemma create_writes:
  assumes env: "create_env_ok env" and rq: "request_ok rq" and pw: "password_ok p"
    and run: "CreateVolumeHeaderInMemory env bBoot rq p buf = Some (0, header, Some ci)"
  obtains ki ci0 n where "write_header env rq ki ci0 = Some (0, header, Some ci)" "crypto_open True = Some ci0"
    "ki_keyLength ki \<le> length (ki_userKey ki)" "ki_keyLength ki \<le> MAX_PASSWORD" "length (ki_salt ki) = 64"
    "length (ki_master_keydata ki) = 256" "take (ki_keyLength ki) (ki_userKey ki) = password_bytes p"
    "get_pkcs5_iteration_count (rq_prf rq) bBoot = Some n" "ki_noIterations ki = n"
proof -
  let ?ki = "ce_keyInfo env"
  have em: "ea_mode (rq_ea rq) (rq_mode rq)" using rq by (simp add: request_ok_def)
  obtain ci0 key n salt where c: "crypto_open (ce_open env) = Some ci0" "master_keydata_for env rq = Some (Some key)"
    "get_pkcs5_iteration_count (rq_prf rq) bBoot = Some n" "ce_random_salt env = Some salt"
    "write_header env rq (?ki\<lparr>ki_master_keydata := key, ki_userKey := put_at 0 (take (pw_Length p) (pw_Text p)) (ki_userKey ?ki),
        ki_keyLength := pw_Length p, ki_noIterations := n, ki_salt := put_at 0 salt (ki_salt ?ki)\<rparr>) ci0 = Some (0, header, Some ci)"
    using run by (auto simp: CreateVolumeHeaderInMemory_def Let_def bind_eq_Some_conv tc_cfg split: option.splits)
  have e: "length (ki_userKey ?ki) = 64" "length (ki_salt ?ki) = 64" "length (ki_master_keydata ?ki) = 256" "length salt = 64"
    using env c(4) by (simp_all add: create_env_ok_def tc_cfg tc_vol)
  have key: "length key = 256"
  proof (cases "rq_masterKeydata rq")
    case None
    then obtain m r where "ce_random_key env (m * 2) = Some r" "key = put_at 0 r (ki_master_keydata ?ki)" "EAGetKeySize (rq_ea rq) = Some m"
      using c(2) by (auto simp: master_keydata_for_def split: if_splits)
    moreover have "m \<le> 120" using key_sizes(1,3) [OF ea_mode_cases(1) [OF em]] calculation(3) by simp
    ultimately show ?thesis using env e(3) by (simp add: create_env_ok_def)
  next
    case (Some k)
    then show ?thesis using c(2) rq e(3) by (auto simp: master_keydata_for_def request_ok_def tc_cfg)
  qed
  have p: "length (take (pw_Length p) (pw_Text p)) = pw_Length p" "pw_Length p \<le> 64"
    using pw by (simp_all add: password_ok_def tc_vol)
  have op: "crypto_open True = Some ci0" using c(1) by (cases "ce_open env") (simp_all add: crypto_open_def)
  show ?thesis
    by (rule that [OF c(5) op _ _ _ _ _ c(3)]) (use e key p in \<open>simp_all add: take_put_at password_bytes_def tc_vol\<close>)
qed

text \<open>The header of a request looks right under its own candidate, and is not refused.\<close>

lemma created_header_found:
  assumes ce: "create_env_ok ce" and rq: "request_ok rq" and pw: "password_ok p"
    and run: "CreateVolumeHeaderInMemory ce bBoot rq p buf = Some (0, header, Some ci)"
    and re: "read_env_ok re" "re_cpu re = ce_cpu ce" and version: "required_version rq \<le> 0x071a"
    and order: "rq_prf rq \<in> set (re_order re)"
  defines "c \<equiv> (rq_prf rq, rq_mode rq, rq_ea rq)"
  assumes first: "\<forall>d\<in>set (takeWhile (\<lambda>d. d \<noteq> c) (candidates (re_order re))).
      \<not> looks_right (ReadVolumeHeaderRecoveryMode re) (trial_header re bBoot (password_bytes p) header d)"
  shows "\<exists>ci'. ReadVolumeHeader re bBoot header p ToInfo = Some (ERR_SUCCESS, Opened ci', None) \<and>
    request_fields rq ci' \<and> RequiredProgramVersion ci' = required_version rq \<and> ci_pkcs5 ci' = rq_prf rq \<and>
    ci_master_keydata ci' = ci_master_keydata ci \<and> hiddenVolumeOffset ci' = hiddenVolumeOffset ci \<and> same_volume ci' ci"
proof -
  obtain ki ci0 n where k: "write_header ce rq ki ci0 = Some (0, header, Some ci)" "crypto_open True = Some ci0"
    "ki_keyLength ki \<le> length (ki_userKey ki)" "ki_keyLength ki \<le> MAX_PASSWORD" "length (ki_salt ki) = 64"
    "length (ki_master_keydata ki) = 256" "take (ki_keyLength ki) (ki_userKey ki) = password_bytes p"
    "get_pkcs5_iteration_count (rq_prf rq) bBoot = Some n" "ki_noIterations ki = n"
    by (rule create_writes [OF ce rq pw run])
  note w = write_header_ok [OF ce rq k(2-6,1)]
  note f = plain_header_fields [OF k(5,6), of rq]
  let ?h = "plain_header rq ki"
  have h: "trial_header re bBoot (password_bytes p) header c = ?h"
    using w(1,2) k(7-9) re(2) by (simp add: trial_header_def c_def header_keys_def)
  have right: "looks_right (ReadVolumeHeaderRecoveryMode re) ?h" using f by (simp add: looks_right_def)
  have ok: "refusal ?h = None" using f w(8) version by (simp add: refusal_def header_sector_size_def not_less)
  have "c \<in> set (candidates (re_order re))" using order rq by (simp add: candidates_mode c_def request_ok_def)
  then have found: "find (\<lambda>d. looks_right (ReadVolumeHeaderRecoveryMode re) (trial_header re bBoot (password_bytes p) header d)) (candidates (re_order re)) = Some c"
    using find_first [OF _ _ first] right h by simp
  obtain res where "ReadVolumeHeader re bBoot header p ToInfo = Some res" "read_spec re bBoot (password_bytes p) header res"
    using ReadVolumeHeader_spec [OF re(1) _ pw, of header bBoot] w(3) by auto
  then obtain ci' where r: "ReadVolumeHeader re bBoot header p ToInfo = Some (ERR_SUCCESS, Opened ci', None)" "hiddenVolumeOffset ci' = 0"
    "opened_as c n ?h ci'"
    using found h ok k(8) by (auto simp: read_spec_def c_def)
  then have o: "ci' = fields_of ?h ci'" "ci_master_keydata ci' = ki_master_keydata ki" "ci_pkcs5 ci' = rq_prf rq"
    "same_volume (keys_of (rq_ea rq) (rq_mode rq) (ki_master_keydata ki)) ci'"
    using f(3) unfolding opened_as_def c_def by simp_all
  have same: "same_volume ci' ci" by (rule same_volume_both [OF o(4) w(7)])
  have "ci_ea ci' = rq_ea rq" "ci_mode ci' = rq_mode rq"
    using same_volumeD [OF same] w(4) by (simp_all add: request_fields_def)
  moreover have F: "request_fields rq (fields_of ?h x) \<longleftrightarrow> ci_ea x = rq_ea rq \<and> ci_mode x = rq_mode rq"
    "RequiredProgramVersion (fields_of ?h x) = required_version rq" for x
    by (auto simp: request_fields_def fields_of_def read_fields_def Let_def f tc_vol)
  ultimately have "request_fields rq ci'" "RequiredProgramVersion ci' = required_version rq"
    using F [of ci'] unfolding o(1) [symmetric] by simp_all
  then show ?thesis using r(1,2) o(2,3) w(5,6) same by auto
qed

section \<open>Creation succeeds\<close>

lemma schedule_keys_total:
  assumes em: "ea_mode ea mode" "TRIPLEDES \<notin> set (ciphers_of ea)" and ci: "sized ci" "ci_ea ci = ea" "ci_mode ci = mode"
    and u: "hw_ok u" and key: "key_span ea mode \<le> length key"
  shows "\<exists>ci'. schedule_keys True key ci = Some (ERR_SUCCESS, ci')"
proof -
  obtain ci1 where ci1: "set_k2 key ci = Some ci1" "sized ci1" "ci1 = ci\<lparr>ci_k2 := ci_k2 ci1\<rparr>"
    "take (k2_size ea mode) (ci_k2 ci1) = k2_of ea mode key"
    by (rule set_k2_keyed [OF em(1) ci key])
  have f: "ci_ea ci1 = ea" "ci_mode ci1 = mode" using ci by (subst ci1(3), simp)+
  have "EAInit ea (drop (primaryKeyOffset mode) key) (ci_ks ci1) =
      Some (EAInit_loop (ciphers_of ea) (drop (primaryKeyOffset mode) key) (ci_ks ci1) ERR_SUCCESS)"
    using ea_mode_cases(1) [OF em(1)] by (simp add: EAInit_def ea_ciphers_forward_table valid_ea_def)
  moreover have "fst (EAInit_loop (ciphers_of ea) (drop (primaryKeyOffset mode) key) (ci_ks ci1) ERR_SUCCESS) = ERR_SUCCESS"
    using EAInit_loop_success ciphers_of_valid [OF ea_mode_cases(1) [OF em(1)]] em(2) by blast
  ultimately obtain ks where ks: "EAInit ea (drop (primaryKeyOffset mode) key) (ci_ks ci1) = Some (ERR_SUCCESS, ks)"
    by (metis prod.collapse)
  have kd: "keyed ea mode key (ci1\<lparr>ci_ks := ks\<rparr>)" by (rule keyed_intro [OF em(1) ci1(2) f ci1(4) ks])
  obtain b where "EAInitMode True (ci1\<lparr>ci_ks := ks\<rparr>) = Some (True, b)" by (rule keyed_ready [OF em(1) kd u])
  then show ?thesis using ci1(1) f ks by (simp add: schedule_keys_def Let_def)
qed

lemma write_header_total:
  assumes env: "create_env_ok env" "ce_tables env" "ce_master_tables env" and rq: "request_ok rq" "TRIPLEDES \<notin> set (ciphers_of (rq_ea rq))"
    and sector: "\<not> bad_sector_size (rq_sectorSize rq)" and ci: "crypto_open True = Some ci"
    and ki: "ki_keyLength ki \<le> length (ki_userKey ki)" "ki_keyLength ki \<le> MAX_PASSWORD" "length (ki_salt ki) = 64"
      "length (ki_master_keydata ki) = 256"
  shows "\<exists>header ci'. write_header env rq ki ci = Some (0, header, Some ci')"
proof -
  let ?u = "ce_cpu env" and ?ea = "rq_ea rq" and ?mode = "rq_mode rq"
  have em: "ea_mode ?ea ?mode" using rq(1) by (simp add: request_ok_def)
  note span = ea_mode_cases(5) [OF em]
  have e: "hw_ok ?u" "mem_sized (ce_mem env)" "length (ce_dk env) = 256" using env(1) by (simp_all add: create_env_ok_def tc_cfg)
  define key where "key = header_key (rq_prf rq) (take (ki_keyLength ki) (ki_userKey ki)) (ki_salt ki) (ki_noIterations ki)"
  have K: "length key = 192" by (simp add: key_def length_header_key)
  define dk where "dk = put_at 0 key (ce_dk env)"
  have derive: "derive_header_key (ce_mem env) (rq_prf rq) ki (ce_dk env) = Some dk"
    unfolding dk_def key_def by (rule derive_header_key_eq [OF e(2)]) (use rq ki in \<open>simp_all add: request_ok_def tc_cfg\<close>)
  have dk: "length dk = 256" using K e(3) by (simp add: dk_def)
  define ci0 where "ci0 = ci\<lparr>ci_ea := ?ea, ci_mode := ?mode, HeaderVersion := VOLUME_HEADER_VERSION,
      hiddenVolumeSize := rq_hiddenVolumeSize rq, hiddenVolume := rq_hiddenVolumeSize rq \<noteq> 0, VolumeSize := rq_volumeSize rq,
      EncryptedAreaStart := rq_encryptedAreaStart rq, EncryptedAreaLength := rq_encryptedAreaLength rq,
      HeaderFlags := rq_headerFlags rq, SectorSize := rq_sectorSize rq\<rparr>"
  have s0: "sized ci0" "ci_ea ci0 = ?ea" "ci_mode ci0 = ?mode" using sized_open [OF ci] by (simp_all add: ci0_def sized_def)
  obtain ci1 where c1: "schedule_keys True dk ci0 = Some (ERR_SUCCESS, ci1)"
    using schedule_keys_total [OF em rq(2) s0 e(1)] span dk by fastforce
  have sp: "key_span ?ea ?mode \<le> length dk" using span dk by simp
  note k1 = schedule_keys_ok [OF em s0 e(1) sp refl sp c1]
  have s1: "sized ci1" "ci_ea ci1 = ?ea" "ci_mode ci1 = ?mode" "same_volume (keys_of ?ea ?mode dk) ci1"
    using k1(1,2) s0 by (simp_all, (subst k1(3), simp)+)
  obtain ci2 where c2: "schedule_keys True (ki_master_keydata ki) ci1 = Some (ERR_SUCCESS, ci2)"
    using schedule_keys_total [OF em rq(2) s1(1-3) e(1)] span ki(4) by fastforce
  obtain a where "volume_ready ?u (keys_of ?ea ?mode dk)" by (rule keys_of [OF em _ e(1), of dk]) (use span dk in simp_all)
  from header_pair [OF this, of 448] have pair: "crypt_pair 448 (\<lambda>b. EncryptBuffer ?u b 448 (keys_of ?ea ?mode dk)) (\<lambda>b. DecryptBuffer ?u b 448 (keys_of ?ea ?mode dk))"
    by simp
  have "length (drop 64 (plain_header rq ki)) = 448" using plain_header_fields(1) [OF ki(3,4)] by simp
  from crypt_pairE [OF pair this] obtain q where "EncryptBuffer ?u (drop 64 (plain_header rq ki)) 448 ci1 = Some q"
    using EncryptBuffer_same(1) [OF e(1) s1(4)] by metis
  then show ?thesis
    using derive sector c1 c2 env(2,3)
    unfolding write_header_def Let_def ci0_def [symmetric] by (simp add: tc_vol tc_cfg)
qed

lemma create_succeeds:
  assumes env: "create_env_ok env" "ce_open env" "ce_tables env" "ce_master_tables env" "ce_random_salt env \<noteq> None"
    and rq: "request_ok rq" "TRIPLEDES \<notin> set (ciphers_of (rq_ea rq))" "rq_masterKeydata rq \<noteq> None"
    and sector: "\<not> bad_sector_size (rq_sectorSize rq)" and pw: "password_ok p"
  shows "\<exists>header ci. CreateVolumeHeaderInMemory env bBoot rq p buf = Some (0, header, Some ci)"
proof -
  let ?ki = "ce_keyInfo env"
  obtain ci where ci: "crypto_open True = Some ci" by (simp add: crypto_open_def)
  obtain n where n: "get_pkcs5_iteration_count (rq_prf rq) bBoot = Some n" using iteration_count [of "rq_prf rq" bBoot] rq(1) unfolding request_ok_def by blast
  obtain k salt where k: "rq_masterKeydata rq = Some k" "ce_random_salt env = Some salt" using rq(3) env(5) by blast
  let ?ki' = "?ki\<lparr>ki_master_keydata := put_at 0 (take 256 k) (ki_master_keydata ?ki),
    ki_userKey := put_at 0 (take (pw_Length p) (pw_Text p)) (ki_userKey ?ki), ki_keyLength := pw_Length p, ki_noIterations := n,
    ki_salt := put_at 0 salt (ki_salt ?ki)\<rparr>"
  have e: "length (ki_userKey ?ki) = 64" "length (ki_salt ?ki) = 64" "length (ki_master_keydata ?ki) = 256" "length salt = 64" "length k = 256"
    using env(1) k rq(1) by (simp_all add: create_env_ok_def request_ok_def tc_cfg tc_vol)
  have p: "length (take (pw_Length p) (pw_Text p)) = pw_Length p" "pw_Length p \<le> 64"
    using pw by (simp_all add: password_ok_def tc_vol)
  have "\<exists>header ci'. write_header env rq ?ki' ci = Some (0, header, Some ci')"
    by (rule write_header_total [OF env(1,3,4) rq(1,2) sector ci]) (use e p in \<open>simp_all add: tc_vol\<close>)
  then show ?thesis
    using ci n k env(2) by (simp add: CreateVolumeHeaderInMemory_def Let_def master_keydata_for_def tc_cfg)
qed

section \<open>The order of the trials\<close>

lemma find_unique:
  assumes "set xs = set ys" "\<And>x y. x \<in> set xs \<Longrightarrow> y \<in> set xs \<Longrightarrow> P x \<Longrightarrow> P y \<Longrightarrow> x = y"
  shows "find P xs = find P ys"
proof (cases "find P xs")
  case None
  then have "find P ys = None" using assms(1) by (auto simp: find_None_iff)
  then show ?thesis using None by simp
next
  case (Some x)
  then have "x \<in> set xs" "P x" by (metis find_Some_iff nth_mem)+
  moreover obtain y where y: "find P ys = Some y"
    using calculation assms(1) by (cases "find P ys") (auto simp: find_None_iff)
  then have "y \<in> set ys" "P y" by (metis find_Some_iff nth_mem)+
  ultimately show ?thesis using assms Some y by metis
qed

lemma read_spec_order:
  assumes "set o1 = set o2"
    and one: "\<And>c d. c \<in> set (candidates o1) \<Longrightarrow> d \<in> set (candidates o1) \<Longrightarrow>
      looks_right (ReadVolumeHeaderRecoveryMode env) (trial_header env bBoot pw enc c) \<Longrightarrow>
      looks_right (ReadVolumeHeaderRecoveryMode env) (trial_header env bBoot pw enc d) \<Longrightarrow> c = d"
  shows "read_spec (env\<lparr>re_order := o1\<rparr>) bBoot pw enc = read_spec (env\<lparr>re_order := o2\<rparr>) bBoot pw enc"
proof -
  have t: "trial_header (env\<lparr>re_order := x\<rparr>) bBoot pw enc = trial_header env bBoot pw enc" for x
    by (simp add: trial_header_def)
  have "set (candidates o1) = set (candidates o2)" using assms(1) by (auto simp: candidates_mode)
  from find_unique [OF this, of "\<lambda>c. looks_right (ReadVolumeHeaderRecoveryMode env) (trial_header env bBoot pw enc c)"] one
  show ?thesis by (intro ext) (simp add: read_spec_def t)
qed

end
