(* ===== verification/Header_Threads.thy ===== *)
theory Header_Threads
  imports Volumes "HOL-Library.Multiset"
begin

text \<open>
  The loop of \<open>ReadVolumeHeader\<close> over the key derivation functions when there are several threads: it
  queues key derivations on the thread pool as long as threads are idle, and tests the keys in
  the order in which they are completed. A state is the loop variable \<open>enqPkcs5Prf\<close> at the head of the
  loop, the work items, and the functions tested so far; \<open>mt_step\<close> is one run of the loop's body in
  which no test succeeds. \<open>mt_safe\<close> is the invariant, \<open>mt_measure\<close> bounds the runs.
\<close>

section \<open>The loop\<close>

abbreviation (input) FIRST_PRF_ID :: nat where "FIRST_PRF_ID \<equiv> 1"
abbreviation (input) LAST_PRF_ID :: nat where "LAST_PRF_ID \<equiv> 4"

text \<open>A work item is \<open>None\<close> when it is free.\<close>

record mt_state =
  enqPkcs5Prf :: nat
  workItems :: "nat option list"
  tested :: "nat list"

definition queuedWorkItems :: "nat option list \<Rightarrow> nat" where
  "queuedWorkItems items = length (filter (\<lambda>i. i \<noteq> None) items)"

definition mt_init :: mt_state where
  "mt_init = \<lparr>enqPkcs5Prf = FIRST_PRF_ID, workItems = replicate 4 None, tested = []\<rparr>"

text \<open>The condition of the \<open>for\<close> loop, and the search for the first free item.\<close>

definition mt_continues :: "mt_state \<Rightarrow> bool" where
  "mt_continues s \<longleftrightarrow> enqPkcs5Prf s \<le> LAST_PRF_ID \<or> queuedWorkItems (workItems s) > 0"

fun enqueue_item :: "nat \<Rightarrow> nat option list \<Rightarrow> nat option list" where
  "enqueue_item p [] = []"
| "enqueue_item p (None # items) = Some p # items"
| "enqueue_item p (Some q # items) = Some q # enqueue_item p items"

definition room :: "nat \<Rightarrow> mt_state \<Rightarrow> bool" where
  "room threads s \<longleftrightarrow> queuedWorkItems (workItems s) < threads \<and> enqPkcs5Prf s \<le> LAST_PRF_ID"

text \<open>
  One run of the body: an item is queued and the loop goes on at once; or it is the last one and the
  loop waits for a completed key; or there is no room, and the loop variable is decremented before
  the loop waits and increments it again. Any queued derivation may be the one that is completed.
\<close>

inductive mt_step :: "nat \<Rightarrow> mt_state \<Rightarrow> mt_state \<Rightarrow> bool" for threads where
  queue: "mt_continues s \<Longrightarrow> room threads s \<Longrightarrow> enqPkcs5Prf s < LAST_PRF_ID \<Longrightarrow>
    mt_step threads s (s\<lparr>enqPkcs5Prf := enqPkcs5Prf s + 1, workItems := enqueue_item (enqPkcs5Prf s) (workItems s)\<rparr>)"
| queue_last: "mt_continues s \<Longrightarrow> room threads s \<Longrightarrow> enqPkcs5Prf s = LAST_PRF_ID \<Longrightarrow>
    items = enqueue_item (enqPkcs5Prf s) (workItems s) \<Longrightarrow> j < length items \<Longrightarrow> items ! j = Some p \<Longrightarrow>
    mt_step threads s (s\<lparr>enqPkcs5Prf := enqPkcs5Prf s + 1, workItems := items[j := None], tested := tested s @ [p]\<rparr>)"
| wait: "mt_continues s \<Longrightarrow> \<not> room threads s \<Longrightarrow> j < length (workItems s) \<Longrightarrow> workItems s ! j = Some p \<Longrightarrow>
    mt_step threads s (s\<lparr>workItems := (workItems s)[j := None], tested := tested s @ [p]\<rparr>)"

inductive_cases mt_stepE: "mt_step threads s t"

section \<open>The invariant\<close>

definition pending :: "nat option list \<Rightarrow> nat multiset" where
  "pending items = mset (map the (filter (\<lambda>i. i \<noteq> None) items))"

lemma queued_size: "queuedWorkItems items = size (pending items)"
  by (simp add: queuedWorkItems_def pending_def del: mset_map mset_filter)

lemma pending_enqueue: "None \<in> set items \<Longrightarrow> pending (enqueue_item p items) = add_mset p (pending items)"
  by (induction p items rule: enqueue_item.induct) (auto simp: pending_def)

lemma length_enqueue [simp]: "length (enqueue_item p items) = length items"
  by (induction p items rule: enqueue_item.induct) auto

lemma pending_take: "j < length items \<Longrightarrow> items ! j = Some p \<Longrightarrow> pending items = add_mset p (pending (items[j := None]))"
proof (induction items arbitrary: j)
  case (Cons i items)
  then show ?case by (cases j) (auto simp: pending_def)
qed simp

lemma none_free: "None \<notin> set items \<Longrightarrow> size (pending items) = length items"
  by (induction items) (auto simp: pending_def simp del: mset_map mset_filter, metis not_None_eq)

text \<open>Every function below the loop variable is queued or tested, once.\<close>

definition mt_safe :: "mt_state \<Rightarrow> bool" where
  "mt_safe s \<longleftrightarrow> 1 \<le> enqPkcs5Prf s \<and> enqPkcs5Prf s \<le> 5 \<and> length (workItems s) = 4 \<and>
     mset (tested s) + pending (workItems s) = mset [1..<enqPkcs5Prf s]"

lemma mt_safe_init: "mt_safe mt_init"
  by (simp add: mt_safe_def mt_init_def pending_def)

lemma mt_safe_free: "mt_safe s \<Longrightarrow> enqPkcs5Prf s \<le> 4 \<Longrightarrow> None \<in> set (workItems s)"
proof (rule ccontr)
  assume s: "mt_safe s" "enqPkcs5Prf s \<le> 4" and n: "None \<notin> set (workItems s)"
  have "size (mset (tested s) + pending (workItems s)) = enqPkcs5Prf s - 1"
    using s(1) by (simp only: mt_safe_def) simp
  then show False using none_free [OF n] s by (simp add: mt_safe_def)
qed

lemma mset_upt_Suc: "1 \<le> n \<Longrightarrow> mset [1..<n + 1] = add_mset n (mset [1..<n])"
  by simp

lemma mt_safe_step: "mt_step threads s t \<Longrightarrow> mt_safe s \<Longrightarrow> mt_safe t"
proof (induction rule: mt_step.induct)
  case (queue s)
  then show ?case
    using mt_safe_free [of s] pending_enqueue [of "workItems s" "enqPkcs5Prf s"] mset_upt_Suc [of "enqPkcs5Prf s"]
    by (simp add: mt_safe_def del: mset_upt)
next
  case (queue_last s items j p)
  have "pending items = add_mset (enqPkcs5Prf s) (pending (workItems s))"
    using mt_safe_free [of s] queue_last by (simp add: pending_enqueue)
  then show ?case
    using pending_take [OF queue_last(5,6)] queue_last(3,7) mset_upt_Suc [of "enqPkcs5Prf s"]
    by (auto simp: mt_safe_def queue_last(4) simp del: mset_upt) (metis union_mset_add_mset_right)
next
  case (wait s j p)
  then show ?case using pending_take [OF wait(3,4)] by (simp add: mt_safe_def)
qed

lemma mt_safe_run: "(mt_step threads)\<^sup>*\<^sup>* s t \<Longrightarrow> mt_safe s \<Longrightarrow> mt_safe t"
  by (induction rule: rtranclp_induct) (auto intro: mt_safe_step)

section \<open>The loop ends\<close>

definition mt_measure :: "mt_state \<Rightarrow> nat" where
  "mt_measure s = 2 * (5 - enqPkcs5Prf s) + queuedWorkItems (workItems s)"

lemma mt_measure_step: "mt_step threads s t \<Longrightarrow> mt_safe s \<Longrightarrow> mt_measure t < mt_measure s"
proof (induction rule: mt_step.induct)
  case (queue s)
  then show ?case
    using mt_safe_free [of s] by (simp add: mt_measure_def queued_size pending_enqueue)
next
  case (queue_last s items j p)
  have "pending items = add_mset (enqPkcs5Prf s) (pending (workItems s))"
    using mt_safe_free [of s] queue_last by (simp add: pending_enqueue)
  then have "size (pending (items[j := None])) = size (pending (workItems s))"
    using pending_take [OF queue_last(5,6)] by (metis add_mset_eq_single size_add_mset nat.inject)
  then show ?case using queue_last by (simp add: mt_measure_def queued_size)
next
  case (wait s j p)
  then show ?case using pending_take [OF wait(3,4)] by (simp add: mt_measure_def queued_size)
qed

lemma mt_progress:
  assumes "mt_safe s" "mt_continues s" "0 < threads"
  shows "\<exists>t. mt_step threads s t"
proof -
  have some: "\<exists>j p. j < length items \<and> items ! j = Some p" if "0 < queuedWorkItems items" for items :: "nat option list"
  proof -
    have "\<exists>x\<in>set items. x \<noteq> None"
      using that unfolding queuedWorkItems_def length_greater_0_conv filter_empty_conv by blast
    then show ?thesis by (metis in_set_conv_nth not_None_eq)
  qed
  show ?thesis
  proof (cases "room threads s")
    case True
    show ?thesis
    proof (cases "enqPkcs5Prf s < LAST_PRF_ID")
      case False
      have "0 < queuedWorkItems (enqueue_item (enqPkcs5Prf s) (workItems s))"
        using mt_safe_free [OF assms(1)] True by (simp add: queued_size pending_enqueue room_def)
      then show ?thesis using some mt_step.queue_last [OF assms(2) True] False True by (metis room_def le_neq_implies_less)
    qed (use mt_step.queue [OF assms(2) True] in blast)
  next
    case False
    then have "0 < queuedWorkItems (workItems s)" using assms(2,3) by (auto simp: room_def mt_continues_def)
    then show ?thesis using some mt_step.wait [OF assms(2) False] by blast
  qed
qed

text \<open>So a run has at most eight steps, and at its end every function has been tested once.\<close>

lemma mt_run_length: "(mt_step threads ^^ n) s t \<Longrightarrow> mt_safe s \<Longrightarrow> n + mt_measure t \<le> mt_measure s"
proof (induction n arbitrary: t)
  case (Suc n)
  then obtain r where r: "(mt_step threads ^^ n) s r" "mt_step threads r t" by auto
  have "mt_safe r" using mt_safe_run [of threads s r] r(1) Suc.prems(2) by (simp add: relpowp_imp_rtranclp)
  then show ?case using Suc.IH [OF r(1) Suc.prems(2)] mt_measure_step [OF r(2)] by simp
qed simp

lemma mt_reaches_end:
  "0 < threads \<Longrightarrow> mt_safe s \<Longrightarrow> \<exists>t. (mt_step threads)\<^sup>*\<^sup>* s t \<and> \<not> mt_continues t"
proof (induction "mt_measure s" arbitrary: s rule: less_induct)
  case less
  show ?case
  proof (cases "mt_continues s")
    case True
    then obtain t where t: "mt_step threads s t" using mt_progress less.prems by blast
    then show ?thesis
      using less.hyps [OF mt_measure_step [OF t less.prems(2)] less.prems(1) mt_safe_step [OF t less.prems(2)]]
      by (metis converse_rtranclp_into_rtranclp)
  qed blast
qed

lemma mt_end:
  assumes "mt_safe s" "\<not> mt_continues s"
  shows "mset (tested s) = mset [1, 2, 3, 4]"
proof -
  have "enqPkcs5Prf s = 5" "pending (workItems s) = {#}"
    using assms by (auto simp: mt_safe_def mt_continues_def queued_size)
  then show ?thesis using assms(1) by (simp add: mt_safe_def upt_rec numeral_eq_Suc)
qed

end
