(* ===== verification/Encryption_Pool.thy ===== *)
theory Encryption_Pool
  imports Data_Units
begin

text \<open>
  The thread pool of Common/EncryptionThreadPool.c: starting and stopping it, the division of a run of
  data units into fragments, and \<open>EncryptionThreadPoolDoWork\<close> and \<open>EncryptionThreadProc\<close> as a step relation
  over the ring of work items, with its mutexes and events, any number of calling threads and any interleaving.
\<close>

section \<open>Starting and stopping\<close>

definition TC_ENC_THREAD_POOL_MAX_THREAD_COUNT :: nat where "TC_ENC_THREAD_POOL_MAX_THREAD_COUNT = 64"
definition TC_ENC_THREAD_POOL_QUEUE_SIZE :: nat where
  "TC_ENC_THREAD_POOL_QUEUE_SIZE = TC_ENC_THREAD_POOL_MAX_THREAD_COUNT * 2"

text \<open>
  The file's variables that tell whether the pool runs, and what the system holds for it: the open
  handles of events, mutexes and threads, and the threads that have been started.
\<close>

record pool_control =
  ThreadPoolRunning :: bool
  StopPending :: bool
  ThreadCount :: nat
  open_handles :: nat
  live_threads :: nat

definition EncryptionThreadPoolStop :: "pool_control \<Rightarrow> pool_control" where
  "EncryptionThreadPoolStop p =
     (if \<not> ThreadPoolRunning p then p
      else p\<lparr>ThreadPoolRunning := False, StopPending := True, ThreadCount := 0,
             open_handles := open_handles p - (4 + TC_ENC_THREAD_POOL_QUEUE_SIZE), live_threads := 0\<rparr>)"

text \<open>The processors that are left when some are to be kept free.\<close>

definition available_cpus :: "u64 \<Rightarrow> u64 \<Rightarrow> u64" where
  "available_cpus cpuCount encryptionFreeCpuCount =
     (if cpuCount > encryptionFreeCpuCount then cpuCount - encryptionFreeCpuCount else cpuCount)"

text \<open>\<open>created i\<close> tells whether the creation number \<open>i\<close> of an event, mutex or thread succeeds.\<close>

fun create_handles :: "(nat \<Rightarrow> bool) \<Rightarrow> nat \<Rightarrow> nat \<Rightarrow> pool_control \<Rightarrow> bool \<times> pool_control" where
  "create_handles created i 0 p = (True, p)"
| "create_handles created i (Suc n) p =
     (if created i then create_handles created (Suc i) n (p\<lparr>open_handles := open_handles p + 1\<rparr>) else (False, p))"

fun start_threads :: "(nat \<Rightarrow> bool) \<Rightarrow> nat \<Rightarrow> nat \<Rightarrow> pool_control \<Rightarrow> bool \<times> pool_control" where
  "start_threads created i 0 p = (True, p)"
| "start_threads created i (Suc n) p =
     (if created i then
        start_threads created (Suc i) n
          (p\<lparr>open_handles := open_handles p + 1, live_threads := live_threads p + 1, ThreadCount := ThreadCount p + 1\<rparr>)
      else (False, EncryptionThreadPoolStop p))"

definition EncryptionThreadPoolStart :: "(nat \<Rightarrow> bool) \<Rightarrow> u64 \<Rightarrow> u64 \<Rightarrow> pool_control \<Rightarrow> bool \<times> pool_control" where
  "EncryptionThreadPoolStart created processors encryptionFreeCpuCount p =
     (if ThreadPoolRunning p then (True, p)
      else
        let cpuCount = available_cpus processors encryptionFreeCpuCount in
        if cpuCount < 2 then (True, p)
        else
          let cpuCount = (if unat cpuCount > TC_ENC_THREAD_POOL_MAX_THREAD_COUNT then TC_ENC_THREAD_POOL_MAX_THREAD_COUNT
                          else unat cpuCount);
              (ok, p) = create_handles created 0 4 (p\<lparr>StopPending := False\<rparr>) in
          if \<not> ok then (False, p)
          else
            let (ok, p) = create_handles created 4 TC_ENC_THREAD_POOL_QUEUE_SIZE p in
            if \<not> ok then (False, EncryptionThreadPoolStop p)
            else
              let (ok, p) = start_threads created (4 + TC_ENC_THREAD_POOL_QUEUE_SIZE) cpuCount (p\<lparr>ThreadCount := 0\<rparr>) in
              if \<not> ok then (False, p) else (True, p\<lparr>ThreadPoolRunning := True\<rparr>))"

definition GetEncryptionThreadCount :: "pool_control \<Rightarrow> nat" where
  "GetEncryptionThreadCount p = (if ThreadPoolRunning p then ThreadCount p else 0)"

definition GetMaxEncryptionThreadCount :: nat where "GetMaxEncryptionThreadCount = TC_ENC_THREAD_POOL_MAX_THREAD_COUNT"

text \<open>
  What a start that fails has created stays: \<open>EncryptionThreadPoolStop\<close> returns at once, because the pool
  does not run yet.
\<close>

lemma stop_idle: "\<not> ThreadPoolRunning p \<Longrightarrow> EncryptionThreadPoolStop p = p"
  by (simp add: EncryptionThreadPoolStop_def)

lemma create_handles_result:
  "create_handles created i n p = (ok, p') \<Longrightarrow> \<exists>k\<le>n. (\<forall>j<k. created (i + j)) \<and> (ok \<longleftrightarrow> k = n) \<and> (\<not> ok \<longrightarrow> \<not> created (i + k)) \<and>
     p' = p\<lparr>open_handles := open_handles p + k\<rparr>"
proof (induction created i n p rule: create_handles.induct)
  case (2 created i n p)
  show ?case
  proof (cases "created i")
    case True
    then obtain k where k: "k \<le> n" "\<forall>j<k. created (Suc i + j)" "ok \<longleftrightarrow> k = n" "\<not> ok \<longrightarrow> \<not> created (Suc i + k)"
      "p' = p\<lparr>open_handles := open_handles p + 1 + k\<rparr>"
      using 2 by auto
    have "created (i + j)" if "j < Suc k" for j using k(2) True that by (cases j) auto
    then show ?thesis using k by (intro exI [of _ "Suc k"]) auto
  qed (use 2 in auto)
qed auto

lemma start_threads_result:
  "start_threads created i n p = (ok, p') \<Longrightarrow> \<not> ThreadPoolRunning p \<Longrightarrow>
     \<exists>k\<le>n. (\<forall>j<k. created (i + j)) \<and> (ok \<longleftrightarrow> k = n) \<and> (\<not> ok \<longrightarrow> \<not> created (i + k)) \<and>
     p' = p\<lparr>open_handles := open_handles p + k, live_threads := live_threads p + k, ThreadCount := ThreadCount p + k\<rparr>"
proof (induction created i n p rule: start_threads.induct)
  case (2 created i n p)
  show ?case
  proof (cases "created i")
    case True
    then obtain k where k: "k \<le> n" "\<forall>j<k. created (Suc i + j)" "ok \<longleftrightarrow> k = n" "\<not> ok \<longrightarrow> \<not> created (Suc i + k)"
      "p' = p\<lparr>open_handles := open_handles p + 1 + k, live_threads := live_threads p + 1 + k, ThreadCount := ThreadCount p + 1 + k\<rparr>"
      using 2 by auto
    have "created (i + j)" if "j < Suc k" for j using k(2) True that by (cases j) auto
    then show ?thesis using k by (intro exI [of _ "Suc k"]) auto
  qed (use 2 in \<open>auto simp: stop_idle\<close>)
qed auto

lemma append_created: "\<forall>j<k. created j \<Longrightarrow> \<forall>j<l. created (k + j) \<Longrightarrow> \<forall>j<k + l. created j" for k l :: nat
  by (metis add_diff_inverse_nat nat_add_left_cancel_less)

definition start_count :: "u64 \<Rightarrow> nat" where
  "start_count cpuCount = (if unat cpuCount > TC_ENC_THREAD_POOL_MAX_THREAD_COUNT then TC_ENC_THREAD_POOL_MAX_THREAD_COUNT else unat cpuCount)"

lemma start_result:
  assumes "\<not> ThreadPoolRunning p" "EncryptionThreadPoolStart created processors free p = (ok, p')" "\<not> available_cpus processors free < 2"
  shows "\<exists>k. (\<forall>i<k. created i) \<and> (ok \<longleftrightarrow> k = 132 + start_count (available_cpus processors free)) \<and> (\<not> ok \<longrightarrow> \<not> created k) \<and>
    open_handles p' = open_handles p + k \<and> live_threads p' = live_threads p + (k - 132) \<and> ThreadPoolRunning p' = ok \<and>
    (ok \<longrightarrow> ThreadCount p' = start_count (available_cpus processors free))"
proof -
  have Q: "TC_ENC_THREAD_POOL_QUEUE_SIZE = 128"
    by (simp add: TC_ENC_THREAD_POOL_QUEUE_SIZE_def TC_ENC_THREAD_POOL_MAX_THREAD_COUNT_def)
  define n where "n = start_count (available_cpus processors free)"
  have n: "0 < n" using assms(3) by (auto simp: n_def start_count_def TC_ENC_THREAD_POOL_MAX_THREAD_COUNT_def word_less_nat_alt)
  note start = EncryptionThreadPoolStart_def start_count_def [symmetric] n_def [symmetric]
  obtain ok1 p1 where 1: "create_handles created 0 4 (p\<lparr>StopPending := False\<rparr>) = (ok1, p1)" by (metis surj_pair)
  obtain k1 where k1: "k1 \<le> 4" "\<forall>j<k1. created j" "ok1 \<longleftrightarrow> k1 = 4" "\<not> ok1 \<longrightarrow> \<not> created k1"
    "p1 = p\<lparr>StopPending := False, open_handles := open_handles p + k1\<rparr>"
    using create_handles_result [OF 1] by auto
  show ?thesis
  proof (cases ok1)
    case False
    then show ?thesis using assms 1 k1 by (intro exI [of _ k1]) (auto simp: start Let_def split: if_splits)
  next
    case True
    obtain ok2 p2 where 2: "create_handles created 4 128 p1 = (ok2, p2)" by (metis surj_pair)
    obtain k2 where k2: "k2 \<le> 128" "\<forall>j<k2. created (4 + j)" "ok2 \<longleftrightarrow> k2 = 128" "\<not> ok2 \<longrightarrow> \<not> created (4 + k2)"
      "p2 = p1\<lparr>open_handles := open_handles p1 + k2\<rparr>"
      using create_handles_result [OF 2] by auto
    have c2: "\<forall>j<4 + k2. created j" using append_created [of 4 created k2] k1 True k2(2) by simp
    show ?thesis
    proof (cases ok2)
      case False
      then show ?thesis
        using assms 1 2 k1 k2 True c2 n by (intro exI [of _ "4 + k2"]) (auto simp: start Let_def Q stop_idle split: if_splits)
    next
      case ok2: True
      obtain ok3 p3 where 3: "start_threads created 132 n (p2\<lparr>ThreadCount := 0\<rparr>) = (ok3, p3)" by (metis surj_pair)
      have idle: "\<not> ThreadPoolRunning (p2\<lparr>ThreadCount := 0\<rparr>)" using assms(1) k1(5) k2(5) by simp
      obtain k3 where k3: "k3 \<le> n" "\<forall>j<k3. created (132 + j)" "ok3 \<longleftrightarrow> k3 = n" "\<not> ok3 \<longrightarrow> \<not> created (132 + k3)"
        "p3 = p2\<lparr>ThreadCount := k3, open_handles := open_handles p2 + k3, live_threads := live_threads p2 + k3\<rparr>"
        using start_threads_result [OF 3 idle] by auto
      have c3: "\<forall>j<132 + k3. created j" using append_created [of 132 created k3] c2 k2(3) ok2 k3(2) by simp
      have "ok3 = ok \<and> p' = (if ok then p3\<lparr>ThreadPoolRunning := True\<rparr> else p3)"
        using assms 1 2 3 True ok2 by (auto simp: start Let_def Q split: if_splits)
      then show ?thesis
        using k1(3,5) k2(3,5) k3 True ok2 assms(1) c3 unfolding n_def [symmetric] by (intro exI [of _ "132 + k3"]) auto
    qed
  qed
qed

lemma start_failure:
  assumes "\<not> ThreadPoolRunning p" "EncryptionThreadPoolStart created processors free p = (False, p')"
  shows "\<exists>k. (\<forall>i<k. created i) \<and> \<not> created k \<and> open_handles p' = open_handles p + k \<and> live_threads p' = live_threads p + (k - 132) \<and>
    \<not> ThreadPoolRunning p'"
proof -
  have "\<not> available_cpus processors free < 2" using assms by (auto simp: EncryptionThreadPoolStart_def Let_def)
  from start_result [OF assms this] show ?thesis by blast
qed

text \<open>Nor does a stop close the handles of the threads.\<close>

lemma stop_leaves_thread_handles:
  assumes "ThreadPoolRunning p" "4 + TC_ENC_THREAD_POOL_QUEUE_SIZE + ThreadCount p \<le> open_handles p"
  shows "ThreadCount p \<le> open_handles (EncryptionThreadPoolStop p)"
  using assms by (simp add: EncryptionThreadPoolStop_def)

section \<open>The fragments of a call\<close>

datatype work_type = EncryptDataUnitsWork | DecryptDataUnitsWork | DeriveKeyWork

text \<open>The arguments of a call of \<open>EncryptionThreadPoolDoWork\<close>, apart from the data.\<close>

record work_request =
  wr_type :: work_type
  wr_startUnitNo :: u64
  wr_unitCount :: u32
  wr_cryptoInfo :: CRYPTO_INFO

text \<open>The work on a run of data units in the current thread; other types of work are a fatal exception.\<close>

definition pool_work :: "cpu \<Rightarrow> work_type \<Rightarrow> bytes \<Rightarrow> u64 \<Rightarrow> u32 \<Rightarrow> CRYPTO_INFO \<Rightarrow> bytes option" where
  "pool_work u type data startUnitNo unitCount cryptoInfo =
     (case type of
        DecryptDataUnitsWork \<Rightarrow> DecryptDataUnitsCurrentThread u data startUnitNo (ucast unitCount) cryptoInfo
      | EncryptDataUnitsWork \<Rightarrow> EncryptDataUnitsCurrentThread u data startUnitNo (ucast unitCount) cryptoInfo
      | DeriveKeyWork \<Rightarrow> None)"

text \<open>
  The local variables of the loop that queues the fragments; \<open>fragmentOffset\<close> is \<open>fragmentData - data\<close>.
  The product of the loop is one of 32-bit words.
\<close>

record fragments =
  fragmentCount :: u32
  unitsPerFragment :: u32
  remainder :: u32
  fragmentOffset :: nat
  fragmentStartUnitNo :: u64

definition first_fragment :: "u32 \<Rightarrow> work_request \<Rightarrow> fragments" where
  "first_fragment threadCount r =
     (let unitCount = wr_unitCount r in
      if unitCount \<le> threadCount then
        \<lparr>fragmentCount = unitCount, unitsPerFragment = 1, remainder = 0, fragmentOffset = 0,
         fragmentStartUnitNo = wr_startUnitNo r\<rparr>
      else
        let rem = unitCount mod threadCount in
        \<lparr>fragmentCount = threadCount,
         unitsPerFragment = (if rem > 0 then unitCount div threadCount + 1 else unitCount div threadCount), remainder = rem,
         fragmentOffset = 0, fragmentStartUnitNo = wr_startUnitNo r\<rparr>)"

definition next_fragment :: "fragments \<Rightarrow> fragments" where
  "next_fragment fr =
     (let fr = fr\<lparr>fragmentCount := fragmentCount fr - 1,
                 fragmentOffset := fragmentOffset fr + unat (unitsPerFragment fr * word_of_nat ENCRYPTION_DATA_UNIT_SIZE),
                 fragmentStartUnitNo := fragmentStartUnitNo fr + ucast (unitsPerFragment fr)\<rparr> in
      if remainder fr > 0 then
        (let fr = fr\<lparr>remainder := remainder fr - 1\<rparr> in
         if remainder fr = 0 then fr\<lparr>unitsPerFragment := unitsPerFragment fr - 1\<rparr> else fr)
      else fr)"

section \<open>The pool\<close>

datatype work_item_state = WorkItemFree | WorkItemReady | WorkItemBusy

text \<open>
  An entry of the queue. \<open>FirstFragment\<close> is the position of the entry it points to; \<open>Data\<close> is the caller whose
  buffer it points into, and the offset there; \<open>CryptoInfo\<close> is the record it points to.
\<close>

record work_item =
  State :: work_item_state
  Type :: work_type
  ItemCompletedEvent :: bool
  FirstFragment :: nat
  OutstandingFragmentCount :: int
  CryptoInfo :: "CRYPTO_INFO option"
  Data :: "nat \<times> nat"
  StartUnitNo :: u64
  UnitCount :: u32

text \<open>
  Where a thread of the pool is: outside the mutex, in it looking at the entry in turn, in it
  asleep on \<open>WorkItemReadyEvent\<close>, or at an entry it has taken: before the work, after the work, after the
  entry's release, after it has counted the last fragment.
\<close>

datatype phase = Running | Ran | Released | Completing
datatype thread_pc = Outside | Scanning | Asleep | At phase nat

text \<open>
  Where a caller is: before the mutex, queueing (asleep on \<open>WorkItemCompletedEvent\<close> or not, with the
  first fragment's entry once it is known), waiting for the first entry's event, woken by it, or back.
\<close>

datatype caller_pc = Entering | Enqueuing bool "nat option" fragments | Waiting nat | Woken nat | Returned

record pool =
  WorkItemQueue :: "nat \<Rightarrow> work_item"
  EnqueuePosition :: nat
  DequeuePosition :: nat
  EnqueueMutex :: "nat option"
  DequeueMutex :: "nat option"
  WorkItemReadyEvent :: bool
  WorkItemCompletedEvent :: bool
  threads :: "nat \<Rightarrow> thread_pc"
  callers :: "nat \<Rightarrow> caller_pc"
  buffers :: "nat \<Rightarrow> bytes"

text \<open>The machine, the number of threads of the running pool, and the calls, one by each of some threads of the program.\<close>

record pool_env =
  pe_cpu :: cpu
  pe_threads :: u32
  pe_callers :: nat
  pe_calls :: "nat \<Rightarrow> work_request"

definition free_item :: work_item where
  "free_item = \<lparr>State = WorkItemFree, Type = EncryptDataUnitsWork, ItemCompletedEvent = False, FirstFragment = 0,
     OutstandingFragmentCount = 0, CryptoInfo = None, Data = (0, 0), StartUnitNo = 0, UnitCount = 0\<rparr>"

definition pool_init :: "(nat \<Rightarrow> bytes) \<Rightarrow> pool" where
  "pool_init data = \<lparr>WorkItemQueue = \<lambda>s. free_item, EnqueuePosition = 0, DequeuePosition = 0, EnqueueMutex = None, DequeueMutex = None,
     WorkItemReadyEvent = False, WorkItemCompletedEvent = False, threads = \<lambda>w. Outside, callers = \<lambda>i. Entering, buffers = data\<rparr>"

definition next_position :: "nat \<Rightarrow> nat" where
  "next_position p = (if p + 1 \<ge> TC_ENC_THREAD_POOL_QUEUE_SIZE then 0 else p + 1)"

definition item :: "pool \<Rightarrow> nat \<Rightarrow> work_item" where
  "item st s = WorkItemQueue st s"

definition set_item :: "nat \<Rightarrow> work_item \<Rightarrow> pool \<Rightarrow> pool" where
  "set_item s x st = st\<lparr>WorkItemQueue := (WorkItemQueue st)(s := x)\<rparr>"

definition set_caller :: "nat \<Rightarrow> caller_pc \<Rightarrow> pool \<Rightarrow> pool" where
  "set_caller i pc st = st\<lparr>callers := (callers st)(i := pc)\<rparr>"

definition set_thread :: "nat \<Rightarrow> thread_pc \<Rightarrow> pool \<Rightarrow> pool" where
  "set_thread w pc st = st\<lparr>threads := (threads st)(w := pc)\<rparr>"

definition set_buffer :: "nat \<Rightarrow> bytes \<Rightarrow> pool \<Rightarrow> pool" where
  "set_buffer i b st = st\<lparr>buffers := (buffers st)(i := b)\<rparr>"

text \<open>The entry that a fragment is queued in.\<close>

definition fill_item :: "nat \<Rightarrow> work_request \<Rightarrow> nat \<Rightarrow> fragments \<Rightarrow> work_item \<Rightarrow> work_item" where
  "fill_item i r first fr x =
     x\<lparr>Type := wr_type r, FirstFragment := first, CryptoInfo := Some (wr_cryptoInfo r), Data := (i, fragmentOffset fr),
       UnitCount := unitsPerFragment fr, StartUnitNo := fragmentStartUnitNo fr, State := WorkItemReady\<rparr>"

text \<open>
  The steps. A position is advanced when its entry is filled or taken: until then only the holder
  of the mutex could see that it had been. An entry's state is set together with the event that follows it: a
  thread that looks at the state in between finds the event set when it goes to sleep, or leaves it set.
\<close>

inductive call_step :: "pool_env \<Rightarrow> pool \<Rightarrow> pool \<Rightarrow> bool" for env where
  call_here: "i < pe_callers env \<Longrightarrow> callers st i = Entering \<Longrightarrow> r = pe_calls env i \<Longrightarrow> wr_unitCount r \<le> 1 \<Longrightarrow>
    (if wr_unitCount r = 0 then Some (buffers st i)
     else pool_work (pe_cpu env) (wr_type r) (buffers st i) (wr_startUnitNo r) (wr_unitCount r) (wr_cryptoInfo r)) = Some b \<Longrightarrow>
    call_step env st (set_caller i Returned (set_buffer i b st))"
| call_enter: "i < pe_callers env \<Longrightarrow> callers st i = Entering \<Longrightarrow> r = pe_calls env i \<Longrightarrow> \<not> wr_unitCount r \<le> 1 \<Longrightarrow>
    EnqueueMutex st = None \<Longrightarrow>
    call_step env st (set_caller i (Enqueuing False None (first_fragment (pe_threads env) r)) (st\<lparr>EnqueueMutex := Some i\<rparr>))"
| call_first: "i < pe_callers env \<Longrightarrow> callers st i = Enqueuing False None fr \<Longrightarrow> p = EnqueuePosition st \<Longrightarrow>
    State (item st p) = WorkItemFree \<Longrightarrow>
    call_step env st (set_caller i (Enqueuing False (Some p) fr)
      (set_item p ((item st p)\<lparr>OutstandingFragmentCount := int (unat (fragmentCount fr))\<rparr>) st))"
| call_queue: "i < pe_callers env \<Longrightarrow> callers st i = Enqueuing False (Some f) fr \<Longrightarrow> fragmentCount fr > 0 \<Longrightarrow>
    p = EnqueuePosition st \<Longrightarrow> State (item st p) = WorkItemFree \<Longrightarrow>
    call_step env st (set_caller i (Enqueuing False (Some f) (next_fragment fr))
      (set_item p (fill_item i (pe_calls env i) f fr (item st p))
        (st\<lparr>EnqueuePosition := next_position p, WorkItemReadyEvent := True\<rparr>)))"
| call_sleep: "i < pe_callers env \<Longrightarrow> callers st i = Enqueuing False fo fr \<Longrightarrow> fo = None \<or> fragmentCount fr > 0 \<Longrightarrow>
    State (item st (EnqueuePosition st)) \<noteq> WorkItemFree \<Longrightarrow>
    call_step env st (set_caller i (Enqueuing True fo fr) st)"
| call_wake: "i < pe_callers env \<Longrightarrow> callers st i = Enqueuing True fo fr \<Longrightarrow> WorkItemCompletedEvent st \<Longrightarrow>
    call_step env st (set_caller i (Enqueuing False fo fr) (st\<lparr>WorkItemCompletedEvent := False\<rparr>))"
| call_wait: "i < pe_callers env \<Longrightarrow> callers st i = Enqueuing False (Some f) fr \<Longrightarrow> fragmentCount fr = 0 \<Longrightarrow>
    call_step env st (set_caller i (Waiting f) (st\<lparr>EnqueueMutex := None\<rparr>))"
| call_completed: "i < pe_callers env \<Longrightarrow> callers st i = Waiting f \<Longrightarrow> ItemCompletedEvent (item st f) \<Longrightarrow>
    call_step env st (set_caller i (Woken f) (set_item f ((item st f)\<lparr>ItemCompletedEvent := False\<rparr>) st))"
| call_return: "i < pe_callers env \<Longrightarrow> callers st i = Woken f \<Longrightarrow>
    call_step env st (set_caller i Returned
      (set_item f ((item st f)\<lparr>State := WorkItemFree\<rparr>) (st\<lparr>WorkItemCompletedEvent := True\<rparr>)))"

text \<open>The threads: up to the work, and after it.\<close>

inductive thread_work_step :: "pool_env \<Rightarrow> pool \<Rightarrow> pool \<Rightarrow> bool" for env where
  thread_enter: "w < unat (pe_threads env) \<Longrightarrow> threads st w = Outside \<Longrightarrow> DequeueMutex st = None \<Longrightarrow>
    thread_work_step env st (set_thread w Scanning (st\<lparr>DequeueMutex := Some w\<rparr>))"
| thread_sleep: "w < unat (pe_threads env) \<Longrightarrow> threads st w = Scanning \<Longrightarrow>
    State (item st (DequeuePosition st)) \<noteq> WorkItemReady \<Longrightarrow>
    thread_work_step env st (set_thread w Asleep st)"
| thread_wake: "w < unat (pe_threads env) \<Longrightarrow> threads st w = Asleep \<Longrightarrow> WorkItemReadyEvent st \<Longrightarrow>
    thread_work_step env st (set_thread w Scanning (st\<lparr>WorkItemReadyEvent := False\<rparr>))"
| thread_take: "w < unat (pe_threads env) \<Longrightarrow> threads st w = Scanning \<Longrightarrow> q = DequeuePosition st \<Longrightarrow>
    State (item st q) = WorkItemReady \<Longrightarrow>
    thread_work_step env st (set_thread w (At Running q)
      (set_item q ((item st q)\<lparr>State := WorkItemBusy\<rparr>) (st\<lparr>DequeuePosition := next_position q, DequeueMutex := None\<rparr>)))"
| thread_run: "w < unat (pe_threads env) \<Longrightarrow> threads st w = At Running s \<Longrightarrow> x = item st s \<Longrightarrow> Data x = (d, off) \<Longrightarrow>
    CryptoInfo x = Some ci \<Longrightarrow> n = unat (UnitCount x) * ENCRYPTION_DATA_UNIT_SIZE \<Longrightarrow>
    pool_work (pe_cpu env) (Type x) (get_at off n (buffers st d)) (StartUnitNo x) (UnitCount x) ci = Some out \<Longrightarrow>
    thread_work_step env st (set_thread w (At Ran s) (set_buffer d (put_at off out (buffers st d)) st))"

inductive thread_done_step :: "pool_env \<Rightarrow> pool \<Rightarrow> pool \<Rightarrow> bool" for env where
  thread_keep: "w < unat (pe_threads env) \<Longrightarrow> threads st w = At Ran s \<Longrightarrow> FirstFragment (item st s) = s \<Longrightarrow>
    thread_done_step env st (set_thread w (At Released s) st)"
| thread_free: "w < unat (pe_threads env) \<Longrightarrow> threads st w = At Ran s \<Longrightarrow> FirstFragment (item st s) \<noteq> s \<Longrightarrow>
    thread_done_step env st (set_thread w (At Released s)
      (set_item s ((item st s)\<lparr>State := WorkItemFree\<rparr>) (st\<lparr>WorkItemCompletedEvent := True\<rparr>)))"
| thread_count: "w < unat (pe_threads env) \<Longrightarrow> threads st w = At Released s \<Longrightarrow> f = FirstFragment (item st s) \<Longrightarrow>
    c = OutstandingFragmentCount (item st f) - 1 \<Longrightarrow>
    thread_done_step env st (set_thread w (if c = 0 then At Completing s else Outside)
      (set_item f ((item st f)\<lparr>OutstandingFragmentCount := c\<rparr>) st))"
| thread_complete: "w < unat (pe_threads env) \<Longrightarrow> threads st w = At Completing s \<Longrightarrow> f = FirstFragment (item st s) \<Longrightarrow>
    thread_done_step env st (set_thread w Outside (set_item f ((item st f)\<lparr>ItemCompletedEvent := True\<rparr>) st))"

definition pool_step :: "pool_env \<Rightarrow> pool \<Rightarrow> pool \<Rightarrow> bool" where
  "pool_step env st st' \<longleftrightarrow> call_step env st st' \<or> thread_work_step env st st' \<or> thread_done_step env st st'"

text \<open>The rules and the case distinction for the steps of the pool.\<close>

lemma pool_stepI:
  "call_step env st st' \<Longrightarrow> pool_step env st st'" "thread_work_step env st st' \<Longrightarrow> pool_step env st st'"
  "thread_done_step env st st' \<Longrightarrow> pool_step env st st'"
  by (simp_all add: pool_step_def)

lemmas step_call_here = call_step.call_here [THEN pool_stepI(1)]
lemmas step_call_enter = call_step.call_enter [THEN pool_stepI(1)]
lemmas step_call_first = call_step.call_first [THEN pool_stepI(1)]
lemmas step_call_queue = call_step.call_queue [THEN pool_stepI(1)]
lemmas step_call_sleep = call_step.call_sleep [THEN pool_stepI(1)]
lemmas step_call_wake = call_step.call_wake [THEN pool_stepI(1)]
lemmas step_call_wait = call_step.call_wait [THEN pool_stepI(1)]
lemmas step_call_completed = call_step.call_completed [THEN pool_stepI(1)]
lemmas step_call_return = call_step.call_return [THEN pool_stepI(1)]
lemmas step_thread_enter = thread_work_step.thread_enter [THEN pool_stepI(2)]
lemmas step_thread_sleep = thread_work_step.thread_sleep [THEN pool_stepI(2)]
lemmas step_thread_wake = thread_work_step.thread_wake [THEN pool_stepI(2)]
lemmas step_thread_take = thread_work_step.thread_take [THEN pool_stepI(2)]
lemmas step_thread_run = thread_work_step.thread_run [THEN pool_stepI(2)]
lemmas step_thread_keep = thread_done_step.thread_keep [THEN pool_stepI(3)]
lemmas step_thread_free = thread_done_step.thread_free [THEN pool_stepI(3)]
lemmas step_thread_count = thread_done_step.thread_count [THEN pool_stepI(3)]
lemmas step_thread_complete = thread_done_step.thread_complete [THEN pool_stepI(3)]

lemma pool_step_cases [consumes 1, case_names call_here call_enter call_first call_queue call_sleep call_wake call_wait call_completed call_return thread_enter thread_sleep thread_wake thread_take thread_run thread_keep thread_free thread_count thread_complete]:
  assumes "pool_step env st st'"
    and "\<And>i r b. st' = set_caller i Returned (set_buffer i b st) \<Longrightarrow> i < pe_callers env \<Longrightarrow> callers st i = Entering \<Longrightarrow> r = pe_calls env i \<Longrightarrow> wr_unitCount r \<le> 1 \<Longrightarrow> (if wr_unitCount r = 0 then Some (buffers st i) else pool_work (pe_cpu env) (wr_type r) (buffers st i) (wr_startUnitNo r) (wr_unitCount r) (wr_cryptoInfo r)) = Some b \<Longrightarrow> P"
    and "\<And>i r. st' = set_caller i (Enqueuing False None (first_fragment (pe_threads env) r)) (st\<lparr>EnqueueMutex := Some i\<rparr>) \<Longrightarrow> i < pe_callers env \<Longrightarrow> callers st i = Entering \<Longrightarrow> r = pe_calls env i \<Longrightarrow> \<not> wr_unitCount r \<le> 1 \<Longrightarrow> EnqueueMutex st = None \<Longrightarrow> P"
    and "\<And>i fr p. st' = set_caller i (Enqueuing False (Some p) fr) (set_item p ((item st p)\<lparr>OutstandingFragmentCount := int (unat (fragmentCount fr))\<rparr>) st) \<Longrightarrow> i < pe_callers env \<Longrightarrow> callers st i = Enqueuing False None fr \<Longrightarrow> p = EnqueuePosition st \<Longrightarrow> State (item st p) = WorkItemFree \<Longrightarrow> P"
    and "\<And>i f fr p. st' = set_caller i (Enqueuing False (Some f) (next_fragment fr)) (set_item p (fill_item i (pe_calls env i) f fr (item st p)) (st\<lparr>EnqueuePosition := next_position p, WorkItemReadyEvent := True\<rparr>)) \<Longrightarrow> i < pe_callers env \<Longrightarrow> callers st i = Enqueuing False (Some f) fr \<Longrightarrow> fragmentCount fr > 0 \<Longrightarrow> p = EnqueuePosition st \<Longrightarrow> State (item st p) = WorkItemFree \<Longrightarrow> P"
    and "\<And>i fo fr. st' = set_caller i (Enqueuing True fo fr) st \<Longrightarrow> i < pe_callers env \<Longrightarrow> callers st i = Enqueuing False fo fr \<Longrightarrow> fo = None \<or> fragmentCount fr > 0 \<Longrightarrow> State (item st (EnqueuePosition st)) \<noteq> WorkItemFree \<Longrightarrow> P"
    and "\<And>i fo fr. st' = set_caller i (Enqueuing False fo fr) (st\<lparr>WorkItemCompletedEvent := False\<rparr>) \<Longrightarrow> i < pe_callers env \<Longrightarrow> callers st i = Enqueuing True fo fr \<Longrightarrow> WorkItemCompletedEvent st \<Longrightarrow> P"
    and "\<And>i f fr. st' = set_caller i (Waiting f) (st\<lparr>EnqueueMutex := None\<rparr>) \<Longrightarrow> i < pe_callers env \<Longrightarrow> callers st i = Enqueuing False (Some f) fr \<Longrightarrow> fragmentCount fr = 0 \<Longrightarrow> P"
    and "\<And>i f. st' = set_caller i (Woken f) (set_item f ((item st f)\<lparr>ItemCompletedEvent := False\<rparr>) st) \<Longrightarrow> i < pe_callers env \<Longrightarrow> callers st i = Waiting f \<Longrightarrow> ItemCompletedEvent (item st f) \<Longrightarrow> P"
    and "\<And>i f. st' = set_caller i Returned (set_item f ((item st f)\<lparr>State := WorkItemFree\<rparr>) (st\<lparr>WorkItemCompletedEvent := True\<rparr>)) \<Longrightarrow> i < pe_callers env \<Longrightarrow> callers st i = Woken f \<Longrightarrow> P"
    and "\<And>w. st' = set_thread w Scanning (st\<lparr>DequeueMutex := Some w\<rparr>) \<Longrightarrow> w < unat (pe_threads env) \<Longrightarrow> threads st w = Outside \<Longrightarrow> DequeueMutex st = None \<Longrightarrow> P"
    and "\<And>w. st' = set_thread w Asleep st \<Longrightarrow> w < unat (pe_threads env) \<Longrightarrow> threads st w = Scanning \<Longrightarrow> State (item st (DequeuePosition st)) \<noteq> WorkItemReady \<Longrightarrow> P"
    and "\<And>w. st' = set_thread w Scanning (st\<lparr>WorkItemReadyEvent := False\<rparr>) \<Longrightarrow> w < unat (pe_threads env) \<Longrightarrow> threads st w = Asleep \<Longrightarrow> WorkItemReadyEvent st \<Longrightarrow> P"
    and "\<And>w q. st' = set_thread w (At Running q) (set_item q ((item st q)\<lparr>State := WorkItemBusy\<rparr>) (st\<lparr>DequeuePosition := next_position q, DequeueMutex := None\<rparr>)) \<Longrightarrow> w < unat (pe_threads env) \<Longrightarrow> threads st w = Scanning \<Longrightarrow> q = DequeuePosition st \<Longrightarrow> State (item st q) = WorkItemReady \<Longrightarrow> P"
    and "\<And>w s x d off ci n out. st' = set_thread w (At Ran s) (set_buffer d (put_at off out (buffers st d)) st) \<Longrightarrow> w < unat (pe_threads env) \<Longrightarrow> threads st w = At Running s \<Longrightarrow> x = item st s \<Longrightarrow> Data x = (d, off) \<Longrightarrow> CryptoInfo x = Some ci \<Longrightarrow> n = unat (UnitCount x) * ENCRYPTION_DATA_UNIT_SIZE \<Longrightarrow> pool_work (pe_cpu env) (Type x) (get_at off n (buffers st d)) (StartUnitNo x) (UnitCount x) ci = Some out \<Longrightarrow> P"
    and "\<And>w s. st' = set_thread w (At Released s) st \<Longrightarrow> w < unat (pe_threads env) \<Longrightarrow> threads st w = At Ran s \<Longrightarrow> FirstFragment (item st s) = s \<Longrightarrow> P"
    and "\<And>w s. st' = set_thread w (At Released s) (set_item s ((item st s)\<lparr>State := WorkItemFree\<rparr>) (st\<lparr>WorkItemCompletedEvent := True\<rparr>)) \<Longrightarrow> w < unat (pe_threads env) \<Longrightarrow> threads st w = At Ran s \<Longrightarrow> FirstFragment (item st s) \<noteq> s \<Longrightarrow> P"
    and "\<And>w s f c. st' = set_thread w (if c = 0 then At Completing s else Outside) (set_item f ((item st f)\<lparr>OutstandingFragmentCount := c\<rparr>) st) \<Longrightarrow> w < unat (pe_threads env) \<Longrightarrow> threads st w = At Released s \<Longrightarrow> f = FirstFragment (item st s) \<Longrightarrow> c = OutstandingFragmentCount (item st f) - 1 \<Longrightarrow> P"
    and "\<And>w s f. st' = set_thread w Outside (set_item f ((item st f)\<lparr>ItemCompletedEvent := True\<rparr>) st) \<Longrightarrow> w < unat (pe_threads env) \<Longrightarrow> threads st w = At Completing s \<Longrightarrow> f = FirstFragment (item st s) \<Longrightarrow> P"
  shows P
proof -
  consider "call_step env st st'" | "thread_work_step env st st'" | "thread_done_step env st st'"
    using assms(1) unfolding pool_step_def by blast
  then show P
  proof cases
    case 1
    then show P by cases (rule assms(2-10); assumption)+
  next
    case 2
    then show P by cases (rule assms(11-15); assumption)+
  next
    case 3
    then show P by cases (rule assms(16-19); assumption)+
  qed
qed

end
