(* ===== verification/Pool_Fragments.thy ===== *)
theory Pool_Fragments
  imports Encryption_Pool
begin

text \<open>
  The arithmetic of \<open>EncryptionThreadPoolDoWork\<close>: the fragments of a call lie behind each other, are
  not empty and make up the run of data units; and a run over the whole of them is the runs over
  the fragments, each with its own first unit number.
\<close>

section \<open>The fragments\<close>

definition fragment :: "u32 \<Rightarrow> work_request \<Rightarrow> nat \<Rightarrow> fragments" where
  "fragment T r m = (next_fragment ^^ m) (first_fragment T r)"

definition frag_count :: "u32 \<Rightarrow> work_request \<Rightarrow> nat" where
  "frag_count T r = unat (fragmentCount (first_fragment T r))"

definition units_of :: "u32 \<Rightarrow> work_request \<Rightarrow> nat \<Rightarrow> nat" where
  "units_of T r m = unat (unitsPerFragment (fragment T r m))"

definition units_before :: "u32 \<Rightarrow> work_request \<Rightarrow> nat \<Rightarrow> nat" where
  "units_before T r m = (\<Sum>j<m. units_of T r j)"

lemma fragment_Suc: "fragment T r (Suc m) = next_fragment (fragment T r m)"
  by (simp add: fragment_def)

text \<open>The quotient and the remainder of the division; with at most one unit for a thread, one each.\<close>

definition quot_rem :: "u32 \<Rightarrow> work_request \<Rightarrow> nat \<times> nat" where
  "quot_rem T r = (if wr_unitCount r \<le> T then (1, 0) else (unat (wr_unitCount r) div unat T, unat (wr_unitCount r) mod unat T))"

lemma frag_count_eq: "frag_count T r = (if wr_unitCount r \<le> T then unat (wr_unitCount r) else unat T)"
  by (simp add: frag_count_def first_fragment_def Let_def)

lemma quot_rem_total:
  assumes "quot_rem T r = (q, k)" "0 < T"
  shows "frag_count T r * q + k = unat (wr_unitCount r)" "k < frag_count T r \<or> wr_unitCount r = 0" "wr_unitCount r \<noteq> 0 \<Longrightarrow> 0 < q"
proof -
  have T: "0 < unat T" using assms(2) by (simp add: unat_gt_0 word_neq_0_conv)
  show "frag_count T r * q + k = unat (wr_unitCount r)"
    using assms(1) by (auto simp: quot_rem_def frag_count_eq split: if_splits)
  show "k < frag_count T r \<or> wr_unitCount r = 0"
    using assms(1) T by (auto simp: quot_rem_def frag_count_eq unat_gt_0 split: if_splits)
  show "0 < q"
    using assms(1) T by (auto simp: quot_rem_def div_greater_zero_iff word_le_nat_alt split: if_splits)
qed

lemma unat_dec: "0 < (x :: u32) \<Longrightarrow> unat (x - 1) = unat x - 1"
  by (simp add: unat_minus_one word_neq_0_conv)

lemma fragment_closed:
  assumes qk: "quot_rem T r = (q, k)" and T: "0 < T" and U: "unat (wr_unitCount r) < 2 ^ 23" and m: "m \<le> frag_count T r"
  shows "unat (fragmentCount (fragment T r m)) = frag_count T r - m \<and> unat (remainder (fragment T r m)) = k - m \<and>
    units_of T r m = q + (if m < k then 1 else 0) \<and> fragmentOffset (fragment T r m) = 512 * (m * q + min m k) \<and>
    fragmentStartUnitNo (fragment T r m) = wr_startUnitNo r + word_of_nat (m * q + min m k)"
  using m
proof (induction m)
  case 0
  have mod: "unat (wr_unitCount r mod T) = unat (wr_unitCount r) mod unat T" "unat (wr_unitCount r div T) = unat (wr_unitCount r) div unat T"
    by (simp_all add: unat_mod unat_div)
  have pos: "0 < wr_unitCount r mod T \<longleftrightarrow> 0 < unat (wr_unitCount r) mod unat T"
    by (metis mod(1) unat_gt_0 word_neq_0_conv)
  have le: "unat (wr_unitCount r) div unat T < 2 ^ 23" using U by (metis div_le_dividend le_less_trans)
  have suc: "unat (wr_unitCount r div T + 1) = unat (wr_unitCount r) div unat T + 1"
    using le by (simp add: unat_word_ariths mod(2))
  show ?case
    using qk by (auto simp: fragment_def units_of_def frag_count_def first_fragment_def Let_def quot_rem_def mod suc pos split: if_splits)
next
  case (Suc m)
  let ?fr = "fragment T r m"
  have IH: "unat (fragmentCount ?fr) = frag_count T r - m" "unat (remainder ?fr) = k - m"
    "unat (unitsPerFragment ?fr) = q + (if m < k then 1 else 0)" "fragmentOffset ?fr = 512 * (m * q + min m k)"
    "fragmentStartUnitNo ?fr = wr_startUnitNo r + word_of_nat (m * q + min m k)"
    using Suc by (simp_all add: units_of_def)
  have m: "m < frag_count T r" using Suc.prems by simp
  then have one: "frag_count T r * q + k \<ge> q + (if m < k then 1 else 0)"
    by (cases "frag_count T r") auto
  then have small: "unat (unitsPerFragment ?fr) < 2 ^ 23" using IH(3) U quot_rem_total(1) [OF qk T] by linarith
  have prod: "unat (unitsPerFragment ?fr * word_of_nat ENCRYPTION_DATA_UNIT_SIZE) = 512 * unat (unitsPerFragment ?fr)"
    using small by (simp add: unat_word_ariths tc_cfg)
  note prod' = prod [unfolded mult.commute [of "unitsPerFragment ?fr"]]
  have start: "ucast (unitsPerFragment ?fr) = (word_of_nat (unat (unitsPerFragment ?fr)) :: u64)"
    by simp
  have "0 < fragmentCount ?fr" using IH(1) m by (simp add: word_less_nat_alt)
  then have cnt: "unat (fragmentCount ?fr - 1) = frag_count T r - Suc m" using IH(1) by (simp add: unat_dec)
  have pos: "0 < remainder ?fr \<longleftrightarrow> m < k" using IH(2) by (simp add: word_less_nat_alt)
  have dec: "m < k \<Longrightarrow> unat (remainder ?fr - 1) = k - Suc m" using pos IH(2) by (simp add: unat_dec)
  have zero: "m < k \<Longrightarrow> remainder ?fr - 1 = 0 \<longleftrightarrow> k = Suc m" using dec by (auto simp: word_unat_eq_iff)
  have "m < k \<Longrightarrow> 0 < unitsPerFragment ?fr" using IH(3) by (simp add: word_less_nat_alt)
  then have upos: "m < k \<Longrightarrow> unat (unitsPerFragment ?fr - 1) = q" using IH(3) by (simp add: unat_dec)
  have step: "fragment T r (Suc m) = next_fragment ?fr" by (rule fragment_Suc)
  show ?case
  proof (cases "m < k")
    case True
    then show ?thesis
      using IH dec [OF True] zero [OF True] upos [OF True] pos
      by (auto simp: step next_fragment_def Let_def units_of_def cnt prod prod' start algebra_simps)
  next
    case False
    then show ?thesis
      using IH pos by (auto simp: step next_fragment_def Let_def units_of_def cnt prod prod' start algebra_simps)
  qed
qed

text \<open>The facts about the fragments of a call that fits: what follows uses no others.\<close>

definition call_fits :: "u32 \<Rightarrow> work_request \<Rightarrow> bool" where
  "call_fits T r \<longleftrightarrow> 2 \<le> unat T \<and> unat T \<le> 64 \<and> 2 \<le> unat (wr_unitCount r) \<and> unat (wr_unitCount r) < 2 ^ 23"

lemma call_fitsD:
  assumes "call_fits T r"
  shows "0 < T" "2 \<le> frag_count T r" "frag_count T r \<le> 64"
proof -
  have "unat T \<noteq> 0" using assms by (simp add: call_fits_def)
  then show "0 < T" by (metis unat_0 word_neq_0_conv)
  show "2 \<le> frag_count T r" "frag_count T r \<le> 64"
    using assms by (auto simp: call_fits_def frag_count_eq word_le_nat_alt)
qed

lemma units_before_Suc: "units_before T r (Suc m) = units_before T r m + units_of T r m"
  by (simp add: units_before_def)

lemma units_before_closed:
  assumes "call_fits T r" "quot_rem T r = (q, k)"
  shows "m \<le> frag_count T r \<Longrightarrow> units_before T r m = m * q + min m k"
proof (induction m)
  case (Suc m)
  have "units_of T r m = q + (if m < k then 1 else 0)"
    using fragment_closed [OF assms(2) call_fitsD(1) [OF assms(1)], of m] assms(1) Suc.prems by (simp add: call_fits_def)
  then show ?case using Suc by (simp add: units_before_Suc)
qed (simp add: units_before_def)

lemma fragment_facts:
  assumes fits: "call_fits T r"
  shows "m \<le> frag_count T r \<Longrightarrow> unat (fragmentCount (fragment T r m)) = frag_count T r - m"
    and "m \<le> frag_count T r \<Longrightarrow> fragmentOffset (fragment T r m) = 512 * units_before T r m"
    and "m \<le> frag_count T r \<Longrightarrow> fragmentStartUnitNo (fragment T r m) = wr_startUnitNo r + word_of_nat (units_before T r m)"
    and "m < frag_count T r \<Longrightarrow> 0 < units_of T r m"
    and "units_before T r (frag_count T r) = unat (wr_unitCount r)"
proof -
  obtain q k where qk: "quot_rem T r = (q, k)" by (cases "quot_rem T r")
  note T = call_fitsD(1) [OF fits] and U = fits [unfolded call_fits_def]
  note c = fragment_closed [OF qk T, of m] and b = units_before_closed [OF fits qk]
  show "m \<le> frag_count T r \<Longrightarrow> unat (fragmentCount (fragment T r m)) = frag_count T r - m"
    "m \<le> frag_count T r \<Longrightarrow> fragmentOffset (fragment T r m) = 512 * units_before T r m"
    "m \<le> frag_count T r \<Longrightarrow> fragmentStartUnitNo (fragment T r m) = wr_startUnitNo r + word_of_nat (units_before T r m)"
    using c b [of m] U by simp_all
  have "wr_unitCount r \<noteq> 0" using U by auto
  then show "m < frag_count T r \<Longrightarrow> 0 < units_of T r m" using c quot_rem_total(3) [OF qk T] U by simp
  have "k \<le> frag_count T r" using quot_rem_total(2) [OF qk T] \<open>wr_unitCount r \<noteq> 0\<close> by simp
  then show "units_before T r (frag_count T r) = unat (wr_unitCount r)"
    using b [of "frag_count T r"] quot_rem_total(1) [OF qk T] by (simp add: min_absorb2)
qed

lemma units_before_mono: "m \<le> n \<Longrightarrow> units_before T r m \<le> units_before T r n"
  unfolding units_before_def by (rule sum_mono2) auto

lemma fragment_end:
  assumes "call_fits T r" "m < frag_count T r"
  shows "units_before T r m + units_of T r m \<le> unat (wr_unitCount r)"
  using units_before_mono [of "Suc m" "frag_count T r" T r] assms fragment_facts(5) [OF assms(1)] by (simp add: units_before_Suc)

lemma fragment_covers: "x < 512 * units_before T r n \<Longrightarrow> \<exists>m<n. 512 * units_before T r m \<le> x \<and> x < 512 * (units_before T r m + units_of T r m)"
proof (induction n)
  case (Suc n)
  then show ?case
    by (cases "x < 512 * units_before T r n") (auto simp: units_before_Suc less_Suc_eq)
qed (simp add: units_before_def)

text \<open>No fragment has more than one unit beyond the quotient.\<close>

lemma units_of_le:
  assumes "call_fits T r" "m < frag_count T r"
  shows "units_of T r m \<le> unat (wr_unitCount r) div unat T + 1"
proof -
  obtain q k where qk: "quot_rem T r = (q, k)" by (cases "quot_rem T r")
  have u: "units_of T r m = q + (if m < k then 1 else 0)"
    using fragment_closed [OF qk call_fitsD(1) [OF assms(1)], of m] assms by (simp add: call_fits_def)
  show ?thesis
  proof (cases "wr_unitCount r \<le> T")
    case True
    then show ?thesis using u qk by (simp add: quot_rem_def)
  next
    case False
    then show ?thesis using u qk by (simp add: quot_rem_def)
  qed
qed

section \<open>The data\<close>

definition call_ok :: "pool_env \<Rightarrow> nat \<Rightarrow> bytes \<Rightarrow> bool" where
  "call_ok env i data \<longleftrightarrow>
     (let r = pe_calls env i in
      volume_ready (pe_cpu env) (wr_cryptoInfo r) \<and> wr_type r \<noteq> DeriveKeyWork \<and> unat (wr_unitCount r) < 2 ^ 23 \<and>
      512 * unat (wr_unitCount r) \<le> length data)"

definition call_result :: "pool_env \<Rightarrow> nat \<Rightarrow> bytes \<Rightarrow> bytes option" where
  "call_result env i data =
     (let r = pe_calls env i in
      pool_work (pe_cpu env) (wr_type r) data (wr_startUnitNo r) (wr_unitCount r) (wr_cryptoInfo r))"

lemma pool_work_units:
  assumes "volume_ready u ci" "type \<noteq> DeriveKeyWork"
  shows "\<exists>G. keeps512 G \<and> (\<forall>data no n. 512 * unat n \<le> length data \<longrightarrow>
    pool_work u type data no n ci = Some (units_map G (unat n) no data))"
proof -
  obtain G H where GH: "inverse512 G H" "unitwise xts_units_count (encrypt_units u ci) G" "unitwise xts_units_count (decrypt_units u ci) H"
    using data_units_pair [OF assms(1)] by (auto simp: unit_pair_def)
  have n32: "unat n < 2 ^ 32" for n :: u32 by (rule order.strict_trans2 [OF unsigned_less]) simp
  have n: "unat n \<in> xts_units_count" "word_of_nat (unat n) = (ucast n :: u64)" for n :: u32
    using n32 [of n] by (simp_all add: xts_units_count_def)
  have "512 * unat n \<le> length data \<Longrightarrow> EncryptDataUnitsCurrentThread u data no (ucast n) ci = Some (units_map G (unat n) no data)"
    "512 * unat n \<le> length data \<Longrightarrow> DecryptDataUnitsCurrentThread u data no (ucast n) ci = Some (units_map H (unat n) no data)"
    for data no and n :: u32
    using unitwiseD [OF GH(2) n(1)] unitwiseD [OF GH(3) n(1)] by (simp_all add: encrypt_units_def decrypt_units_def n(2))
  moreover have "keeps512 G" "keeps512 H" using GH(1) by (simp_all add: inverse512_def)
  ultimately show ?thesis using assms(2) by (cases type) (auto simp: pool_work_def)
qed

lemma get_units_map:
  assumes "keeps512 G" "a + b \<le> n" "512 * n \<le> length buf"
  shows "get_at (512 * a) (512 * b) (units_map G n no buf) = units_map G b (no + word_of_nat a) (get_at (512 * a) (512 * b) buf)"
proof -
  obtain c where n: "n = a + (b + c)" using assms(2) by (metis add.assoc le_iff_add)
  have len: "512 * a \<le> length buf" "512 * b \<le> length (drop (512 * a) buf)" using assms(2,3) by (auto simp: n)
  let ?x = "take (512 * a) buf" and ?y = "take (512 * b) (drop (512 * a) buf)"
  have "length (units_map G a no ?x) = 512 * a" "length (units_map G b (no + word_of_nat a) ?y) = 512 * b"
    using length_units_map [OF assms(1), of a ?x] length_units_map [OF assms(1), of b ?y] len by simp_all
  moreover have "units_map G n no buf = units_map G a no ?x @ units_map G b (no + word_of_nat a) ?y @
      units_map G c (no + word_of_nat a + word_of_nat b) (drop (512 * b) (drop (512 * a) buf))"
    unfolding n units_map_split [OF len(1)] units_map_split [OF len(2)] by simp
  ultimately show ?thesis by (simp add: get_at_def)
qed

lemma units_map_rest: "keeps512 G \<Longrightarrow> 512 * n \<le> length buf \<Longrightarrow> drop (512 * n) (units_map G n no buf) = drop (512 * n) buf"
  by (induction n arbitrary: no buf) (simp_all add: keeps512_def add.commute)

text \<open>The work on a fragment, and the buffer once all fragments have been worked on.\<close>

abbreviation (input) frag_bytes :: "pool_env \<Rightarrow> nat \<Rightarrow> nat \<Rightarrow> bytes \<Rightarrow> bytes" where
  "frag_bytes env i m \<equiv> get_at (512 * units_before (pe_threads env) (pe_calls env i) m) (512 * units_of (pe_threads env) (pe_calls env i) m)"

lemma call_result_ok:
  assumes "call_ok env i data"
  shows "\<exists>out. call_result env i data = Some out \<and> length out = length data \<and>
    drop (512 * unat (wr_unitCount (pe_calls env i))) out = drop (512 * unat (wr_unitCount (pe_calls env i))) data"
proof -
  let ?r = "pe_calls env i"
  obtain G where G: "keeps512 G" "\<And>data no n. 512 * unat n \<le> length data \<Longrightarrow>
      pool_work (pe_cpu env) (wr_type ?r) data no n (wr_cryptoInfo ?r) = Some (units_map G (unat n) no data)"
    using pool_work_units assms unfolding call_ok_def Let_def by metis
  show ?thesis
    using G assms length_units_map [OF G(1)] units_map_rest [OF G(1)] by (simp add: call_result_def call_ok_def Let_def)
qed

lemma fragment_work:
  assumes "call_ok env i data" "call_fits (pe_threads env) (pe_calls env i)" "m < frag_count (pe_threads env) (pe_calls env i)"
    and "call_result env i data = Some out"
  shows "pool_work (pe_cpu env) (wr_type (pe_calls env i)) (frag_bytes env i m data)
      (fragmentStartUnitNo (fragment (pe_threads env) (pe_calls env i) m)) (unitsPerFragment (fragment (pe_threads env) (pe_calls env i) m))
      (wr_cryptoInfo (pe_calls env i)) = Some (frag_bytes env i m out)"
proof -
  let ?r = "pe_calls env i" and ?T = "pe_threads env"
  obtain G where G: "keeps512 G" "\<And>data no n. 512 * unat n \<le> length data \<Longrightarrow>
      pool_work (pe_cpu env) (wr_type ?r) data no n (wr_cryptoInfo ?r) = Some (units_map G (unat n) no data)"
    using pool_work_units assms(1) unfolding call_ok_def Let_def by metis
  have len: "512 * unat (wr_unitCount ?r) \<le> length data" using assms(1) by (simp add: call_ok_def Let_def)
  have e: "units_before ?T ?r m + units_of ?T ?r m \<le> unat (wr_unitCount ?r)" by (rule fragment_end [OF assms(2,3)])
  have out: "out = units_map G (unat (wr_unitCount ?r)) (wr_startUnitNo ?r) data"
    using assms(4) G(2) [OF len] by (simp add: call_result_def Let_def)
  have "length (frag_bytes env i m data) = 512 * units_of ?T ?r m" using e len by (intro length_get_at) simp
  then show ?thesis
    using G(2) get_units_map [OF G(1) e len] fragment_facts(3) [OF assms(2), of m] assms(3)
    by (simp add: out units_of_def)
qed

lemma fragments_complete:
  assumes "call_fits (pe_threads env) (pe_calls env i)" "length a = length b"
    and "512 * unat (wr_unitCount (pe_calls env i)) \<le> length b"
    and "\<And>m. m < frag_count (pe_threads env) (pe_calls env i) \<Longrightarrow> frag_bytes env i m a = frag_bytes env i m b"
    and "drop (512 * unat (wr_unitCount (pe_calls env i))) a = drop (512 * unat (wr_unitCount (pe_calls env i))) b"
  shows "a = b"
proof (rule nth_equalityI)
  let ?r = "pe_calls env i" and ?T = "pe_threads env"
  fix x assume x: "x < length a"
  show "a ! x = b ! x"
  proof (cases "x < 512 * unat (wr_unitCount ?r)")
    case True
    then obtain m where m: "m < frag_count ?T ?r" "512 * units_before ?T ?r m \<le> x" "x < 512 * (units_before ?T ?r m + units_of ?T ?r m)"
      using fragment_covers [of x ?T ?r "frag_count ?T ?r"] fragment_facts(5) [OF assms(1)] by auto
    let ?d = "x - 512 * units_before ?T ?r m"
    have d: "?d < 512 * units_of ?T ?r m" "512 * units_before ?T ?r m + ?d = x" using m by auto
    show ?thesis
      using nth_get_at [OF d(1), of "512 * units_before ?T ?r m" a] nth_get_at [OF d(1), of "512 * units_before ?T ?r m" b]
        assms(4) [OF m(1)] d(2) x assms(2) by simp
  next
    case False
    let ?k = "512 * unat (wr_unitCount ?r)"
    have k: "?k \<le> x" "?k + (x - ?k) = x" using False by auto
    have "drop ?k a ! (x - ?k) = drop ?k b ! (x - ?k)" using assms(5) by simp
    then show ?thesis using k x assms(2) by (simp add: nth_drop)
  qed
qed (fact assms(2))

end
