(* ===== verification/Pool_Jobs.thy ===== *)
theory Pool_Jobs
  imports Pool_Fragments
begin

text \<open>
  The calls in the pool as the queue sees them. A \<open>view\<close> is what the calls' bookkeeping depends on:
  for every call its first entry, the number of its queued fragments and whether it has been
  woken; the state, the first fragment, the count and the event of every entry; the threads at an entry; and
  the position that is filled next. \<open>jobs_ok\<close> is the invariant of the bookkeeping; this theory shows that
  every change of a view that a step of the pool makes keeps it.

  What makes it work is the order of the ring: the entry of a call's first fragment stays in use until all
  of them are counted, so the position that is filled next cannot come round to any entry of the call. A
  thread may therefore read \<open>FirstFragment\<close> of an entry that it has already released.
\<close>

section \<open>Positions in the ring\<close>

definition slot :: "nat \<Rightarrow> nat \<Rightarrow> nat" where
  "slot f m = (f + m) mod TC_ENC_THREAD_POOL_QUEUE_SIZE"

text \<open>How many entries from \<open>f\<close> on lie before the position \<open>e\<close>, when \<open>f\<close> itself does.\<close>

definition dist :: "nat \<Rightarrow> nat \<Rightarrow> nat" where
  "dist f e = (if e = f then TC_ENC_THREAD_POOL_QUEUE_SIZE else (e + TC_ENC_THREAD_POOL_QUEUE_SIZE - f) mod TC_ENC_THREAD_POOL_QUEUE_SIZE)"

lemma queue_size: "TC_ENC_THREAD_POOL_QUEUE_SIZE = 128"
  by (simp add: TC_ENC_THREAD_POOL_QUEUE_SIZE_def TC_ENC_THREAD_POOL_MAX_THREAD_COUNT_def)

lemma slot_lt [simp]: "slot f m < 128"
  by (simp add: slot_def queue_size)

lemma slot_0 [simp]: "f < 128 \<Longrightarrow> slot f 0 = f"
  by (simp add: slot_def queue_size)

lemma mod_once: "x < 2 * 128 \<Longrightarrow> x mod 128 = (if x < 128 then x else x - 128)" for x :: nat
  by (simp add: mod_if)

lemma slot_eq: "f < 128 \<Longrightarrow> m \<le> 128 \<Longrightarrow> slot f m = (if f + m < 128 then f + m else f + m - 128)"
  by (simp add: slot_def queue_size mod_once)

lemma dist_eq: "f < 128 \<Longrightarrow> e < 128 \<Longrightarrow> dist f e = (if e = f then 128 else if f < e then e - f else e + 128 - f)"
  by (auto simp: dist_def queue_size mod_once)

lemma slot_inj: "f < 128 \<Longrightarrow> slot f m = slot f m' \<Longrightarrow> m < 128 \<Longrightarrow> m' < 128 \<Longrightarrow> m = m'"
  by (auto simp: slot_eq split: if_splits)

lemma next_position_eq: "p < 128 \<Longrightarrow> next_position p = (if p = 127 then 0 else p + 1)"
  by (auto simp: next_position_def queue_size)

lemma next_position_lt [simp]: "next_position p < 128"
  by (auto simp: next_position_def queue_size)

lemma slot_Suc: "f < 128 \<Longrightarrow> m < 128 \<Longrightarrow> next_position (slot f m) = slot f (Suc m)"
  unfolding next_position_eq [OF slot_lt] by (auto simp: slot_eq)

lemma dist_le: "f < 128 \<Longrightarrow> e < 128 \<Longrightarrow> dist f e \<le> 128"
  by (auto simp: dist_eq)

lemma slot_before: "f < 128 \<Longrightarrow> e < 128 \<Longrightarrow> e \<noteq> f \<Longrightarrow> m < dist f e \<Longrightarrow> slot f m \<noteq> e"
  using dist_le [of f e] by (auto simp: slot_eq dist_eq split: if_splits)

lemma dist_next: "f < 128 \<Longrightarrow> e < 128 \<Longrightarrow> e \<noteq> f \<Longrightarrow> dist f (next_position e) = dist f e + 1"
  by (subst dist_eq, simp, simp) (auto simp: dist_eq next_position_eq)

lemma dist_first: "f < 128 \<Longrightarrow> dist f (next_position f) = 1"
  by (subst dist_eq, simp, simp) (auto simp: next_position_eq)

section \<open>Views\<close>

record view =
  vF :: "nat \<Rightarrow> nat option"
  vK :: "nat \<Rightarrow> nat"
  vW :: "nat \<Rightarrow> bool"
  vS :: "nat \<Rightarrow> work_item_state"
  vL :: "nat \<Rightarrow> nat"
  vO :: "nat \<Rightarrow> int"
  vE :: "nat \<Rightarrow> bool"
  vA :: "nat \<Rightarrow> (phase \<times> nat) option"
  vP :: nat

text \<open>The entry \<open>s\<close> holds, or held last, the fragment \<open>m\<close> of the call \<open>i\<close>.\<close>

definition occ :: "view \<Rightarrow> nat \<Rightarrow> nat \<Rightarrow> nat \<Rightarrow> bool" where
  "occ v i m s \<longleftrightarrow> (\<exists>f. vF v i = Some f \<and> m < vK v i \<and> s = slot f m)"

text \<open>A thread is at the entry, and has not counted it yet.\<close>

definition busy_at :: "(nat \<Rightarrow> (phase \<times> nat) option) \<Rightarrow> nat \<Rightarrow> bool" where
  "busy_at A s \<longleftrightarrow> (\<exists>w ph. A w = Some (ph, s) \<and> ph \<noteq> Completing)"

text \<open>A thread is at the entry, and has not released it yet.\<close>

definition working_at :: "(nat \<Rightarrow> (phase \<times> nat) option) \<Rightarrow> nat \<Rightarrow> bool" where
  "working_at A s \<longleftrightarrow> (\<exists>w ph. A w = Some (ph, s) \<and> (ph = Running \<or> ph = Ran))"

text \<open>The fragments of the call \<open>i\<close> that are not counted yet.\<close>

definition pending :: "(nat \<Rightarrow> nat) \<Rightarrow> view \<Rightarrow> nat \<Rightarrow> nat \<Rightarrow> nat set" where
  "pending n v i f = {m. m < n i \<and> (vK v i \<le> m \<or> vS v (slot f m) = WorkItemReady \<or> busy_at (vA v) (slot f m))}"

definition completing :: "view \<Rightarrow> nat \<Rightarrow> nat \<Rightarrow> nat \<Rightarrow> bool" where
  "completing v i f w \<longleftrightarrow> (\<exists>m. m < vK v i \<and> vA v w = Some (Completing, slot f m))"

definition calls_placed :: "(nat \<Rightarrow> nat) \<Rightarrow> view \<Rightarrow> bool" where
  "calls_placed n v \<longleftrightarrow> vP v < 128 \<and>
     (\<forall>i f. vF v i = Some f \<longrightarrow> f < 128 \<and> vK v i \<le> n i \<and> 0 < n i \<and> n i \<le> 64 \<and>
        (if vK v i = 0 then vS v f = WorkItemFree \<and> vP v = f else vS v f \<noteq> WorkItemFree \<and> vK v i \<le> dist f (vP v))) \<and>
     (\<forall>i j f. vF v i = Some f \<longrightarrow> vF v j = Some f \<longrightarrow> i = j)"

definition entries_linked :: "view \<Rightarrow> bool" where
  "entries_linked v \<longleftrightarrow> (\<forall>i f m. vF v i = Some f \<longrightarrow> m < vK v i \<longrightarrow> vL v (slot f m) = f)"

definition threads_placed :: "view \<Rightarrow> bool" where
  "threads_placed v \<longleftrightarrow>
     (\<forall>w ph s. vA v w = Some (ph, s) \<longrightarrow> vS v s \<noteq> WorkItemReady \<and>
        (ph = Running \<or> ph = Ran \<longrightarrow> vS v s = WorkItemBusy) \<and> (\<exists>i m. occ v i m s)) \<and>
     (\<forall>w w' ph ph' s. vA v w = Some (ph, s) \<longrightarrow> vA v w' = Some (ph', s) \<longrightarrow> w = w')"

definition states_owned :: "view \<Rightarrow> bool" where
  "states_owned v \<longleftrightarrow>
     (\<forall>s<128. vS v s \<noteq> WorkItemFree \<longrightarrow> (\<exists>i m. occ v i m s)) \<and>
     (\<forall>s<128. vS v s = WorkItemBusy \<longrightarrow>
        working_at (vA v) s \<or> (\<exists>i. vF v i = Some s \<and> 0 < vK v i))"

definition call_counts :: "(nat \<Rightarrow> nat) \<Rightarrow> view \<Rightarrow> nat \<Rightarrow> nat \<Rightarrow> bool" where
  "call_counts n v i f \<longleftrightarrow> vO v f = int (card (pending n v i f)) \<and>
     (pending n v i f = {} \<longleftrightarrow> vE v f \<or> vW v i \<or> (\<exists>w. completing v i f w)) \<and>
     \<not> (vE v f \<and> vW v i) \<and> (\<forall>w. \<not> (vE v f \<and> completing v i f w) \<and> \<not> (vW v i \<and> completing v i f w)) \<and>
     (\<forall>w w'. completing v i f w \<longrightarrow> completing v i f w' \<longrightarrow> w = w')"

definition counts_ok :: "(nat \<Rightarrow> nat) \<Rightarrow> view \<Rightarrow> bool" where
  "counts_ok n v \<longleftrightarrow>
     (\<forall>i f. vF v i = Some f \<longrightarrow> call_counts n v i f) \<and> (\<forall>s. vE v s \<longrightarrow> (\<exists>i. vF v i = Some s))"

definition jobs_ok :: "(nat \<Rightarrow> nat) \<Rightarrow> view \<Rightarrow> bool" where
  "jobs_ok n v \<longleftrightarrow> calls_placed n v \<and> entries_linked v \<and> threads_placed v \<and> states_owned v \<and> counts_ok n v"

lemma calls_placedD:
  assumes "calls_placed n v"
  shows "vP v < 128"
    and "vF v i = Some f \<Longrightarrow> f < 128 \<and> vK v i \<le> n i \<and> 0 < n i \<and> n i \<le> 64"
    and "vF v i = Some f \<Longrightarrow> vK v i = 0 \<Longrightarrow> vS v f = WorkItemFree \<and> vP v = f"
    and "vF v i = Some f \<Longrightarrow> 0 < vK v i \<Longrightarrow> vS v f \<noteq> WorkItemFree \<and> vK v i \<le> dist f (vP v)"
    and "vF v i = Some f \<Longrightarrow> vF v j = Some f \<Longrightarrow> i = j"
proof -
  have c: "\<forall>i f. vF v i = Some f \<longrightarrow> f < 128 \<and> vK v i \<le> n i \<and> 0 < n i \<and> n i \<le> 64 \<and>
        (if vK v i = 0 then vS v f = WorkItemFree \<and> vP v = f else vS v f \<noteq> WorkItemFree \<and> vK v i \<le> dist f (vP v))"
    "\<forall>i j f. vF v i = Some f \<longrightarrow> vF v j = Some f \<longrightarrow> i = j" and p: "vP v < 128"
    using assms unfolding calls_placed_def by (blast, blast, blast)
  show "vP v < 128" by (fact p)
  show "vF v i = Some f \<Longrightarrow> f < 128 \<and> vK v i \<le> n i \<and> 0 < n i \<and> n i \<le> 64"
    "vF v i = Some f \<Longrightarrow> vK v i = 0 \<Longrightarrow> vS v f = WorkItemFree \<and> vP v = f"
    "vF v i = Some f \<Longrightarrow> 0 < vK v i \<Longrightarrow> vS v f \<noteq> WorkItemFree \<and> vK v i \<le> dist f (vP v)"
    using c(1) [rule_format, of i f] by (auto split: if_splits)
  show "vF v i = Some f \<Longrightarrow> vF v j = Some f \<Longrightarrow> i = j" using c(2) by blast
qed

lemma entries_linkedD: "entries_linked v \<Longrightarrow> vF v i = Some f \<Longrightarrow> m < vK v i \<Longrightarrow> vL v (slot f m) = f"
  by (simp add: entries_linked_def)

lemma threads_placedD:
  assumes "threads_placed v"
  shows "vA v w = Some (ph, s) \<Longrightarrow> vS v s \<noteq> WorkItemReady"
    and "vA v w = Some (ph, s) \<Longrightarrow> ph = Running \<or> ph = Ran \<Longrightarrow> vS v s = WorkItemBusy"
    and "vA v w = Some (ph, s) \<Longrightarrow> \<exists>i m. occ v i m s"
    and "vA v w = Some (ph, s) \<Longrightarrow> vA v w' = Some (ph', s) \<Longrightarrow> w = w'"
proof -
  have c: "\<forall>w ph s. vA v w = Some (ph, s) \<longrightarrow> vS v s \<noteq> WorkItemReady \<and>
        (ph = Running \<or> ph = Ran \<longrightarrow> vS v s = WorkItemBusy) \<and> (\<exists>i m. occ v i m s)"
    "\<forall>w w' ph ph' s. vA v w = Some (ph, s) \<longrightarrow> vA v w' = Some (ph', s) \<longrightarrow> w = w'"
    using assms unfolding threads_placed_def by (fast, fast)
  show "vA v w = Some (ph, s) \<Longrightarrow> vS v s \<noteq> WorkItemReady"
    "vA v w = Some (ph, s) \<Longrightarrow> ph = Running \<or> ph = Ran \<Longrightarrow> vS v s = WorkItemBusy"
    "vA v w = Some (ph, s) \<Longrightarrow> \<exists>i m. occ v i m s"
    using c(1) [rule_format, of w ph s] by simp_all
  show "vA v w = Some (ph, s) \<Longrightarrow> vA v w' = Some (ph', s) \<Longrightarrow> w = w'" using c(2) by metis
qed

lemma states_ownedD:
  assumes "states_owned v"
  shows "s < 128 \<Longrightarrow> vS v s \<noteq> WorkItemFree \<Longrightarrow> \<exists>i m. occ v i m s"
    and "s < 128 \<Longrightarrow> vS v s = WorkItemBusy \<Longrightarrow>
        working_at (vA v) s \<or> (\<exists>i. vF v i = Some s \<and> 0 < vK v i)"
  using assms unfolding states_owned_def by (fast, metis)

lemma counts_okD:
  assumes "counts_ok n v"
  shows "vF v i = Some f \<Longrightarrow> vO v f = int (card (pending n v i f))"
    and "vF v i = Some f \<Longrightarrow> pending n v i f = {} \<longleftrightarrow> vE v f \<or> vW v i \<or> (\<exists>w. completing v i f w)"
    and "vF v i = Some f \<Longrightarrow> \<not> (vE v f \<and> vW v i) \<and> \<not> (vE v f \<and> completing v i f w) \<and> \<not> (vW v i \<and> completing v i f w)"
    and "vF v i = Some f \<Longrightarrow> completing v i f w \<Longrightarrow> completing v i f w' \<Longrightarrow> w = w'"
    and "vE v s \<Longrightarrow> \<exists>i. vF v i = Some s"
proof -
  note c = assms [unfolded counts_ok_def call_counts_def, THEN conjunct1, rule_format, of i f]
  show "vF v i = Some f \<Longrightarrow> vO v f = int (card (pending n v i f))" using c by blast
  show "vF v i = Some f \<Longrightarrow> pending n v i f = {} \<longleftrightarrow> vE v f \<or> vW v i \<or> (\<exists>w. completing v i f w)" using c by blast
  show "vF v i = Some f \<Longrightarrow> \<not> (vE v f \<and> vW v i) \<and> \<not> (vE v f \<and> completing v i f w) \<and> \<not> (vW v i \<and> completing v i f w)" using c by blast
  show "vF v i = Some f \<Longrightarrow> completing v i f w \<Longrightarrow> completing v i f w' \<Longrightarrow> w = w'" using c by blast
  show "vE v s \<Longrightarrow> \<exists>i. vF v i = Some s" using assms [unfolded counts_ok_def, THEN conjunct2, rule_format, of s] by blast
qed

text \<open>The introduction rules, and when the counts of a call are what they were.\<close>

lemma calls_placedI:
  assumes "vP v < 128" "\<And>i f. vF v i = Some f \<Longrightarrow> f < 128 \<and> vK v i \<le> n i \<and> 0 < n i \<and> n i \<le> 64"
    and "\<And>i f. vF v i = Some f \<Longrightarrow> vK v i = 0 \<Longrightarrow> vS v f = WorkItemFree \<and> vP v = f"
    and "\<And>i f. vF v i = Some f \<Longrightarrow> 0 < vK v i \<Longrightarrow> vS v f \<noteq> WorkItemFree \<and> vK v i \<le> dist f (vP v)"
    and "\<And>i j f. vF v i = Some f \<Longrightarrow> vF v j = Some f \<Longrightarrow> i = j"
  shows "calls_placed n v"
  using assms unfolding calls_placed_def by simp

lemma threads_placedI:
  assumes "\<And>w ph s. vA v w = Some (ph, s) \<Longrightarrow> vS v s \<noteq> WorkItemReady"
    and "\<And>w ph s. vA v w = Some (ph, s) \<Longrightarrow> ph = Running \<or> ph = Ran \<Longrightarrow> vS v s = WorkItemBusy"
    and "\<And>w ph s. vA v w = Some (ph, s) \<Longrightarrow> \<exists>i m. occ v i m s"
    and "\<And>w w' ph ph' s. vA v w = Some (ph, s) \<Longrightarrow> vA v w' = Some (ph', s) \<Longrightarrow> w = w'"
  shows "threads_placed v"
  unfolding threads_placed_def using assms by (intro conjI allI impI) blast+

lemma states_ownedI:
  assumes "\<And>s. s < 128 \<Longrightarrow> vS v s \<noteq> WorkItemFree \<Longrightarrow> \<exists>i m. occ v i m s"
    and "\<And>s. s < 128 \<Longrightarrow> vS v s = WorkItemBusy \<Longrightarrow>
        working_at (vA v) s \<or> (\<exists>i. vF v i = Some s \<and> 0 < vK v i)"
  shows "states_owned v"
  using assms unfolding states_owned_def by simp

lemma counts_okI:
  assumes "\<And>i f. vF v i = Some f \<Longrightarrow> call_counts n v i f" "\<And>s. vE v s \<Longrightarrow> \<exists>i. vF v i = Some s"
  shows "counts_ok n v"
  using assms unfolding counts_ok_def by simp

lemma call_counts_cong:
  assumes "vO v f = vO v' f" "pending n v i f = pending n v' i f" "completing v i f = completing v' i f" "vE v f = vE v' f" "vW v i = vW v' i"
  shows "call_counts n v i f \<longleftrightarrow> call_counts n v' i f"
  unfolding call_counts_def by (simp add: assms)

lemma jobs_okD:
  assumes "jobs_ok n v"
  shows "calls_placed n v" "entries_linked v" "threads_placed v" "states_owned v" "counts_ok n v"
  using assms by (simp_all add: jobs_ok_def)

section \<open>Who is where\<close>

lemma busy_at_upd:
  assumes "A w = None \<or> (\<exists>ph. A w = Some (ph, q))" "x = None \<or> (\<exists>ph. x = Some (ph, q))" "s \<noteq> q"
  shows "busy_at (A(w := x)) s \<longleftrightarrow> busy_at A s"
proof -
  have "u \<noteq> w" if "A u = Some (ph, s) \<or> (A(w := x)) u = Some (ph, s)" for u ph using that assms by auto
  then show ?thesis unfolding busy_at_def by (metis fun_upd_other)
qed

lemma working_at_upd:
  assumes "A w = None \<or> (\<exists>ph. A w = Some (ph, q))" "x = None \<or> (\<exists>ph. x = Some (ph, q))" "s \<noteq> q"
  shows "working_at (A(w := x)) s \<longleftrightarrow> working_at A s"
proof -
  have "u \<noteq> w" if "A u = Some (ph, s) \<or> (A(w := x)) u = Some (ph, s)" for u ph using that assms by auto
  then show ?thesis unfolding working_at_def by (metis fun_upd_other)
qed

lemma working_at_here [simp]: "ph = Running \<or> ph = Ran \<Longrightarrow> working_at (A(w := Some (ph, q))) q"
  by (auto simp: working_at_def)

lemma busy_at_here [simp]: "ph \<noteq> Completing \<Longrightarrow> busy_at (A(w := Some (ph, q))) q"
  by (auto simp: busy_at_def)

lemma occ_unique:
  assumes J: "jobs_ok n v" and "occ v i m s" "occ v j m' s"
  shows "i = j \<and> m = m'"
proof -
  note c = calls_placedD [OF jobs_okD(1) [OF J]] and l = entries_linkedD [OF jobs_okD(2) [OF J]]
  obtain f g where f: "vF v i = Some f" "m < vK v i" "s = slot f m" and g: "vF v j = Some g" "m' < vK v j" "s = slot g m'"
    using assms(2,3) by (auto simp: occ_def)
  have fg: "f = g" using l [OF f(1,2)] l [OF g(1,2)] f(3) g(3) by simp
  then have ij: "i = j" using c(5) f(1) g(1) by blast
  have "slot f m = slot f m'" using f(3) g(3) fg by simp
  moreover have "m < 128" "m' < 128" "f < 128" using c(2) [OF f(1)] f(2) g(2) ij by auto
  ultimately have "m = m'" using slot_inj by blast
  then show ?thesis using ij by simp
qed

lemma occ_link: "jobs_ok n v \<Longrightarrow> occ v i m s \<Longrightarrow> vF v i = Some (vL v s) \<and> s = slot (vL v s) m \<and> m < vK v i"
  using entries_linkedD [OF jobs_okD(2)] by (auto simp: occ_def)

lemma occ_lt [simp]: "occ v i m s \<Longrightarrow> s < 128"
  by (auto simp: occ_def)

text \<open>No call has an entry at a free position that is filled next.\<close>

lemma occ_next_free:
  assumes J: "jobs_ok n v" and "vS v (vP v) = WorkItemFree" and "occ v i m s"
  shows "s \<noteq> vP v"
proof -
  note c = calls_placedD [OF jobs_okD(1) [OF J]]
  obtain f where f: "vF v i = Some f" "m < vK v i" "s = slot f m" using assms(3) by (auto simp: occ_def)
  have k: "vS v f \<noteq> WorkItemFree" "vK v i \<le> dist f (vP v)" using c(4) [OF f(1)] f(2) by auto
  then have "vP v \<noteq> f" using assms(2) by auto
  then show ?thesis using slot_before c(1) c(2) [OF f(1)] k(2) f(2,3) by (metis order_less_le_trans)
qed

lemma first_occ: "jobs_ok n v \<Longrightarrow> vF v i = Some f \<Longrightarrow> 0 < vK v i \<Longrightarrow> occ v i 0 f"
  using calls_placedD(2) [OF jobs_okD(1)] by (auto simp: occ_def)

lemma finite_pending [simp]: "finite (pending n v i f)"
  by (rule finite_subset [of _ "{..<n i}"]) (auto simp: pending_def)

section \<open>The steps of the calls\<close>

lemma counts_okC: "counts_ok n v \<Longrightarrow> vF v i = Some f \<Longrightarrow> call_counts n v i f"
  by (simp add: counts_ok_def)

lemma jobs_okI: "calls_placed n v \<Longrightarrow> entries_linked v \<Longrightarrow> threads_placed v \<Longrightarrow> states_owned v \<Longrightarrow> counts_ok n v \<Longrightarrow> jobs_ok n v"
  by (simp add: jobs_ok_def)

lemmas job_preds = calls_placed_def entries_linked_def threads_placed_def states_owned_def

lemma jobs_first:
  assumes J: "jobs_ok n v" and i: "vF v i = None" "vK v i = 0" "\<not> vW v i" "0 < n i" "n i \<le> 64"
    and free: "vS v (vP v) = WorkItemFree" and alone: "\<And>j f. vF v j = Some f \<Longrightarrow> 0 < vK v j"
  shows "jobs_ok n (v\<lparr>vF := (vF v)(i := Some (vP v)), vO := (vO v)(vP v := int (n i))\<rparr>)" (is "jobs_ok n ?v")
proof -
  note c = calls_placedD [OF jobs_okD(1) [OF J]] and t = threads_placedD [OF jobs_okD(3) [OF J]]
    and s = states_ownedD [OF jobs_okD(4) [OF J]] and k = counts_okD [OF jobs_okD(5) [OF J]]
  have occ: "occ ?v = occ v" using i by (auto simp: occ_def fun_eq_iff)
  have other: "vF v j = Some f \<Longrightarrow> f \<noteq> vP v" for j f using c(4) alone free by metis
  have keep: "vF v j = Some f \<Longrightarrow> j \<noteq> i" for j f using i by auto
  have pend: "pending n ?v j f = pending n v j f" for j f by (simp add: pending_def)
  have all: "pending n v i f = {..<n i}" for f using i by (auto simp: pending_def)
  have compl: "completing ?v = completing v" by (simp add: completing_def fun_eq_iff)
  have none: "\<not> completing v i f w" for f w using i by (simp add: completing_def)
  have ev: "\<not> vE v (vP v)" using k(5) other by blast
  have "call_counts n ?v i (vP v)" using i ev none by (auto simp: call_counts_def pend compl all)
  moreover have "call_counts n ?v j f" if "vF v j = Some f" for j f
    using counts_okC [OF jobs_okD(5) [OF J] that] other [OF that] call_counts_cong [of ?v f v n j] by (simp add: pend compl)
  moreover have "vE v y \<Longrightarrow> \<exists>j. j \<noteq> i \<and> vF v j = Some y" for y using k(5) keep by blast
  ultimately have "counts_ok n ?v" by (intro counts_okI) (auto split: if_splits, blast)
  moreover have "calls_placed n ?v"
  proof (rule calls_placedI)
    show "vF ?v j = Some f \<Longrightarrow> f < 128 \<and> vK ?v j \<le> n j \<and> 0 < n j \<and> n j \<le> 64" for j f using c i by (auto split: if_splits)
    show "vF ?v j = Some f \<Longrightarrow> vK ?v j = 0 \<Longrightarrow> vS ?v f = WorkItemFree \<and> vP ?v = f" for j f using c(3) free by (auto split: if_splits)
    show "vF ?v j = Some f \<Longrightarrow> 0 < vK ?v j \<Longrightarrow> vS ?v f \<noteq> WorkItemFree \<and> vK ?v j \<le> dist f (vP ?v)" for j f
      using c(4) i by (auto split: if_splits)
    show "vF ?v j = Some f \<Longrightarrow> vF ?v l = Some f \<Longrightarrow> j = l" for j l f using c(5) by (auto split: if_splits dest: other)
  qed (simp add: c)
  moreover have "entries_linked ?v" using entries_linkedD [OF jobs_okD(2) [OF J]] i by (auto simp: entries_linked_def)
  moreover have "threads_placed ?v" using jobs_okD(3) [OF J] by (simp add: threads_placed_def occ)
  moreover have "states_owned ?v"
    using s keep by (intro states_ownedI) (simp_all add: occ, metis)
  ultimately show ?thesis by (intro jobs_okI)
qed

lemma jobs_queue:
  assumes J: "jobs_ok n v" and i: "vF v i = Some f" "vK v i < n i" "vP v = slot f (vK v i)"
    and free: "vS v (vP v) = WorkItemFree" and alone: "\<And>j f. vF v j = Some f \<Longrightarrow> j \<noteq> i \<Longrightarrow> 0 < vK v j"
  shows "jobs_ok n (v\<lparr>vK := (vK v)(i := Suc (vK v i)), vS := (vS v)(vP v := WorkItemReady), vL := (vL v)(vP v := f),
    vP := next_position (vP v)\<rparr>)" (is "jobs_ok n ?v")
proof -
  note c = calls_placedD [OF jobs_okD(1) [OF J]] and t = threads_placedD [OF jobs_okD(3) [OF J]]
    and s = states_ownedD [OF jobs_okD(4) [OF J]] and k = counts_okD [OF jobs_okD(5) [OF J]]
  let ?p = "vP v"
  note ci = c(2) [OF i(1)]
  have occ: "occ ?v j m x \<longleftrightarrow> occ v j m x \<or> (j = i \<and> m = vK v i \<and> x = ?p)" for j m x
    using i by (auto simp: occ_def less_Suc_eq)
  have fresh: "occ v j m x \<Longrightarrow> x \<noteq> ?p" for j m x using occ_next_free [OF J free] by blast
  have away: "vF v j = Some g \<Longrightarrow> m < vK v j \<Longrightarrow> slot g m \<noteq> ?p" for j g m using fresh [of j m "slot g m"] by (auto simp: occ_def)
  have nobody: "vA v w \<noteq> Some (ph, ?p)" for w ph using t(3) fresh by blast
  have other: "vF v j = Some g \<Longrightarrow> j \<noteq> i \<Longrightarrow> g \<noteq> ?p" for j g using c(4) alone free by metis
  have first: "vK v i \<noteq> 0 \<Longrightarrow> f \<noteq> ?p" using c(4) [OF i(1)] free by auto
  have zero: "vK v i = 0 \<Longrightarrow> ?p = f" using c(3) [OF i(1)] by blast
  have pend: "pending n ?v j g = pending n v j g" if "vF v j = Some g" for j g
  proof (cases "j = i")
    case True
    then have g: "g = f" using that i by simp
    have "(Suc (vK v i) \<le> m \<or> slot f m = ?p \<or> vS v (slot f m) = WorkItemReady \<or> X) =
        (vK v i \<le> m \<or> vS v (slot f m) = WorkItemReady \<or> X)" if "m < n i" for m X
      using away [OF i(1), of m] i(3) by (cases m "vK v i" rule: linorder_cases) auto
    then show ?thesis by (auto simp: pending_def True g)
  next
    case False
    have "(vK v j \<le> m \<or> slot g m = ?p \<or> X) = (vK v j \<le> m \<or> X)" if "m < n j" for m X
      using away [OF \<open>vF v j = Some g\<close>, of m] by (cases "m < vK v j") auto
    moreover have "0 < vK v j" by (rule alone [OF that False])
    moreover have "vK v j \<le> m \<or> slot g m \<noteq> ?p" for m using away [OF that] by (meson not_less)
    ultimately show ?thesis using False by (auto simp: pending_def)
  qed
  have compl: "completing ?v j g = completing v j g" if "vF v j = Some g" for j g
    using nobody i that by (auto simp: completing_def less_Suc_eq fun_eq_iff)
  have "call_counts n ?v j g" if "vF v j = Some g" for j g
    using counts_okC [OF jobs_okD(5) [OF J] that] call_counts_cong [of ?v g v n j] by (simp add: pend [OF that] compl [OF that])
  then have "counts_ok n ?v" using k(5) by (intro counts_okI) simp_all
  moreover have "calls_placed n ?v"
  proof (rule calls_placedI)
    show "vF ?v j = Some g \<Longrightarrow> g < 128 \<and> vK ?v j \<le> n j \<and> 0 < n j \<and> n j \<le> 64" for j g using c(2) [of j g] i(2) by auto
    show "vF ?v j = Some g \<Longrightarrow> vK ?v j = 0 \<Longrightarrow> vS ?v g = WorkItemFree \<and> vP ?v = g" for j g
      using alone [of j g] by (auto split: if_splits)
    show "vS ?v g \<noteq> WorkItemFree \<and> vK ?v j \<le> dist g (vP ?v)" if g: "vF ?v j = Some g" for j g
    proof (cases "j = i")
      case True
      then have gf: "g = f" using g i by simp
      show ?thesis
      proof (cases "vK v i = 0")
        case True
        then show ?thesis using zero ci \<open>j = i\<close> gf dist_first [of f] by simp
      next
        case False
        then show ?thesis using first ci \<open>j = i\<close> gf dist_next [of f ?p] c(1) c(4) [OF i(1)] by simp
      qed
    next
      case False
      then show ?thesis using g other [of j g] c(2) [of j g] c(4) [of j g] alone [of j g] dist_next [of g ?p] c(1) by simp
    qed
    show "vF ?v j = Some g \<Longrightarrow> vF ?v l = Some g \<Longrightarrow> j = l" for j l g using c(5) by simp
  qed simp
  moreover have "entries_linked ?v"
    using entries_linkedD [OF jobs_okD(2) [OF J]] away i unfolding entries_linked_def by (auto simp: less_Suc_eq)
  moreover have "threads_placed ?v"
  proof (rule threads_placedI)
    fix w ph x assume "vA ?v w = Some (ph, x)"
    then have a: "vA v w = Some (ph, x)" "x \<noteq> ?p" using nobody by auto
    show "vS ?v x \<noteq> WorkItemReady" using t(1) [OF a(1)] a(2) by simp
    show "ph = Running \<or> ph = Ran \<Longrightarrow> vS ?v x = WorkItemBusy" using t(2) [OF a(1)] a(2) by simp
    show "\<exists>j m. occ ?v j m x" using t(3) [OF a(1)] by (auto simp: occ)
    show "vA ?v w' = Some (ph', x) \<Longrightarrow> w = w'" for w' ph' using t(4) [OF a(1)] by simp
  qed
  moreover have "states_owned ?v"
  proof (rule states_ownedI)
    fix x :: nat assume x: "x < 128"
    show "vS ?v x \<noteq> WorkItemFree \<Longrightarrow> \<exists>j m. occ ?v j m x" using s(1) [OF x] by (cases "x = ?p") (auto simp: occ)
    show "vS ?v x = WorkItemBusy \<Longrightarrow> working_at (vA ?v) x \<or> (\<exists>j. vF ?v j = Some x \<and> 0 < vK ?v j)"
      using s(2) [OF x] by (cases "x = ?p") auto
  qed
  ultimately show ?thesis by (intro jobs_okI)
qed

lemma jobs_completed:
  assumes J: "jobs_ok n v" and i: "vF v i = Some f" "vE v f"
  shows "jobs_ok n (v\<lparr>vE := (vE v)(f := False), vW := (vW v)(i := True)\<rparr>)" (is "jobs_ok n ?v")
proof -
  note c = calls_placedD [OF jobs_okD(1) [OF J]] and k = counts_okD [OF jobs_okD(5) [OF J]]
  have occ: "occ ?v = occ v" by (auto simp: occ_def fun_eq_iff)
  have pend: "pending n ?v = pending n v" by (simp add: pending_def fun_eq_iff)
  have compl: "completing ?v = completing v" by (simp add: completing_def fun_eq_iff)
  have other: "vF v j = Some g \<Longrightarrow> g = f \<longleftrightarrow> j = i" for j g using c(5) i by auto
  have "call_counts n ?v j g" if "vF v j = Some g" for j g
  proof (cases "j = i")
    case True
    have "call_counts n ?v i f" using counts_okC [OF jobs_okD(5) [OF J] i(1)] i(2) by (simp add: call_counts_def pend compl)
    then show ?thesis using that i(1) True by simp
  next
    case False
    then show ?thesis
      using counts_okC [OF jobs_okD(5) [OF J] that] other [OF that] call_counts_cong [of ?v g v n j] by (simp add: pend compl)
  qed
  then have "counts_ok n ?v" using k(5) by (intro counts_okI) (auto split: if_splits)
  then show ?thesis using J unfolding jobs_ok_def job_preds occ by simp
qed

text \<open>When a call returns, nobody is at its entries any more, and only the first is still busy.\<close>

lemma woken_alone:
  assumes J: "jobs_ok n v" and i: "vF v i = Some f" "vW v i"
  shows "vK v i = n i" "\<And>m w ph. m < n i \<Longrightarrow> vA v w \<noteq> Some (ph, slot f m)" "\<And>m. m < n i \<Longrightarrow> vS v (slot f m) \<noteq> WorkItemReady"
proof -
  note c = calls_placedD [OF jobs_okD(1) [OF J]] and k = counts_okD [OF jobs_okD(5) [OF J]]
  have p: "pending n v i f = {}" using k(2) [OF i(1)] i(2) by blast
  then have "\<not> vK v i < n i" by (force simp: pending_def)
  then show K: "vK v i = n i" using c(2) [OF i(1)] by simp
  show "vS v (slot f m) \<noteq> WorkItemReady" if "m < n i" for m using p that by (force simp: pending_def)
  show "vA v w \<noteq> Some (ph, slot f m)" if "m < n i" for m w ph
  proof
    assume a: "vA v w = Some (ph, slot f m)"
    then have "ph = Completing" using p that unfolding pending_def busy_at_def by blast
    then have "completing v i f w" using a that K by (auto simp: completing_def)
    then show False using k(3) [OF i(1)] i(2) by blast
  qed
qed

lemma jobs_return:
  assumes J: "jobs_ok n v" and i: "vF v i = Some f" "vW v i"
  shows "jobs_ok n (v\<lparr>vF := (vF v)(i := None), vK := (vK v)(i := x), vW := (vW v)(i := b), vS := (vS v)(f := WorkItemFree)\<rparr>)"
    (is "jobs_ok n ?v")
proof -
  note c = calls_placedD [OF jobs_okD(1) [OF J]] and t = threads_placedD [OF jobs_okD(3) [OF J]]
    and s = states_ownedD [OF jobs_okD(4) [OF J]] and k = counts_okD [OF jobs_okD(5) [OF J]]
  note gone = woken_alone [OF J i]
  have n: "0 < n i" "f < 128" using c(2) [OF i(1)] by auto
  have occ: "occ ?v j m y \<longleftrightarrow> occ v j m y \<and> j \<noteq> i" for j m y by (auto simp: occ_def)
  have busy: "vS v f = WorkItemBusy" using c(4) [OF i(1)] gone(1) gone(3) [OF n(1)] n by (cases "vS v f") auto
  have other: "vF v j = Some g \<Longrightarrow> j \<noteq> i \<Longrightarrow> g \<noteq> f" for j g using c(5) i by auto
  have own: "occ v i 0 f" using first_occ [OF J i(1)] gone(1) n by simp
  have away: "slot g m \<noteq> f" if "vF v j = Some g" "j \<noteq> i" "m < vK v j" for j g m
    using occ_unique [OF J own, of j m] that by (auto simp: occ_def)
  have pend: "pending n ?v j g = pending n v j g" if "vF v j = Some g" "j \<noteq> i" for j g
  proof -
    have "m \<in> pending n ?v j g \<longleftrightarrow> m \<in> pending n v j g" for m
      using away [OF that, of m] that(2) by (cases "m < vK v j") (auto simp: pending_def)
    then show ?thesis by blast
  qed
  have compl: "completing ?v j g = completing v j g" if "j \<noteq> i" for j g using that by (simp add: completing_def fun_eq_iff)
  have "call_counts n ?v j g" if "vF ?v j = Some g" for j g
  proof -
    have j: "j \<noteq> i" "vF v j = Some g" using that by (auto split: if_splits)
    show ?thesis
      using counts_okC [OF jobs_okD(5) [OF J] j(2)] call_counts_cong [of ?v g v n j] j(1) by (simp add: pend [OF j(2,1)] compl)
  qed
  moreover have "\<exists>j. j \<noteq> i \<and> vF v j = Some y" if "vE v y" for y
  proof -
    have "y \<noteq> f" using that k(3) [OF i(1)] i(2) by blast
    then show ?thesis using k(5) [OF that] i(1) by (metis option.inject)
  qed
  ultimately have "counts_ok n ?v" by (intro counts_okI) (auto split: if_splits, blast)
  moreover have "calls_placed n ?v"
  proof (rule calls_placedI)
    show "vF ?v j = Some g \<Longrightarrow> g < 128 \<and> vK ?v j \<le> n j \<and> 0 < n j \<and> n j \<le> 64" for j g using c(2) [of j g] by (auto split: if_splits)
    show "vF ?v j = Some g \<Longrightarrow> vK ?v j = 0 \<Longrightarrow> vS ?v g = WorkItemFree \<and> vP ?v = g" for j g using c(3) [of j g] by (auto split: if_splits)
    show "vF ?v j = Some g \<Longrightarrow> 0 < vK ?v j \<Longrightarrow> vS ?v g \<noteq> WorkItemFree \<and> vK ?v j \<le> dist g (vP ?v)" for j g
      using c(4) [of j g] other [of j g] by (auto split: if_splits)
    show "vF ?v j = Some g \<Longrightarrow> vF ?v l = Some g \<Longrightarrow> j = l" for j l g using c(5) by (auto split: if_splits)
  qed (simp add: c(1))
  moreover have "entries_linked ?v" using entries_linkedD [OF jobs_okD(2) [OF J]] unfolding entries_linked_def by auto
  moreover have "threads_placed ?v"
  proof (rule threads_placedI)
    fix w ph y assume "vA ?v w = Some (ph, y)"
    then have a: "vA v w = Some (ph, y)" by simp
    obtain j m where o: "occ v j m y" using t(3) [OF a] by blast
    then have ji: "j \<noteq> i" using gone(1,2) i(1) a by (auto simp: occ_def)
    moreover from this have "y \<noteq> f" using o away by (auto simp: occ_def)
    ultimately show "vS ?v y \<noteq> WorkItemReady" "ph = Running \<or> ph = Ran \<Longrightarrow> vS ?v y = WorkItemBusy" "\<exists>j m. occ ?v j m y"
      using o t(1,2) [OF a] unfolding occ by auto
    show "vA ?v w' = Some (ph', y) \<Longrightarrow> w = w'" for w' ph' using t(4) [OF a] by simp
  qed
  moreover have "states_owned ?v"
  proof (rule states_ownedI)
    fix y :: nat assume y: "y < 128"
    show "\<exists>j m. occ ?v j m y" if free: "vS ?v y \<noteq> WorkItemFree"
    proof -
      have yf: "vS v y \<noteq> WorkItemFree" "y \<noteq> f" using free by (auto split: if_splits)
      obtain j m where o: "occ v j m y" using s(1) [OF y yf(1)] by blast
      have "j \<noteq> i"
      proof
        assume "j = i"
        then have m: "m < n i" "y = slot f m" using o i(1) gone(1) by (auto simp: occ_def)
        then have "vS v y = WorkItemBusy" using gone(3) [OF m(1)] yf(1) by (cases "vS v y") auto
        then obtain l where l: "vF v l = Some y" "0 < vK v l" using s(2) [OF y] m gone(2) [OF m(1)] by (auto simp: working_at_def)
        then have "l = i" using occ_unique [OF J first_occ [OF J l] o] \<open>j = i\<close> by simp
        then show False using l(1) i(1) yf(2) by simp
      qed
      then show ?thesis using o unfolding occ by blast
    qed
    show "vS ?v y = WorkItemBusy \<Longrightarrow> working_at (vA ?v) y \<or> (\<exists>j. vF ?v j = Some y \<and> 0 < vK ?v j)"
      using s(2) [OF y] i(1) by (cases "y = f") (simp_all, metis option.inject)
  qed
  ultimately show ?thesis by (intro jobs_okI)
qed

section \<open>The steps of the threads\<close>

lemma jobs_take:
  assumes J: "jobs_ok n v" and w: "vA v w = None" "q < 128" "vS v q = WorkItemReady"
  shows "jobs_ok n (v\<lparr>vS := (vS v)(q := WorkItemBusy), vA := (vA v)(w := Some (Running, q))\<rparr>)" (is "jobs_ok n ?v")
proof -
  note c = calls_placedD [OF jobs_okD(1) [OF J]] and t = threads_placedD [OF jobs_okD(3) [OF J]]
    and s = states_ownedD [OF jobs_okD(4) [OF J]] and k = counts_okD [OF jobs_okD(5) [OF J]]
  have occ: "occ ?v = occ v" by (auto simp: occ_def fun_eq_iff)
  have nobody: "vA v u \<noteq> Some (ph, q)" for u ph using t(1) w(3) by blast
  have at: "vA ?v u = Some (ph, y) \<longleftrightarrow> (u = w \<and> ph = Running \<and> y = q) \<or> (u \<noteq> w \<and> vA v u = Some (ph, y))" for u ph y by auto
  have pend: "pending n ?v = pending n v"
  proof (intro ext set_eqI)
    fix i f m
    show "m \<in> pending n ?v i f \<longleftrightarrow> m \<in> pending n v i f"
      using w by (cases "slot f m = q") (simp_all add: pending_def busy_at_upd)
  qed
  have compl: "completing ?v = completing v"
    using w by (auto simp: completing_def fun_eq_iff)
  have "call_counts n ?v i f" if "vF v i = Some f" for i f
    using counts_okC [OF jobs_okD(5) [OF J] that] call_counts_cong [of ?v f v n i] by (simp add: pend compl)
  then have "counts_ok n ?v" using k(5) by (intro counts_okI) simp_all
  moreover have "calls_placed n ?v"
    using c w(3) by (intro calls_placedI) (auto split: if_splits)
  moreover have "entries_linked ?v" using jobs_okD(2) [OF J] by (simp add: entries_linked_def)
  moreover have "threads_placed ?v"
  proof (rule threads_placedI)
    fix u ph y assume a: "vA ?v u = Some (ph, y)"
    show "vS ?v y \<noteq> WorkItemReady" "ph = Running \<or> ph = Ran \<Longrightarrow> vS ?v y = WorkItemBusy" "\<exists>j m. occ ?v j m y"
      using a t(1-3) [of u ph y] s(1) [of q] w unfolding at occ by auto
    show "vA ?v u' = Some (ph', y) \<Longrightarrow> u = u'" for u' ph' using a t(4) nobody unfolding at by blast
  qed
  moreover have "states_owned ?v"
  proof (rule states_ownedI)
    fix y :: nat assume y: "y < 128"
    show "vS ?v y \<noteq> WorkItemFree \<Longrightarrow> \<exists>j m. occ ?v j m y" using s(1) [OF y] w(3) unfolding occ by (auto split: if_splits)
    show "vS ?v y = WorkItemBusy \<Longrightarrow> working_at (vA ?v) y \<or> (\<exists>j. vF ?v j = Some y \<and> 0 < vK ?v j)"
      using s(2) [OF y] w(1) by (cases "y = q") (simp_all add: working_at_upd)
  qed
  ultimately show ?thesis by (intro jobs_okI)
qed

text \<open>The work itself, and a thread that keeps the entry of a first fragment.\<close>

lemma jobs_phase:
  assumes J: "jobs_ok n v" and w: "vA v w = Some (ph, q)"
    and step: "ph = Running \<and> ph' = Ran \<or> ph = Ran \<and> ph' = Released \<and> vL v q = q"
  shows "jobs_ok n (v\<lparr>vA := (vA v)(w := Some (ph', q))\<rparr>)" (is "jobs_ok n ?v")
proof -
  note c = calls_placedD [OF jobs_okD(1) [OF J]] and t = threads_placedD [OF jobs_okD(3) [OF J]]
    and s = states_ownedD [OF jobs_okD(4) [OF J]] and k = counts_okD [OF jobs_okD(5) [OF J]]
  have occ: "occ ?v = occ v" by (auto simp: occ_def fun_eq_iff)
  have at: "vA ?v u = Some (p, y) \<longleftrightarrow> (u = w \<and> p = ph' \<and> y = q) \<or> (u \<noteq> w \<and> vA v u = Some (p, y))" for u p y by auto
  have bw: "busy_at (vA v) q" using w step by (auto simp: busy_at_def)
  have pend: "pending n ?v = pending n v"
  proof (intro ext set_eqI)
    fix i f m
    show "m \<in> pending n ?v i f \<longleftrightarrow> m \<in> pending n v i f"
      using w step bw by (cases "slot f m = q") (auto simp: pending_def busy_at_upd)
  qed
  have compl: "completing ?v = completing v"
    unfolding completing_def at using w step by (auto simp: fun_eq_iff)
  have "call_counts n ?v i f" if "vF v i = Some f" for i f
    using counts_okC [OF jobs_okD(5) [OF J] that] call_counts_cong [of ?v f v n i] by (simp add: pend compl)
  then have "counts_ok n ?v" using k(5) by (intro counts_okI) simp_all
  moreover have "calls_placed n ?v" using jobs_okD(1) [OF J] by (simp add: calls_placed_def)
  moreover have "entries_linked ?v" using jobs_okD(2) [OF J] by (simp add: entries_linked_def)
  moreover have "threads_placed ?v"
  proof (rule threads_placedI)
    fix u p y assume a: "vA ?v u = Some (p, y)"
    show "vS ?v y \<noteq> WorkItemReady" "p = Running \<or> p = Ran \<Longrightarrow> vS ?v y = WorkItemBusy" "\<exists>j m. occ ?v j m y"
      using a t(1-3) [of u p y] t(1-3) [OF w] step unfolding at occ by auto
    show "vA ?v u' = Some (p', y) \<Longrightarrow> u = u'" for u' p' using a t(4) w unfolding at by blast
  qed
  moreover have "states_owned ?v"
  proof (rule states_ownedI)
    fix y :: nat assume y: "y < 128"
    show "vS ?v y \<noteq> WorkItemFree \<Longrightarrow> \<exists>j m. occ ?v j m y" using s(1) [OF y] unfolding occ by simp
    show "working_at (vA ?v) y \<or> (\<exists>j. vF ?v j = Some y \<and> 0 < vK ?v j)"
      if b: "vS ?v y = WorkItemBusy"
    proof (cases "y = q \<and> ph = Ran")
      case True
      then have l: "vL v q = q" using step by auto
      obtain i m where "occ v i m q" using t(3) [OF w] by blast
      then have "vF v i = Some q" "m < vK v i" using occ_link [OF J] l by auto
      then show ?thesis using True by (intro disjI2 exI [of _ i]) simp
    next
      case False
      then show ?thesis using s(2) [OF y] b w step by (cases "y = q") (auto simp: working_at_upd)
    qed
  qed
  ultimately show ?thesis by (intro jobs_okI)
qed

lemma jobs_free:
  assumes J: "jobs_ok n v" and w: "vA v w = Some (Ran, q)" "vL v q \<noteq> q"
  shows "jobs_ok n (v\<lparr>vS := (vS v)(q := WorkItemFree), vA := (vA v)(w := Some (Released, q))\<rparr>)" (is "jobs_ok n ?v")
proof -
  note c = calls_placedD [OF jobs_okD(1) [OF J]] and t = threads_placedD [OF jobs_okD(3) [OF J]]
    and s = states_ownedD [OF jobs_okD(4) [OF J]] and k = counts_okD [OF jobs_okD(5) [OF J]]
  have occ: "occ ?v = occ v" by (auto simp: occ_def fun_eq_iff)
  have at: "vA ?v u = Some (p, y) \<longleftrightarrow> (u = w \<and> p = Released \<and> y = q) \<or> (u \<noteq> w \<and> vA v u = Some (p, y))" for u p y by auto
  have busy: "vS v q = WorkItemBusy" using t(2) [OF w(1)] by simp
  have first: "f \<noteq> q" if "vF v i = Some f" "0 < vK v i" for i f
    using entries_linkedD [OF jobs_okD(2) [OF J] that(1,2)] c(2) [OF that(1)] w(2) by auto
  have bw: "busy_at (vA v) q" using w(1) by (auto simp: busy_at_def)
  have pend: "pending n ?v = pending n v"
  proof (intro ext set_eqI)
    fix i f m
    show "m \<in> pending n ?v i f \<longleftrightarrow> m \<in> pending n v i f"
      using w busy bw by (cases "slot f m = q") (simp_all add: pending_def busy_at_upd)
  qed
  have compl: "completing ?v = completing v"
    unfolding completing_def at using w by (auto simp: fun_eq_iff)
  have "call_counts n ?v i f" if "vF v i = Some f" for i f
    using counts_okC [OF jobs_okD(5) [OF J] that] call_counts_cong [of ?v f v n i] by (simp add: pend compl)
  then have "counts_ok n ?v" using k(5) by (intro counts_okI) simp_all
  moreover have "calls_placed n ?v"
    using c first by (intro calls_placedI) (auto split: if_splits)
  moreover have "entries_linked ?v" using jobs_okD(2) [OF J] by (simp add: entries_linked_def)
  moreover have "threads_placed ?v"
  proof (rule threads_placedI)
    fix u p y assume a: "vA ?v u = Some (p, y)"
    have "u \<noteq> w \<Longrightarrow> y \<noteq> q" using a t(4) w(1) unfolding at by blast
    then show "vS ?v y \<noteq> WorkItemReady" "p = Running \<or> p = Ran \<Longrightarrow> vS ?v y = WorkItemBusy" "\<exists>j m. occ ?v j m y"
      using a t(1-3) [of u p y] t(3) [OF w(1)] unfolding at occ by auto
    show "vA ?v u' = Some (p', y) \<Longrightarrow> u = u'" for u' p' using a t(4) w(1) unfolding at by blast
  qed
  moreover have "states_owned ?v"
  proof (rule states_ownedI)
    fix y :: nat assume y: "y < 128"
    show "vS ?v y \<noteq> WorkItemFree \<Longrightarrow> \<exists>j m. occ ?v j m y" using s(1) [OF y] unfolding occ by (auto split: if_splits)
    show "vS ?v y = WorkItemBusy \<Longrightarrow> working_at (vA ?v) y \<or> (\<exists>j. vF ?v j = Some y \<and> 0 < vK ?v j)"
      using s(2) [OF y] w(1) by (cases "y = q") (simp_all add: working_at_upd)
  qed
  ultimately show ?thesis by (intro jobs_okI)
qed

lemma thread_owner:
  assumes "jobs_ok n v" "vA v w = Some (ph, q)"
  obtains i m where "vF v i = Some (vL v q)" "m < vK v i" "q = slot (vL v q) m" "m < n i"
proof -
  obtain i m where o: "occ v i m q" using threads_placedD(3) [OF jobs_okD(3) [OF assms(1)] assms(2)] by blast
  then have "vF v i = Some (vL v q)" "m < vK v i" "q = slot (vL v q) m" using occ_link [OF assms(1)] by auto
  then show ?thesis using that calls_placedD(2) [OF jobs_okD(1) [OF assms(1)]] by (meson le_trans linorder_not_less)
qed

lemma jobs_count:
  assumes J: "jobs_ok n v" and w: "vA v w = Some (Released, q)" and g: "g = vL v q" and cnt: "cnt = vO v g - 1"
  shows "jobs_ok n (v\<lparr>vO := (vO v)(g := cnt), vA := (vA v)(w := if cnt = 0 then Some (Completing, q) else None)\<rparr>)" (is "jobs_ok n ?v")
proof -
  note c = calls_placedD [OF jobs_okD(1) [OF J]] and t = threads_placedD [OF jobs_okD(3) [OF J]]
    and s = states_ownedD [OF jobs_okD(4) [OF J]] and k = counts_okD [OF jobs_okD(5) [OF J]]
  obtain i m where i: "vF v i = Some g" "m < vK v i" "q = slot g m" "m < n i" using thread_owner [OF J w] g by metis
  have own: "occ v i m q" using i by (auto simp: occ_def)
  have occ: "occ ?v = occ v" by (auto simp: occ_def fun_eq_iff)
  have at: "vA ?v u = Some (p, y) \<longleftrightarrow> (u = w \<and> cnt = 0 \<and> p = Completing \<and> y = q) \<or> (u \<noteq> w \<and> vA v u = Some (p, y))" for u p y by auto
  have busy: "busy_at (vA v) q" using w by (auto simp: busy_at_def)
  have idle: "\<not> busy_at (vA ?v) q" using t(4) w by (auto simp: busy_at_def at)
  have away: "slot f l \<noteq> q" if "vF v j = Some f" "l < vK v j" "j \<noteq> i \<or> l \<noteq> m" for j f l
    using occ_unique [OF J own, of j l] that by (auto simp: occ_def)
  have pend: "pending n ?v j f = (if j = i then pending n v i g - {m} else pending n v j f)" if "vF v j = Some f" for j f
  proof -
    have "l \<in> pending n ?v j f \<longleftrightarrow> l \<in> (if j = i then pending n v i g - {m} else pending n v j f)" for l
    proof (cases "j = i \<and> l = m")
      case True
      then show ?thesis using idle i t(1) [OF w] that by (auto simp: pending_def)
    next
      case False
      then have "vK v j \<le> l \<or> slot f l \<noteq> q" using away [OF that, of l] by auto
      then have "vK v j \<le> l \<or> busy_at (vA ?v) (slot f l) = busy_at (vA v) (slot f l)" using w by (auto simp: busy_at_upd)
      then show ?thesis using False i(1) that by (auto simp: pending_def)
    qed
    then show ?thesis by blast
  qed
  have m: "m \<in> pending n v i g" using busy i by (auto simp: pending_def)
  have pi: "pending n ?v i g = pending n v i g - {m}" using pend [OF i(1)] by simp
  have card: "cnt = int (card (pending n ?v i g))"
  proof -
    have "card (pending n v i g) = Suc (card (pending n v i g - {m}))" using card.remove [OF finite_pending m] .
    moreover have "card (pending n ?v i g) = card (pending n v i g - {m})" by (simp only: pi)
    ultimately show ?thesis using k(1) [OF i(1)] cnt by linarith
  qed
  have none: "\<not> vE v g" "\<not> vW v i" "\<not> completing v i g u" for u using k(2) [OF i(1)] m by auto
  have compl: "completing ?v i g u \<longleftrightarrow> u = w \<and> cnt = 0" for u
    using none(3) i(2,3) unfolding completing_def at by auto
  have compl': "completing ?v j f = completing v j f" if "vF v j = Some f" "j \<noteq> i" for j f
    using away [OF that(1)] that(2) w unfolding completing_def at by (auto simp: fun_eq_iff)
  have "call_counts n ?v j f" if f: "vF v j = Some f" for j f
  proof (cases "j = i")
    case True
    define X where "X = pending n ?v i g"
    have c: "cnt = int (card X)" unfolding X_def by (rule card)
    have "finite X" unfolding X_def by (rule finite_pending)
    then have "cnt = 0 \<longleftrightarrow> X = {}" using c by simp
    moreover define Q where "Q = completing ?v i g"
    have q: "Q u \<longleftrightarrow> u = w \<and> cnt = 0" for u unfolding Q_def by (rule compl)
    moreover have "Ex Q \<longleftrightarrow> cnt = 0" using q by metis
    ultimately have "call_counts n ?v i g"
      using none c unfolding call_counts_def X_def [symmetric] Q_def [symmetric] by simp
    then show ?thesis using True i(1) f by simp
  next
    case False
    then have "f \<noteq> g" using c(5) f i(1) by blast
    then show ?thesis
      using counts_okC [OF jobs_okD(5) [OF J] f] call_counts_cong [of ?v f v n j] False by (simp add: pend [OF f] compl' [OF f])
  qed
  then have "counts_ok n ?v" using k(5) by (intro counts_okI) simp_all
  moreover have "calls_placed n ?v" using jobs_okD(1) [OF J] by (simp add: calls_placed_def)
  moreover have "entries_linked ?v" using jobs_okD(2) [OF J] by (simp add: entries_linked_def)
  moreover have "threads_placed ?v"
  proof (rule threads_placedI)
    fix u p y assume a: "vA ?v u = Some (p, y)"
    show "vS ?v y \<noteq> WorkItemReady" "p = Running \<or> p = Ran \<Longrightarrow> vS ?v y = WorkItemBusy" "\<exists>j m. occ ?v j m y"
      using a t(1-3) [of u p y] t(1,3) [OF w] unfolding at occ by auto
    show "vA ?v u' = Some (p', y) \<Longrightarrow> u = u'" for u' p' using a t(4) w unfolding at by blast
  qed
  moreover have "states_owned ?v"
  proof (rule states_ownedI)
    fix y :: nat assume y: "y < 128"
    show "vS ?v y \<noteq> WorkItemFree \<Longrightarrow> \<exists>j m. occ ?v j m y" using s(1) [OF y] unfolding occ by simp
    have "\<not> working_at (vA v) q" using t(4) [OF w] w by (auto simp: working_at_def)
    then show "vS ?v y = WorkItemBusy \<Longrightarrow> working_at (vA ?v) y \<or> (\<exists>j. vF ?v j = Some y \<and> 0 < vK ?v j)"
      using s(2) [OF y] w by (cases "y = q") (simp_all add: working_at_upd)
  qed
  ultimately show ?thesis by (intro jobs_okI)
qed

lemma jobs_complete:
  assumes J: "jobs_ok n v" and w: "vA v w = Some (Completing, q)" and g: "g = vL v q"
  shows "jobs_ok n (v\<lparr>vE := (vE v)(g := True), vA := (vA v)(w := None)\<rparr>)" (is "jobs_ok n ?v")
proof -
  note c = calls_placedD [OF jobs_okD(1) [OF J]] and t = threads_placedD [OF jobs_okD(3) [OF J]]
    and s = states_ownedD [OF jobs_okD(4) [OF J]] and k = counts_okD [OF jobs_okD(5) [OF J]]
  obtain i m where i: "vF v i = Some g" "m < vK v i" "q = slot g m" "m < n i" using thread_owner [OF J w] g by metis
  have own: "occ v i m q" using i by (auto simp: occ_def)
  have occ: "occ ?v = occ v" by (auto simp: occ_def fun_eq_iff)
  have at: "vA ?v u = Some (p, y) \<longleftrightarrow> u \<noteq> w \<and> vA v u = Some (p, y)" for u p y by auto
  have "busy_at (vA ?v) y \<longleftrightarrow> busy_at (vA v) y" for y using w unfolding busy_at_def at by force
  then have pend: "pending n ?v = pending n v" by (simp add: pending_def fun_eq_iff)
  have cw: "completing v i g w" using w i by (auto simp: completing_def)
  have none: "\<not> vE v g" "\<not> vW v i" "pending n v i g = {}" using k(2,3) [OF i(1)] cw by blast+
  have compl: "\<not> completing ?v i g u" for u
    using k(4) [OF i(1) cw, of u] by (auto simp: completing_def)
  have compl': "completing ?v j f = completing v j f" if "vF v j = Some f" "j \<noteq> i" for j f
  proof -
    have "slot f l \<noteq> q" if "l < vK v j" for l using occ_unique [OF J own, of j l] \<open>vF v j = Some f\<close> \<open>j \<noteq> i\<close> that by (auto simp: occ_def)
    then show ?thesis using w unfolding completing_def at by (auto simp: fun_eq_iff)
  qed
  have "call_counts n ?v j f" if f: "vF v j = Some f" for j f
  proof (cases "j = i")
    case True
    have "call_counts n ?v i g" using none k(1) [OF i(1)] compl by (simp add: call_counts_def pend)
    then show ?thesis using True i(1) f by simp
  next
    case False
    then have "f \<noteq> g" using c(5) f i(1) by blast
    then show ?thesis
      using counts_okC [OF jobs_okD(5) [OF J] f] call_counts_cong [of ?v f v n j] False by (simp add: pend compl' [OF f])
  qed
  then have "counts_ok n ?v" using k(5) i(1) by (intro counts_okI) (simp_all split: if_splits, blast)
  moreover have "calls_placed n ?v" using jobs_okD(1) [OF J] by (simp add: calls_placed_def)
  moreover have "entries_linked ?v" using jobs_okD(2) [OF J] by (simp add: entries_linked_def)
  moreover have "threads_placed ?v"
  proof (rule threads_placedI)
    fix u p y assume a: "vA ?v u = Some (p, y)"
    show "vS ?v y \<noteq> WorkItemReady" "p = Running \<or> p = Ran \<Longrightarrow> vS ?v y = WorkItemBusy" "\<exists>j m. occ ?v j m y"
      using a t(1-3) [of u p y] unfolding at occ by auto
    show "vA ?v u' = Some (p', y) \<Longrightarrow> u = u'" for u' p' using a t(4) unfolding at by blast
  qed
  moreover have "states_owned ?v"
  proof (rule states_ownedI)
    fix y :: nat assume y: "y < 128"
    show "vS ?v y \<noteq> WorkItemFree \<Longrightarrow> \<exists>j m. occ ?v j m y" using s(1) [OF y] unfolding occ by simp
    have "working_at (vA ?v) y \<longleftrightarrow> working_at (vA v) y" using w unfolding working_at_def at by force
    then show "vS ?v y = WorkItemBusy \<Longrightarrow> working_at (vA ?v) y \<or> (\<exists>j. vF ?v j = Some y \<and> 0 < vK ?v j)"
      using s(2) [OF y] by simp
  qed
  ultimately show ?thesis by (intro jobs_okI)
qed

end
