(* ===== verification/Pool_Invariant.thy ===== *)
theory Pool_Invariant
  imports Pool_Jobs
begin

text \<open>
  The invariant of the thread pool: \<open>pool_ok\<close> holds at the start and every step keeps it. Beside the
  calls' bookkeeping (\<open>jobs_ok\<close> of the \<open>view\<close> of a state) it says who holds the mutexes, that the ready
  entries are those from the one taken next up to the one filled next, that no wake-up is lost, what the
  entries of a call say, and what its buffer holds: the result in the fragments that have been worked on, the
  original data in the others.
\<close>

section \<open>The view of a state\<close>

fun first_of :: "caller_pc \<Rightarrow> nat option" where
  "first_of (Enqueuing a fo fr) = fo"
| "first_of (Waiting f) = Some f"
| "first_of (Woken f) = Some f"
| "first_of Entering = None"
| "first_of Returned = None"

fun queued :: "nat \<Rightarrow> caller_pc \<Rightarrow> nat" where
  "queued n (Enqueuing a fo fr) = n - unat (fragmentCount fr)"
| "queued n (Waiting f) = n"
| "queued n (Woken f) = n"
| "queued n Entering = 0"
| "queued n Returned = 0"

fun woken :: "caller_pc \<Rightarrow> bool" where
  "woken (Woken f) = True"
| "woken (Enqueuing a fo fr) = False"
| "woken (Waiting f) = False"
| "woken Entering = False"
| "woken Returned = False"

fun enqueuing :: "caller_pc \<Rightarrow> bool" where
  "enqueuing (Enqueuing a fo fr) = True"
| "enqueuing (Waiting f) = False"
| "enqueuing (Woken f) = False"
| "enqueuing Entering = False"
| "enqueuing Returned = False"

fun place :: "thread_pc \<Rightarrow> (phase \<times> nat) option" where
  "place (At ph s) = Some (ph, s)"
| "place Outside = None"
| "place Scanning = None"
| "place Asleep = None"

definition scanning :: "thread_pc \<Rightarrow> bool" where
  "scanning pc \<longleftrightarrow> pc = Scanning \<or> pc = Asleep"

lemma scanning_simps [simp]: "scanning Scanning" "scanning Asleep" "\<not> scanning Outside" "\<not> scanning (At ph s)"
  by (simp_all add: scanning_def)

definition call_frags :: "pool_env \<Rightarrow> nat \<Rightarrow> nat" where
  "call_frags env i = frag_count (pe_threads env) (pe_calls env i)"

definition view_of :: "pool_env \<Rightarrow> pool \<Rightarrow> view" where
  "view_of env st =
     \<lparr>vF = \<lambda>i. if i < pe_callers env then first_of (callers st i) else None,
      vK = \<lambda>i. queued (call_frags env i) (callers st i), vW = \<lambda>i. woken (callers st i),
      vS = \<lambda>s. State (item st s), vL = \<lambda>s. FirstFragment (item st s), vO = \<lambda>s. OutstandingFragmentCount (item st s),
      vE = \<lambda>s. ItemCompletedEvent (item st s), vA = \<lambda>w. if w < unat (pe_threads env) then place (threads st w) else None,
      vP = EnqueuePosition st\<rparr>"

lemmas pool_defs = item_def set_item_def set_caller_def set_thread_def set_buffer_def

lemma view_sel [simp]:
  "vF (view_of env st) i = (if i < pe_callers env then first_of (callers st i) else None)"
  "vK (view_of env st) i = queued (call_frags env i) (callers st i)"
  "vW (view_of env st) i = woken (callers st i)"
  "vS (view_of env st) s = State (item st s)"
  "vL (view_of env st) s = FirstFragment (item st s)"
  "vO (view_of env st) s = OutstandingFragmentCount (item st s)"
  "vE (view_of env st) s = ItemCompletedEvent (item st s)"
  "vA (view_of env st) w = (if w < unat (pe_threads env) then place (threads st w) else None)"
  "vP (view_of env st) = EnqueuePosition st"
  by (simp_all add: view_of_def)

section \<open>The mutexes\<close>

definition locks_ok :: "pool_env \<Rightarrow> pool \<Rightarrow> bool" where
  "locks_ok env st \<longleftrightarrow>
     (\<forall>i<pe_callers env. enqueuing (callers st i) \<longleftrightarrow> EnqueueMutex st = Some i) \<and>
     (\<forall>i. EnqueueMutex st = Some i \<longrightarrow> i < pe_callers env) \<and>
     (\<forall>w<unat (pe_threads env). scanning (threads st w) \<longleftrightarrow> DequeueMutex st = Some w) \<and>
     (\<forall>w. DequeueMutex st = Some w \<longrightarrow> w < unat (pe_threads env))"

lemma locks_step: "pool_step env st st' \<Longrightarrow> locks_ok env st \<Longrightarrow> locks_ok env st'"
  by (erule pool_step_cases; simp add: locks_ok_def pool_defs; fastforce)

section \<open>The fragments in the queue\<close>

text \<open>The calls are those of the data \<open>B\<close>; the pool has at least two threads and at most 64.\<close>

definition env_ok :: "pool_env \<Rightarrow> (nat \<Rightarrow> bytes) \<Rightarrow> bool" where
  "env_ok env B \<longleftrightarrow> 2 \<le> unat (pe_threads env) \<and> unat (pe_threads env) \<le> 64 \<and> (\<forall>i<pe_callers env. call_ok env i (B i))"

abbreviation (input) frag_of :: "pool_env \<Rightarrow> nat \<Rightarrow> nat \<Rightarrow> fragments" where
  "frag_of env i m \<equiv> fragment (pe_threads env) (pe_calls env i) m"

fun call_queueing :: "pool_env \<Rightarrow> nat \<Rightarrow> nat \<Rightarrow> caller_pc \<Rightarrow> bool" where
  "call_queueing env p i Entering \<longleftrightarrow> True"
| "call_queueing env p i (Enqueuing a None fr) \<longleftrightarrow> \<not> wr_unitCount (pe_calls env i) \<le> 1 \<and> fr = frag_of env i 0"
| "call_queueing env p i (Enqueuing a (Some f) fr) \<longleftrightarrow> \<not> wr_unitCount (pe_calls env i) \<le> 1 \<and>
     (\<exists>k\<le>call_frags env i. fr = frag_of env i k \<and> p = slot f k)"
| "call_queueing env p i (Waiting f) \<longleftrightarrow> \<not> wr_unitCount (pe_calls env i) \<le> 1"
| "call_queueing env p i (Woken f) \<longleftrightarrow> \<not> wr_unitCount (pe_calls env i) \<le> 1"
| "call_queueing env p i Returned \<longleftrightarrow> True"

definition queueing_ok :: "pool_env \<Rightarrow> pool \<Rightarrow> bool" where
  "queueing_ok env st \<longleftrightarrow> (\<forall>i<pe_callers env. call_queueing env (EnqueuePosition st) i (callers st i))"

lemma env_fits:
  assumes "env_ok env B" "i < pe_callers env" "\<not> wr_unitCount (pe_calls env i) \<le> 1"
  shows "call_fits (pe_threads env) (pe_calls env i)"
proof -
  have "2 \<le> unat (wr_unitCount (pe_calls env i))" using assms(3) by (simp add: word_le_nat_alt)
  then show ?thesis using assms(1,2) by (simp add: env_ok_def call_fits_def call_ok_def Let_def)
qed

lemma call_frags_bounds:
  assumes "env_ok env B" "i < pe_callers env" "\<not> wr_unitCount (pe_calls env i) \<le> 1"
  shows "2 \<le> call_frags env i" "call_frags env i \<le> 64"
  using call_fitsD(2,3) [OF env_fits [OF assms]] by (simp_all add: call_frags_def)

lemma frag_remaining:
  assumes "env_ok env B" "i < pe_callers env" "\<not> wr_unitCount (pe_calls env i) \<le> 1" "k \<le> call_frags env i"
  shows "unat (fragmentCount (frag_of env i k)) = call_frags env i - k"
  using fragment_facts(1) [OF env_fits [OF assms(1-3)]] assms(4) by (simp add: call_frags_def)

lemma frag_left:
  assumes "env_ok env B" "i < pe_callers env" "\<not> wr_unitCount (pe_calls env i) \<le> 1" "k \<le> call_frags env i"
  shows "0 < fragmentCount (frag_of env i k) \<longleftrightarrow> k < call_frags env i" "queued (call_frags env i) (Enqueuing a fo (frag_of env i k)) = k"
  using frag_remaining [OF assms] assms(4) by (simp_all add: word_less_nat_alt)

lemma frag_0: "frag_of env i 0 = first_fragment (pe_threads env) (pe_calls env i)"
  by (simp add: fragment_def)

lemma queueing_asleep: "call_queueing env p i (Enqueuing a fo fr) = call_queueing env p i (Enqueuing b fo fr)"
  by (cases fo) simp_all

lemma queueing_other: "\<not> enqueuing pc \<Longrightarrow> call_queueing env p i pc = call_queueing env q i pc"
  by (cases pc) simp_all

lemma queueing_more:
  assumes "call_queueing env p i pc" "pc \<noteq> Entering" "pc \<noteq> Returned"
  shows "\<not> wr_unitCount (pe_calls env i) \<le> 1"
  using assms by (cases "(env, p, i, pc)" rule: call_queueing.cases) auto

lemma queueingD: "queueing_ok env st \<Longrightarrow> i < pe_callers env \<Longrightarrow> callers st i = pc \<Longrightarrow> call_queueing env (EnqueuePosition st) i pc"
  by (auto simp: queueing_ok_def)

lemma alone:
  assumes "locks_ok env st" "i < pe_callers env" "enqueuing (callers st i)" "j < pe_callers env" "j \<noteq> i"
  shows "\<not> enqueuing (callers st j)"
  using assms unfolding locks_ok_def by (metis option.inject)

lemma queueing_upd:
  assumes "queueing_ok env st" "callers st' = (callers st)(i := pc)" "EnqueuePosition st' = EnqueuePosition st"
    and "i < pe_callers env \<Longrightarrow> call_queueing env (EnqueuePosition st) i pc"
  shows "queueing_ok env st'"
  using assms by (auto simp: queueing_ok_def)

lemma queueing_step:
  assumes "pool_step env st st'" and E: "env_ok env B" and L: "locks_ok env st" and Q: "queueing_ok env st"
    and J: "jobs_ok (call_frags env) (view_of env st)"
  shows "queueing_ok env st'"
  using assms(1)
proof (cases rule: pool_step_cases)
  case (call_here i r b)
  then show ?thesis by (intro queueing_upd [OF Q, where i = i and pc = "Returned"]) (simp_all add: pool_defs)
next
  case (call_enter i r)
  then show ?thesis by (intro queueing_upd [OF Q, where i = i and pc = "Enqueuing False None (first_fragment (pe_threads env) r)"]) (simp_all add: pool_defs frag_0)
next
  case (call_first i fr p)
  have "EnqueuePosition st < 128" using calls_placedD(1) [OF jobs_okD(1) [OF J]] by simp
  then show ?thesis
    using queueingD [OF Q call_first(2,3)] call_first by (intro queueing_upd [OF Q, where i = i and pc = "Enqueuing False (Some p) fr"]) (auto simp: pool_defs intro!: exI [of _ 0])
next
  case (call_queue i f fr p)
  obtain k where k: "\<not> wr_unitCount (pe_calls env i) \<le> 1" "k \<le> call_frags env i" "fr = frag_of env i k" "EnqueuePosition st = slot f k"
    using queueingD [OF Q call_queue(2,3)] by auto
  have lt: "k < call_frags env i" using frag_left(1) [OF E call_queue(2) k(1,2)] call_queue(4) k(3) by simp
  have "vF (view_of env st) i = Some f" using call_queue by simp
  then have f: "f < 128" "call_frags env i \<le> 64" using calls_placedD(2) [OF jobs_okD(1) [OF J], of i f] by auto
  have np: "next_position (EnqueuePosition st) = slot f (Suc k)" using slot_Suc [OF f(1), of k] f(2) lt k(4) by simp
  have "call_queueing env (next_position (EnqueuePosition st)) i (Enqueuing False (Some f) (next_fragment fr))"
    using k(1) lt by (auto simp: np k(3) fragment_Suc intro!: exI [of _ "Suc k"])
  moreover have "call_queueing env (next_position (EnqueuePosition st)) j (callers st j)" if "j < pe_callers env" "j \<noteq> i" for j
  proof -
    have "\<not> enqueuing (callers st j)" using alone [OF L call_queue(2) _ that] call_queue(3) by simp
    then show ?thesis using queueingD [OF Q that(1) refl] queueing_other by blast
  qed
  ultimately show ?thesis using call_queue unfolding queueing_ok_def by (simp add: pool_defs)
next
  case (call_sleep i fo fr)
  then show ?thesis
    using queueingD [OF Q call_sleep(2,3)] queueing_asleep [of env _ i False fo fr True] by (intro queueing_upd [OF Q, where i = i and pc = "Enqueuing True fo fr"]) (simp_all add: pool_defs)
next
  case (call_wake i fo fr)
  then show ?thesis
    using queueingD [OF Q call_wake(2,3)] queueing_asleep [of env _ i True fo fr False] by (intro queueing_upd [OF Q, where i = i and pc = "Enqueuing False fo fr"]) (simp_all add: pool_defs)
next
  case (call_wait i f fr)
  then show ?thesis using queueingD [OF Q call_wait(2,3)] by (intro queueing_upd [OF Q, where i = i and pc = "Waiting f"]) (auto simp: pool_defs)
next
  case (call_completed i f)
  then show ?thesis using queueingD [OF Q call_completed(2,3)] by (intro queueing_upd [OF Q, where i = i and pc = "Woken f"]) (simp_all add: pool_defs)
next
  case (call_return i f)
  then show ?thesis by (intro queueing_upd [OF Q, where i = i and pc = "Returned"]) (simp_all add: pool_defs)
qed (use Q in \<open>simp_all add: queueing_ok_def pool_defs\<close>)

section \<open>The bookkeeping\<close>

lemma view_upd:
  assumes "\<And>i. i < pe_callers env \<Longrightarrow> first_of (callers st' i) = vF v i" "\<And>i. \<not> i < pe_callers env \<Longrightarrow> vF v i = None"
    and "\<And>i. queued (call_frags env i) (callers st' i) = vK v i" "\<And>i. woken (callers st' i) = vW v i"
    and "\<And>s. State (item st' s) = vS v s" "\<And>s. FirstFragment (item st' s) = vL v s" "\<And>s. OutstandingFragmentCount (item st' s) = vO v s"
    and "\<And>s. ItemCompletedEvent (item st' s) = vE v s"
    and "\<And>w. w < unat (pe_threads env) \<Longrightarrow> place (threads st' w) = vA v w" "\<And>w. \<not> w < unat (pe_threads env) \<Longrightarrow> vA v w = None"
    and "EnqueuePosition st' = vP v"
  shows "view_of env st' = v"
  using assms by (intro view.equality) (auto simp: fun_eq_iff)

lemma jobs_step:
  assumes "pool_step env st st'" and E: "env_ok env B" and L: "locks_ok env st" and Q: "queueing_ok env st"
    and J: "jobs_ok (call_frags env) (view_of env st)" and D: "DequeuePosition st < 128"
  shows "jobs_ok (call_frags env) (view_of env st')"
proof -
  note c = calls_placedD [OF jobs_okD(1) [OF J]]
  have busy: "0 < queued (call_frags env j) (callers st j)"
    if "j < pe_callers env" "first_of (callers st j) = Some f" "\<not> enqueuing (callers st j)" for j f
    using c(2) [of j f] that by (cases "callers st j") auto
  have same: ?thesis if "view_of env st' = view_of env st" using J that by simp
  show ?thesis
    using assms(1)
  proof (cases rule: pool_step_cases)
    case (call_here i r b)
    show ?thesis by (intro same view_upd) (use call_here in \<open>auto simp: pool_defs\<close>)
  next
    case (call_enter i r)
    have "queued (call_frags env i) (Enqueuing False None (first_fragment (pe_threads env) r)) = 0"
      using frag_left(2) [OF E call_enter(2), of 0] call_enter by (simp add: frag_0)
    then show ?thesis by (intro same view_upd) (use call_enter in \<open>auto simp: pool_defs\<close>)
  next
    case (call_first i fr p)
    note q = queueingD [OF Q call_first(2,3), simplified]
    note n = call_frags_bounds [OF E call_first(2) conjunct1 [OF q]] and k = frag_left(2) [OF E call_first(2) conjunct1 [OF q] le0]
    have cnt: "unat (fragmentCount fr) = call_frags env i" using frag_remaining [OF E call_first(2) conjunct1 [OF q] le0] q by simp
    have alone: "vF (view_of env st) j = Some f \<Longrightarrow> 0 < vK (view_of env st) j" for j f
      using busy [of j f] alone [OF L call_first(2) _, of j] call_first(3) by (cases "j = i") (auto split: if_splits)
    have "view_of env st' = (view_of env st)\<lparr>vF := (vF (view_of env st))(i := Some (vP (view_of env st))),
        vO := (vO (view_of env st))(vP (view_of env st) := int (call_frags env i))\<rparr>"
      using call_first by (intro view_upd) (auto simp: pool_defs cnt)
    then show ?thesis using jobs_first [OF J _ _ _ _ _ _ alone, of i] call_first n k q by simp
  next
    case (call_queue i f fr p)
    obtain k where k: "\<not> wr_unitCount (pe_calls env i) \<le> 1" "k \<le> call_frags env i" "fr = frag_of env i k" "EnqueuePosition st = slot f k"
      using queueingD [OF Q call_queue(2,3)] by auto
    have lt: "k < call_frags env i" using frag_left(1) [OF E call_queue(2) k(1,2)] call_queue(4) k(3) by simp
    note K = frag_left(2) [OF E call_queue(2) k(1,2)]
    have K': "queued (call_frags env i) (Enqueuing False (Some f) (next_fragment fr)) = Suc k"
      using frag_left(2) [OF E call_queue(2) k(1), of "Suc k"] lt k(3) by (simp add: fragment_Suc)
    have alone: "vF (view_of env st) j = Some g \<Longrightarrow> j \<noteq> i \<Longrightarrow> 0 < vK (view_of env st) j" for j g
      using busy [of j g] alone [OF L call_queue(2) _, of j] call_queue(3) by (auto split: if_splits)
    have "view_of env st' = (view_of env st)\<lparr>vK := (vK (view_of env st))(i := Suc (vK (view_of env st) i)),
        vS := (vS (view_of env st))(vP (view_of env st) := WorkItemReady), vL := (vL (view_of env st))(vP (view_of env st) := f),
        vP := next_position (vP (view_of env st))\<rparr>"
      using call_queue K K' k(3) by (intro view_upd) (auto simp: pool_defs fill_item_def)
    then show ?thesis using jobs_queue [OF J _ _ _ _ alone, of i f] call_queue lt K k(3,4) by simp
  next
    case (call_sleep i fo fr)
    show ?thesis by (intro same view_upd) (use call_sleep in \<open>auto simp: pool_defs\<close>)
  next
    case (call_wake i fo fr)
    show ?thesis by (intro same view_upd) (use call_wake in \<open>auto simp: pool_defs\<close>)
  next
    case (call_wait i f fr)
    show ?thesis by (intro same view_upd) (use call_wait in \<open>auto simp: pool_defs\<close>)
  next
    case (call_completed i f)
    have "view_of env st' = (view_of env st)\<lparr>vE := (vE (view_of env st))(f := False), vW := (vW (view_of env st))(i := True)\<rparr>"
      using call_completed by (intro view_upd) (auto simp: pool_defs)
    then show ?thesis using jobs_completed [OF J, of i f] call_completed by simp
  next
    case (call_return i f)
    have "view_of env st' = (view_of env st)\<lparr>vF := (vF (view_of env st))(i := None), vK := (vK (view_of env st))(i := 0),
        vW := (vW (view_of env st))(i := False), vS := (vS (view_of env st))(f := WorkItemFree)\<rparr>"
      using call_return by (intro view_upd) (auto simp: pool_defs)
    then show ?thesis using jobs_return [OF J, of i f] call_return by simp
  next
    case (thread_enter w)
    show ?thesis by (intro same view_upd) (use thread_enter in \<open>auto simp: pool_defs\<close>)
  next
    case (thread_sleep w)
    show ?thesis by (intro same view_upd) (use thread_sleep in \<open>auto simp: pool_defs\<close>)
  next
    case (thread_wake w)
    show ?thesis by (intro same view_upd) (use thread_wake in \<open>auto simp: pool_defs\<close>)
  next
    case (thread_take w q)
    have "view_of env st' = (view_of env st)\<lparr>vS := (vS (view_of env st))(q := WorkItemBusy), vA := (vA (view_of env st))(w := Some (Running, q))\<rparr>"
      using thread_take by (intro view_upd) (auto simp: pool_defs)
    then show ?thesis using jobs_take [OF J, of w q] thread_take D by simp
  next
    case (thread_run w s x d off ci n out)
    have "view_of env st' = (view_of env st)\<lparr>vA := (vA (view_of env st))(w := Some (Ran, s))\<rparr>"
      using thread_run by (intro view_upd) (auto simp: pool_defs)
    then show ?thesis using jobs_phase [OF J, of w Running s Ran] thread_run by simp
  next
    case (thread_keep w s)
    have "view_of env st' = (view_of env st)\<lparr>vA := (vA (view_of env st))(w := Some (Released, s))\<rparr>"
      using thread_keep by (intro view_upd) (auto simp: pool_defs)
    then show ?thesis using jobs_phase [OF J, of w Ran s Released] thread_keep by simp
  next
    case (thread_free w s)
    have "view_of env st' = (view_of env st)\<lparr>vS := (vS (view_of env st))(s := WorkItemFree), vA := (vA (view_of env st))(w := Some (Released, s))\<rparr>"
      using thread_free by (intro view_upd) (auto simp: pool_defs)
    then show ?thesis using jobs_free [OF J, of w s] thread_free by simp
  next
    case (thread_count w s f c)
    have "view_of env st' = (view_of env st)\<lparr>vO := (vO (view_of env st))(f := c),
        vA := (vA (view_of env st))(w := if c = 0 then Some (Completing, s) else None)\<rparr>"
      using thread_count by (intro view_upd) (auto simp: pool_defs)
    then show ?thesis using jobs_count [OF J, of w s f c] thread_count by simp
  next
    case (thread_complete w s f)
    have "view_of env st' = (view_of env st)\<lparr>vE := (vE (view_of env st))(f := True), vA := (vA (view_of env st))(w := None)\<rparr>"
      using thread_complete by (intro view_upd) (auto simp: pool_defs)
    then show ?thesis using jobs_complete [OF J, of w s f] thread_complete by simp
  qed
qed

section \<open>The ring\<close>

definition ring :: "(nat \<Rightarrow> work_item_state) \<Rightarrow> nat \<Rightarrow> nat \<Rightarrow> bool" where
  "ring S q p \<longleftrightarrow> q < 128 \<and> (\<exists>r\<le>128. p = slot q r \<and> (\<forall>s<128. S s = WorkItemReady \<longleftrightarrow> (\<exists>d<r. s = slot q d)))"

lemma slot_slot: "slot (slot q 1) d = slot q (Suc d)"
  unfolding slot_def queue_size by (simp add: mod_simps)

lemma next_slot: "q < 128 \<Longrightarrow> next_position q = slot q 1"
  using slot_Suc [of q 0] by simp

lemma ring_push:
  assumes "ring S q p" "S p \<noteq> WorkItemReady"
  shows "ring (S(p := WorkItemReady)) q (next_position p)"
proof -
  obtain r where r: "q < 128" "r \<le> 128" "p = slot q r" "\<And>s. s < 128 \<Longrightarrow> S s = WorkItemReady \<longleftrightarrow> (\<exists>d<r. s = slot q d)"
    using assms(1) by (auto simp: ring_def)
  have "r \<noteq> 128"
  proof
    assume "r = 128"
    then have "p = slot q 0" using r(1,3) by (simp add: slot_eq)
    then have "\<exists>d<r. p = slot q d" using \<open>r = 128\<close> by (intro exI [of _ 0]) simp
    then have "S p = WorkItemReady" using r(4) [of p] r(3) by simp
    then show False using assms(2) by simp
  qed
  then have "r < 128" using r(2) by simp
  then have n: "next_position p = slot q (Suc r)" using slot_Suc [OF r(1)] r(3) by simp
  have "(S(p := WorkItemReady)) s = WorkItemReady \<longleftrightarrow> (\<exists>d<Suc r. s = slot q d)" if "s < 128" for s
    using r(4) [OF that] r(3) by (auto simp: less_Suc_eq)
  then show ?thesis using r(1) n \<open>r < 128\<close> unfolding ring_def by (intro conjI exI [of _ "Suc r"]) auto
qed

lemma ring_pop:
  assumes "ring S q p" "S q = WorkItemReady" "x \<noteq> WorkItemReady"
  shows "ring (S(q := x)) (next_position q) p"
proof -
  obtain r where r: "q < 128" "r \<le> 128" "p = slot q r" "\<And>s. s < 128 \<Longrightarrow> S s = WorkItemReady \<longleftrightarrow> (\<exists>d<r. s = slot q d)"
    using assms(1) by (auto simp: ring_def)
  obtain r' where r': "r = Suc r'" using r(4) [OF r(1)] assms(2) by (cases r) auto
  have n: "next_position q = slot q 1" by (rule next_slot [OF r(1)])
  have self: "slot q (Suc d) \<noteq> q" if "d < r'" for d
    using slot_inj [OF r(1), of "Suc d" 0] that r(1,2) r' by auto
  have "(S(q := x)) s = WorkItemReady \<longleftrightarrow> (\<exists>d<r'. s = slot (slot q 1) d)" if "s < 128" for s
  proof -
    have "(S(q := x)) s = WorkItemReady \<longleftrightarrow> s \<noteq> q \<and> (\<exists>d<Suc r'. s = slot q d)" using r(4) [OF that] assms(3) r' by auto
    also have "\<dots> \<longleftrightarrow> (\<exists>d<r'. s = slot q (Suc d))" using self r(1) by (auto simp: Ex_less_Suc2)
    finally show ?thesis unfolding slot_slot .
  qed
  then show ?thesis using r(2,3) r' unfolding ring_def n slot_slot
    by (intro conjI exI [of _ r']) (auto simp: slot_slot)
qed

lemma ring_other: "ring S q p \<Longrightarrow> S s \<noteq> WorkItemReady \<Longrightarrow> x \<noteq> WorkItemReady \<Longrightarrow> ring (S(s := x)) q p"
proof -
  assume a: "ring S q p" "S s \<noteq> WorkItemReady" "x \<noteq> WorkItemReady"
  then have "(S(s := x)) y = WorkItemReady \<longleftrightarrow> S y = WorkItemReady" for y by simp
  then show ?thesis using a(1) unfolding ring_def by simp
qed

definition ring_ok :: "pool \<Rightarrow> bool" where
  "ring_ok st \<longleftrightarrow> ring (\<lambda>s. State (item st s)) (DequeuePosition st) (EnqueuePosition st)"

lemma ring_okI:
  assumes "ring S q p" "\<And>s. State (item st s) = S s" "DequeuePosition st = q" "EnqueuePosition st = p"
  shows "ring_ok st"
proof -
  have "(\<lambda>s. State (item st s)) = S" using assms(2) by (rule ext)
  then show ?thesis using assms by (simp add: ring_ok_def)
qed

lemma ring_step:
  assumes "pool_step env st st'" and R: "ring_ok st" and J: "jobs_ok (call_frags env) (view_of env st)"
  shows "ring_ok st'"
proof -
  note R' = R [unfolded ring_ok_def]
  show ?thesis
    using assms(1)
  proof (cases rule: pool_step_cases)
    case (call_queue i f fr p)
    show ?thesis
      by (rule ring_okI [OF ring_push [OF R']]) (use call_queue in \<open>auto simp: pool_defs fill_item_def\<close>)
  next
    case (call_return i f)
    have f: "vF (view_of env st) i = Some f" "vW (view_of env st) i" using call_return by simp_all
    have "State (item st f) \<noteq> WorkItemReady"
      using woken_alone(3) [OF J f, of 0] calls_placedD(2) [OF jobs_okD(1) [OF J] f(1)] by simp
    then show ?thesis
      by (intro ring_okI [OF ring_other [OF R', of f WorkItemFree]]) (use call_return in \<open>auto simp: pool_defs\<close>)
  next
    case (thread_take w q)
    show ?thesis
      by (rule ring_okI [OF ring_pop [OF R', where x = WorkItemBusy]]) (use thread_take in \<open>auto simp: pool_defs\<close>)
  next
    case (thread_free w s)
    have "State (item st s) \<noteq> WorkItemReady"
      using threads_placedD(1) [OF jobs_okD(3) [OF J], of w Ran s] thread_free by simp
    then show ?thesis
      by (intro ring_okI [OF ring_other [OF R', of s WorkItemFree]]) (use thread_free in \<open>auto simp: pool_defs\<close>)
  qed (rule ring_okI [OF R'], auto simp: pool_defs)+
qed

section \<open>No wake-up is lost\<close>

definition events_ok :: "pool_env \<Rightarrow> pool \<Rightarrow> bool" where
  "events_ok env st \<longleftrightarrow>
     (\<forall>w<unat (pe_threads env). threads st w = Asleep \<longrightarrow> State (item st (DequeuePosition st)) = WorkItemReady \<longrightarrow> WorkItemReadyEvent st) \<and>
     (\<forall>i<pe_callers env. \<forall>fo fr. callers st i = Enqueuing True fo fr \<longrightarrow> State (item st (EnqueuePosition st)) = WorkItemFree \<longrightarrow>
        WorkItemCompletedEvent st)"

lemma asleep_alone:
  assumes "locks_ok env st" "w < unat (pe_threads env)" "scanning (threads st w)" "u < unat (pe_threads env)" "u \<noteq> w"
  shows "threads st u \<noteq> Asleep"
  using assms unfolding locks_ok_def by (metis option.inject scanning_simps(2))

lemma events_step:
  assumes "pool_step env st st'" and L: "locks_ok env st" and V: "events_ok env st"
  shows "events_ok env st'"
  using assms(1)
proof (cases rule: pool_step_cases)
  case (call_queue i f fr p)
  have "callers st j \<noteq> Enqueuing a fo fr" if "j < pe_callers env" "j \<noteq> i" for j a fo fr
    using alone [OF L call_queue(2) _ that] call_queue(3) by auto
  then show ?thesis using V call_queue by (auto simp: events_ok_def pool_defs)
next
  case (call_wake i fo fr)
  have "callers st j \<noteq> Enqueuing a fo fr" if "j < pe_callers env" "j \<noteq> i" for j a fo fr
    using alone [OF L call_wake(2) _ that] call_wake(3) by auto
  then show ?thesis using V call_wake by (auto simp: events_ok_def pool_defs)
next
  case (thread_wake w)
  then show ?thesis using V asleep_alone [OF L thread_wake(2)] by (auto simp: events_ok_def pool_defs)
next
  case (thread_take w q)
  then show ?thesis using V asleep_alone [OF L thread_take(2)] by (auto simp: events_ok_def pool_defs)
qed (use V in \<open>auto simp: events_ok_def pool_defs\<close>)

section \<open>What the entries say\<close>

definition filled :: "pool_env \<Rightarrow> nat \<Rightarrow> nat \<Rightarrow> work_item \<Rightarrow> bool" where
  "filled env i m x \<longleftrightarrow> Type x = wr_type (pe_calls env i) \<and> CryptoInfo x = Some (wr_cryptoInfo (pe_calls env i)) \<and>
     Data x = (i, fragmentOffset (frag_of env i m)) \<and> UnitCount x = unitsPerFragment (frag_of env i m) \<and>
     StartUnitNo x = fragmentStartUnitNo (frag_of env i m)"

definition entries_filled :: "pool_env \<Rightarrow> pool \<Rightarrow> bool" where
  "entries_filled env st \<longleftrightarrow> (\<forall>i m s. occ (view_of env st) i m s \<longrightarrow> filled env i m (item st s))"

lemma filled_upd [simp]:
  "filled env i m (x\<lparr>State := a\<rparr>) = filled env i m x"
  "filled env i m (x\<lparr>ItemCompletedEvent := e\<rparr>) = filled env i m x"
  "filled env i m (x\<lparr>OutstandingFragmentCount := c\<rparr>) = filled env i m x"
  by (simp_all add: filled_def)

lemma occ_view:
  "occ (view_of env st) i m s \<longleftrightarrow>
     i < pe_callers env \<and> (\<exists>f. first_of (callers st i) = Some f \<and> m < queued (call_frags env i) (callers st i) \<and> s = slot f m)"
  by (auto simp: occ_def)

lemma filled_step:
  assumes "pool_step env st st'" and E: "env_ok env B" and Q: "queueing_ok env st"
    and J: "jobs_ok (call_frags env) (view_of env st)" and F: "entries_filled env st"
  shows "entries_filled env st'"
proof -
  have f: "occ (view_of env st) i m s \<Longrightarrow> filled env i m (item st s)" for i m s using F by (simp add: entries_filled_def)
  have keep: ?thesis
    if "\<And>i m s. filled env i m (item st s) \<Longrightarrow> filled env i m (item st' s)" "\<And>i m s. occ (view_of env st') i m s \<Longrightarrow> occ (view_of env st) i m s"
    using that f by (auto simp: entries_filled_def)
  show ?thesis
    using assms(1)
  proof (cases rule: pool_step_cases)
    case (call_here i r b)
    show ?thesis by (rule keep) (use call_here in \<open>auto simp: pool_defs occ_view split: if_splits\<close>)
  next
    case (call_enter i r)
    show ?thesis by (rule keep) (use call_enter in \<open>auto simp: pool_defs occ_view split: if_splits\<close>)
  next
    case (call_first i fr p)
    have q: "\<not> wr_unitCount (pe_calls env i) \<le> 1" "fr = frag_of env i 0" using queueingD [OF Q call_first(2,3)] by simp_all
    have "queued (call_frags env i) (Enqueuing False (Some p) fr) = 0" using frag_left(2) [OF E call_first(2) q(1), of 0] q(2) by simp
    then show ?thesis by (intro keep) (use call_first in \<open>auto simp: pool_defs occ_view split: if_splits\<close>)
  next
    case (call_queue i f fr p)
    obtain k where k: "\<not> wr_unitCount (pe_calls env i) \<le> 1" "k \<le> call_frags env i" "fr = frag_of env i k" "EnqueuePosition st = slot f k"
      using queueingD [OF Q call_queue(2,3)] by auto
    have lt: "k < call_frags env i" using frag_left(1) [OF E call_queue(2) k(1,2)] call_queue(4) k(3) by simp
    note K = frag_left(2) [OF E call_queue(2) k(1,2)]
    have K': "queued (call_frags env i) (Enqueuing False (Some f) (next_fragment fr)) = Suc k"
      using frag_left(2) [OF E call_queue(2) k(1), of "Suc k"] lt k(3) by (simp add: fragment_Suc)
    have fresh: "occ (view_of env st) j m s \<Longrightarrow> s \<noteq> p" for j m s
      using occ_next_free [OF J, of j m s] call_queue by simp
    have item: "item st' s = (if s = p then fill_item i (pe_calls env i) f fr (item st p) else item st s)" for s
      using call_queue by (simp add: pool_defs)
    have occ: "occ (view_of env st') j m s \<Longrightarrow> occ (view_of env st) j m s \<or> j = i \<and> m = k \<and> s = p" for j m s
      using call_queue K K' k(3,4) by (auto simp: pool_defs occ_view less_Suc_eq split: if_splits)
    have new: "filled env i k (item st' p)" by (simp add: item filled_def fill_item_def k(3))
    show ?thesis
      unfolding entries_filled_def
    proof (intro allI impI)
      fix j m s assume "occ (view_of env st') j m s"
      from occ [OF this] show "filled env j m (item st' s)"
      proof
        assume o: "occ (view_of env st) j m s"
        then show ?thesis using f [OF o] fresh [OF o] by (simp add: item)
      qed (use new in auto)
    qed
  next
    case (call_sleep i fo fr)
    show ?thesis by (rule keep) (use call_sleep in \<open>auto simp: pool_defs occ_view split: if_splits\<close>)
  next
    case (call_wake i fo fr)
    show ?thesis by (rule keep) (use call_wake in \<open>auto simp: pool_defs occ_view split: if_splits\<close>)
  next
    case (call_wait i f fr)
    show ?thesis by (rule keep) (use call_wait in \<open>auto simp: pool_defs occ_view split: if_splits\<close>)
  next
    case (call_completed i f)
    show ?thesis by (rule keep) (use call_completed in \<open>auto simp: pool_defs occ_view split: if_splits\<close>)
  next
    case (call_return i f)
    show ?thesis by (rule keep) (use call_return in \<open>auto simp: pool_defs occ_view split: if_splits\<close>)
  qed (rule keep; auto simp: pool_defs occ_view)+
qed

section \<open>The buffers\<close>

text \<open>The work on the fragment \<open>m\<close> of the call \<open>i\<close> has been done.\<close>

definition worked :: "pool_env \<Rightarrow> pool \<Rightarrow> nat \<Rightarrow> nat \<Rightarrow> nat \<Rightarrow> bool" where
  "worked env st i f m \<longleftrightarrow> m < queued (call_frags env i) (callers st i) \<and> State (item st (slot f m)) \<noteq> WorkItemReady \<and>
     (\<forall>w<unat (pe_threads env). threads st w \<noteq> At Running (slot f m))"

definition in_work :: "pool_env \<Rightarrow> (nat \<Rightarrow> bytes) \<Rightarrow> pool \<Rightarrow> nat \<Rightarrow> nat \<Rightarrow> bool" where
  "in_work env B st i f \<longleftrightarrow> length (buffers st i) = length (B i) \<and>
     drop (512 * unat (wr_unitCount (pe_calls env i))) (buffers st i) = drop (512 * unat (wr_unitCount (pe_calls env i))) (B i) \<and>
     (\<forall>m<call_frags env i. frag_bytes env i m (buffers st i) =
        (if worked env st i f m then frag_bytes env i m (the (call_result env i (B i))) else frag_bytes env i m (B i)))"

definition call_data :: "pool_env \<Rightarrow> (nat \<Rightarrow> bytes) \<Rightarrow> pool \<Rightarrow> nat \<Rightarrow> bool" where
  "call_data env B st i \<longleftrightarrow>
     (callers st i = Returned \<longrightarrow> call_result env i (B i) = Some (buffers st i)) \<and>
     (callers st i \<noteq> Returned \<longrightarrow> first_of (callers st i) = None \<longrightarrow> buffers st i = B i) \<and>
     (\<forall>f. first_of (callers st i) = Some f \<longrightarrow> in_work env B st i f)"

definition data_ok :: "pool_env \<Rightarrow> (nat \<Rightarrow> bytes) \<Rightarrow> pool \<Rightarrow> bool" where
  "data_ok env B st \<longleftrightarrow> (\<forall>i<pe_callers env. call_data env B st i)"

lemma call_data_same:
  assumes "call_data env B st i" "buffers st' i = buffers st i" "callers st' i = Returned \<longleftrightarrow> callers st i = Returned"
    and "first_of (callers st' i) = first_of (callers st i)"
    and "\<And>f m. first_of (callers st i) = Some f \<Longrightarrow> m < call_frags env i \<Longrightarrow> worked env st' i f m = worked env st i f m"
  shows "call_data env B st' i"
  using assms unfolding call_data_def in_work_def by simp

lemma data_same:
  assumes "data_ok env B st" "buffers st' = buffers st"
    and "\<And>i. i < pe_callers env \<Longrightarrow> callers st' i = Returned \<longleftrightarrow> callers st i = Returned"
    and "\<And>i. i < pe_callers env \<Longrightarrow> first_of (callers st' i) = first_of (callers st i)"
    and "\<And>i f m. i < pe_callers env \<Longrightarrow> first_of (callers st i) = Some f \<Longrightarrow> m < call_frags env i \<Longrightarrow>
      worked env st' i f m = worked env st i f m"
  shows "data_ok env B st'"
  using assms call_data_same unfolding data_ok_def by metis

lemma data_threads:
  assumes "data_ok env B st" "buffers st' = buffers st" "callers st' = callers st"
    and "\<And>s. State (item st' s) = WorkItemReady \<longleftrightarrow> State (item st s) = WorkItemReady"
    and "\<And>v y. threads st' v = At Running y \<longleftrightarrow> threads st v = At Running y"
  shows "data_ok env B st'"
  by (rule data_same [OF assms(1)]) (simp_all add: assms worked_def)

lemma data_other:
  assumes "data_ok env B st" "call_data env B st' i"
    and "\<And>j. j < pe_callers env \<Longrightarrow> j \<noteq> i \<Longrightarrow> buffers st' j = buffers st j \<and> callers st' j = callers st j"
    and "\<And>j f m. j < pe_callers env \<Longrightarrow> j \<noteq> i \<Longrightarrow> first_of (callers st j) = Some f \<Longrightarrow> m < call_frags env j \<Longrightarrow>
      worked env st' j f m = worked env st j f m"
  shows "data_ok env B st'"
  unfolding data_ok_def
proof (intro allI impI)
  fix j assume j: "j < pe_callers env"
  show "call_data env B st' j"
  proof (cases "j = i")
    case False
    have "call_data env B st j" using assms(1) j by (simp add: data_ok_def)
    then show ?thesis by (rule call_data_same) (use assms(3,4) j False in simp_all)
  qed (use assms(2) in simp)
qed

text \<open>A fragment's part of the buffer does not meet the others'.\<close>

lemma frags_apart:
  assumes "m \<noteq> l"
  shows "512 * units_before T r m + 512 * units_of T r m \<le> 512 * units_before T r l \<or>
    512 * units_before T r l + 512 * units_of T r l \<le> 512 * units_before T r m"
  using assms units_before_mono [of "Suc m" l T r] units_before_mono [of "Suc l" m T r]
  by (cases m l rule: linorder_cases) (simp_all add: units_before_Suc)

lemma drop_put_at: "off + length src \<le> k \<Longrightarrow> k \<le> length buf \<Longrightarrow> drop k (put_at off src buf) = drop k buf"
  by (simp add: put_at_def drop_append)

text \<open>A thread at a queued fragment finds its data untouched, and the work on it gives its part of the result.\<close>

lemma running_work:
  assumes E: "env_ok env B" and Q: "queueing_ok env st"
    and J: "jobs_ok (call_frags env) (view_of env st)" and F: "entries_filled env st" and D: "data_ok env B st"
    and w: "w < unat (pe_threads env)" "threads st w = At Running s"
  obtains i m f res where "i < pe_callers env" "first_of (callers st i) = Some f" "m < call_frags env i" "occ (view_of env st) i m s"
    "s = slot f m" "vF (view_of env st) i = Some f" "call_fits (pe_threads env) (pe_calls env i)" "call_ok env i (B i)"
    "call_result env i (B i) = Some res" "length res = length (B i)"
    "filled env i m (item st s)" "Data (item st s) = (i, 512 * units_before (pe_threads env) (pe_calls env i) m)"
    "unat (UnitCount (item st s)) * ENCRYPTION_DATA_UNIT_SIZE = 512 * units_of (pe_threads env) (pe_calls env i) m"
    "pool_work (pe_cpu env) (Type (item st s)) (frag_bytes env i m (buffers st i)) (StartUnitNo (item st s)) (UnitCount (item st s))
       (wr_cryptoInfo (pe_calls env i)) = Some (frag_bytes env i m res)"
proof -
  let ?T = "pe_threads env"
  have a: "vA (view_of env st) w = Some (Running, s)" using w by simp
  obtain i m where im: "vF (view_of env st) i = Some (FirstFragment (item st s))" "m < vK (view_of env st) i"
    "s = slot (FirstFragment (item st s)) m" "m < call_frags env i"
    using thread_owner [OF J a] by (metis view_sel(5))
  let ?f = "FirstFragment (item st s)" and ?r = "pe_calls env i"
  have i: "i < pe_callers env" "first_of (callers st i) = Some ?f" using im(1) by (simp_all split: if_splits)
  have own: "occ (view_of env st) i m s" using im by (auto simp: occ_def)
  have fill: "filled env i m (item st s)" using F own by (simp add: entries_filled_def)
  have u: "\<not> wr_unitCount ?r \<le> 1" using queueing_more [OF queueingD [OF Q i(1) refl]] i(2) by (cases "callers st i") auto
  note fits = env_fits [OF E i(1) u]
  have ok: "call_ok env i (B i)" using E i(1) by (simp add: env_ok_def)
  obtain res where res: "call_result env i (B i) = Some res" "length res = length (B i)" using call_result_ok [OF ok] by blast
  have m: "m < frag_count ?T ?r" using im(4) by (simp add: call_frags_def)
  have n: "unat (UnitCount (item st s)) * ENCRYPTION_DATA_UNIT_SIZE = 512 * units_of ?T ?r m"
    using fill by (simp add: filled_def units_of_def tc_cfg)
  have iw: "in_work env B st i ?f" using D i by (simp add: data_ok_def call_data_def)
  have "\<not> worked env st i ?f m" using w im(3) by (auto simp: worked_def)
  then have "frag_bytes env i m (buffers st i) = frag_bytes env i m (B i)" using iw im(4) by (simp add: in_work_def)
  then have "pool_work (pe_cpu env) (Type (item st s)) (frag_bytes env i m (buffers st i)) (StartUnitNo (item st s)) (UnitCount (item st s))
       (wr_cryptoInfo ?r) = Some (frag_bytes env i m res)"
    using fill fragment_work [OF ok fits m res(1)] by (simp add: filled_def)
  then show ?thesis
    using that [OF i im(4) own im(3,1) fits ok res fill _ n] fill fragment_facts(2) [OF fits, of m] m by (simp add: filled_def)
qed

text \<open>Writing a fragment's part of the result completes that part and leaves the others alone.\<close>

lemma write_fragment:
  assumes fits: "call_fits (pe_threads env) (pe_calls env i)" and ok: "call_ok env i (B i)"
    and res: "call_result env i (B i) = Some res" "length res = length (B i)" and m: "m < call_frags env i"
    and iw: "in_work env B st i f"
    and buf: "buffers st' i = put_at (512 * units_before (pe_threads env) (pe_calls env i) m) (frag_bytes env i m res) (buffers st i)"
    and worked: "\<And>l. l < call_frags env i \<Longrightarrow> worked env st' i f l \<longleftrightarrow> l = m \<or> worked env st i f l"
  shows "in_work env B st' i f"
proof -
  let ?T = "pe_threads env" and ?r = "pe_calls env i"
  let ?off = "512 * units_before ?T ?r m" and ?out = "frag_bytes env i m res"
  have bound: "units_before ?T ?r m + units_of ?T ?r m \<le> unat (wr_unitCount ?r)"
    using fragment_end [OF fits] m by (simp add: call_frags_def)
  have total: "512 * unat (wr_unitCount ?r) \<le> length (B i)" using ok by (simp add: call_ok_def Let_def)
  have lo: "length ?out = 512 * units_of ?T ?r m" "?off + length ?out \<le> 512 * unat (wr_unitCount ?r)"
    using res(2) bound total by (auto simp: get_at_def)
  have lb: "length (buffers st i) = length (B i)" using iw by (simp add: in_work_def)
  have fit: "?off + length ?out \<le> length (buffers st i)" using lo(2) total lb by simp
  have "frag_bytes env i l (buffers st' i) = (if worked env st' i f l then frag_bytes env i l res else frag_bytes env i l (B i))"
    if l: "l < call_frags env i" for l
  proof (cases "l = m")
    case True
    then show ?thesis using get_put_same [OF fit] lo(1) worked [OF l] unfolding buf by simp
  next
    case False
    have "512 * units_before ?T ?r l + 512 * units_of ?T ?r l \<le> length (buffers st i)"
      using fragment_end [OF fits, of l] l total lb by (simp add: call_frags_def)
    moreover have "512 * units_before ?T ?r l + 512 * units_of ?T ?r l \<le> ?off \<or> ?off + length ?out \<le> 512 * units_before ?T ?r l"
      using frags_apart [OF False, of ?T ?r] unfolding lo(1) by auto
    ultimately have "frag_bytes env i l (buffers st' i) = frag_bytes env i l (buffers st i)"
      unfolding buf by (rule get_put_other [OF fit])
    then show ?thesis using False worked [OF l] iw l res(1) by (simp add: in_work_def)
  qed
  moreover have "drop (512 * unat (wr_unitCount ?r)) (buffers st' i) = drop (512 * unat (wr_unitCount ?r)) (B i)"
    using drop_put_at [OF lo(2)] total lb iw by (simp add: in_work_def buf)
  moreover have "length (buffers st' i) = length (B i)" using fit lb by (simp add: buf)
  ultimately show ?thesis using res(1) by (simp add: in_work_def)
qed

lemma run_fragment:
  assumes E: "env_ok env B" and Q: "queueing_ok env st"
    and J: "jobs_ok (call_frags env) (view_of env st)" and F: "entries_filled env st" and D: "data_ok env B st"
    and w: "w < unat (pe_threads env)" "threads st w = At Running s"
    and st': "st' = set_thread w (At Ran s) (set_buffer d (put_at off out (buffers st d)) st)"
    and x: "Data (item st s) = (d, off)" "CryptoInfo (item st s) = Some ci"
    and out: "pool_work (pe_cpu env) (Type (item st s)) (get_at off (unat (UnitCount (item st s)) * ENCRYPTION_DATA_UNIT_SIZE) (buffers st d))
      (StartUnitNo (item st s)) (UnitCount (item st s)) ci = Some out"
  shows "data_ok env B st'"
proof -
  have a: "vA (view_of env st) w = Some (Running, s)" using w by simp
  obtain i m f res where o: "i < pe_callers env" "first_of (callers st i) = Some f" "m < call_frags env i" "occ (view_of env st) i m s"
    "s = slot f m" "vF (view_of env st) i = Some f" "call_fits (pe_threads env) (pe_calls env i)" "call_ok env i (B i)"
    "call_result env i (B i) = Some res" "length res = length (B i)"
    "filled env i m (item st s)" "Data (item st s) = (i, 512 * units_before (pe_threads env) (pe_calls env i) m)"
    "unat (UnitCount (item st s)) * ENCRYPTION_DATA_UNIT_SIZE = 512 * units_of (pe_threads env) (pe_calls env i) m"
    "pool_work (pe_cpu env) (Type (item st s)) (frag_bytes env i m (buffers st i)) (StartUnitNo (item st s)) (UnitCount (item st s))
       (wr_cryptoInfo (pe_calls env i)) = Some (frag_bytes env i m res)"
    by (rule running_work [OF E Q J F D w])
  have d: "d = i" "off = 512 * units_before (pe_threads env) (pe_calls env i) m" and ci: "ci = wr_cryptoInfo (pe_calls env i)"
    using o(11,12) x by (simp_all add: filled_def)
  have outeq: "out = frag_bytes env i m res" using out o(14) unfolding d ci o(13) by simp
  have at: "threads st' v \<noteq> At Running y \<longleftrightarrow> v = w \<or> threads st v \<noteq> At Running y" for v y using st' by (auto simp: pool_defs)
  have items: "item st' = item st" "callers st' = callers st" using st' by (auto simp: pool_defs)
  have running: "(\<forall>v<unat (pe_threads env). threads st' v \<noteq> At Running y) \<longleftrightarrow>
      y = s \<or> (\<forall>v<unat (pe_threads env). threads st v \<noteq> At Running y)" for y
  proof (cases "y = s")
    case True
    have "v = w" if "v < unat (pe_threads env)" "threads st v = At Running s" for v
      using threads_placedD(4) [OF jobs_okD(3) [OF J] a, of v Running] that by simp
    then show ?thesis using True unfolding at by auto
  next
    case False
    then show ?thesis using w unfolding at by auto
  qed
  have slots: "slot f l = s \<longleftrightarrow> l = m" if "l < call_frags env i" for l
  proof -
    have "f < 128" "call_frags env i \<le> 64" using calls_placedD(2) [OF jobs_okD(1) [OF J] o(6)] by auto
    then show ?thesis using slot_inj [of f l m] that o(3,5) by auto
  qed
  have ready: "State (item st s) \<noteq> WorkItemReady" using threads_placedD(1) [OF jobs_okD(3) [OF J] a] by simp
  have mk: "m < queued (call_frags env i) (callers st i)" using o(4) by (auto simp: occ_view)
  have "worked env st' i f l \<longleftrightarrow> l = m \<or> worked env st i f l" if "l < call_frags env i" for l
    using slots [OF that] ready mk o(5) unfolding worked_def items running by auto
  moreover have "in_work env B st i f" using D o(1,2) by (simp add: data_ok_def call_data_def)
  moreover have "buffers st' i = put_at (512 * units_before (pe_threads env) (pe_calls env i) m) (frag_bytes env i m res) (buffers st i)"
    using st' by (simp add: d outeq pool_defs)
  ultimately have "in_work env B st' i f" using write_fragment [of env i B res m st f st', OF o(7-10,3)] by blast
  then have "call_data env B st' i" using o(2) items by (auto simp: call_data_def)
  then show ?thesis
  proof (rule data_other [OF D])
    show "buffers st' j = buffers st j \<and> callers st' j = callers st j" if "j \<noteq> i" for j using st' that d by (simp add: pool_defs)
    fix j g l assume j: "j < pe_callers env" "j \<noteq> i" "first_of (callers st j) = Some g"
    have "slot g l \<noteq> s" if "l < queued (call_frags env j) (callers st j)"
      using occ_unique [OF J o(4), of j l] j that by (auto simp: occ_view)
    then show "worked env st' j g l = worked env st j g l" unfolding worked_def items running by auto
  qed
qed

lemma data_step:
  assumes "pool_step env st st'" and E: "env_ok env B" and L: "locks_ok env st" and Q: "queueing_ok env st"
    and J: "jobs_ok (call_frags env) (view_of env st)" and F: "entries_filled env st" and D: "data_ok env B st"
  shows "data_ok env B st'"
  using assms(1)
proof (cases rule: pool_step_cases)
  case (call_here i r b)
  have "buffers st i = B i" using D call_here by (simp add: data_ok_def call_data_def)
  moreover have ok: "call_ok env i (B i)" using E call_here(2) by (simp add: env_ok_def)
  moreover have "call_result env i (B i) = Some (B i)" if "wr_unitCount r = 0"
  proof -
    obtain G where "keeps512 G" "\<And>data no n. 512 * unat n \<le> length data \<Longrightarrow>
        pool_work (pe_cpu env) (wr_type r) data no n (wr_cryptoInfo r) = Some (units_map G (unat n) no data)"
      using pool_work_units ok call_here(4) unfolding call_ok_def Let_def by metis
    then show ?thesis using that call_here(4) by (simp add: call_result_def Let_def)
  qed
  ultimately have "call_data env B st' i"
    using call_here by (auto simp: call_data_def call_result_def Let_def pool_defs split: if_splits)
  then show ?thesis by (rule data_other [OF D]) (use call_here in \<open>auto simp: pool_defs worked_def\<close>)
next
  case (call_enter i r)
  show ?thesis by (rule data_same [OF D]) (use call_enter in \<open>auto simp: pool_defs worked_def\<close>)
next
  case (call_first i fr p)
  have q: "\<not> wr_unitCount (pe_calls env i) \<le> 1" "fr = frag_of env i 0" using queueingD [OF Q call_first(2,3)] by simp_all
  have "queued (call_frags env i) (Enqueuing False (Some p) fr) = 0" using frag_left(2) [OF E call_first(2) q(1), of 0] q(2) by simp
  then have none: "\<not> worked env st' i p m" for m using call_first by (simp add: worked_def pool_defs)
  have "buffers st i = B i" using D call_first by (simp add: data_ok_def call_data_def)
  then have "call_data env B st' i" using call_first none by (auto simp: call_data_def in_work_def pool_defs)
  then show ?thesis by (rule data_other [OF D]) (use call_first in \<open>auto simp: pool_defs worked_def\<close>)
next
  case (call_queue i f fr p)
  obtain k where k: "\<not> wr_unitCount (pe_calls env i) \<le> 1" "k \<le> call_frags env i" "fr = frag_of env i k" "EnqueuePosition st = slot f k"
    using queueingD [OF Q call_queue(2,3)] by auto
  have lt: "k < call_frags env i" using frag_left(1) [OF E call_queue(2) k(1,2)] call_queue(4) k(3) by simp
  have K: "queued (call_frags env i) (callers st i) = k" using frag_left(2) [OF E call_queue(2) k(1,2)] call_queue(3) k(3) by simp
  have K': "queued (call_frags env i) (Enqueuing False (Some f) (next_fragment fr)) = Suc k"
    using frag_left(2) [OF E call_queue(2) k(1), of "Suc k"] lt k(3) by (simp add: fragment_Suc)
  have fresh: "slot g m \<noteq> p" if "j < pe_callers env" "first_of (callers st j) = Some g" "m < queued (call_frags env j) (callers st j)" for j g m
    using occ_next_free [OF J, of j m "slot g m"] call_queue that by (auto simp: occ_view)
  have state: "State (item st' s) = (if s = p then WorkItemReady else State (item st s))" for s
    using call_queue by (simp add: pool_defs fill_item_def)
  have pcs: "callers st' j = (if j = i then Enqueuing False (Some f) (next_fragment fr) else callers st j)" for j
    using call_queue by (simp add: pool_defs)
  have thr: "threads st' = threads st" using call_queue by (simp add: pool_defs)
  show ?thesis
  proof (rule data_same [OF D])
    fix j g m assume j: "j < pe_callers env" "first_of (callers st j) = Some g"
    show "worked env st' j g m = worked env st j g m"
    proof (cases "j = i")
      case True
      then have g: "g = f" using j call_queue(3) by simp
      have "m < Suc k \<and> slot f m \<noteq> p \<longleftrightarrow> m < k" using fresh [of i f m] True j K k(4) call_queue(5) g by (auto simp: less_Suc_eq)
      then show ?thesis using True K K' g by (auto simp: worked_def state pcs thr)
    next
      case False
      then show ?thesis using fresh [OF j, of m] by (auto simp: worked_def state pcs thr)
    qed
  qed (use call_queue in \<open>auto simp: pool_defs\<close>)
next
  case (call_sleep i fo fr)
  show ?thesis by (rule data_same [OF D]) (use call_sleep in \<open>auto simp: pool_defs worked_def\<close>)
next
  case (call_wake i fo fr)
  show ?thesis by (rule data_same [OF D]) (use call_wake in \<open>auto simp: pool_defs worked_def\<close>)
next
  case (call_wait i f fr)
  show ?thesis by (rule data_same [OF D]) (use call_wait in \<open>auto simp: pool_defs worked_def\<close>)
next
  case (call_completed i f)
  show ?thesis by (rule data_same [OF D]) (use call_completed in \<open>auto simp: pool_defs worked_def\<close>)
next
  case (call_return i f)
  let ?r = "pe_calls env i"
  have f: "vF (view_of env st) i = Some f" "vW (view_of env st) i" using call_return by simp_all
  note gone = woken_alone [OF J f]
  have K: "queued (call_frags env i) (callers st i) = call_frags env i" using call_return by simp
  have u: "\<not> wr_unitCount ?r \<le> 1" using queueingD [OF Q call_return(2,3)] by simp
  have ok: "call_ok env i (B i)" using E call_return(2) by (simp add: env_ok_def)
  obtain res where res: "call_result env i (B i) = Some res" "length res = length (B i)"
    "drop (512 * unat (wr_unitCount ?r)) res = drop (512 * unat (wr_unitCount ?r)) (B i)"
    using call_result_ok [OF ok] by blast
  have iw: "in_work env B st i f" using D call_return by (simp add: data_ok_def call_data_def)
  have "worked env st i f m" if "m < call_frags env i" for m
  proof -
    have "threads st w \<noteq> At Running (slot f m)" if "w < unat (pe_threads env)" for w
      using gone(2) [OF \<open>m < call_frags env i\<close>, of w Running] that by auto
    then show ?thesis using gone(3) [OF that] K that by (simp add: worked_def)
  qed
  then have same: "frag_bytes env i m (buffers st i) = frag_bytes env i m res" if "m < call_frags env i" for m
    using iw res(1) that by (simp add: in_work_def)
  have "512 * unat (wr_unitCount ?r) \<le> length res" using ok res(2) by (simp add: call_ok_def Let_def)
  moreover have "length (buffers st i) = length res"
    "drop (512 * unat (wr_unitCount ?r)) (buffers st i) = drop (512 * unat (wr_unitCount ?r)) res"
    using iw res(2,3) by (simp_all add: in_work_def)
  ultimately have "buffers st i = res"
    using fragments_complete [OF env_fits [OF E call_return(2) u]] same unfolding call_frags_def by blast
  then have "call_data env B st' i" using call_return res(1) by (simp add: call_data_def pool_defs)
  moreover have "State (item st f) \<noteq> WorkItemReady"
    using gone(3) [of 0] calls_placedD(2) [OF jobs_okD(1) [OF J] f(1)] by simp
  ultimately show ?thesis
    by (intro data_other [OF D, of _ i]) (use call_return in \<open>auto simp: pool_defs worked_def\<close>)
next
  case (thread_run w s x d off ci n out)
  show ?thesis
    by (rule run_fragment [OF E Q J F D thread_run(2,3,1)]) (use thread_run in auto)
next
  case (thread_take w q)
  have thr: "threads st' v = At Running y \<longleftrightarrow> v = w \<and> y = q \<or> threads st v = At Running y" for v y
    using thread_take by (auto simp: pool_defs)
  have state: "State (item st' s) = (if s = q then WorkItemBusy else State (item st s))" for s
    using thread_take by (simp add: pool_defs)
  have same: "callers st' = callers st" "buffers st' = buffers st" using thread_take by (simp_all add: pool_defs)
  show ?thesis
    by (rule data_same [OF D]) (use thread_take(2,4,5) in \<open>auto simp: worked_def thr state same\<close>)
next
  case (thread_free w s)
  have "State (item st s) \<noteq> WorkItemReady" using threads_placedD(1) [OF jobs_okD(3) [OF J], of w Ran s] thread_free by simp
  then show ?thesis by (intro data_threads [OF D]) (use thread_free in \<open>auto simp: pool_defs\<close>)
next
  case (thread_enter w)
  show ?thesis by (rule data_threads [OF D]) (use thread_enter in \<open>auto simp: pool_defs\<close>)
next
  case (thread_sleep w)
  show ?thesis by (rule data_threads [OF D]) (use thread_sleep in \<open>auto simp: pool_defs\<close>)
next
  case (thread_wake w)
  show ?thesis by (rule data_threads [OF D]) (use thread_wake in \<open>auto simp: pool_defs\<close>)
next
  case (thread_keep w s)
  show ?thesis by (rule data_threads [OF D]) (use thread_keep in \<open>auto simp: pool_defs\<close>)
next
  case (thread_count w s f c)
  show ?thesis by (rule data_threads [OF D]) (use thread_count in \<open>auto simp: pool_defs\<close>)
next
  case (thread_complete w s f)
  show ?thesis by (rule data_threads [OF D]) (use thread_complete in \<open>auto simp: pool_defs\<close>)
qed

section \<open>The invariant\<close>

definition pool_ok :: "pool_env \<Rightarrow> (nat \<Rightarrow> bytes) \<Rightarrow> pool \<Rightarrow> bool" where
  "pool_ok env B st \<longleftrightarrow> locks_ok env st \<and> queueing_ok env st \<and> jobs_ok (call_frags env) (view_of env st) \<and> ring_ok st \<and>
     events_ok env st \<and> entries_filled env st \<and> data_ok env B st"

lemma pool_okD:
  assumes "pool_ok env B st"
  shows "locks_ok env st" "queueing_ok env st" "jobs_ok (call_frags env) (view_of env st)" "ring_ok st" "events_ok env st"
    "entries_filled env st" "data_ok env B st"
  using assms by (simp_all add: pool_ok_def)

lemma pool_ok_init: "pool_ok env B (pool_init B)"
proof -
  have v: "view_of env (pool_init B) = \<lparr>vF = \<lambda>i. None, vK = \<lambda>i. 0, vW = \<lambda>i. False, vS = \<lambda>s. WorkItemFree, vL = \<lambda>s. 0, vO = \<lambda>s. 0,
      vE = \<lambda>s. False, vA = \<lambda>w. None, vP = 0\<rparr>"
    by (simp add: view_of_def pool_init_def item_def free_item_def fun_eq_iff)
  have "jobs_ok (call_frags env) (view_of env (pool_init B))"
    by (simp add: v jobs_ok_def job_preds counts_ok_def)
  moreover have "ring_ok (pool_init B)"
    by (simp add: ring_ok_def ring_def pool_init_def item_def free_item_def exI [of _ "0::nat"])
  ultimately show ?thesis
    by (simp add: pool_ok_def locks_ok_def queueing_ok_def events_ok_def entries_filled_def occ_view data_ok_def call_data_def pool_init_def
        item_def free_item_def)
qed

lemma pool_ok_step:
  assumes "pool_step env st st'" "env_ok env B" "pool_ok env B st"
  shows "pool_ok env B st'"
proof -
  note P = pool_okD [OF assms(3)]
  have "DequeuePosition st < 128" using P(4) by (simp add: ring_ok_def ring_def)
  then show ?thesis
    using locks_step [OF assms(1) P(1)] queueing_step [OF assms(1,2) P(1-3)] jobs_step [OF assms(1,2) P(1-3)] ring_step [OF assms(1) P(4,3)]
      events_step [OF assms(1) P(1,5)] filled_step [OF assms(1,2) P(2,3,6)] data_step [OF assms(1,2) P(1-3,6,7)]
    by (simp add: pool_ok_def)
qed

lemma pool_ok_run:
  assumes "(pool_step env)\<^sup>*\<^sup>* (pool_init B) st" "env_ok env B"
  shows "pool_ok env B st"
  using assms(1) by (induction rule: rtranclp_induct) (auto intro: pool_ok_init pool_ok_step assms(2))

end
