(* ===== verification/Pool_Progress.thy ===== *)
theory Pool_Progress
  imports Pool_Invariant
begin

text \<open>
  The thread pool does not get stuck: while a call has not returned, some step is possible, and every run is
  finite. \<open>pool_measure\<close> bounds the steps of a run: it counts what the calls, the queue and the threads
  have still to do, and the wake-ups that the events allow.
\<close>

section \<open>A step is possible\<close>

lemma thread_can_step:
  assumes E: "env_ok env B" and P: "pool_ok env B st" and w: "w < unat (pe_threads env)" "threads st w = At ph s"
  shows "\<exists>st'. pool_step env st st'"
proof (cases ph)
  case Running
  then have w': "threads st w = At Running s" using w(2) by simp
  obtain i m res where o: "filled env i m (item st s)" "Data (item st s) = (i, 512 * units_before (pe_threads env) (pe_calls env i) m)"
    "unat (UnitCount (item st s)) * ENCRYPTION_DATA_UNIT_SIZE = 512 * units_of (pe_threads env) (pe_calls env i) m"
    "pool_work (pe_cpu env) (Type (item st s)) (frag_bytes env i m (buffers st i)) (StartUnitNo (item st s)) (UnitCount (item st s))
       (wr_cryptoInfo (pe_calls env i)) = Some (frag_bytes env i m res)"
    by (rule running_work [OF E pool_okD(2,3,6,7) [OF P] w(1) w']) blast
  have "CryptoInfo (item st s) = Some (wr_cryptoInfo (pe_calls env i))" using o(1) by (simp add: filled_def)
  from step_thread_run [OF w(1) w' refl o(2) this refl] o(4) show ?thesis unfolding o(3) by blast
next
  case Ran
  then show ?thesis using step_thread_keep [OF w(1)] step_thread_free [OF w(1)] w(2) by metis
next
  case Released
  then show ?thesis using step_thread_count [OF w(1) _ refl refl] w(2) by metis
next
  case Completing
  then show ?thesis using step_thread_complete [OF w(1) _ refl] w(2) by metis
qed

text \<open>What is ready is taken.\<close>

lemma ready_can_step:
  assumes E: "env_ok env B" and P: "pool_ok env B st" and s: "s < 128" "State (item st s) = WorkItemReady"
  shows "\<exists>st'. pool_step env st st'"
proof (cases "\<exists>w ph y. w < unat (pe_threads env) \<and> threads st w = At ph y")
  case True
  then show ?thesis using thread_can_step [OF E P] by blast
next
  case False
  obtain r where r: "DequeuePosition st < 128" "\<And>s. s < 128 \<Longrightarrow> State (item st s) = WorkItemReady \<longleftrightarrow> (\<exists>d<r. s = slot (DequeuePosition st) d)"
    using pool_okD(4) [OF P] by (auto simp: ring_ok_def ring_def)
  have "0 < r" using r(2) [OF s(1)] s(2) by auto
  then have ready: "State (item st (DequeuePosition st)) = WorkItemReady"
    using r(2) [OF r(1)] r(1) by (metis slot_0)
  note L = pool_okD(1) [OF P, unfolded locks_ok_def]
  show ?thesis
  proof (cases "DequeueMutex st")
    case None
    have w: "0 < unat (pe_threads env)" using E by (simp add: env_ok_def)
    then have "threads st 0 = Outside" using L None False by (cases "threads st 0") (auto simp: scanning_def)
    then show ?thesis using step_thread_enter [OF w] None by metis
  next
    case (Some w)
    then have w: "w < unat (pe_threads env)" "threads st w = Scanning \<or> threads st w = Asleep" using L by (auto simp: scanning_def)
    then show ?thesis
      using step_thread_take [OF w(1) _ refl ready] step_thread_wake [OF w(1)] pool_okD(5) [OF P] ready
      unfolding events_ok_def by metis
  qed
qed

text \<open>A call that waits for its fragments.\<close>

lemma waiting_can_step:
  assumes E: "env_ok env B" and P: "pool_ok env B st" and i: "i < pe_callers env" "first_of (callers st i) = Some f" "\<not> enqueuing (callers st i)"
  shows "\<exists>st'. pool_step env st st'"
proof (cases "\<exists>w ph y. w < unat (pe_threads env) \<and> threads st w = At ph y")
  case True
  then show ?thesis using thread_can_step [OF E P] by blast
next
  case False
  let ?v = "view_of env st"
  have F: "vF ?v i = Some f" using i by simp
  have "vA ?v w = None" for w using False by (cases "threads st w") auto
  then have nobody: "\<not> busy_at (vA ?v) s" "\<not> completing ?v i f w" for s w by (simp_all add: busy_at_def completing_def)
  note k = counts_okD(2) [OF jobs_okD(5) [OF pool_okD(3) [OF P]] F]
  consider "callers st i = Waiting f" | "callers st i = Woken f" using i by (cases "callers st i") auto
  then show ?thesis
  proof cases
    case 1
    show ?thesis
    proof (cases "ItemCompletedEvent (item st f)")
      case True
      then show ?thesis using step_call_completed [OF i(1) 1] by blast
    next
      case False
      then have "pending (call_frags env) ?v i f \<noteq> {}" using k nobody 1 by simp
      then obtain m where "m \<in> pending (call_frags env) ?v i f" by blast
      then have "State (item st (slot f m)) = WorkItemReady" using nobody 1 by (auto simp: pending_def)
      then show ?thesis by (rule ready_can_step [OF E P slot_lt])
    qed
  next
    case 2
    then show ?thesis using step_call_return [OF i(1)] by blast
  qed
qed

text \<open>The call that holds the mutex.\<close>

lemma enqueuing_can_step:
  assumes E: "env_ok env B" and P: "pool_ok env B st" and i: "i < pe_callers env" "callers st i = Enqueuing a fo fr"
  shows "\<exists>st'. pool_step env st st'"
proof (cases a)
  case False
  then have pc: "callers st i = Enqueuing False fo fr" using i by simp
  have zero: "0 < fragmentCount fr \<or> fragmentCount fr = 0" by (simp add: word_neq_0_conv [symmetric])
  show ?thesis
    using step_call_first [OF i(1) _ refl] step_call_queue [OF i(1) _ _ refl] step_call_wait [OF i(1)]
      step_call_sleep [OF i(1) pc] pc zero
    by (cases fo) metis+
next
  case True
  then have pc: "callers st i = Enqueuing True fo fr" using i by simp
  let ?p = "EnqueuePosition st"
  note J = pool_okD(3) [OF P]
  have p: "?p < 128" using calls_placedD(1) [OF jobs_okD(1) [OF J]] by simp
  show ?thesis
  proof (cases "State (item st ?p)")
    case WorkItemFree
    then have "WorkItemCompletedEvent st" using pool_okD(5) [OF P] i(1) pc by (auto simp: events_ok_def)
    then show ?thesis using step_call_wake [OF i(1) pc] by blast
  next
    case WorkItemReady
    then show ?thesis by (rule ready_can_step [OF E P p])
  next
    case WorkItemBusy
    then consider "working_at (vA (view_of env st)) ?p" | j where "vF (view_of env st) j = Some ?p" "0 < vK (view_of env st) j"
      using states_ownedD(2) [OF jobs_okD(4) [OF J] p] by auto
    then show ?thesis
    proof cases
      case 1
      then obtain w ph where "w < unat (pe_threads env)" "threads st w = At ph ?p"
        unfolding working_at_def by (metis option.distinct(1) place.elims prod.inject view_sel(8) option.inject)
      then show ?thesis using thread_can_step [OF E P] by blast
    next
      case (2 j)
      have j: "j < pe_callers env" "first_of (callers st j) = Some ?p" using 2(1) by (simp_all split: if_splits)
      have "\<not> enqueuing (callers st j)"
      proof
        assume e: "enqueuing (callers st j)"
        then obtain b fr' where pc': "callers st j = Enqueuing b (Some ?p) fr'" using j(2) by (cases "callers st j") auto
        obtain k where k: "\<not> wr_unitCount (pe_calls env j) \<le> 1" "k \<le> call_frags env j" "fr' = frag_of env j k" "?p = slot ?p k"
          using queueingD [OF pool_okD(2) [OF P] j(1) pc'] by auto
        have "k < 128" using k(2) call_frags_bounds(2) [OF E j(1) k(1)] by simp
        then have "k = 0" using slot_inj [OF p, of k 0] k(4) p by simp
        then show False using 2(2) pc' frag_left(2) [OF E j(1) k(1,2), of b "Some ?p"] k(3) by simp
      qed
      then show ?thesis using waiting_can_step [OF E P j] by blast
    qed
  qed
qed

theorem pool_can_step:
  assumes E: "env_ok env B" and P: "pool_ok env B st" and i: "i < pe_callers env" "callers st i \<noteq> Returned"
  shows "\<exists>st'. pool_step env st st'"
proof (cases "\<exists>j. j < pe_callers env \<and> enqueuing (callers st j)")
  case True
  then obtain j where j: "j < pe_callers env" "enqueuing (callers st j)" by blast
  then obtain a fo fr where "callers st j = Enqueuing a fo fr" by (cases "callers st j") auto
  then show ?thesis using enqueuing_can_step [OF E P j(1)] by blast
next
  case False
  then have free: "EnqueueMutex st = None" using pool_okD(1) [OF P] unfolding locks_ok_def by (metis not_None_eq)
  show ?thesis
  proof (cases "first_of (callers st i)")
    case (Some f)
    then show ?thesis using waiting_can_step [OF E P i(1)] False i(1) by blast
  next
    case None
    then have pc: "callers st i = Entering" using i False by (cases "callers st i") auto
    show ?thesis
    proof (cases "wr_unitCount (pe_calls env i) \<le> 1")
      case True
      have "call_ok env i (B i)" using E i(1) by (simp add: env_ok_def)
      moreover have "buffers st i = B i" using pool_okD(7) [OF P] i pc by (simp add: data_ok_def call_data_def)
      ultimately obtain b where "call_result env i (buffers st i) = Some b" using call_result_ok by metis
      then show ?thesis using step_call_here [OF i(1) pc refl True] unfolding call_result_def Let_def by metis
    next
      case False
      then show ?thesis using step_call_enter [OF i(1) pc refl _ free] by blast
    qed
  qed
qed

section \<open>Runs are finite\<close>

text \<open>What a call, a thread and an entry have still to do; a thread that looks for work has none.\<close>

fun call_rest :: "nat \<Rightarrow> caller_pc \<Rightarrow> nat" where
  "call_rest n Entering = 8 * n + 20"
| "call_rest n (Enqueuing a None fr) = 8 * unat (fragmentCount fr) + 12"
| "call_rest n (Enqueuing a (Some f) fr) = 8 * unat (fragmentCount fr) + 8"
| "call_rest n (Waiting f) = 6"
| "call_rest n (Woken f) = 4"
| "call_rest n Returned = 0"

fun thread_rest :: "thread_pc \<Rightarrow> nat" where
  "thread_rest Outside = 1"
| "thread_rest Scanning = 0"
| "thread_rest Asleep = 0"
| "thread_rest (At Running s) = 5"
| "thread_rest (At Ran s) = 4"
| "thread_rest (At Released s) = 3"
| "thread_rest (At Completing s) = 2"

definition entry_rest :: "work_item \<Rightarrow> nat" where
  "entry_rest x = (if State x = WorkItemReady then 6 else 0)"

text \<open>Who is awake may go to sleep once; an event allows one wake-up.\<close>

fun call_awake :: "caller_pc \<Rightarrow> nat" where
  "call_awake (Enqueuing a fo fr) = (if a then 0 else 1)"
| "call_awake Entering = 0"
| "call_awake (Waiting f) = 0"
| "call_awake (Woken f) = 0"
| "call_awake Returned = 0"

definition thread_awake :: "thread_pc \<Rightarrow> nat" where
  "thread_awake pc = (if pc = Scanning then 1 else 0)"

lemma thread_awake_simps [simp]: "thread_awake Scanning = 1" "thread_awake Asleep = 0" "thread_awake Outside = 0" "thread_awake (At ph s) = 0"
  by (simp_all add: thread_awake_def)

definition call_weight :: "nat \<Rightarrow> caller_pc \<Rightarrow> nat" where
  "call_weight n pc = 4 * call_rest n pc + call_awake pc"

definition thread_weight :: "thread_pc \<Rightarrow> nat" where
  "thread_weight pc = 4 * thread_rest pc + thread_awake pc"

definition pool_measure :: "pool_env \<Rightarrow> pool \<Rightarrow> nat" where
  "pool_measure env st = (\<Sum>i<pe_callers env. call_weight (call_frags env i) (callers st i)) +
     (\<Sum>w<unat (pe_threads env). thread_weight (threads st w)) + (\<Sum>s<128. 4 * entry_rest (item st s)) +
     2 * of_bool (WorkItemReadyEvent st) + 2 * of_bool (WorkItemCompletedEvent st)"

lemma sum_upd:
  fixes f :: "nat \<Rightarrow> 'a \<Rightarrow> nat"
  assumes "i < N"
  shows "(\<Sum>j<N. f j ((g(i := x)) j)) + f i (g i) = (\<Sum>j<N. f j (g j)) + f i x"
proof -
  have "{..<N} = insert i ({..<N} - {i})" using assms by auto
  then have s: "(\<Sum>j<N. h j) = h i + (\<Sum>j\<in>{..<N} - {i}. h j)" for h :: "nat \<Rightarrow> nat"
    by (metis finite_Diff finite_lessThan Diff_iff insertI1 singletonI sum.insert)
  show ?thesis unfolding s by simp
qed

text \<open>An entry that is not made ready does not weigh more.\<close>

lemma entries_le:
  assumes "State x = WorkItemReady \<Longrightarrow> State (q s) = WorkItemReady"
  shows "(\<Sum>y<128::nat. 4 * entry_rest ((q(s := x)) y)) \<le> (\<Sum>y<128. 4 * entry_rest (q y))"
  by (rule sum_mono) (use assms in \<open>auto simp: entry_rest_def\<close>)

lemma entries_ready: "(\<Sum>y<128::nat. 4 * entry_rest ((q(s := x)) y)) \<le> (\<Sum>y<128. 4 * entry_rest (q y)) + 24"
proof (cases "s < 128")
  case True
  then show ?thesis using sum_upd [OF True, of "\<lambda>y x. 4 * entry_rest x" q x] by (simp add: entry_rest_def split: if_splits)
next
  case False
  then have "(\<Sum>y<128::nat. 4 * entry_rest ((q(s := x)) y)) = (\<Sum>y<128. 4 * entry_rest (q y))"
    by (intro sum.cong) auto
  then show ?thesis by simp
qed

lemma measure_call:
  assumes "i < pe_callers env" "callers st' = (callers st)(i := pc)" "threads st' = threads st"
    and "WorkItemQueue st' = q" "(\<Sum>y<128. 4 * entry_rest (q y)) + c \<le> (\<Sum>y<128. 4 * entry_rest (item st y)) + d"
    and "call_weight (call_frags env i) pc + 2 * of_bool (WorkItemReadyEvent st') + 2 * of_bool (WorkItemCompletedEvent st') + d <
      call_weight (call_frags env i) (callers st i) + 2 * of_bool (WorkItemReadyEvent st) + 2 * of_bool (WorkItemCompletedEvent st) + c"
  shows "pool_measure env st' < pool_measure env st"
  using sum_upd [OF assms(1), of "\<lambda>i. call_weight (call_frags env i)" "callers st" pc] assms(5,6)
  unfolding pool_measure_def assms(2,3) item_def assms(4) by linarith

lemma measure_thread:
  assumes "w < unat (pe_threads env)" "threads st' = (threads st)(w := pc)" "callers st' = callers st"
    and "WorkItemQueue st' = q" "(\<Sum>y<128. 4 * entry_rest (q y)) + c \<le> (\<Sum>y<128. 4 * entry_rest (item st y)) + d"
    and "thread_weight pc + 2 * of_bool (WorkItemReadyEvent st') + 2 * of_bool (WorkItemCompletedEvent st') + d <
      thread_weight (threads st w) + 2 * of_bool (WorkItemReadyEvent st) + 2 * of_bool (WorkItemCompletedEvent st) + c"
  shows "pool_measure env st' < pool_measure env st"
  using sum_upd [OF assms(1), of "\<lambda>w. thread_weight" "threads st" pc] assms(5,6)
  unfolding pool_measure_def assms(2,3) item_def assms(4) by linarith

lemma measure_take:
  assumes "q < 128" "State (item st q) = WorkItemReady"
  shows "(\<Sum>y<128. 4 * entry_rest (((WorkItemQueue st)(q := (item st q)\<lparr>State := WorkItemBusy\<rparr>)) y)) + 24 \<le>
    (\<Sum>y<128. 4 * entry_rest (item st y)) + 0"
  using sum_upd [OF assms(1), of "\<lambda>y x. 4 * entry_rest x" "WorkItemQueue st" "(item st q)\<lparr>State := WorkItemBusy\<rparr>"] assms(2)
  by (simp add: entry_rest_def item_def)

lemma next_count: "0 < fragmentCount fr \<Longrightarrow> unat (fragmentCount (next_fragment fr)) = unat (fragmentCount fr) - 1"
  by (simp add: next_fragment_def Let_def unat_dec)

lemma call_rest_asleep: "call_rest n (Enqueuing True fo fr) = call_rest n (Enqueuing False fo fr)"
  by (cases fo) simp_all

lemmas weights = call_weight_def thread_weight_def

lemma pool_step_decreases:
  assumes "pool_step env st st'" and D: "DequeuePosition st < 128"
  shows "pool_measure env st' < pool_measure env st"
  using assms(1)
proof (cases rule: pool_step_cases)
  case (call_here i r b)
  show ?thesis
    by (rule measure_call [OF call_here(2), where c = 0 and d = 0]) (use call_here in \<open>(simp add: pool_defs weights)+\<close>)
next
  case (call_enter i r)
  show ?thesis
    by (rule measure_call [OF call_enter(2), where c = 0 and d = 0])
      (use call_enter in \<open>(simp add: pool_defs weights call_frags_def frag_count_def)+\<close>)
next
  case (call_first i fr p)
  show ?thesis
    by (rule measure_call [OF call_first(2), where c = 0 and d = 0, OF _ _ refl])
      (use call_first entries_le [of "(item st p)\<lparr>OutstandingFragmentCount := int (unat (fragmentCount fr))\<rparr>" "WorkItemQueue st" p]
        in \<open>(simp add: pool_defs weights)+\<close>)
next
  case (call_queue i f fr p)
  have "0 < unat (fragmentCount fr)" using call_queue(4) by (simp add: word_less_nat_alt)
  then show ?thesis
    by (intro measure_call [OF call_queue(2), where c = 0 and d = 24, OF _ _ refl])
      (use call_queue entries_ready [of "WorkItemQueue st" p "fill_item i (pe_calls env i) f fr (item st p)"] next_count [OF call_queue(4)]
        in \<open>(simp add: pool_defs weights)+\<close>)
next
  case (call_sleep i fo fr)
  show ?thesis
    by (rule measure_call [OF call_sleep(2), where c = 0 and d = 0]) (use call_sleep in \<open>(simp add: pool_defs weights call_rest_asleep)+\<close>)
next
  case (call_wake i fo fr)
  show ?thesis
    by (rule measure_call [OF call_wake(2), where c = 0 and d = 0]) (use call_wake in \<open>(simp add: pool_defs weights call_rest_asleep)+\<close>)
next
  case (call_wait i f fr)
  show ?thesis
    by (rule measure_call [OF call_wait(2), where c = 0 and d = 0]) (use call_wait in \<open>(simp add: pool_defs weights)+\<close>)
next
  case (call_completed i f)
  show ?thesis
    by (rule measure_call [OF call_completed(2), where c = 0 and d = 0, OF _ _ refl])
      (use call_completed entries_le [of "(item st f)\<lparr>ItemCompletedEvent := False\<rparr>" "WorkItemQueue st" f] in \<open>(simp add: pool_defs weights)+\<close>)
next
  case (call_return i f)
  show ?thesis
    by (rule measure_call [OF call_return(2), where c = 0 and d = 0, OF _ _ refl])
      (use call_return entries_le [of "(item st f)\<lparr>State := WorkItemFree\<rparr>" "WorkItemQueue st" f] in \<open>(simp add: pool_defs weights)+\<close>)
next
  case (thread_enter w)
  show ?thesis
    by (rule measure_thread [OF thread_enter(2), where c = 0 and d = 0]) (use thread_enter in \<open>(simp add: pool_defs weights)+\<close>)
next
  case (thread_sleep w)
  show ?thesis
    by (rule measure_thread [OF thread_sleep(2), where c = 0 and d = 0]) (use thread_sleep in \<open>(simp add: pool_defs weights)+\<close>)
next
  case (thread_wake w)
  show ?thesis
    by (rule measure_thread [OF thread_wake(2), where c = 0 and d = 0]) (use thread_wake in \<open>(simp add: pool_defs weights)+\<close>)
next
  case (thread_take w q)
  have q: "q < 128" using D thread_take(4) by simp
  have st': "threads st' = (threads st)(w := At Running q)" "callers st' = callers st"
    "WorkItemQueue st' = (WorkItemQueue st)(q := (item st q)\<lparr>State := WorkItemBusy\<rparr>)"
    "WorkItemReadyEvent st' = WorkItemReadyEvent st" "WorkItemCompletedEvent st' = WorkItemCompletedEvent st"
    using thread_take(1) by (simp_all add: pool_defs)
  show ?thesis
    by (rule measure_thread [OF thread_take(2) st'(1-3) measure_take [OF q thread_take(5)]])
      (simp add: thread_take(3) st'(4,5) weights)
next
  case (thread_run w s x d off ci n out)
  show ?thesis
    by (rule measure_thread [OF thread_run(2), where c = 0 and d = 0]) (use thread_run in \<open>(simp add: pool_defs weights)+\<close>)
next
  case (thread_keep w s)
  show ?thesis
    by (rule measure_thread [OF thread_keep(2), where c = 0 and d = 0]) (use thread_keep in \<open>(simp add: pool_defs weights)+\<close>)
next
  case (thread_free w s)
  show ?thesis
    by (rule measure_thread [OF thread_free(2), where c = 0 and d = 0, OF _ _ refl])
      (use thread_free entries_le [of "(item st s)\<lparr>State := WorkItemFree\<rparr>" "WorkItemQueue st" s] in \<open>(simp add: pool_defs weights)+\<close>)
next
  case (thread_count w s f c)
  show ?thesis
    by (rule measure_thread [OF thread_count(2), where c = 0 and d = 0, OF _ _ refl])
      (use thread_count entries_le [of "(item st f)\<lparr>OutstandingFragmentCount := c\<rparr>" "WorkItemQueue st" f] in \<open>(simp add: pool_defs weights)+\<close>)
next
  case (thread_complete w s f)
  show ?thesis
    by (rule measure_thread [OF thread_complete(2), where c = 0 and d = 0, OF _ _ refl])
      (use thread_complete entries_le [of "(item st f)\<lparr>ItemCompletedEvent := True\<rparr>" "WorkItemQueue st" f] in \<open>(simp add: pool_defs weights)+\<close>)
qed

lemma pool_run_length:
  assumes "(pool_step env ^^ n) (pool_init B) st" "env_ok env B"
  shows "pool_ok env B st \<and> n + pool_measure env st \<le> pool_measure env (pool_init B)"
  using assms(1)
proof (induction n arbitrary: st)
  case 0
  then have "st = pool_init B" by auto
  then show ?case using pool_ok_init by simp
next
  case (Suc n)
  then obtain s where s: "(pool_step env ^^ n) (pool_init B) s" "pool_step env s st" by auto
  have ok: "pool_ok env B s" using Suc.IH [OF s(1)] by simp
  then have "DequeuePosition s < 128" using pool_okD(4) by (simp add: ring_ok_def ring_def)
  then have "pool_measure env st < pool_measure env s" by (rule pool_step_decreases [OF s(2)])
  then show ?case using Suc.IH [OF s(1)] pool_ok_step [OF s(2) assms(2) ok] by simp
qed

lemma call_frags_le:
  assumes "env_ok env B"
  shows "call_frags env i \<le> 64"
  using assms by (auto simp: call_frags_def frag_count_eq env_ok_def word_le_nat_alt)

lemma pool_measure_init:
  assumes "env_ok env B"
  shows "pool_measure env (pool_init B) \<le> 2128 * pe_callers env + 256"
proof -
  have "(\<Sum>i<pe_callers env. call_weight (call_frags env i) Entering) \<le> (\<Sum>i<pe_callers env. 2128)"
    by (rule sum_mono) (use call_frags_le [OF assms] in \<open>simp add: weights\<close>)
  moreover have "unat (pe_threads env) \<le> 64" using assms by (simp add: env_ok_def)
  ultimately show ?thesis
    by (simp add: pool_measure_def pool_init_def item_def free_item_def entry_rest_def weights)
qed

text \<open>Some run ends, and then every call has returned.\<close>

lemma pool_finishes:
  assumes "env_ok env B" "pool_ok env B st"
  shows "\<exists>st'. (pool_step env)\<^sup>*\<^sup>* st st' \<and> pool_ok env B st' \<and> (\<forall>i<pe_callers env. callers st' i = Returned)"
  using assms(2)
proof (induction "pool_measure env st" arbitrary: st rule: less_induct)
  case less
  show ?case
  proof (cases "\<forall>i<pe_callers env. callers st i = Returned")
    case False
    then obtain s where s: "pool_step env st s" using pool_can_step [OF assms(1) less.prems] by blast
    have "DequeuePosition st < 128" using pool_okD(4) [OF less.prems] by (simp add: ring_ok_def ring_def)
    then have "pool_measure env s < pool_measure env st" by (rule pool_step_decreases [OF s])
    from less.hyps [OF this pool_ok_step [OF s assms(1) less.prems]] s show ?thesis by (meson converse_rtranclp_into_rtranclp)
  qed (use less.prems in blast)
qed

section \<open>Positions and data stay within bounds\<close>

lemma pool_in_bounds:
  assumes E: "env_ok env B" and P: "pool_ok env B st"
  shows "EnqueuePosition st < 128" "DequeuePosition st < 128"
    and "i < pe_callers env \<Longrightarrow> callers st i = Waiting f \<or> callers st i = Woken f \<Longrightarrow> f < 128"
    and "w < unat (pe_threads env) \<Longrightarrow> threads st w = At ph s \<Longrightarrow> s < 128 \<and> FirstFragment (item st s) < 128"
    and "w < unat (pe_threads env) \<Longrightarrow> threads st w = At Running s \<Longrightarrow>
      \<exists>i off. Data (item st s) = (i, off) \<and> i < pe_callers env \<and> off + 512 * unat (UnitCount (item st s)) \<le> length (buffers st i)"
proof -
  note J = pool_okD(3) [OF P] and c = calls_placedD [OF jobs_okD(1) [OF pool_okD(3) [OF P]]]
  show "EnqueuePosition st < 128" using c(1) by simp
  show "DequeuePosition st < 128" using pool_okD(4) [OF P] by (simp add: ring_ok_def ring_def)
  show "f < 128" if "i < pe_callers env" "callers st i = Waiting f \<or> callers st i = Woken f"
    using c(2) [of i f] that by auto
  show "s < 128 \<and> FirstFragment (item st s) < 128" if "w < unat (pe_threads env)" "threads st w = At ph s"
  proof -
    have "vA (view_of env st) w = Some (ph, s)" using that by simp
    from thread_owner [OF J this] obtain i m where o: "vF (view_of env st) i = Some (FirstFragment (item st s))" "s = slot (FirstFragment (item st s)) m"
      by (metis view_sel(5))
    show ?thesis using c(2) [OF o(1)] o(2) slot_lt by metis
  qed
  show "\<exists>i off. Data (item st s) = (i, off) \<and> i < pe_callers env \<and> off + 512 * unat (UnitCount (item st s)) \<le> length (buffers st i)"
    if r: "w < unat (pe_threads env)" "threads st w = At Running s"
  proof -
    obtain i m f where o: "i < pe_callers env" "first_of (callers st i) = Some f" "m < call_frags env i"
      "call_fits (pe_threads env) (pe_calls env i)" "call_ok env i (B i)"
      "Data (item st s) = (i, 512 * units_before (pe_threads env) (pe_calls env i) m)"
      "unat (UnitCount (item st s)) * ENCRYPTION_DATA_UNIT_SIZE = 512 * units_of (pe_threads env) (pe_calls env i) m"
      by (rule running_work [OF E pool_okD(2,3,6,7) [OF P] r]) blast
    have "length (buffers st i) = length (B i)" using pool_okD(7) [OF P] o(1,2) by (simp add: data_ok_def call_data_def in_work_def)
    moreover have "512 * unat (wr_unitCount (pe_calls env i)) \<le> length (B i)" using o(5) by (simp add: call_ok_def Let_def)
    moreover have "units_before (pe_threads env) (pe_calls env i) m + units_of (pe_threads env) (pe_calls env i) m \<le> unat (wr_unitCount (pe_calls env i))"
      using fragment_end [OF o(4)] o(3) by (simp add: call_frags_def)
    ultimately show ?thesis using o(1,6,7) by (simp add: tc_cfg)
  qed
qed

end
