(* ===== verification/Spec2Isabelle.thy ===== *)
theory Spec2Isabelle
  imports TC_Prelude Endianness Crc32 Cipher_Config Block_Ciphers Xts Gf_Mul Crypto_Modes Data_Units Hash_Blocks Ripemd160 Sha_Core Sha1 Sha2
    Whirlpool_Tables Whirlpool Pkcs5 Key_Schedules Volumes Volume_Headers Volume_Roundtrip Header_Threads
    Encryption_Pool Pool_Fragments Pool_Jobs Pool_Invariant Pool_Progress
begin

text \<open>
  TrueCrypt 7.1a: the cryptographic core, from the block ciphers up to the volume headers.

  \<^bold>\<open>The program.\<close> A volume is a file or partition whose first 512 bytes are a salt of 64 bytes and an
  encrypted header. \<open>Common/Volumes.c\<close> derives header keys from the password and the salt
  (\<open>Common/Pkcs5.c\<close> with the hash functions of \<open>Crypto/\<close>) and tries every key derivation function, mode
  and algorithm until the decrypted header has the magic number and the right checksums
  (\<open>Common/Crc.c\<close>, \<open>Common/Endian.c\<close>). The header holds the master keys; with them \<open>Common/Crypto.c\<close>
  schedules the ciphers of a cascade (\<open>Crypto/\<close>) and encrypts data units of 512 bytes, in XTS
  (\<open>Common/Xts.c\<close>) or in the older modes LRW (\<open>Common/GfMul.c\<close>) and CBC. On a machine with several
  processors \<open>Common/EncryptionThreadPool.c\<close> runs the key derivations and the fragments of a run of data units on
  threads of its own. The Windows driver, the dialogs, the formatter and the installer are built on this core.

  \<^bold>\<open>Conventions.\<close> Memory is a list of bytes; a C array is a list of its length, and the bytes behind a
  pointer are an argument of the function that reads them. \<open>unsigned\<close> types are words of their width, so
  arithmetic wraps as in C; sizes, indices and the small identifiers of algorithms are natural
  numbers. A function that writes through pointers returns what it writes. \<open>None\<close> is behaviour the C code
  does not define or refuses to go on with (a fatal exception, an index out of range), an \<open>ERR_\<close> constant is the status
  the code returns. The model is that of a little-endian machine with 64-bit integers, where nothing else is said.

  \<^bold>\<open>Theories.\<close>
  \<^item> \<open>TC_Prelude\<close>: words and byte strings, reading and writing at an offset, \<open>xor\<close> of blocks.
  \<^item> \<open>Serpent\<close>, \<open>Twofish\<close>, \<open>Blowfish\<close>, \<open>Cast5\<close>, \<open>Des\<close>, \<open>Aes\<close>: the files of \<open>Crypto/\<close> of the same names, tables,
    key schedules and block functions; each shows that decryption undoes encryption. \<open>Aes_Inverse\<close> shows it
    for the table-driven rounds from the algebra of the tables, and that the key schedule is that of FIPS 197.
  \<^item> \<open>Cipher_Config\<close>: the tables \<open>Ciphers\<close>, \<open>EncryptionAlgorithms\<close> and \<open>Hashes\<close> of \<open>Common/Crypto.c\<close> and every query on
    them; \<open>Block_Ciphers\<close>: \<open>CipherInit\<close>, \<open>EncipherBlock(s)\<close>, \<open>DecipherBlock(s)\<close>, \<open>EAInit\<close>. The locale \<open>block_cipher\<close> is
    what every cipher promises. The assembly routines of AES are a parameter (\<open>cpu\<close>) with the
    hypothesis \<open>hw_ok\<close> that they compute what the C routines do.
  \<^item> \<open>Xts\<close>: the parallel, the plain and the 32-bit build of XTS, against the mode as the standard states it; the
    locale \<open>xts\<close> extends \<open>block_cipher\<close>. \<open>Gf_Mul\<close>: the multiplication tables of LRW against polynomial multiplication.
  \<^item> \<open>Crypto_Modes\<close>, \<open>Data_Units\<close>: \<open>CRYPTO_INFO\<close>, \<open>EAInitMode\<close>, \<open>EncryptBuffer\<close> and the data unit functions over every mode;
    decryption undoes encryption, and a run of units is the units one by one.
  \<^item> \<open>Hash_Blocks\<close>, \<open>Ripemd160\<close>, \<open>Sha_Core\<close>, \<open>Sha1\<close>, \<open>Sha2\<close>, \<open>Whirlpool_Tables\<close>, \<open>Whirlpool\<close>: the hash functions: however a message is
    cut into updates, the digest is the padded message's. The locale \<open>sha_engine\<close> is the code that the SHA family shares.
  \<^item> \<open>Pkcs5\<close>: HMAC and PBKDF2 for the four hash functions (locale \<open>hash_function\<close>) and the iteration counts.
  \<^item> \<open>Key_Schedules\<close>: a key schedule depends on the key only, not on what the buffer held before.
  \<^item> \<open>Volumes\<close>: \<open>ReadVolumeHeader\<close> and \<open>CreateVolumeHeaderInMemory\<close>; \<open>Volume_Headers\<close>: the search as a specification;
    \<open>Volume_Roundtrip\<close>: a created header is found again; \<open>Header_Threads\<close>: the loop that keeps several key
    derivations queued, as a step relation over every order of completion.
  \<^item> \<open>Encryption_Pool\<close>: \<open>Common/EncryptionThreadPool.c\<close>: starting and stopping the pool, the division of a run of data units,
    and \<open>EncryptionThreadPoolDoWork\<close> and \<open>EncryptionThreadProc\<close> as a step relation (\<open>pool_step\<close>) over the ring of work
    items, the mutexes and the auto-reset events, for any number of calls and every interleaving. \<open>Pool_Fragments\<close>: the fragments
    make up the run, and working on them one by one is working on the run. \<open>Pool_Jobs\<close>: the abstract view of the ring
    as jobs that are queued, taken and counted down; \<open>Pool_Invariant\<close>: the invariant of the whole pool; \<open>Pool_Progress\<close>: a measure
    that every step decreases, and that some step is possible until every call has returned.
  \<^item> \<open>Crc32\<close>, \<open>Endianness\<close>: the checksum in both builds, the byte order functions.

  This theory states the properties, in the order of the parts, each with a witness at a concrete input.

  \<^bold>\<open>Bounds and fuel.\<close> The loops over data units and blocks are partial functions (\<open>xts_loop\<close>) or recursions over lists;
  the theorems show that they return for every buffer that is as long as the code is told. The loop of the hash
  updates is given the length of the data as fuel, which suffices because every turn consumes a byte. The thread loops
  are step relations; their theorems bound the length of every run: 8 turns for the key derivations, 2128 steps for each call
  of the pool and 256 more. In the pool a step that changes an entry's state also sets the event that the code sets next.

  \<^bold>\<open>Not modelled.\<close> Serpent's size-optimised build and \<open>AesSmall.c\<close> (the boot loader's variants), the assembly files, and the unrolled
  SHA-2, which is disabled and uses an undefined macro. The C++ boot loader and its 16-bit header reader. Clearing of buffers
  (\<open>burn\<close>), page locking and the release of memory, which have no value to state here. In the thread pool, key
  derivations (whose queue, as its user drives it, is in \<open>Header_Threads\<close>) and a stop while calls are under way. Everything that is
  calls to Windows: \<open>ReadEffectiveVolumeHeader\<close> and its companions, the random pool's sources of entropy, keyfile
  enumeration, the formatter's and wiper's disk writes, the driver's request queues, the in-place encryption, the dialogs and the
  installer; their data comes from the system, and what they do with it is to call the functions modelled here.
\<close>

unbundle bit_operations_syntax

section \<open>Block ciphers\<close>

text \<open>What the witnesses run on: AES in the C code, keys and buffers of constant bytes.\<close>

lemmas witness_facts = hw_ok_soft_cpu valid_cipher_def valid_ea_def tc_cfg

text \<open>
  C1: after \<open>CipherInit\<close> on a large enough buffer, every cipher of the program deciphers a block to
  what was enciphered, with the C code of AES or with assembly routines that agree with it.
\<close>

theorem cipher_init_roundtrip:
  assumes "hw_ok u" "valid_cipher c" "CipherGetKeyScheduleSize c \<le> length ks"
    and init: "CipherInit c key ks = (r, ks')" and b: "length b = CipherGetBlockSize c"
  shows "r \<noteq> ERR_CIPHER_INIT_FAILURE \<and>
    (\<exists>x. EncipherBlock u c b ks' = Some x \<and> length x = length b \<and> DecipherBlock u c x ks' = Some b)"
proof -
  have s: "scheduled c ks'" "r \<noteq> ERR_CIPHER_INIT_FAILURE"
    using CipherInit_scheduled [OF assms(2,3) init] by auto
  have c: "block_cipher (CipherGetBlockSize c) (cipher_enc u c ks') (cipher_dec u c ks')"
    by (rule cipher_contract) fact+
  show ?thesis
    using s(2) b block_cipher.length_enc [OF c] block_cipher.dec_enc [OF c] by (simp add: EncipherBlock_eq DecipherBlock_eq assms(2))
qed

lemma cipher_init_roundtrip_witness:
  "\<exists>r ks' x. CipherInit 6 (replicate 24 7) (replicate 768 0) = (r, ks') \<and> r \<noteq> ERR_CIPHER_INIT_FAILURE \<and>
     EncipherBlock (soft_cpu True) 6 (replicate 8 1) ks' = Some x \<and>
     DecipherBlock (soft_cpu True) 6 x ks' = Some (replicate 8 1)"
proof -
  obtain r ks' where init: "CipherInit 6 (replicate 24 7) (replicate 768 0) = (r, ks')" by (metis surj_pair)
  show ?thesis
    using cipher_init_roundtrip [OF _ _ _ init, of "soft_cpu True" "replicate 8 1"] init
    by (auto simp: witness_facts)
qed



text \<open>
  C3: \<open>EncipherBlocks\<close> and \<open>DecipherBlocks\<close>, which take 32 blocks at a time where the processor
  has AES instructions and the count allows it, both apply the block function to each block, and
  deciphering restores the buffer.
\<close>

theorem blocks_roundtrip:
  assumes "hw_ok u" "valid_cipher c" "scheduled c ks" "n * CipherGetBlockSize c \<le> length d"
  shows "\<exists>e. EncipherBlocks u c d ks n = Some e \<and> length e = length d \<and>
    e = block_map (cipher_enc u c ks) (CipherGetBlockSize c) n d \<and> DecipherBlocks u c e ks n = Some d"
proof -
  note c = cipher_contract [OF assms(1-3)]
  show ?thesis
    using assms block_cipher.length_map_enc [OF c] block_cipher.map_dec_enc [OF c]
    by (simp add: EncipherBlocks_eq DecipherBlocks_eq)
qed

lemma blocks_roundtrip_witness:
  "\<exists>e. EncipherBlocks (soft_cpu True) 5 (replicate 24 1) (replicate 128 0) 3 = Some e \<and>
     DecipherBlocks (soft_cpu True) 5 e (replicate 128 0) 3 = Some (replicate 24 1)"
  using blocks_roundtrip [of "soft_cpu True" 5 "replicate 128 0" 3 "replicate 24 1"]
  by (auto simp: witness_facts scheduled_def)

text \<open>
  C4: the unrolled AES-256 key schedules are the key expansion of FIPS 197: word \<open>p\<close> of the
  encryption schedule is word \<open>p\<close> of the recurrence, and the decryption schedule has at the reversed
  position the same word, through the inverse column mix in the inner rounds.
\<close>

theorem aes_schedule_is_fips197:
  assumes "length (aes_ks cx) = 60" "p < 60"
  shows "aes_ks (aes_encrypt_key256 key cx) ! p = ekw (word_in key) p \<and>
    aes_ks (aes_decrypt_key256 key cx) ! vpos p = dkw (ekw (word_in key)) p"
  using assms by (simp add: aes_encrypt_key256_words aes_decrypt_key256_words)

lemma aes_schedule_is_fips197_witness:
  "aes_ks (aes_encrypt_key256 (replicate 32 0) \<lparr>aes_ks = replicate 60 0, aes_inf = 0\<rparr>) ! 9 =
     ekw (word_in (replicate 32 0)) 9"
  using aes_schedule_is_fips197 [of "\<lparr>aes_ks = replicate 60 0, aes_inf = 0\<rparr>" 9 "replicate 32 0"] by simp

text \<open>
  C5: for every 256-bit key, the table-driven AES decryption with the context of
  \<open>aes_decrypt_key256\<close> undoes the encryption with that of \<open>aes_encrypt_key256\<close>; both succeed.
\<close>

theorem aes_keys_roundtrip:
  assumes "length (aes_ks cx) = 60" "length (aes_ks cx') = 60" "length b = 16"
  shows "\<exists>c. aes_encrypt b (aes_encrypt_key256 key cx) = Some c \<and> length c = 16 \<and>
    aes_decrypt c (aes_decrypt_key256 key cx') = Some b"
  using assms by (intro aes_decrypt_encrypt_block aes_pair_keys)

lemma aes_keys_roundtrip_witness:
  "\<exists>c cx. length c = 16 \<and> aes_decrypt c cx = Some (replicate 16 5)"
  using aes_keys_roundtrip [of "\<lparr>aes_ks = replicate 60 0, aes_inf = 0\<rparr>" "\<lparr>aes_ks = replicate 60 0, aes_inf = 0\<rparr>"
      "replicate 16 5" "replicate 32 0"] by auto

text \<open>
  C6: the Boolean circuits of Serpent with the register renaming of their macros compute the eight
  S-boxes of the cipher's specification in each of the 32 columns of the state.
\<close>

theorem serpent_sboxes:
  assumes "n < 32"
  shows "map (\<lambda>f. col n (f q)) [sb0, sb1, sb2, sb3, sb4, sb5, sb6, sb7] = map (\<lambda>s. s ! col n q) SBOX"
  using assms by (simp add: sb0_col sb1_col sb2_col sb3_col sb4_col sb5_col sb6_col sb7_col)
    (simp add: SBOX_def)

lemma serpent_sboxes_witness:
  "map (\<lambda>f. col 0 (f (1, 0, 1, 0))) [sb0, sb1, sb2, sb3, sb4, sb5, sb6, sb7] = [6, 0, 12, 9, 0, 10, 4, 8]"
proof -
  have "col 0 (1, 0, 1, 0) = 5" by (simp add: col_def)
  with serpent_sboxes [of 0 "(1, 0, 1, 0)"] show ?thesis by (simp add: SBOX_def)
qed

text \<open>
  C7: \<open>CipherInit\<close> passes the length of a Serpent key in bits where \<open>serpent_set_key\<close> takes it in
  bytes. The words it copies past the key are overwritten: the schedule is a function of the first 32
  bytes of the key alone, and does not depend on the old contents of the buffer.
\<close>

theorem serpent_reads_32_bytes:
  assumes "take 32 u = take 32 u'" "length k = 140" "length k' = 140"
  shows "serpent_set_key u (CipherGetKeySize SERPENT * 8) k = serpent_set_key u' (CipherGetKeySize SERPENT * 8) k'"
  using serpent_set_key_first_32 [OF assms] by (simp add: tc_cfg)

lemma serpent_reads_32_bytes_witness:
  "serpent_set_key (replicate 32 1 @ [2]) 256 (replicate 140 0) = serpent_set_key (replicate 32 1) 256 (replicate 140 9)"
  using serpent_reads_32_bytes [of "replicate 32 1 @ [2]" "replicate 32 1" "replicate 140 0" "replicate 140 9"]
  by (simp add: tc_cfg)

text \<open>
  C8: on an instance made by \<open>twofish_set_key\<close> with a key of 128, 192 or 256 bits, the build that
  reads the round function from the key-dependent tables and the small build that computes it encrypt
  and decrypt alike.
\<close>

theorem twofish_builds_agree:
  assumes "key_len div 64 \<in> {2, 3, 4}"
    and inst: "inst = twofish_set_key inst0 in_key key_len"
  shows "twofish_encrypt inst b = twofish_encrypt_min inst b \<and> twofish_decrypt inst b = twofish_decrypt_min inst b"
  using keyed_builds_agree [OF keyed_set_key [OF assms(1)], of inst0 in_key b] by (simp add: inst)

lemma twofish_builds_agree_witness:
  "\<exists>inst. twofish_encrypt inst (replicate 16 0) = twofish_encrypt_min inst (replicate 16 0)"
  using twofish_builds_agree [OF _ refl, of 256 "twofish_at []" "replicate 8 0" "replicate 16 0"] by auto

text \<open>
  C9: the 16 rotation amounts of a CAST5 key schedule are below 32, the range for which the rotation
  by shifts is defined up to the amount 0.
\<close>

theorem cast_rotations:
  assumes "length K = 32" "16 \<le> j" "j < 32"
  shows "unat (Cast5SetKey K userKey ! j) < 32"
  by (rule Cast5SetKey_rotations) fact+

lemma cast_rotations_witness: "unat (Cast5SetKey (replicate 32 0) (replicate 16 3) ! 20) < 32"
  by (rule cast_rotations) simp_all

section \<open>Configuration and checksums\<close>



text \<open>
  C11: \<open>EAGetByName\<close> finds an algorithm by the name \<open>EAGetName\<close> gives it, and the name fits the
  buffers of 128 characters the callers have.
\<close>

theorem ea_names_roundtrip:
  assumes "valid_ea ea"
  shows "\<exists>s. EAGetName ea = Some s \<and> EAGetByName s = Some ea \<and> length s < 128"
proof -
  have "\<exists>s. EAGetName ea = Some s" by (rule valid_eaE [OF assms]; simp add: tc_cfg)
  then show ?thesis using EAGetByName_EAGetName [OF assms] by auto
qed

lemma ea_names_roundtrip_witness: "EAGetByName ''AES-Twofish-Serpent'' = Some 5"
  using ea_names_roundtrip [of 5] by (auto simp: witness_facts)

text \<open>
  C12: the CRC by table and the CRC by bits of the small build are the same function, the table is
  the bitwise remainder of every byte, and \<open>crc32int\<close> is the CRC of the word's bytes.
\<close>

theorem crc_builds_agree:
  "GetCrc32 data = GetCrc32_min data \<and> crc_32_tab = map (\<lambda>i. crc_byte (word_of_nat i)) [0..<256] \<and>
   crc32int w = GetCrc32 (word_to_le 4 w)"
  using GetCrc32_eq_min crc_tab crc32int_eq by blast

text \<open>
  C13: the header's fields are written in big-endian order and read back as they were written, and a
  byte-reversed store is the same string of bytes.
\<close>

theorem big_endian_fields:
  "mgetInt64 (mputInt64 a) = a \<and> mgetLong (mputLong b) = b \<and> mgetWord (mputWord c) = c \<and>
   mputLong b = word_to_le 4 (BE32 b) \<and> mputInt64 a = word_to_le 8 (BE64 a)"
  by (simp add: mputWord_be mputLong_be mputInt64_be mgetWord_be mgetLong_be mgetInt64_be store_BE32 store_BE64)

section \<open>The XTS mode\<close>

text \<open>
  C14: on whole blocks that stay inside their last data unit the XTS functions return and compute the
  mode block by block: block \<open>a\<close> counted from the first data unit is whitened with the enciphered number
  of unit \<open>a div 32\<close>, doubled \<open>a mod 32\<close> times. The parallel and the sequential function agree.
\<close>

theorem xts_builds_refine_mode:
  assumes "hw_ok u" "valid_cipher c" "CipherGetBlockSize c = 16" "scheduled c ks" "scheduled c ks2"
    and "xts_args buf len start"
  shows "EncryptBufferXTS u buf len no start ks ks2 c =
      Some (xts_result (cipher_enc u c ks) (cipher_enc u c ks2) buf len no start) \<and>
    DecryptBufferXTS u buf len no start ks ks2 c =
      Some (xts_result (cipher_dec u c ks) (cipher_enc u c ks2) buf len no start) \<and>
    EncryptBufferXTSParallel u buf len no start ks ks2 c = EncryptBufferXTSNonParallel u buf len no start ks ks2 c \<and>
    DecryptBufferXTSParallel u buf len no start ks ks2 c = DecryptBufferXTSNonParallel u buf len no start ks ks2 c"
  by (simp add: EncryptBufferXTS_run [OF assms] xts_functions_run [OF assms])

lemma xts_builds_refine_mode_witness:
  "EncryptBufferXTS (soft_cpu True) (replicate 48 7) 32 5 3 (replicate 560 1) (replicate 560 2) 2 =
     Some (xts_result (cipher_enc (soft_cpu True) 2 (replicate 560 1)) (cipher_enc (soft_cpu True) 2 (replicate 560 2))
       (replicate 48 7) 32 5 3)"
  using xts_builds_refine_mode [of "soft_cpu True" 2 "replicate 560 1" "replicate 560 2" "replicate 48 7" 32 3 5]
  by (simp add: witness_facts scheduled_def xts_args_def)

text \<open>
  C15: decryption in XTS mode restores the buffer that was encrypted with the same keys, unit number and
  first block, and encryption changes neither the buffer's length nor the bytes past \<open>length\<close>.
\<close>

theorem xts_roundtrip:
  assumes "hw_ok u" "valid_cipher c" "CipherGetBlockSize c = 16" "scheduled c ks" "scheduled c ks2"
    and args: "xts_args buf len start"
  shows "\<exists>e. EncryptBufferXTS u buf len no start ks ks2 c = Some e \<and> length e = length buf \<and>
    drop (unat len) e = drop (unat len) buf \<and> DecryptBufferXTS u e len no start ks ks2 c = Some buf"
proof -
  let ?e = "xts_result (cipher_enc u c ks) (cipher_enc u c ks2) buf len no start"
  note r = xts_result_roundtrip [OF xts_contract [OF assms(1-5)] args, of no]
  have "xts_args ?e len start" using args r by (simp add: xts_args_def)
  then show ?thesis
    using r EncryptBufferXTS_run(1) [OF assms] EncryptBufferXTS_run(2) [OF assms(1-5), of ?e] by simp
qed

lemma xts_roundtrip_witness:
  "\<exists>e. EncryptBufferXTS (soft_cpu True) (replicate 32 7) 32 5 0 (replicate 560 1) (replicate 560 2) 2 = Some e \<and>
     DecryptBufferXTS (soft_cpu True) e 32 5 0 (replicate 560 1) (replicate 560 2) 2 = Some (replicate 32 7)"
  using xts_roundtrip [of "soft_cpu True" 2 "replicate 560 1" "replicate 560 2" "replicate 32 7" 32 0 5]
  by (auto simp: witness_facts scheduled_def xts_args_def)

text \<open>
  C16: the next whitening value is the product of the last one with \<open>x\<close> in the field of polynomials
  modulo \<open>x^128 + x^7 + x^2 + x + 1\<close>, and the loop over double words of the 32-bit build computes the
  same value.
\<close>

theorem xts_whitening_doubles:
  "wv_word (next_whitening w) = gf_double (wv_word w) \<and>
   next_whitening32 (wv_dwords w) = wv_dwords (next_whitening w)"
  by (simp add: next_whitening_double next_whitening32_dwords)

text \<open>
  C17: the build without 64-bit integers encrypts and decrypts as the 64-bit build does on the same
  arguments, the carry from the low to the high half of the data unit number included.
\<close>

theorem xts_builds_agree:
  fixes len :: u32
  assumes "hw_ok u" "valid_cipher c" "CipherGetBlockSize c = 16" "scheduled c ks" "scheduled c ks2"
    and "xts_args buf (ucast len) start"
  shows "EncryptBufferXTS32 u buf len no start ks ks2 c =
      EncryptBufferXTS u buf (ucast len) (join_unit_no no) start ks ks2 c \<and>
    DecryptBufferXTS32 u buf len no start ks ks2 c =
      DecryptBufferXTS u buf (ucast len) (join_unit_no no) start ks ks2 c"
  by (simp add: EncryptBufferXTS32_def DecryptBufferXTS32_def EncryptDecryptBufferXTS32_run [OF assms]
      EncryptBufferXTS_run [OF assms])

lemma xts_builds_agree_witness:
  "EncryptBufferXTS32 (soft_cpu False) (replicate 32 7) 32 (0, 0xFFFFFFFF) 0 (replicate 560 1) (replicate 560 2) 2 =
     EncryptBufferXTS (soft_cpu False) (replicate 32 7) 32 0xFFFFFFFF 0 (replicate 560 1) (replicate 560 2) 2"
  using xts_builds_agree [of "soft_cpu False" 2 "replicate 560 1" "replicate 560 2" "replicate 32 7" 32 0 "(0, 0xFFFFFFFF)"]
  by (simp add: witness_facts scheduled_def xts_args_def join_unit_no_def)

text \<open>
  C18: with fewer than 32 blocks the loop of the sequential function ends after one data unit wherever
  it starts: if the blocks run past the end of the unit, those past it are whitened as blocks 32, 33,
  and so on of the same unit, and not as the first blocks of the next one.
\<close>

theorem xts_overrun:
  fixes blockCount :: u64
  assumes "hw_ok u" "valid_cipher c" "CipherGetBlockSize c = 16" "scheduled c ks" "scheduled c ks2"
    and n: "0 < unat blockCount" "unat blockCount < 32" and start: "unat start < 32"
    and fits: "16 * unat blockCount \<le> length buf"
  shows "xts_loop (unit_nonparallel (\<lambda>b. EncipherBlock u c b ks)) (\<lambda>b. EncipherBlock u c b ks2)
      unit_no_bytes (\<lambda>k. k + 1) buf blockCount start no =
    Some (xts_unit (cipher_enc u c ks) ((next_whitening ^^ unat start)
      (wv_of_bytes (cipher_enc u c ks2 (unit_no_bytes no)))) (unat blockCount) buf)"
proof -
  note X = xts_contract [OF assms(1-5)]
  note e = xts.total16_enc [OF X EncipherBlock_eq [OF assms(2)]]
  show ?thesis
    by (rule xts_loop_overrun [OF _ unit_nonparallel_ok [OF e] e xts.total16_tweak [OF X EncipherBlock_eq [OF assms(2)]]
          _ n start fits]) simp_all
qed

lemma xts_overrun_witness:
  "\<exists>out. xts_loop (unit_nonparallel (\<lambda>b. EncipherBlock (soft_cpu False) 2 b (replicate 560 1)))
      (\<lambda>b. EncipherBlock (soft_cpu False) 2 b (replicate 560 2)) unit_no_bytes (\<lambda>k. k + 1) (replicate 32 7) (2 :: u64) 31 9 = Some out"
  using xts_overrun [of "soft_cpu False" 2 "replicate 560 1" "replicate 560 2" 2 31 "replicate 32 7" 9]
  by (auto simp: witness_facts scheduled_def)

section \<open>Volumes\<close>


text \<open>The volume that the witnesses run on.\<close>

definition blank_volume :: "nat \<Rightarrow> nat \<Rightarrow> CRYPTO_INFO" where
  "blank_volume ea mode =
     \<lparr>ci_ea = ea, ci_mode = mode, ci_ks = replicate 6000 0, ci_ks2 = replicate 6000 0, hiddenVolume = False,
      HeaderVersion = 5, gf_ctx = \<lparr>gf_t128 = (\<lambda>i j. replicate 4 0), gf_t64 = (\<lambda>i j. replicate 2 0)\<rparr>,
      ci_master_keydata = replicate 256 0, ci_k2 = replicate 256 9, ci_salt = replicate 64 0, ci_noIterations = 1000,
      ci_pkcs5 = 1, volume_creation_time = 0, header_creation_time = 0, bProtectHiddenVolume = False,
      bHiddenVolProtectionAction = False, volDataAreaOffset = 131072, hiddenVolumeSize = 0, hiddenVolumeOffset = 0,
      hiddenVolumeProtectedSize = 0, bPartitionInInactiveSysEncScope = False, FirstDataUnitNo = 0,
      RequiredProgramVersion = 0x700, LegacyVolume = False, SectorSize = 512, VolumeSize = 1048576,
      EncryptedAreaStart = 131072, EncryptedAreaLength = 786432, HeaderFlags = 0\<rparr>"

lemma blank_volume_init:
  assumes "valid_ea ea" "EAIsModeSupported ea mode = Some True" "ks_total (ciphers_of ea) \<le> 6000"
  shows "\<exists>r ks. EAInit ea key (replicate 6000 0) = Some (r, ks)"
    and "\<exists>ci. ci_ea ci = ea \<and> ci_mode ci = mode \<and> volume_ready (soft_cpu True) ci"
proof -
  obtain r ks where i: "EAInit ea key (replicate 6000 0) = Some (r, ks)"
    using EAInit_all_scheduled [OF assms(1), of "replicate 6000 0" key] assms(3) by auto
  then show "\<exists>r ks. EAInit ea key (replicate 6000 0) = Some (r, ks)" by blast
  obtain ci where "EAInitMode True ((blank_volume ea mode)\<lparr>ci_ks := ks\<rparr>) = Some (True, ci)" "volume_ready (soft_cpu True) ci"
    using EAInitMode_ready [of "blank_volume ea mode" key r ks "soft_cpu True"] i assms
    by (auto simp: blank_volume_def gf_wf_def rows_ok_def hw_ok_soft_cpu)
  moreover from this(1) have "ci_ea ci = ea \<and> ci_mode ci = mode"
    by (auto simp: EAInitMode_def blank_volume_def Let_def split: if_splits prod.splits)
  ultimately show "\<exists>ci. ci_ea ci = ea \<and> ci_mode ci = mode \<and> volume_ready (soft_cpu True) ci" by blast
qed


text \<open>
  C20: on a ready volume, whatever its algorithm, cascade and mode, encrypting data units succeeds, keeps
  the length of the buffer and the bytes after the units, and decrypting restores the buffer; the
  numbers of units are those for which the byte count fits in 64 bits.
\<close>

theorem data_units_roundtrip:
  assumes "volume_ready u ci" "unat nbrUnits < 2 ^ 55" "512 * unat nbrUnits \<le> length buf"
  shows "\<exists>enc. EncryptDataUnitsCurrentThread u buf unitNo nbrUnits ci = Some enc \<and> length enc = length buf \<and>
    drop (512 * unat nbrUnits) enc = drop (512 * unat nbrUnits) buf \<and>
    DecryptDataUnitsCurrentThread u enc unitNo nbrUnits ci = Some buf"
  using unit_pair_run(2) [OF data_units_pair [OF assms(1)] _ xts_units_count_1 assms(3), of unitNo] assms(2)
  by (simp add: xts_units_count_def encrypt_units_def decrypt_units_def)

lemma data_units_roundtrip_witness:
  "\<exists>ci enc. ci_ea ci = 13 \<and> ci_mode ci = INNER_CBC \<and>
     EncryptDataUnitsCurrentThread (soft_cpu True) (replicate 1024 3) 7 2 ci = Some enc \<and> length enc = 1024 \<and>
     DecryptDataUnitsCurrentThread (soft_cpu True) enc 7 2 ci = Some (replicate 1024 3)"
proof -
  have ea: "valid_ea 13" "EAIsModeSupported 13 INNER_CBC = Some True" "ks_total (ciphers_of 13) \<le> 6000"
    by (simp_all add: valid_ea_def EAIsModeSupported_def ea_modes_def tc_cfg)
  obtain ci where "ci_ea ci = 13" "ci_mode ci = INNER_CBC" "volume_ready (soft_cpu True) ci"
    using blank_volume_init(2) [OF ea] by blast
  then show ?thesis
    using data_units_roundtrip [of "soft_cpu True" ci 2 "replicate 1024 3" 7] by auto
qed

text \<open>
  C21: the data units of a buffer are processed independently: encrypting or decrypting \<open>n\<close> units in one
  call, with the running block index of LRW and the running unit number of XTS and CBC, gives the
  results of processing each unit by itself with its own number. A volume can therefore be read and
  written in pieces of any size.
\<close>

theorem data_units_unitwise:
  assumes "volume_ready u ci" "unat nbrUnits < 2 ^ 55" "512 * unat nbrUnits \<le> length buf"
  shows "EncryptDataUnitsCurrentThread u buf unitNo nbrUnits ci =
      Some (units_map (\<lambda>no b. the (EncryptDataUnitsCurrentThread u b no 1 ci)) (unat nbrUnits) unitNo buf) \<and>
    DecryptDataUnitsCurrentThread u buf unitNo nbrUnits ci =
      Some (units_map (\<lambda>no b. the (DecryptDataUnitsCurrentThread u b no 1 ci)) (unat nbrUnits) unitNo buf)"
proof -
  have n: "unat nbrUnits \<in> xts_units_count" using assms(2) by (simp add: xts_units_count_def)
  show ?thesis
    using unit_pair_run(1) [OF data_units_pair [OF assms(1)] n xts_units_count_1 assms(3)]
      unit_pair_run_back [OF data_units_pair [OF assms(1)] n xts_units_count_1 assms(3)]
    by (simp add: encrypt_units_def [abs_def] decrypt_units_def [abs_def])
qed

lemma data_units_unitwise_witness:
  "\<exists>ci. ci_ea ci = 9 \<and> ci_mode ci = LRW \<and> EncryptDataUnitsCurrentThread (soft_cpu True) (replicate 1024 3) 7 2 ci =
     Some (the (EncryptDataUnitsCurrentThread (soft_cpu True) (replicate 512 3) 7 1 ci) @
           the (EncryptDataUnitsCurrentThread (soft_cpu True) (replicate 512 3) 8 1 ci))"
proof -
  have ea: "valid_ea 9" "EAIsModeSupported 9 LRW = Some True" "ks_total (ciphers_of 9) \<le> 6000"
    by (simp_all add: valid_ea_def EAIsModeSupported_def ea_modes_def tc_cfg)
  have two: "units_map G 2 7 (replicate 1024 (3 :: u8)) = G 7 (replicate 512 3) @ G 8 (replicate 512 3)" for G
    by (simp add: numeral_2_eq_2)
  obtain ci where "ci_ea ci = 9" "ci_mode ci = LRW" "volume_ready (soft_cpu True) ci"
    using blank_volume_init(2) [OF ea] by blast
  then show ?thesis
    using data_units_unitwise [of "soft_cpu True" ci 2 "replicate 1024 3" 7] by (auto simp: two)
qed

text \<open>
  C22: on a ready volume, \<open>DecryptBuffer\<close> undoes \<open>EncryptBuffer\<close> on a buffer of whole 16-byte blocks,
  such as the encrypted area of a volume header, in every mode of every algorithm.
\<close>

theorem header_roundtrip:
  assumes "volume_ready u ci" "length buf = unat len" "unat len mod 16 = 0" "unat len < 2 ^ 32"
  shows "\<exists>enc. EncryptBuffer u buf len ci = Some enc \<and> length enc = length buf \<and> DecryptBuffer u enc len ci = Some buf"
  using crypt_pairE [OF header_pair [OF assms(1,3,4)] assms(2)] assms(2) by metis

lemma header_roundtrip_witness:
  "\<exists>ci enc. ci_ea ci = 4 \<and> ci_mode ci = OUTER_CBC \<and>
     EncryptBuffer (soft_cpu True) (replicate 448 3) 448 ci = Some enc \<and> length enc = 448 \<and>
     DecryptBuffer (soft_cpu True) enc 448 ci = Some (replicate 448 3)"
proof -
  have ea: "valid_ea 4" "EAIsModeSupported 4 OUTER_CBC = Some True" "ks_total (ciphers_of 4) \<le> 6000"
    by (simp_all add: valid_ea_def EAIsModeSupported_def ea_modes_def tc_cfg)
  obtain ci where "ci_ea ci = 4" "ci_mode ci = OUTER_CBC" "volume_ready (soft_cpu True) ci"
    using blank_volume_init(2) [OF ea] by blast
  then show ?thesis
    using header_roundtrip [of "soft_cpu True" ci "replicate 448 3" 448] by auto
qed

section \<open>Hash functions and key derivation\<close>

text \<open>
  C23: however a message is split over calls of \<open>sha512_hash\<close>, \<open>sha512_end\<close> writes the digest that
  FIPS 180 defines for the whole message: its padding with the length, its message schedule and its
  round, which the code replaces by rotating variables and a ring of 16 words.
\<close>

theorem sha512_incremental:
  assumes "length (sha_wbuf cx) = 16" "\<forall>x \<in> set xs. length x < 2 ^ 29"
  shows "fst (sha512_end (fold (\<lambda>x. sha512_hash x (word_of_nat (length x))) xs (sha512_begin cx))) =
    sha_standard_digest 128 sha512_standard i512 64 (concat xs)"
  using assms by (rule sha512_hash.updates_digest)

lemma sha512_incremental_witness:
  "fst (sha512_end (sha512_hash (replicate 130 2) 130 (sha512_hash [97, 98, 99] 3
     (sha512_begin \<lparr>sha_count0 = 0, sha_count1 = 0, sha_state = [], sha_wbuf = replicate 16 0\<rparr>)))) =
   sha_standard_digest 128 sha512_standard i512 64 ([97, 98, 99] @ replicate 130 2)"
  using sha512_incremental [of "\<lparr>sha_count0 = 0, sha_count1 = 0, sha_state = [], sha_wbuf = replicate 16 0\<rparr>"
      "[[97, 98, 99], replicate 130 2]"] by simp

text \<open>
  C24: the same for SHA-1, whose rounds are unrolled over five variables.
\<close>

theorem sha1_incremental:
  assumes "length (sha_wbuf cx) = 16" "\<forall>x \<in> set xs. length x < 2 ^ 29"
  shows "fst (sha1_end (fold (\<lambda>x. sha1_hash x (word_of_nat (length x))) xs (sha1_begin cx))) =
    sha_standard_digest 64 sha1_standard sha1_iv 20 (concat xs)"
  using assms by (rule sha1_hash.updates_digest)

lemma sha1_incremental_witness:
  "fst (sha1_end (sha1_hash (replicate 70 2) 70 (sha1_hash [97, 98, 99] 3
     (sha1_begin \<lparr>sha_count0 = 0, sha_count1 = 0, sha_state = [], sha_wbuf = replicate 16 0\<rparr>)))) =
   sha_standard_digest 64 sha1_standard sha1_iv 20 ([97, 98, 99] @ replicate 70 2)"
  using sha1_incremental [of "\<lparr>sha_count0 = 0, sha_count1 = 0, sha_state = [], sha_wbuf = replicate 16 0\<rparr>"
      "[[97, 98, 99], replicate 70 2]"] by simp

text \<open>
  C25: the one-call forms of the four SHA-2 functions compute the digests of FIPS 180, each with its own
  initial value and its own part of the hash value.
\<close>

theorem sha2_whole:
  assumes "length (sha_wbuf cx) = 16" "length (sha_wbuf cx') = 16" "unat len = length m"
  shows "sha256 cx m len = sha_standard_digest 64 sha256_standard i256 32 m \<and>
    sha224 cx m len = sha_standard_digest 64 sha256_standard i224 28 m \<and>
    sha512 cx' m len = sha_standard_digest 128 sha512_standard i512 64 m \<and>
    sha384 cx' m len = sha_standard_digest 128 sha512_standard i384 48 m"
  using sha256_whole [OF assms(1,3)] sha512_whole [OF assms(2,3)] by simp

lemma sha2_whole_witness:
  "sha224 \<lparr>sha_count0 = 5, sha_count1 = 0, sha_state = [], sha_wbuf = replicate 16 7\<rparr> [97, 98, 99] 3 =
     sha_standard_digest 64 sha256_standard i224 28 [97, 98, 99] \<and>
   sha384 \<lparr>sha_count0 = 5, sha_count1 = 0, sha_state = [], sha_wbuf = replicate 16 7\<rparr> [97, 98, 99] 3 =
     sha_standard_digest 128 sha512_standard i384 48 [97, 98, 99]"
  using sha2_whole [of "\<lparr>sha_count0 = 5, sha_count1 = 0, sha_state = [], sha_wbuf = replicate 16 7\<rparr>"
      "\<lparr>sha_count0 = 5, sha_count1 = 0, sha_state = [], sha_wbuf = replicate 16 7\<rparr>" 3 "[97, 98, 99]"] by simp

text \<open>
  C26: however a message of whole bytes is split over calls of \<open>WHIRLPOOL_add\<close>, \<open>WHIRLPOOL_finalize\<close>
  writes the digest of the Whirlpool standard: eight tables of 256 words do the work of the substitution,
  the column rotation and the circulant matrix over GF(256), and the bit counter of 32 bytes carries.
\<close>

theorem whirlpool_incremental:
  assumes "length (wp_buffer cx) = 64" "\<forall>x \<in> set xs. length x < 2 ^ 29"
  shows "fst (WHIRLPOOL_finalize (fold (\<lambda>x. WHIRLPOOL_add x (word_of_nat (8 * length x))) xs (WHIRLPOOL_init cx))) =
    whirlpool_digest (concat xs)"
  using assms by (rule whirlpool_hash.updates_digest)

lemma whirlpool_incremental_witness:
  "fst (WHIRLPOOL_finalize (WHIRLPOOL_add (replicate 70 2) 560 (WHIRLPOOL_add [97, 98, 99] 24 (WHIRLPOOL_init
     \<lparr>wp_bitLength = [], wp_buffer = replicate 64 9, wp_bufferBits = 5, wp_bufferPos = 1, wp_hash = []\<rparr>)))) =
   whirlpool_digest ([97, 98, 99] @ replicate 70 2)"
  using whirlpool_incremental [of "\<lparr>wp_bitLength = [], wp_buffer = replicate 64 9, wp_bufferBits = 5, wp_bufferPos = 1, wp_hash = []\<rparr>"
      "[[97, 98, 99], replicate 70 2]"] by simp

text \<open>
  C27: the two builds of the RIPEMD-160 compression function agree: the 160 unrolled lines of the normal
  build and the loop over the order, rotation and constant tables of the boot loader's build.
\<close>

theorem rmd160_builds_agree:
  assumes "length state = 5"
  shows "RMD160Transform_min state data = RMD160Transform state data"
  using assms by (rule RMD160Transform_builds)

lemma rmd160_builds_agree_witness:
  "RMD160Transform_min rmd_iv (replicate 16 5) = RMD160Transform rmd_iv (replicate 16 5)"
  using rmd160_builds_agree [of rmd_iv "replicate 16 5"] by (simp add: rmd_iv_def)

text \<open>
  C28: however a message is split over calls of \<open>RMD160Update\<close>, \<open>RMD160Final\<close> writes the hash of the whole
  message: its blocks and the padding with the length in bits, run through the compression function.
\<close>

theorem rmd160_incremental:
  assumes "length (rmd_buffer cx) = 64" "\<forall>x \<in> set xs. length x < 2 ^ 29"
  shows "fst (RMD160Final (fold (\<lambda>x ctx. RMD160Update ctx x (word_of_nat (length x))) xs (RMD160Init cx))) = rmd_hash (concat xs)"
  using assms by (rule rmd_hash.updates_digest)

lemma rmd160_incremental_witness:
  "fst (RMD160Final (RMD160Update (RMD160Update (RMD160Init \<lparr>rmd_state = [], rmd_count = 3, rmd_buffer = replicate 64 1\<rparr>)
     [97, 98, 99] 3) (replicate 70 2) 70)) = rmd_hash ([97, 98, 99] @ replicate 70 2)"
  using rmd160_incremental [of "\<lparr>rmd_state = [], rmd_count = 3, rmd_buffer = replicate 64 1\<rparr>" "[[97, 98, 99], replicate 70 2]"]
  by simp

text \<open>
  C29: the four HMAC routines compute the HMAC of RFC 2104 over their hash, for keys shorter and longer
  than a block; the first three truncate it to the length asked for, the one of RIPEMD-160 does not.
\<close>

theorem hmac_rfc2104:
  assumes "length (sha_wbuf c5) = 16" "length (sha_wbuf c1) = 16" "length (wp_buffer cw) = 64" "length (rmd_buffer cr) = 64"
    and "lk \<le> length k" "lk < 2 ^ 29" "ld \<le> length d" "ld < 2 ^ 29"
  shows
    "hmac_sha512 c5 k lk d ld t = take t (HMAC (sha_standard_digest 128 sha512_standard i512 64) 128 (take lk k) (take ld d)) \<and>
     hmac_sha1 c1 k lk d ld t = take t (HMAC (sha_standard_digest 64 sha1_standard sha1_iv 20) 64 (take lk k) (take ld d)) \<and>
     hmac_whirlpool cw k lk d ld t = take t (HMAC whirlpool_digest 64 (take lk k) (take ld d)) \<and>
     hmac_ripemd160 cr k lk d ld = HMAC rmd_hash 64 (take lk k) (take ld d)"
  using sha512_hash.hmac_with_rfc [OF assms(1,5-8)] sha1_hash.hmac_with_rfc [OF assms(2,5-8)]
    whirlpool_hash.hmac_with_rfc [OF assms(3,5-8)] hmac_ripemd160_rfc [OF assms(4-8)]
  by (simp add: hmac_sha512_def hmac_sha1_def hmac_whirlpool_def)

lemma hmac_rfc2104_witness:
  "hmac_ripemd160 \<lparr>rmd_state = [], rmd_count = 3, rmd_buffer = replicate 64 1\<rparr> (replicate 70 1) 70 [2, 3] 2 =
     HMAC rmd_hash 64 (replicate 70 1) [2, 3] \<and>
   hmac_sha1 \<lparr>sha_count0 = 5, sha_count1 = 0, sha_state = [], sha_wbuf = replicate 16 7\<rparr> (replicate 70 1) 70 [2, 3] 2 12 =
     take 12 (HMAC (sha_standard_digest 64 sha1_standard sha1_iv 20) 64 (replicate 70 1) [2, 3])"
  using hmac_rfc2104 [of "\<lparr>sha_count0 = 5, sha_count1 = 0, sha_state = [], sha_wbuf = replicate 16 7\<rparr>"
      "\<lparr>sha_count0 = 5, sha_count1 = 0, sha_state = [], sha_wbuf = replicate 16 7\<rparr>"
      "\<lparr>wp_bitLength = [], wp_buffer = replicate 64 9, wp_bufferBits = 5, wp_bufferPos = 1, wp_hash = []\<rparr>"
      "\<lparr>rmd_state = [], rmd_count = 3, rmd_buffer = replicate 64 1\<rparr>" 70 "replicate 70 1" 2 "[2, 3]" 12]
  by simp





section \<open>Volume headers\<close>

text \<open>
  What the witnesses run on: a machine without AES instructions, memory of constant bytes, the
  password \<open>secret\<close>, and a request for a new header of an XTS volume encrypted with AES whose header key
  comes from RIPEMD-160.
\<close>

definition demo_mem :: kdf_mem where
  "demo_mem = \<lparr>km_sha512 = \<lparr>sha_count0 = 0, sha_count1 = 0, sha_state = [], sha_wbuf = replicate 16 0\<rparr>,
     km_sha1 = \<lparr>sha_count0 = 0, sha_count1 = 0, sha_state = [], sha_wbuf = replicate 16 0\<rparr>,
     km_rmd160 = \<lparr>rmd_state = [], rmd_count = 0, rmd_buffer = replicate 64 0\<rparr>,
     km_whirlpool = \<lparr>wp_bitLength = [], wp_buffer = replicate 64 0, wp_bufferBits = 0, wp_bufferPos = 0, wp_hash = []\<rparr>\<rparr>"

definition demo_keyInfo :: KEY_INFO where
  "demo_keyInfo = \<lparr>ki_noIterations = 0, ki_keyLength = 0, ki_userKey = replicate 64 7, ki_salt = replicate 64 7, ki_master_keydata = replicate 256 7\<rparr>"

definition demo_read :: read_env where
  "demo_read = \<lparr>re_cpu = soft_cpu True, re_mem = \<lambda>p. demo_mem, re_dk = \<lambda>p. replicate 256 9, re_keyInfo = demo_keyInfo, re_open = True,
     re_tables = \<lambda>p e. True, re_master_tables = True, re_threads = 1, re_pool = True, re_order = [1, 2, 3, 4],
     ReadVolumeHeaderRecoveryMode = False\<rparr>"

definition demo_create :: create_env where
  "demo_create = \<lparr>ce_cpu = soft_cpu True, ce_mem = demo_mem, ce_keyInfo = demo_keyInfo, ce_dk = replicate 256 3, ce_open = True,
     ce_tables = True, ce_master_tables = True, ce_random_key = \<lambda>n. Some (replicate n 1), ce_random_salt = Some (replicate 64 2)\<rparr>"

definition demo_request :: header_request where
  "demo_request = \<lparr>rq_ea = 1, rq_mode = 1, rq_prf = 1, rq_masterKeydata = Some (replicate 256 5), rq_volumeSize = 10000000,
     rq_hiddenVolumeSize = 0, rq_encryptedAreaStart = 131072, rq_encryptedAreaLength = 9868928, rq_requiredProgramVersion = 0,
     rq_headerFlags = 0, rq_sectorSize = 512\<rparr>"

definition demo_password :: Password where
  "demo_password = \<lparr>pw_Length = 6, pw_Text = [115, 101, 99, 114, 101, 116, 0, 0]\<rparr>"

lemma demo_ok:
  "read_env_ok demo_read" "create_env_ok demo_create" "request_ok demo_request" "password_ok demo_password"
  by (simp_all add: read_env_ok_def create_env_ok_def request_ok_def password_ok_def demo_read_def demo_create_def demo_request_def
      demo_password_def demo_mem_def demo_keyInfo_def mem_sized_def ea_mode_def EAIsModeSupported_def ea_modes_def tc_vol witness_facts)

text \<open>
  C32: \<open>ReadVolumeHeader\<close> with a new record to fill returns what the specification \<open>read_spec\<close> says: the
  first combination of key derivation function, mode and algorithm, in the order of the loops, whose
  key decrypts the header to one with the right magic number and checksums decides. Without one
  the password is wrong and no record is returned; a too new header and a bad sector size have their
  own status; otherwise the record has the fields of the header and the keys of its master key area.
  The key schedules, tables and flags that earlier trials left in the record play no part.
\<close>

theorem volume_header_search:
  assumes "read_env_ok env" "512 \<le> length enc" "password_ok password"
  shows "\<exists>res. ReadVolumeHeader env bBoot enc password ToInfo = Some res \<and> read_spec env bBoot (password_bytes password) enc res"
  by (rule ReadVolumeHeader_spec) fact+

lemma volume_header_search_witness:
  "\<exists>res. ReadVolumeHeader demo_read False (replicate 512 0) demo_password ToInfo = Some res \<and>
     read_spec demo_read False [115, 101, 99, 114, 101, 116] (replicate 512 0) res"
  using volume_header_search [OF demo_ok(1) _ demo_ok(4), of "replicate 512 0" False]
  by (simp add: demo_password_def password_bytes_def)

text \<open>
  C33: a header that \<open>CreateVolumeHeaderInMemory\<close> has created is opened by \<open>ReadVolumeHeader\<close> with the same
  password, provided that no combination tried earlier happens to decrypt it to a header that looks
  right: the record has the fields, the key derivation function and the master key area of the
  request, and it encrypts and decrypts every run of data units as the record does that the creation
  returned.
\<close>

theorem volume_header_roundtrip:
  assumes "create_env_ok ce" "request_ok rq" "password_ok p"
    and "CreateVolumeHeaderInMemory ce bBoot rq p buf = Some (0, header, Some ci)"
    and "read_env_ok re" "re_cpu re = ce_cpu ce" "required_version rq \<le> 0x071a" "rq_prf rq \<in> set (re_order re)"
    and "\<forall>d\<in>set (takeWhile (\<lambda>d. d \<noteq> (rq_prf rq, rq_mode rq, rq_ea rq)) (candidates (re_order re))).
      \<not> looks_right (ReadVolumeHeaderRecoveryMode re) (trial_header re bBoot (password_bytes p) header d)"
  shows "\<exists>ci'. ReadVolumeHeader re bBoot header p ToInfo = Some (ERR_SUCCESS, Opened ci', None) \<and>
    request_fields rq ci' \<and> RequiredProgramVersion ci' = required_version rq \<and> ci_pkcs5 ci' = rq_prf rq \<and>
    ci_master_keydata ci' = ci_master_keydata ci \<and>
    (\<forall>b no n. EncryptDataUnitsCurrentThread (ce_cpu ce) b no n ci' = EncryptDataUnitsCurrentThread (ce_cpu ce) b no n ci \<and>
       DecryptDataUnitsCurrentThread (ce_cpu ce) b no n ci' = DecryptDataUnitsCurrentThread (ce_cpu ce) b no n ci)"
proof -
  obtain ki ci0 n where k: "write_header ce rq ki ci0 = Some (0, header, Some ci)" "crypto_open True = Some ci0"
    "ki_keyLength ki \<le> length (ki_userKey ki)" "ki_keyLength ki \<le> MAX_PASSWORD" "length (ki_salt ki) = 64" "length (ki_master_keydata ki) = 256"
    by (rule create_writes [OF assms(1-4)])
  have fields: "request_fields rq ci" by (rule write_header_ok(4) [OF assms(1,2) k(2-6,1)])
  obtain ci' where c: "ReadVolumeHeader re bBoot header p ToInfo = Some (ERR_SUCCESS, Opened ci', None)" "request_fields rq ci'"
    "RequiredProgramVersion ci' = required_version rq" "ci_pkcs5 ci' = rq_prf rq" "ci_master_keydata ci' = ci_master_keydata ci"
    "hiddenVolumeOffset ci' = hiddenVolumeOffset ci" "same_volume ci' ci"
    using created_header_found [OF assms] by blast
  have u: "hw_ok (ce_cpu ce)" using assms(1) by (simp add: create_env_ok_def)
  have "hiddenVolume ci' = hiddenVolume ci" using c(2) fields by (simp add: request_fields_def)
  then show ?thesis using c EncryptDataUnits_same [OF u c(7)] by auto
qed

lemma volume_header_roundtrip_witness:
  "\<exists>header ci ci'. CreateVolumeHeaderInMemory demo_create False demo_request demo_password [] = Some (0, header, Some ci) \<and>
     ReadVolumeHeader demo_read False header demo_password ToInfo = Some (ERR_SUCCESS, Opened ci', None) \<and>
     VolumeSize ci' = 10000000 \<and> ci_master_keydata ci' = ci_master_keydata ci"
proof -
  have s: "\<not> bad_sector_size (rq_sectorSize demo_request)" by (simp add: bad_sector_size_def demo_request_def tc_vol tc_cfg)
  obtain header ci where c: "CreateVolumeHeaderInMemory demo_create False demo_request demo_password [] = Some (0, header, Some ci)"
    using create_succeeds [OF demo_ok(2) _ _ _ _ demo_ok(3) _ _ s demo_ok(4), of False "[]"]
    by (auto simp: demo_create_def demo_request_def tc_cfg)
  have upt: "[1..<6] = 1 # [2..<6]" "[1..<14] = 1 # [2..<14]" by (simp_all add: upt_rec)
  have supp: "supported 1 1 1 = [(1, 1, 1)]" by (simp add: supported_def EAIsModeSupported_def ea_modes_def tc_cfg)
  have "candidates [1, 2, 3, 4] = (1, 1, 1) # tl (candidates [1, 2, 3, 4])"
    by (simp only: candidates_def upt list.map concat.simps supp append.simps list.sel)
  then obtain cs where cs: "candidates [1, 2, 3, 4] = (1, 1, 1) # cs" by blast
  have rq: "rq_prf demo_request = 1" "rq_mode demo_request = 1" "rq_ea demo_request = 1" "re_order demo_read = [1, 2, 3, 4]"
    by (simp_all add: demo_request_def demo_read_def)
  have first: "takeWhile (\<lambda>d. d \<noteq> (rq_prf demo_request, rq_mode demo_request, rq_ea demo_request)) (candidates (re_order demo_read)) = []"
    by (simp only: rq cs takeWhile.simps) simp
  have cond: "re_cpu demo_read = ce_cpu demo_create" "required_version demo_request \<le> 0x071a" "rq_prf demo_request \<in> set (re_order demo_read)"
    by (simp_all add: demo_read_def demo_create_def demo_request_def required_version_def tc_vol)
  obtain ci' where r: "ReadVolumeHeader demo_read False header demo_password ToInfo = Some (ERR_SUCCESS, Opened ci', None)"
    "request_fields demo_request ci'" "ci_master_keydata ci' = ci_master_keydata ci"
    using volume_header_roundtrip [OF demo_ok(2-4) c demo_ok(1) cond] first by auto
  have "VolumeSize ci' = 10000000" using r(2) by (simp add: request_fields_def demo_request_def)
  then show ?thesis using c r by blast
qed

text \<open>
  C34: with any positive number of threads, the loop of \<open>ReadVolumeHeader\<close> that queues key derivations and
  tests completed keys ends after at most eight runs of its body, whatever the order of completion; until
  then it can always go on, and at its end each of the four key derivation functions has been tested exactly once.
\<close>

theorem key_derivation_queue:
  assumes "0 < numThreads" "(mt_step numThreads ^^ n) mt_init s"
  shows "n \<le> 8 \<and> (if mt_continues s then \<exists>t. mt_step numThreads s t else mset (tested s) = mset [1, 2, 3, 4])"
proof -
  have safe: "mt_safe s" using mt_safe_run [OF relpowp_imp_rtranclp [OF assms(2)] mt_safe_init] .
  have "mt_measure mt_init = 8" by (simp add: mt_measure_def mt_init_def queuedWorkItems_def)
  then have "n \<le> 8" using mt_run_length [OF assms(2) mt_safe_init] by simp
  then show ?thesis using mt_progress [OF safe _ assms(1)] mt_end [OF safe] by simp
qed

lemma key_derivation_queue_witness:
  "\<exists>s. (mt_step 2 ^^ 1) mt_init s \<and> enqPkcs5Prf s = 2 \<and> (\<exists>t. mt_step 2 s t)"
proof -
  let ?s = "mt_init\<lparr>enqPkcs5Prf := enqPkcs5Prf mt_init + 1, workItems := enqueue_item (enqPkcs5Prf mt_init) (workItems mt_init)\<rparr>"
  have "mt_step 2 mt_init ?s"
    by (rule mt_step.queue) (simp_all add: mt_continues_def room_def mt_init_def queuedWorkItems_def)
  then have s: "(mt_step 2 ^^ 1) mt_init ?s" by (simp only: relpowp_1)
  moreover have "mt_continues ?s" by (simp add: mt_continues_def mt_init_def)
  moreover have "\<exists>t. mt_step 2 ?s t" using key_derivation_queue [OF _ s] calculation(2) by simp
  moreover have "enqPkcs5Prf ?s = 2" by (simp add: mt_init_def)
  ultimately show ?thesis by blast
qed



section \<open>The thread pool\<close>

text \<open>
  Two calls at once, an encryption and a decryption of five data units each, on a pool of two threads.
\<close>

definition demo_pool :: "CRYPTO_INFO \<Rightarrow> pool_env" where
  "demo_pool ci = \<lparr>pe_cpu = soft_cpu True, pe_threads = 2, pe_callers = 2, pe_calls = \<lambda>i.
     \<lparr>wr_type = if i = 0 then EncryptDataUnitsWork else DecryptDataUnitsWork, wr_startUnitNo = 7, wr_unitCount = 5, wr_cryptoInfo = ci\<rparr>\<rparr>"

definition demo_data :: "nat \<Rightarrow> bytes" where
  "demo_data i = replicate 2560 3"

lemma demo_pool_ready: "\<exists>ci. volume_ready (soft_cpu True) ci"
proof -
  have ea: "valid_ea 5" "EAIsModeSupported 5 LRW = Some True" "ks_total (ciphers_of 5) \<le> 6000"
    by (simp_all add: valid_ea_def EAIsModeSupported_def ea_modes_def tc_cfg)
  then show ?thesis using blank_volume_init(2) [OF ea] by blast
qed

lemma demo_pool_ok: "volume_ready (soft_cpu True) ci \<Longrightarrow> env_ok (demo_pool ci) demo_data"
  by (simp add: env_ok_def call_ok_def demo_pool_def demo_data_def Let_def)

text \<open>
  C36: whatever the interleaving of the callers and the threads of the pool, a call of
  \<open>EncryptionThreadPoolDoWork\<close> that has returned has left in its buffer what encrypting or decrypting
  the whole run of data units in the calling thread gives. In particular no entry of the queue is reused
  before every fragment of its call is done and counted.
\<close>

theorem pool_results:
  assumes "(pool_step env)\<^sup>*\<^sup>* (pool_init data) st" "env_ok env data" "i < pe_callers env" "callers st i = Returned"
  shows "pool_work (pe_cpu env) (wr_type (pe_calls env i)) (data i) (wr_startUnitNo (pe_calls env i)) (wr_unitCount (pe_calls env i))
      (wr_cryptoInfo (pe_calls env i)) = Some (buffers st i)"
  using pool_okD(7) [OF pool_ok_run [OF assms(1,2)]] assms(3,4) by (simp add: data_ok_def call_data_def call_result_def Let_def)

lemma pool_results_witness:
  "\<exists>ci st. (pool_step (demo_pool ci))\<^sup>*\<^sup>* (pool_init demo_data) st \<and>
     EncryptDataUnitsCurrentThread (soft_cpu True) (replicate 2560 3) 7 5 ci = Some (buffers st 0) \<and>
     DecryptDataUnitsCurrentThread (soft_cpu True) (replicate 2560 3) 7 5 ci = Some (buffers st 1)"
proof -
  obtain ci where ci: "volume_ready (soft_cpu True) ci" using demo_pool_ready by blast
  note ok = demo_pool_ok [OF ci]
  obtain st where st: "(pool_step (demo_pool ci))\<^sup>*\<^sup>* (pool_init demo_data) st" "\<forall>i<pe_callers (demo_pool ci). callers st i = Returned"
    using pool_finishes [OF ok pool_ok_init] by blast
  show ?thesis
    using st pool_results [OF st(1) ok, of 0] pool_results [OF st(1) ok, of 1]
    by (intro exI [of _ ci] exI [of _ st]) (simp add: demo_pool_def demo_data_def pool_work_def)
qed

text \<open>
  C37: the calls return: a run of the pool has at most 2128 steps for each call and 256 more, and until every
  call has returned some thread can take a step. No wake-up is lost and no order of steps leads to a deadlock.
\<close>

theorem pool_finishes_in:
  assumes "(pool_step env ^^ n) (pool_init data) st" "env_ok env data"
  shows "n \<le> 2128 * pe_callers env + 256 \<and> ((\<forall>i<pe_callers env. callers st i = Returned) \<or> (\<exists>st'. pool_step env st st'))"
proof -
  note run = pool_run_length [OF assms]
  have "n \<le> 2128 * pe_callers env + 256" using run pool_measure_init [OF assms(2)] by linarith
  then show ?thesis using pool_can_step [OF assms(2)] run by blast
qed

lemma pool_finishes_in_witness:
  "\<exists>ci n st. (pool_step (demo_pool ci) ^^ n) (pool_init demo_data) st \<and> callers st 0 = Returned \<and> callers st 1 = Returned \<and> n \<le> 4512"
proof -
  obtain ci where ci: "volume_ready (soft_cpu True) ci" using demo_pool_ready by blast
  note ok = demo_pool_ok [OF ci]
  obtain st where st: "(pool_step (demo_pool ci))\<^sup>*\<^sup>* (pool_init demo_data) st" "\<forall>i<pe_callers (demo_pool ci). callers st i = Returned"
    using pool_finishes [OF ok pool_ok_init] by blast
  obtain n where n: "(pool_step (demo_pool ci) ^^ n) (pool_init demo_data) st" using rtranclp_imp_relpowp [OF st(1)] by blast
  have two: "pe_callers (demo_pool ci) = 2" by (simp add: demo_pool_def)
  have "n \<le> 4512" using pool_finishes_in [OF n ok] two by simp
  then show ?thesis using n st(2) two by (intro exI [of _ ci] exI [of _ n] exI [of _ st]) simp
qed

text \<open>
  C38: in every state that the pool can reach, the positions in the queue, the entries that threads and callers
  refer to and their first fragments' entries are entries of the queue, and the data that a thread is
  about to work on lies within the buffer of a call.
\<close>

theorem pool_stays_in_bounds:
  assumes "(pool_step env)\<^sup>*\<^sup>* (pool_init data) st" "env_ok env data"
  shows "EnqueuePosition st < TC_ENC_THREAD_POOL_QUEUE_SIZE \<and> DequeuePosition st < TC_ENC_THREAD_POOL_QUEUE_SIZE \<and>
    (\<forall>i<pe_callers env. \<forall>f. callers st i = Waiting f \<or> callers st i = Woken f \<longrightarrow> f < TC_ENC_THREAD_POOL_QUEUE_SIZE) \<and>
    (\<forall>w<unat (pe_threads env). \<forall>ph s. threads st w = At ph s \<longrightarrow>
       s < TC_ENC_THREAD_POOL_QUEUE_SIZE \<and> FirstFragment (item st s) < TC_ENC_THREAD_POOL_QUEUE_SIZE \<and>
       (ph = Running \<longrightarrow> (\<exists>i off. Data (item st s) = (i, off) \<and> i < pe_callers env \<and>
          off + 512 * unat (UnitCount (item st s)) \<le> length (buffers st i))))"
  using pool_in_bounds [OF assms(2) pool_ok_run [OF assms]] unfolding queue_size by blast

lemma pool_stays_in_bounds_witness:
  "\<exists>ci st. (pool_step (demo_pool ci))\<^sup>*\<^sup>* (pool_init demo_data) st \<and> threads st 0 = At Running 0 \<and>
     (\<exists>i off. Data (item st 0) = (i, off) \<and> i < 2 \<and> off + 512 * unat (UnitCount (item st 0)) \<le> length (buffers st i))"
proof -
  obtain ci where ci: "volume_ready (soft_cpu True) ci" using demo_pool_ready by blast
  define env where "env = demo_pool ci"
  define fr where "fr = first_fragment 2 (pe_calls env 0)"
  define s0 where "s0 = pool_init demo_data"
  define s1 where "s1 = set_caller 0 (Enqueuing False None fr) (s0\<lparr>EnqueueMutex := Some 0\<rparr>)"
  define s2 where "s2 = set_caller 0 (Enqueuing False (Some 0) fr) (set_item 0 ((item s1 0)\<lparr>OutstandingFragmentCount := int (unat (fragmentCount fr))\<rparr>) s1)"
  define s3 where "s3 = set_caller 0 (Enqueuing False (Some 0) (next_fragment fr)) (set_item 0 (fill_item 0 (pe_calls env 0) 0 fr (item s2 0))
    (s2\<lparr>EnqueuePosition := next_position 0, WorkItemReadyEvent := True\<rparr>))"
  define s4 where "s4 = set_thread 0 Scanning (s3\<lparr>DequeueMutex := Some 0\<rparr>)"
  define s5 where "s5 = set_thread 0 (At Running 0) (set_item 0 ((item s4 0)\<lparr>State := WorkItemBusy\<rparr>)
    (s4\<lparr>DequeuePosition := next_position 0, DequeueMutex := None\<rparr>))"
  note s0 = s0_def [unfolded pool_init_def free_item_def]
  have env: "pe_callers env = 2" "pe_threads env = 2" "wr_unitCount (pe_calls env 0) = 5" by (simp_all add: env_def demo_pool_def)
  have cnt: "0 < fragmentCount fr" by (simp add: fr_def first_fragment_def env Let_def)
  have 1: "pool_step env s0 s1"
    unfolding s1_def fr_def env(2) [symmetric] by (rule step_call_enter) (simp_all add: env s0 word_le_nat_alt)
  have 2: "pool_step env s1 s2"
    unfolding s2_def by (rule step_call_first) (simp_all add: env s1_def pool_defs s0)
  have 3: "pool_step env s2 s3"
    unfolding s3_def by (rule step_call_queue) (simp_all add: env cnt s2_def s1_def pool_defs s0)
  have 4: "pool_step env s3 s4"
    unfolding s4_def by (rule step_thread_enter) (simp_all add: env s3_def s2_def s1_def pool_defs s0)
  have "State (item s3 0) = WorkItemReady" by (simp add: s3_def pool_defs fill_item_def)
  then have ready: "State (item s4 0) = WorkItemReady" by (simp add: s4_def pool_defs)
  have front: "DequeuePosition s4 = 0" by (simp add: s4_def s3_def s2_def s1_def set_thread_def set_caller_def set_item_def s0)
  have "threads s4 0 = Scanning" by (simp add: s4_def set_thread_def)
  then have 5: "pool_step env s4 s5"
    unfolding s5_def by (rule step_thread_take [rotated]) (simp_all add: env front ready)
  have run: "(pool_step env)\<^sup>*\<^sup>* s0 s5"
  proof -
    note into = rtranclp.rtrancl_into_rtrancl [of "pool_step env"]
    show ?thesis by (rule into [OF into [OF into [OF into [OF r_into_rtranclp [of "pool_step env", OF 1] 2] 3] 4] 5])
  qed
  have at: "threads s5 0 = At Running 0" by (simp add: s5_def set_thread_def)
  have "\<exists>i off. Data (item s5 0) = (i, off) \<and> i < pe_callers env \<and> off + 512 * unat (UnitCount (item s5 0)) \<le> length (buffers s5 i)"
  proof -
    have "0 < unat (pe_threads env)" by (simp add: env)
    then show ?thesis using pool_stays_in_bounds [OF run [unfolded s0_def] demo_pool_ok [OF ci, folded env_def]] at by blast
  qed
  then show ?thesis using run at unfolding env(1) unfolding env_def s0_def by blast
qed

text \<open>
  C39: \<open>EncryptionThreadPoolDoWork\<close> divides a run of data units into at most as many fragments as there are threads,
  none of them empty and none with more than one unit beyond the average; each begins, in the data and in the unit
  numbers, where the one before ends, and together they are the run.
\<close>

theorem fragments_make_up_run:
  assumes "call_fits T r"
  shows "frag_count T r \<le> unat T \<and> fragmentCount (fragment T r (frag_count T r)) = 0 \<and>
    (\<Sum>m<frag_count T r. units_of T r m) = unat (wr_unitCount r) \<and>
    (\<forall>m<frag_count T r. 0 < units_of T r m \<and> units_of T r m \<le> unat (wr_unitCount r) div unat T + 1 \<and>
       fragmentOffset (fragment T r m) = 512 * (\<Sum>j<m. units_of T r j) \<and>
       fragmentStartUnitNo (fragment T r m) = wr_startUnitNo r + word_of_nat (\<Sum>j<m. units_of T r j))"
proof -
  note f = fragment_facts [OF assms]
  have "frag_count T r \<le> unat T" by (simp add: frag_count_eq word_le_nat_alt)
  moreover have "fragmentCount (fragment T r (frag_count T r)) = 0"
    using f(1) [of "frag_count T r"] by (simp add: unat_eq_zero)
  moreover have "(\<Sum>m<frag_count T r. units_of T r m) = unat (wr_unitCount r)" using f(5) by (simp add: units_before_def)
  ultimately show ?thesis
    using f(2-4) units_of_le [OF assms] by (auto simp: units_before_def)
qed

lemma fragments_make_up_run_witness:
  "\<exists>r. wr_unitCount r = 5 \<and> frag_count 2 r = 2 \<and> (\<Sum>m<2. units_of 2 r m) = 5 \<and> fragmentOffset (fragment 2 r 1) = 512 * units_of 2 r 0"
proof -
  let ?r = "pe_calls (demo_pool undefined) 0"
  have u: "wr_unitCount ?r = 5" by (simp add: demo_pool_def)
  have two: "frag_count 2 ?r = 2" by (simp add: frag_count_eq u)
  have "call_fits 2 ?r" by (simp add: call_fits_def u)
  note facts = fragments_make_up_run [OF this, unfolded two u]
  have "(\<Sum>m<2. units_of 2 ?r m) = 5" using facts by simp
  moreover have "fragmentOffset (fragment 2 ?r 1) = 512 * (\<Sum>j<1. units_of 2 ?r j)" using facts by auto
  ultimately show ?thesis using two u by (intro exI [of _ ?r]) (simp add: lessThan_Suc)
qed

text \<open>
  C40: when \<open>EncryptionThreadPoolStart\<close> fails because an event, a mutex or a thread cannot be created, it
  returns failure and the pool does not run, but the handles created so far stay open and the
  threads started so far, beyond the 132 events and mutexes, go on: the call of \<open>EncryptionThreadPoolStop\<close> does nothing.
\<close>

theorem pool_start_failure:
  assumes "\<not> ThreadPoolRunning p" "EncryptionThreadPoolStart created processors encryptionFreeCpuCount p = (False, p')"
  shows "\<not> ThreadPoolRunning p' \<and> EncryptionThreadPoolStop p' = p' \<and>
    (\<exists>k. (\<forall>i<k. created i) \<and> \<not> created k \<and> open_handles p' = open_handles p + k \<and> live_threads p' = live_threads p + (k - 132))"
  using start_failure [OF assms] stop_idle by blast

lemma pool_start_failure_witness:
  "\<exists>p'. EncryptionThreadPoolStart (\<lambda>i. i < 133) 4 0
       \<lparr>ThreadPoolRunning = False, StopPending = False, ThreadCount = 0, open_handles = 0, live_threads = 0\<rparr> = (False, p') \<and>
     open_handles p' = 133 \<and> live_threads p' = 1"
proof -
  let ?p = "\<lparr>ThreadPoolRunning = False, StopPending = False, ThreadCount = 0, open_handles = 0, live_threads = 0\<rparr>"
  obtain ok p' where s: "EncryptionThreadPoolStart (\<lambda>i. i < 133) 4 0 ?p = (ok, p')" by (metis surj_pair)
  have c: "\<not> available_cpus 4 0 < 2" "start_count (available_cpus 4 0) = 4"
    by (simp_all add: available_cpus_def start_count_def TC_ENC_THREAD_POOL_MAX_THREAD_COUNT_def word_less_nat_alt)
  have "\<exists>k. (\<forall>i<k. i < (133::nat)) \<and> (ok \<longleftrightarrow> k = 136)" using start_result [OF _ s c(1)] unfolding c(2) by auto
  then have "\<not> ok"
    by clarify (drule spec [of _ 135], simp)
  then have f: "EncryptionThreadPoolStart (\<lambda>i. i < 133) 4 0 ?p = (False, p')" using s by simp
  obtain k where "\<forall>i<k. i < 133" "\<not> k < 133" "open_handles p' = k" "live_threads p' = k - 132"
    using pool_start_failure [OF _ f] by auto
  moreover from this have "k = 133" by (metis less_irrefl linorder_neqE_nat)
  ultimately show ?thesis using f by auto
qed

end
